(* ===== verification/V2G_Prelude.thy ===== *)
theory V2G_Prelude
  imports Complex_Main "HOL-Library.Multiset"
begin

text \<open>
  Shared material of the development.

  \<^item> Numbers. The Go code computes with \<open>float64\<close>. Every operation of the model is
    polymorphic in its number type \<open>'n\<close> and uses only the operations that Go's
    \<open>float64\<close> has (the syntactic classes \<open>plus\<close>, \<open>minus\<close>, \<open>times\<close>, \<open>inverse\<close>, \<open>ord\<close>,
    \<dots>), so one and the same definition is read at type \<^typ>\<open>real\<close> (exact arithmetic, where
    the algorithmic laws such as conservation of power hold) and at the IEEE-754 binary64
    type of the theory \<open>Go_Float64\<close> (where rounding, infinities and NaN are present).
  \<^item> Go maps are HOL maps; a \<open>for \<dots> range\<close> loop over a map takes the order in which the
    runtime yields the keys as an argument, constrained by \<open>ranges\<close>.
  \<^item> Go errors are the datatype \<open>go_error\<close>; \<open>errors.Is\<close> follows the wrapping chain.
\<close>

subsection \<open>Collections of facts\<close>

named_theorems exact_arith \<open>reading of the generic number operations at type real\<close>
named_theorems go_range \<open>facts about iteration orders of Go maps\<close>

subsection \<open>Generic number operations\<close>

text \<open>Go's \<open>==\<close> on floats: false when an operand is NaN, true on zeros of both signs.\<close>

definition feq :: "'n::ord \<Rightarrow> 'n \<Rightarrow> bool" where
  "feq x y \<longleftrightarrow> x \<le> y \<and> y \<le> x"

text \<open>\<open>float64(n)\<close> for a natural number below \<open>2 ^ 53\<close>, where the conversion is exact.\<close>

fun num :: "nat \<Rightarrow> 'n::{zero,one,plus}" where
  "num n = (if n = 0 then 0
            else let h = num (n div 2) in if even n then h + h else h + h + 1)"

declare num.simps [simp del]

definition fint :: "int \<Rightarrow> 'n::{zero,one,plus,uminus}" where
  "fint i = (if i < 0 then - num (nat (- i)) else num (nat i))"

text \<open>
  A decimal literal \<open>p/q\<close> of the source. Both operands are exact, so at binary64 the one
  division rounds correctly and yields the float nearest to the literal, as Go's compiler does.
\<close>

definition lit :: "nat \<Rightarrow> nat \<Rightarrow> 'n::{zero,one,plus,inverse}" where
  "lit p q = num p / num q"

definition isNaN :: "'n::ord \<Rightarrow> bool" where
  "isNaN x \<longleftrightarrow> \<not> feq x x"

definition isPosInf :: "'n::{zero,plus,ord} \<Rightarrow> bool" where
  "isPosInf x \<longleftrightarrow> 0 < x \<and> feq (x + x) x"

definition isNegInf :: "'n::{zero,plus,ord} \<Rightarrow> bool" where
  "isNegInf x \<longleftrightarrow> x < 0 \<and> feq (x + x) x"

text \<open>The sign bit of a zero shows only in the reciprocal.\<close>

definition signbit0 :: "'n::{zero,one,inverse,ord} \<Rightarrow> bool" where
  "signbit0 x \<longleftrightarrow> 1 / x < 0"

definition mathAbs :: "'n::{zero,uminus,ord} \<Rightarrow> 'n" where
  "mathAbs x = (if x < 0 then - x else if feq x 0 then 0 else x)"

definition mathMax :: "'n::{zero,one,plus,inverse,ord} \<Rightarrow> 'n \<Rightarrow> 'n" where
  "mathMax x y =
     (if isPosInf x then x else if isPosInf y then y
      else if isNaN x then x else if isNaN y then y
      else if feq x 0 \<and> feq x y then (if signbit0 x then y else x)
      else if y < x then x else y)"

definition mathMin :: "'n::{zero,one,plus,inverse,ord} \<Rightarrow> 'n \<Rightarrow> 'n" where
  "mathMin x y =
     (if isNegInf x then x else if isNegInf y then y
      else if isNaN x then x else if isNaN y then y
      else if feq x 0 \<and> feq x y then (if signbit0 x then x else y)
      else if x < y then x else y)"

text \<open>A Go loop \<open>for _, x := range xs { s += f(x) }\<close> started at zero.\<close>

definition fsum :: "('a \<Rightarrow> 'n::{zero,plus}) \<Rightarrow> 'a list \<Rightarrow> 'n" where
  "fsum f xs = foldl (\<lambda>s x. s + f x) 0 xs"

subsection \<open>Go maps\<close>

text \<open>\<open>m[k]\<close>: the zero value of the element type when the key is absent.\<close>

definition getd :: "'v \<Rightarrow> ('k \<rightharpoonup> 'v) \<Rightarrow> 'k \<Rightarrow> 'v" where
  "getd d m k = (case m k of None \<Rightarrow> d | Some v \<Rightarrow> v)"

text \<open>A range loop over a map visits every key once, in an order the language leaves open.\<close>

definition ranges :: "'k list \<Rightarrow> ('k \<rightharpoonup> 'v) \<Rightarrow> bool" where
  "ranges ks m \<longleftrightarrow> distinct ks \<and> set ks = dom m"

subsection \<open>Go errors\<close>

datatype go_error =
    ErrAckTimeout
  | ErrInfeasible
  | Errorf string
  | Wrapped string go_error

fun errorsIs :: "go_error \<Rightarrow> go_error \<Rightarrow> bool" where
  "errorsIs (Wrapped s e) t \<longleftrightarrow> Wrapped s e = t \<or> errorsIs e t"
| "errorsIs e t \<longleftrightarrow> e = t"

subsection \<open>The reading at exact arithmetic\<close>

lemma feq_real [simp, exact_arith]: "feq (x::'a::order) y \<longleftrightarrow> x = y"
  by (auto simp: feq_def)

lemma num_semiring: "(num n :: 'a::semiring_1) = of_nat n"
proof (induction n rule: num.induct)
  case (1 n)
  show ?case
  proof (cases "n = 0")
    case True
    then show ?thesis by (simp add: num.simps)
  next
    case False
    have half: "(num (n div 2) :: 'a) = of_nat (n div 2)"
      using 1 False by blast
    show ?thesis
    proof (cases "even n")
      case True
      then have "n = n div 2 + n div 2" by auto
      then have "(of_nat n :: 'a) = of_nat (n div 2) + of_nat (n div 2)"
        by (metis of_nat_add)
      with True False half show ?thesis by (simp add: num.simps [of n] Let_def)
    next
      case odd: False
      then have "n = n div 2 + n div 2 + 1" by presburger
      then have "(of_nat n :: 'a) = of_nat (n div 2) + of_nat (n div 2) + 1"
        by (metis of_nat_add of_nat_1)
      with odd False half show ?thesis by (simp add: num.simps [of n] Let_def)
    qed
  qed
qed

lemma num_real [simp, exact_arith]: "(num n :: real) = real n"
  by (rule num_semiring)

lemma fint_real [simp, exact_arith]: "(fint i :: real) = real_of_int i"
  by (simp add: fint_def)

lemma lit_real [simp, exact_arith]: "(lit p q :: real) = real p / real q"
  by (simp add: lit_def)

lemma isNaN_real [simp, exact_arith]: "isNaN (x::real) = False"
  by (simp add: isNaN_def)

lemma isPosInf_real [simp, exact_arith]: "isPosInf (x::real) = False"
  by (simp add: isPosInf_def)

lemma isNegInf_real [simp, exact_arith]: "isNegInf (x::real) = False"
  by (simp add: isNegInf_def)

lemma mathAbs_real [simp, exact_arith]: "mathAbs (x::real) = \<bar>x\<bar>"
  by (simp add: mathAbs_def)

lemma mathMax_real [simp, exact_arith]: "mathMax (x::real) y = max x y"
  by (auto simp: mathMax_def)

lemma mathMin_real [simp, exact_arith]: "mathMin (x::real) y = min x y"
  by (auto simp: mathMin_def)

lemma foldl_add_sum_list: "foldl (\<lambda>s x. s + f x) (a::real) xs = a + sum_list (map f xs)"
  by (induction xs arbitrary: a) auto

lemma fsum_real [simp, exact_arith]: "fsum f xs = (sum_list (map f xs) :: real)"
  by (simp add: fsum_def foldl_add_sum_list)

subsection \<open>Maps and iteration orders\<close>

lemma getd_Some [simp]: "m k = Some v \<Longrightarrow> getd d m k = v"
  by (simp add: getd_def)

lemma getd_None [simp]: "m k = None \<Longrightarrow> getd d m k = d"
  by (simp add: getd_def)

lemma getd_upd [simp]: "getd d (m(k \<mapsto> v)) k' = (if k' = k then v else getd d m k')"
  by (simp add: getd_def)

lemma getd_empty [simp]: "getd d Map.empty k = d"
  by (simp add: getd_def)

lemma upd_other_key: "f w \<notin> f ` S \<Longrightarrow> v \<in> S \<Longrightarrow> (m(f w \<mapsto> x)) (f v) = m (f v)"
  by (metis fun_upd_other imageI)

lemma getd_other_key: "f w \<notin> f ` S \<Longrightarrow> v \<in> S \<Longrightarrow> getd d (m(f w \<mapsto> x)) (f v) = getd d m (f v)"
  by (metis getd_def upd_other_key)

lemma ranges_empty [simp, go_range]: "ranges [] m \<longleftrightarrow> m = Map.empty"
  by (auto simp: ranges_def)

lemma ranges_finite [go_range]: "ranges ks m \<Longrightarrow> finite (dom m)"
  by (metis List.finite_set ranges_def)

lemma rangesD [go_range]:
  assumes "ranges ks m"
  shows "distinct ks" and "set ks = dom m"
  using assms by (auto simp: ranges_def)

lemma ranges_exists: "finite (dom m) \<Longrightarrow> \<exists>ks. ranges ks m"
  unfolding ranges_def by (metis finite_distinct_list)

text \<open>Folding a constant-per-key update over an iteration order writes each key once.\<close>

lemma foldl_upd_apply:
  "foldl (\<lambda>m k. m(k \<mapsto> f k)) m0 ks x = (if x \<in> set ks then Some (f x) else m0 x)"
  by (induction ks arbitrary: m0) auto

text \<open>The power a map of assignments adds up to.\<close>

definition total_kw :: "('k \<rightharpoonup> real) \<Rightarrow> real" where
  "total_kw m = (\<Sum>k\<in>dom m. the (m k))"

lemma total_kw_empty [simp]: "total_kw Map.empty = 0"
  by (simp add: total_kw_def)

lemma total_kw_upd:
  assumes "finite (dom m)"
  shows "total_kw (m(k \<mapsto> v)) = total_kw m - getd 0 m k + v"
proof -
  have "total_kw (m(k \<mapsto> v)) = v + (\<Sum>j\<in>dom m - {k}. the (m j))"
    using assms by (auto simp: total_kw_def sum.insert_remove intro!: sum.cong)
  moreover have "(\<Sum>j\<in>dom m. the (m j)) = getd 0 m k + (\<Sum>j\<in>dom m - {k}. the (m j))"
  proof (cases "m k")
    case None
    then have "dom m - {k} = dom m" by auto
    with None show ?thesis by simp
  next
    case (Some w)
    then have "k \<in> dom m" by auto
    with Some assms show ?thesis by (simp add: sum.remove [of "dom m" k])
  qed
  ultimately show ?thesis by (simp add: total_kw_def)
qed

lemma total_kw_eq_sum_list:
  assumes "distinct ks" and "dom m = set ks"
  shows "total_kw m = sum_list (map (getd 0 m) ks)"
proof -
  have "(\<Sum>k\<in>set ks. the (m k)) = (\<Sum>k\<in>set ks. getd 0 m k)"
    using assms(2) [symmetric] by (intro sum.cong) (auto simp: dom_def)
  then show ?thesis
    using assms by (simp add: total_kw_def sum_list_distinct_conv_sum_set)
qed

end
