(* ===== verification/Go_Time.thy ===== *)
theory Go_Time
  imports V2G_Prelude
begin

text \<open>
  Go's \<open>time\<close> package as far as the program uses it. A \<open>time.Time\<close> is an instant in
  nanoseconds since Go's zero time (1 January of year 1, midnight UTC) together with the
  offset of its location at that instant; comparisons look at the instant only, the calendar
  fields at the local reading. A \<open>time.Duration\<close> is an \<open>int64\<close> count of nanoseconds: the
  model keeps it as an \<^typ>\<open>int\<close> and writes the wrap-around of products and sums out.
\<close>

type_synonym Duration = int

record Time =
  inst :: int
  zone :: int

definition timeZero :: Time where
  "timeZero = \<lparr>inst = 0, zone = 0\<rparr>"

definition Second :: Duration where "Second = 1000000000"
definition Millisecond :: Duration where "Millisecond = 1000000"
definition Minute :: Duration where "Minute = 60 * Second"
definition Hour :: Duration where "Hour = 60 * Minute"
definition dayNanos :: int where "dayNanos = 24 * Hour"

text \<open>Two's complement wrap-around of a 64-bit signed integer.\<close>

definition wrap64 :: "int \<Rightarrow> int" where
  "wrap64 i = (i + 2 ^ 63) mod 2 ^ 64 - 2 ^ 63"

definition int64 :: "int \<Rightarrow> bool" where
  "int64 i \<longleftrightarrow> - (2 ^ 63) \<le> i \<and> i < 2 ^ 63"

text \<open>Go's integer division and remainder truncate towards zero.\<close>

definition tdiv :: "int \<Rightarrow> int \<Rightarrow> int" where
  "tdiv a b = sgn a * sgn b * (\<bar>a\<bar> div \<bar>b\<bar>)"

definition tmod :: "int \<Rightarrow> int \<Rightarrow> int" where
  "tmod a b = a - b * tdiv a b"

definition durMul :: "int \<Rightarrow> Duration \<Rightarrow> Duration" where
  "durMul n unit = wrap64 (n * unit)"

text \<open>
  \<open>Duration.Hours\<close>, \<open>Minutes\<close> and \<open>Seconds\<close>: the whole units plus the rest divided by the
  unit, both converted exactly (each is below \<open>2 ^ 53\<close>).
\<close>

definition durFloat :: "Duration \<Rightarrow> Duration \<Rightarrow> 'n::{zero,one,plus,uminus,inverse}" where
  "durFloat unit d = fint (tdiv d unit) + fint (tmod d unit) / fint unit"

definition Hours :: "Duration \<Rightarrow> 'n::{zero,one,plus,uminus,inverse}" where
  "Hours d = durFloat Hour d"

definition Minutes :: "Duration \<Rightarrow> 'n::{zero,one,plus,uminus,inverse}" where
  "Minutes d = durFloat Minute d"

definition Seconds :: "Duration \<Rightarrow> 'n::{zero,one,plus,uminus,inverse}" where
  "Seconds d = durFloat Second d"

definition timeAdd :: "Time \<Rightarrow> Duration \<Rightarrow> Time" where
  "timeAdd t d = t\<lparr>inst := inst t + d\<rparr>"

text \<open>\<open>t.Sub(u)\<close> saturates at the ends of the \<open>int64\<close> range.\<close>

definition timeSub :: "Time \<Rightarrow> Time \<Rightarrow> Duration" where
  "timeSub t u = max (- (2 ^ 63)) (min (2 ^ 63 - 1) (inst t - inst u))"

definition timeEqual :: "Time \<Rightarrow> Time \<Rightarrow> bool" where
  "timeEqual t u \<longleftrightarrow> inst t = inst u"

definition timeBefore :: "Time \<Rightarrow> Time \<Rightarrow> bool" where
  "timeBefore t u \<longleftrightarrow> inst t < inst u"

definition timeAfter :: "Time \<Rightarrow> Time \<Rightarrow> bool" where
  "timeAfter t u \<longleftrightarrow> inst u < inst t"

definition IsZero :: "Time \<Rightarrow> bool" where
  "IsZero t \<longleftrightarrow> inst t = 0"

text \<open>\<open>t.Unix()\<close>: whole seconds since 1970.\<close>

definition timeUnix :: "Time \<Rightarrow> int" where
  "timeUnix t = inst t div Second - 62135596800"

text \<open>\<open>time.Unix(s, 0)\<close>, in a location of the given offset.\<close>

definition ofUnix :: "int \<Rightarrow> int \<Rightarrow> Time" where
  "ofUnix z s = \<lparr>inst = (s + 62135596800) * Second, zone = z\<rparr>"

text \<open>
  \<open>time.Date(t.Year(), t.Month(), t.Day(), 0, 0, 0, 0, time.UTC)\<close>: midnight UTC of the
  calendar day that \<open>t\<close> shows in its own location. Days of the proleptic calendar are
  whole multiples of 24 hours from the zero time.
\<close>

definition utcMidnight :: "Time \<Rightarrow> Time" where
  "utcMidnight t = \<lparr>inst = (inst t + zone t) div dayNanos * dayNanos, zone = 0\<rparr>"

definition hourOfDay :: "Time \<Rightarrow> nat" where
  "hourOfDay t = nat ((inst t + zone t) mod dayNanos div Hour)"

subsection \<open>Facts\<close>

lemmas duration_units = Second_def Millisecond_def Minute_def Hour_def dayNanos_def

lemma wrap64_id [simp]: "int64 i \<Longrightarrow> wrap64 i = i"
  by (simp add: int64_def wrap64_def)

lemma int64_wrap64 [simp]: "int64 (wrap64 i)"
proof -
  have "0 \<le> (i + 2 ^ 63) mod 2 ^ 64" "(i + 2 ^ 63) mod 2 ^ 64 < 2 ^ 64"
    by (simp_all add: pos_mod_bound pos_mod_sign)
  then show ?thesis by (simp add: int64_def wrap64_def)
qed

lemma tdiv_nonneg: "0 \<le> a \<Longrightarrow> 0 < b \<Longrightarrow> tdiv a b = a div b"
  by (cases "a = 0") (auto simp: tdiv_def)

lemma tmod_nonneg: "0 \<le> a \<Longrightarrow> 0 < b \<Longrightarrow> tmod a b = a mod b"
  by (simp add: tmod_def tdiv_nonneg minus_mult_div_eq_mod)

lemma durFloat_real:
  assumes "0 < u"
  shows "(durFloat u d :: real) = real_of_int d / real_of_int u"
proof -
  have "d = u * tdiv d u + tmod d u" by (simp add: tmod_def)
  then have "real_of_int d = real_of_int u * real_of_int (tdiv d u) + real_of_int (tmod d u)"
    by (metis of_int_add of_int_mult)
  with assms show ?thesis by (simp add: durFloat_def field_simps)
qed

lemma Hours_real [simp, exact_arith]: "(Hours d :: real) = real_of_int d / 3600000000000"
  by (simp add: Hours_def durFloat_real duration_units)

lemma Minutes_real [simp, exact_arith]: "(Minutes d :: real) = real_of_int d / 60000000000"
  by (simp add: Minutes_def durFloat_real duration_units)

lemma Seconds_real [simp, exact_arith]: "(Seconds d :: real) = real_of_int d / 1000000000"
  by (simp add: Seconds_def durFloat_real duration_units)

lemma utcMidnight_idem [simp]: "utcMidnight (utcMidnight t) = utcMidnight t"
  by (simp add: utcMidnight_def duration_units)

lemma utcMidnight_mono:
  "inst t + zone t \<le> inst u + zone u \<Longrightarrow> inst (utcMidnight t) \<le> inst (utcMidnight u)"
  by (simp add: utcMidnight_def duration_units zdiv_mono1)

lemma ofUnix_timeUnix [simp]: "timeUnix (ofUnix z s) = s"
  by (simp add: timeUnix_def ofUnix_def Second_def)

end
