(* ===== verification/Core_Model.thy ===== *)
theory Core_Model
  imports Go_Time
begin

text \<open>
  The domain model, \<open>core/model/signal.go\<close> and \<open>core/model/vehicle.go\<close>: the flexibility
  signal, the vehicle and the methods of both. Records are polymorphic in the number type.
\<close>

subsection \<open>Signals (core/model/signal.go)\<close>

text \<open>
  \<open>SignalType\<close> is an \<open>int\<close> in Go: five named constants from 0 on, and any other integer
  is a value of the type too.
\<close>

datatype SignalType =
    SignalFCR
  | SignalAFRR
  | SignalMA
  | SignalNEBEF
  | SignalEcoWatt
  | SignalOther int

record 'n FlexibilitySignal =
  SigType :: SignalType
  PowerKW :: 'n
  SigDuration :: Duration
  Timestamp :: Time

fun SignalType_String :: "SignalType \<Rightarrow> string" where
  "SignalType_String SignalFCR = ''FCR''"
| "SignalType_String SignalAFRR = ''aFRR''"
| "SignalType_String SignalMA = ''MA''"
| "SignalType_String SignalNEBEF = ''NEBEF''"
| "SignalType_String SignalEcoWatt = ''EcoWatt''"
| "SignalType_String (SignalOther n) = ''unknown''"

definition IsStrict :: "('n, 'z) FlexibilitySignal_scheme \<Rightarrow> bool" where
  "IsStrict s \<longleftrightarrow> SigType s = SignalFCR"

subsection \<open>Vehicles (core/model/vehicle.go)\<close>

record 'n UserProfile =
  ExpectedDeparture :: Time
  HistoricalUsage :: "'n list"

record 'n Vehicle =
  ID :: string
  SoC :: 'n
  IsV2G :: bool
  MaxPower :: 'n
  BatteryKWh :: 'n
  Available :: bool
  Charging :: bool
  Priority :: bool
  Departure :: Time
  MinSoC :: 'n
  Profile :: "'n UserProfile"
  Metadata :: "string \<rightharpoonup> string"
  Segment :: string
  AvailabilityProb :: 'n
  DegradationFactor :: 'n

text \<open>Go's zero value of the struct.\<close>

definition zeroVehicle :: "'n::zero Vehicle" where
  "zeroVehicle = \<lparr>ID = [], SoC = 0, IsV2G = False, MaxPower = 0, BatteryKWh = 0,
     Available = False, Charging = False, Priority = False, Departure = timeZero, MinSoC = 0,
     Profile = \<lparr>ExpectedDeparture = timeZero, HistoricalUsage = []\<rparr>, Metadata = Map.empty,
     Segment = [], AvailabilityProb = 0, DegradationFactor = 0\<rparr>"

definition Vehicle_Validate :: "'n::{zero,ord} Vehicle \<Rightarrow> go_error option" where
  "Vehicle_Validate v =
     (if BatteryKWh v \<le> 0 then Some (Errorf ''battery capacity must be positive'') else None)"

definition CanProvidePower :: "'n::ord Vehicle \<Rightarrow> 'n \<Rightarrow> bool" where
  "CanProvidePower v pw \<longleftrightarrow>
     IsV2G v \<and> Available v \<and> MinSoC v \<le> SoC v \<and> pw \<le> MaxPower v"

definition CanReduceCharge :: "'n Vehicle \<Rightarrow> bool" where
  "CanReduceCharge v \<longleftrightarrow> Charging v \<and> \<not> Priority v"

definition EffectiveCapacity ::
  "'n::{zero,one,plus,minus,times,inverse,ord} Vehicle \<Rightarrow> 'n \<Rightarrow> 'n" where
  "EffectiveCapacity v current =
     (let mn = (if feq (MinSoC v) 0 then lit 3 10 else MinSoC v) in
      if SoC v < mn then 0
      else let a0 = (if feq (AvailabilityProb v) 0 then 1 else AvailabilityProb v);
               avail = mathMax 0 (mathMin a0 1);
               degr = mathMax 0 (mathMin (DegradationFactor v) 1);
               cap = MaxPower v * (1 - degr) - current
           in if cap \<le> 0 then 0 else cap * (SoC v * avail))"

subsection \<open>Facts\<close>

lemma SignalType_String_inj:
  "SignalType_String s = SignalType_String t \<Longrightarrow> (\<forall>n. s \<noteq> SignalOther n) \<Longrightarrow> s = t"
  by (cases s; cases t) auto

lemma clamp01: "0 \<le> max 0 (min x (1::real)) \<and> max 0 (min x 1) \<le> 1"
  by auto

lemma EffectiveCapacity_nonneg:
  assumes "0 \<le> SoC (v :: real Vehicle)"
  shows "0 \<le> EffectiveCapacity v current"
  using assms by (auto simp: EffectiveCapacity_def Let_def)

lemma EffectiveCapacity_le:
  fixes v :: "real Vehicle"
  assumes "0 \<le> SoC v" "SoC v \<le> 1" "0 \<le> MaxPower v" "current \<le> MaxPower v"
  shows "EffectiveCapacity v current \<le> MaxPower v - current"
proof -
  define avail where "avail = max 0 (min (if AvailabilityProb v = 0 then 1 else AvailabilityProb v) 1)"
  define degr where "degr = max 0 (min (DegradationFactor v) 1)"
  define cap where "cap = MaxPower v * (1 - degr) - current"
  have a: "0 \<le> avail" "avail \<le> 1" and d: "0 \<le> degr"
    by (auto simp: avail_def degr_def)
  have "MaxPower v * (1 - degr) \<le> MaxPower v * 1"
    using assms(3) d by (intro mult_left_mono) auto
  then have cap: "cap \<le> MaxPower v - current" by (simp add: cap_def)
  have sa: "SoC v * avail \<le> 1"
    using a assms(1,2) by (meson mult_le_one)
  have "cap * (SoC v * avail) \<le> cap" if "0 < cap"
    using that sa by (metis less_eq_real_def mult.right_neutral mult_left_mono)
  moreover have "EffectiveCapacity v current = 0 \<or>
      (0 < cap \<and> EffectiveCapacity v current = cap * (SoC v * avail))"
    by (auto simp: EffectiveCapacity_def Let_def cap_def degr_def avail_def)
  ultimately show ?thesis using cap assms(4) by linarith
qed

lemma EffectiveCapacity_low_soc:
  "SoC (v :: real Vehicle) < (if MinSoC v = 0 then 3/10 else MinSoC v) \<Longrightarrow> EffectiveCapacity v c = 0"
  by (auto simp: EffectiveCapacity_def Let_def split: if_splits)

end
