(* ===== verification/Dispatch_Helpers.thy ===== *)
theory Dispatch_Helpers
  imports Core_Model
begin

text \<open>
  What the dispatchers share: the dispatch context (\<open>core/dispatch/context.go\<close>), the vehicle
  filter (\<open>core/dispatch/filter.go\<close>) and the capacity helpers (\<open>core/dispatch/helpers.go\<close>).
  The contract of a vehicle filter and of a dispatcher, which the dispatch manager relies on,
  are the locales \<open>vehicle_filter\<close> and \<open>dispatcher\<close>.
\<close>

subsection \<open>Dispatch context (core/dispatch/context.go)\<close>

text \<open>A nil map and an empty map read alike; \<open>SetParticipation\<close> allocates on demand.\<close>

record 'n DispatchContext =
  CtxSignal :: "'n FlexibilitySignal"
  CtxNow :: Time
  CtxMarketPrice :: 'n
  ParticipationScore :: "(string \<rightharpoonup> 'n) option"

definition GetParticipation :: "'n::zero DispatchContext \<Rightarrow> string \<Rightarrow> 'n" where
  "GetParticipation ctx i =
     (case ParticipationScore ctx of None \<Rightarrow> 0 | Some m \<Rightarrow> getd 0 m i)"

definition SetParticipation ::
  "'n DispatchContext \<Rightarrow> string \<Rightarrow> 'n \<Rightarrow> 'n DispatchContext" where
  "SetParticipation ctx i score =
     (let m = (case ParticipationScore ctx of None \<Rightarrow> Map.empty | Some m \<Rightarrow> m)
      in ctx\<lparr>ParticipationScore := Some (m(i \<mapsto> score))\<rparr>)"

subsection \<open>Vehicle filter (core/dispatch/filter.go)\<close>

fun SimpleVehicleFilter_Filter ::
  "'n::{zero,one,plus,inverse,ord} Vehicle list \<Rightarrow> 'n FlexibilitySignal \<Rightarrow> 'n Vehicle list" where
  "SimpleVehicleFilter_Filter [] s = []"
| "SimpleVehicleFilter_Filter (v # vs) s =
     (let rest = SimpleVehicleFilter_Filter vs s in
      if \<not> Available v then rest
      else case SigType s of
             SignalFCR \<Rightarrow> (if IsV2G v \<and> lit 6 10 \<le> SoC v then v # rest else rest)
           | SignalNEBEF \<Rightarrow> (if CanReduceCharge v then v # rest else rest)
           | _ \<Rightarrow> v # rest)"

subsection \<open>Capacity helpers (core/dispatch/helpers.go)\<close>

definition availableEnergyAndCapacity ::
  "'n::{zero,one,plus,minus,uminus,times,inverse,ord} Vehicle \<Rightarrow> 'n FlexibilitySignal
    \<Rightarrow> bool \<Rightarrow> 'n \<Rightarrow> 'n \<times> 'n" where
  "availableEnergyAndCapacity v s useFloor flr =
     (let mn = (if useFloor \<and> MinSoC v < flr then flr else MinSoC v);
          energy = (SoC v - mn) * BatteryKWh v;
          cap0 = MaxPower v in
      if PowerKW s < 0 \<and> energy \<le> 0 then (energy, 0)
      else let cap = (if PowerKW s < 0 \<and> 0 < SigDuration s
                      then (let maxFromEnergy = energy / Hours (SigDuration s)
                            in if maxFromEnergy < cap0 then maxFromEnergy else cap0)
                      else cap0)
           in if cap \<le> 0 then (energy, 0) else (energy, cap))"

record 'n candidate =
  cand_v :: "'n Vehicle"
  cand_score :: 'n
  cand_capacity :: 'n

fun prepareVehicles ::
  "'n::{zero,one,plus,minus,uminus,times,inverse,ord} Vehicle list \<Rightarrow> 'n FlexibilitySignal
    \<Rightarrow> 'n DispatchContext \<Rightarrow> ('n Vehicle \<Rightarrow> 'n DispatchContext \<Rightarrow> 'n) \<Rightarrow> bool \<Rightarrow> 'n
    \<Rightarrow> 'n candidate list" where
  "prepareVehicles [] s ctx scorer useFloor flr = []"
| "prepareVehicles (v # vs) s ctx scorer useFloor flr =
     (let cap = snd (availableEnergyAndCapacity v s useFloor flr);
          rest = prepareVehicles vs s ctx scorer useFloor flr in
      if cap \<le> 0 then rest
      else \<lparr>cand_v = v, cand_score = scorer v ctx, cand_capacity = cap\<rparr> # rest)"

subsection \<open>Contracts (core/dispatch/types.go)\<close>

text \<open>
  A \<open>VehicleFilter\<close> selects: it returns a sub-list of the vehicles it is given. A
  \<open>Dispatcher\<close> assigns power to vehicles it was given and to no other.
\<close>

locale vehicle_filter =
  fixes filter_vehicles :: "'n Vehicle list \<Rightarrow> 'n FlexibilitySignal \<Rightarrow> 'n Vehicle list"
  assumes filter_selects: "\<exists>P. filter_vehicles vs s = filter P vs"
begin

lemma filter_subset: "set (filter_vehicles vs s) \<subseteq> set vs"
proof -
  obtain P where "filter_vehicles vs s = filter P vs" using filter_selects by blast
  then show ?thesis by simp
qed

lemma filter_distinct_ids:
  assumes "distinct (map ID vs)"
  shows "distinct (map ID (filter_vehicles vs s))"
proof -
  obtain P where "filter_vehicles vs s = filter P vs" using filter_selects by blast
  with assms show ?thesis by (simp add: distinct_map_filter)
qed

lemma filter_nil: "filter_vehicles [] s = []"
  using filter_subset [of "[]" s] by auto

end

locale dispatcher =
  fixes dispatch :: "'n Vehicle list \<Rightarrow> 'n FlexibilitySignal \<Rightarrow> (string \<rightharpoonup> 'n)"
  assumes dispatch_dom: "dom (dispatch vs s) \<subseteq> ID ` set vs"
begin

lemma dispatch_finite: "finite (dom (dispatch vs s))"
  using dispatch_dom by (rule finite_subset) simp

lemma dispatch_nil: "dispatch [] s = Map.empty"
  using dispatch_dom [of "[]" s] by auto

lemma dispatch_outside: "i \<notin> ID ` set vs \<Longrightarrow> dispatch vs s i = None"
  using dispatch_dom [of vs s] by blast

end

subsection \<open>Facts\<close>

definition filter_accepts ::
  "'n::{zero,one,plus,inverse,ord} FlexibilitySignal \<Rightarrow> 'n Vehicle \<Rightarrow> bool" where
  "filter_accepts s v \<longleftrightarrow> Available v \<and>
     (SigType s = SignalFCR \<longrightarrow> IsV2G v \<and> lit 6 10 \<le> SoC v) \<and>
     (SigType s = SignalNEBEF \<longrightarrow> CanReduceCharge v)"

lemma SimpleVehicleFilter_eq_filter:
  "SimpleVehicleFilter_Filter vs s = filter (filter_accepts s) vs"
  by (induction vs)
    (auto simp: filter_accepts_def Let_def split: SignalType.split)

interpretation simple: vehicle_filter SimpleVehicleFilter_Filter
  by unfold_locales (metis SimpleVehicleFilter_eq_filter)

lemma capacity_le_MaxPower:
  fixes v :: "real Vehicle"
  assumes "0 \<le> MaxPower v"
  shows "snd (availableEnergyAndCapacity v s uf fl) \<le> MaxPower v"
  using assms by (auto simp: availableEnergyAndCapacity_def Let_def)

lemma capacity_nonneg:
  fixes v :: "real Vehicle"
  shows "0 \<le> snd (availableEnergyAndCapacity v s uf fl)"
  by (auto simp: availableEnergyAndCapacity_def Let_def)

definition mk_candidate ::
  "'n::{zero,one,plus,minus,uminus,times,inverse,ord} FlexibilitySignal
    \<Rightarrow> 'n DispatchContext \<Rightarrow> ('n Vehicle \<Rightarrow> 'n DispatchContext \<Rightarrow> 'n) \<Rightarrow> bool \<Rightarrow> 'n
    \<Rightarrow> 'n Vehicle \<Rightarrow> 'n candidate" where
  "mk_candidate s ctx scorer uf fl v =
     \<lparr>cand_v = v, cand_score = scorer v ctx,
      cand_capacity = snd (availableEnergyAndCapacity v s uf fl)\<rparr>"

lemma mk_candidate_sel [simp]:
  "cand_v (mk_candidate s ctx scorer uf fl v) = v"
  "cand_score (mk_candidate s ctx scorer uf fl v) = scorer v ctx"
  "cand_capacity (mk_candidate s ctx scorer uf fl v) = snd (availableEnergyAndCapacity v s uf fl)"
  by (simp_all add: mk_candidate_def)

lemma prepareVehicles_eq:
  "prepareVehicles vs s ctx scorer uf fl =
   map (mk_candidate s ctx scorer uf fl)
     (filter (\<lambda>v. \<not> snd (availableEnergyAndCapacity v s uf fl) \<le> 0) vs)"
  by (induction vs) (simp_all add: Let_def mk_candidate_def)

lemma prepareVehicles_distinct:
  assumes "distinct (map ID vs)"
  shows "distinct (map (\<lambda>c. ID (cand_v c)) (prepareVehicles vs s ctx scorer uf fl))"
  using assms by (simp add: prepareVehicles_eq comp_def distinct_map_filter)

end
