(* ===== verification/Equal_Dispatcher.thy ===== *)
theory Equal_Dispatcher
  imports Dispatch_Helpers
begin

text \<open>
  \<open>EqualDispatcher\<close> (\<open>core/dispatch/dispatcher.go\<close>): an equal share per vehicle, then rounds
  that spread what the saturated vehicles could not take over the others. The slice
  \<open>next := needMore[:0]\<close> shares the array it iterates over; the write position never
  passes the read position and the element is copied before, so the loop filters in place.
  The facts are at exact arithmetic: the dispatcher delivers the smaller of the target and
  the fleet's power, within every vehicle's limit, max-min fair.
\<close>

subsection \<open>The dispatcher (core/dispatch/dispatcher.go)\<close>

text \<open>The first loop, lines 17 to 26: assignments, remaining power and \<open>needMore\<close>.\<close>

fun equal_first ::
  "'n::{minus,ord} \<Rightarrow> 'n Vehicle list \<Rightarrow> (string \<rightharpoonup> 'n) \<Rightarrow> 'n
    \<Rightarrow> (string \<rightharpoonup> 'n) \<times> 'n \<times> 'n Vehicle list" where
  "equal_first share [] asn remaining = (asn, remaining, [])"
| "equal_first share (v # vs) asn remaining =
     (let amount = (if MaxPower v < share then MaxPower v else share);
          (asn', remaining', needMore) =
            equal_first share vs (asn(ID v \<mapsto> amount)) (remaining - amount)
      in (asn', remaining', if MaxPower v < share then needMore else v # needMore))"

text \<open>The inner loop of a round, lines 31 to 45, with the vehicles kept in \<open>next\<close>.\<close>

fun equal_round ::
  "'n::{zero,plus,minus,ord} \<Rightarrow> 'n Vehicle list \<Rightarrow> (string \<rightharpoonup> 'n) \<Rightarrow> 'n
    \<Rightarrow> (string \<rightharpoonup> 'n) \<times> 'n \<times> 'n Vehicle list" where
  "equal_round share [] asn remaining = (asn, remaining, [])"
| "equal_round share (v # vs) asn remaining =
     (let cap = MaxPower v - getd 0 asn (ID v) in
      if cap \<le> 0 then equal_round share vs asn remaining
      else let add = (if cap < share then cap else share);
               asn' = asn(ID v \<mapsto> getd 0 asn (ID v) + add);
               remaining' = remaining - add;
               (asn'', remaining'', nxt) = equal_round share vs asn' remaining'
           in (asn'', remaining'',
               if getd 0 asn' (ID v) < MaxPower v \<and> 0 < remaining' then v # nxt else nxt))"

lemma equal_round_length:
  "length (snd (snd (equal_round share vs asn remaining))) \<le> length vs"
  by (induction vs arbitrary: asn remaining) (auto simp: Let_def case_prod_unfold le_SucI)

text \<open>The outer loop, lines 28 to 50. A round that keeps every vehicle is the last.\<close>

function equal_loop ::
  "'n::{zero,one,plus,minus,inverse,ord} Vehicle list \<Rightarrow> (string \<rightharpoonup> 'n) \<Rightarrow> 'n \<Rightarrow> (string \<rightharpoonup> 'n)" where
  "equal_loop needMore asn remaining =
     (if 0 < remaining \<and> needMore \<noteq> []
      then (case equal_round (remaining / num (length needMore)) needMore asn remaining of
              (asn', remaining', nxt) \<Rightarrow>
                if length nxt = length needMore then asn'
                else equal_loop nxt asn' remaining')
      else asn)"
  by pat_completeness auto
termination
  by (relation "measure (\<lambda>(needMore, asn, remaining). length needMore)")
    (simp_all, metis equal_round_length le_neq_implies_less snd_conv)

declare equal_loop.simps [simp del]

definition EqualDispatcher_Dispatch ::
  "'n::{zero,one,plus,minus,inverse,ord} Vehicle list \<Rightarrow> 'n FlexibilitySignal \<Rightarrow> (string \<rightharpoonup> 'n)" where
  "EqualDispatcher_Dispatch vehicles signal =
     (if vehicles = [] then Map.empty
      else let share = PowerKW signal / num (length vehicles);
               (asn, remaining, needMore) =
                 equal_first share vehicles Map.empty (PowerKW signal)
           in equal_loop needMore asn remaining)"

subsection \<open>Domain of the assignments\<close>

lemma equal_first_dom:
  "dom (fst (equal_first share vs asn r)) = dom asn \<union> ID ` set vs"
  by (induction vs arbitrary: asn r) (auto simp: Let_def case_prod_unfold)

lemma equal_first_need:
  "set (snd (snd (equal_first share vs asn r))) \<subseteq> set vs"
  by (induction vs arbitrary: asn r) (auto simp: Let_def case_prod_unfold)

lemma equal_round_dom:
  "ID ` set vs \<subseteq> dom asn \<Longrightarrow> dom (fst (equal_round share vs asn r)) = dom asn"
proof (induction vs arbitrary: asn r)
  case (Cons v vs)
  then have "insert (ID v) (dom asn) = dom asn" "ID ` set vs \<subseteq> dom asn" by auto
  then have "dom (fst (equal_round share vs (asn(ID v \<mapsto> x)) r')) = dom asn"
    and "dom (fst (equal_round share vs asn r')) = dom asn" for x r'
    using Cons.IH by (metis dom_fun_upd option.discI)+
  then show ?case by (simp add: Let_def case_prod_unfold)
qed simp

lemma equal_round_next:
  "set (snd (snd (equal_round share vs asn r))) \<subseteq> set vs"
  by (induction vs arbitrary: asn r) (auto simp: Let_def case_prod_unfold)

lemma equal_loop_dom:
  "ID ` set need \<subseteq> dom asn \<Longrightarrow> dom (equal_loop need asn r) = dom asn"
proof (induction need asn r rule: equal_loop.induct)
  case (1 need asn r)
  obtain asn' r' nxt where eq:
    "equal_round (r / num (length need)) need asn r = (asn', r', nxt)"
    by (metis prod_cases3)
  have d: "dom asn' = dom asn"
    using equal_round_dom [OF "1.prems", of "r / num (length need)" r] eq by simp
  have "set nxt \<subseteq> set need"
    using equal_round_next [of "r / num (length need)" need asn r] eq by simp
  then have "ID ` set nxt \<subseteq> dom asn'" using d "1.prems" by blast
  then show ?case
    using "1.IH" eq d by (simp add: equal_loop.simps [of need asn r])
qed

lemma EqualDispatcher_dom: "dom (EqualDispatcher_Dispatch vs s) = ID ` set vs"
proof (cases "vs = []")
  case False
  let ?f = "equal_first (PowerKW s / num (length vs)) vs Map.empty (PowerKW s)"
  have "dom (fst ?f) = ID ` set vs" by (simp add: equal_first_dom)
  moreover from this have "ID ` set (snd (snd ?f)) \<subseteq> dom (fst ?f)"
    using equal_first_need by blast
  ultimately show ?thesis
    using False by (simp add: EqualDispatcher_Dispatch_def case_prod_unfold Let_def equal_loop_dom)
qed (simp add: EqualDispatcher_Dispatch_def)

interpretation equal: dispatcher EqualDispatcher_Dispatch
  by unfold_locales (simp add: EqualDispatcher_dom)

subsection \<open>The rounds at exact arithmetic\<close>

text \<open>
  One round raises every vehicle of \<open>needMore\<close> from the common level \<open>L\<close> by the share, or
  to its limit where that is lower.
\<close>

lemma equal_round_outside:
  "i \<notin> ID ` set vs \<Longrightarrow> fst (equal_round share vs asn r) i = asn i"
  by (induction vs arbitrary: asn r) (auto simp: Let_def case_prod_unfold)

lemma equal_round_level:
  fixes vs :: "real Vehicle list"
  assumes "distinct (map ID vs)" and "0 < share"
    and "\<forall>v\<in>set vs. asn (ID v) = Some L \<and> L \<le> MaxPower v"
  shows "\<forall>v\<in>set vs. fst (equal_round share vs asn r) (ID v) = Some (min (L + share) (MaxPower v))"
  using assms
proof (induction vs arbitrary: asn r)
  case (Cons w vs)
  have out: "ID w \<notin> ID ` set vs" using Cons.prems(1) by auto
  have IH: "\<forall>v\<in>set vs. fst (equal_round share vs a r') (ID v) = Some (min (L + share) (MaxPower v))"
    if "\<And>v. v \<in> set vs \<Longrightarrow> a (ID v) = asn (ID v)" for a r'
    using Cons.IH [of a r'] Cons.prems that by simp
  have w: "asn (ID w) = Some L" "L \<le> MaxPower w" using Cons.prems(3) by auto
  have upd: "(asn(ID w \<mapsto> x)) (ID v) = asn (ID v)" if "v \<in> set vs" for v x
    using that out by (rule upd_other_key [rotated])
  have IHu: "\<forall>v\<in>set vs. fst (equal_round share vs (asn(ID w \<mapsto> x)) r') (ID v) =
      Some (min (L + share) (MaxPower v))" for x r'
    using IH [of "asn(ID w \<mapsto> x)"] upd by simp
  show ?case
    using w out IH [of asn] IHu Cons.prems(2)
    by (auto simp: Let_def case_prod_unfold equal_round_outside min_def)
qed simp

lemma equal_round_remaining:
  fixes vs :: "real Vehicle list"
  assumes "distinct (map ID vs)" and "0 < share"
    and "\<forall>v\<in>set vs. asn (ID v) = Some L \<and> L \<le> MaxPower v"
  shows "fst (snd (equal_round share vs asn r)) =
         r - (\<Sum>v\<leftarrow>vs. min share (MaxPower v - L))"
  using assms
proof (induction vs arbitrary: asn r)
  case (Cons w vs)
  have IH: "fst (snd (equal_round share vs a r')) = r' - (\<Sum>v\<leftarrow>vs. min share (MaxPower v - L))"
    if "\<And>v. v \<in> set vs \<Longrightarrow> a (ID v) = asn (ID v)" for a r'
    using Cons.IH [of a r'] Cons.prems that by simp
  have w: "asn (ID w) = Some L" "L \<le> MaxPower w" using Cons.prems(3) by auto
  have upd: "(asn(ID w \<mapsto> x)) (ID v) = asn (ID v)" if "v \<in> set vs" for v x
    using that Cons.prems(1) by (intro upd_other_key) auto
  have IHu: "fst (snd (equal_round share vs (asn(ID w \<mapsto> x)) r')) =
      r' - (\<Sum>v\<leftarrow>vs. min share (MaxPower v - L))" for x r'
    using IH [of "asn(ID w \<mapsto> x)"] upd by simp
  show ?case
    using w IH [of asn] IHu Cons.prems(2)
    by (auto simp: Let_def case_prod_unfold min_def)
qed simp

lemma equal_round_kept:
  fixes vs :: "real Vehicle list"
  assumes "distinct (map ID vs)" and "0 < share"
    and "\<forall>v\<in>set vs. asn (ID v) = Some L \<and> L \<le> MaxPower v"
    and "(\<Sum>v\<leftarrow>vs. min share (MaxPower v - L)) < r"
  shows "snd (snd (equal_round share vs asn r)) = filter (\<lambda>v. L + share < MaxPower v) vs"
  using assms
proof (induction vs arbitrary: asn r)
  case (Cons w vs)
  have IH: "snd (snd (equal_round share vs a r')) = filter (\<lambda>v. L + share < MaxPower v) vs"
    if "\<And>v. v \<in> set vs \<Longrightarrow> a (ID v) = asn (ID v)"
      and "(\<Sum>v\<leftarrow>vs. min share (MaxPower v - L)) < r'" for a r'
    using Cons.IH [of a r'] Cons.prems that by simp
  have w: "asn (ID w) = Some L" "L \<le> MaxPower w" using Cons.prems(3) by auto
  have upd: "(asn(ID w \<mapsto> x)) (ID v) = asn (ID v)" if "v \<in> set vs" for v x
    using that Cons.prems(1) by (intro upd_other_key) auto
  have nonneg: "0 \<le> (\<Sum>v\<leftarrow>vs. min share (MaxPower v - L))"
    using Cons.prems(2,3) by (intro sum_list_nonneg) auto
  have IHu: "snd (snd (equal_round share vs (asn(ID w \<mapsto> x)) r')) =
      filter (\<lambda>v. L + share < MaxPower v) vs"
    if "(\<Sum>v\<leftarrow>vs. min share (MaxPower v - L)) < r'" for x r'
    using IH [of "asn(ID w \<mapsto> x)"] upd that by simp
  show ?case
    using w IH [of asn] IHu Cons.prems(2,4) nonneg
    by (auto simp: Let_def case_prod_unfold min_def split: if_splits)
qed simp


subsection \<open>The loop invariant\<close>

text \<open>
  Between rounds the vehicles of \<open>needMore\<close> stand at a common level \<open>L\<close>, every other
  vehicle is at its limit, which is at most \<open>L\<close>, and the books balance.
\<close>

definition equal_inv ::
  "real Vehicle list \<Rightarrow> real \<Rightarrow> real Vehicle list \<Rightarrow> (string \<rightharpoonup> real) \<Rightarrow> real \<Rightarrow> real \<Rightarrow> bool" where
  "equal_inv vs P need asn r L \<longleftrightarrow>
     (\<exists>Q. need = filter Q vs) \<and>
     (\<forall>v\<in>set need. asn (ID v) = Some L \<and> L \<le> MaxPower v) \<and>
     (\<forall>v\<in>set vs - set need. asn (ID v) = Some (MaxPower v) \<and> MaxPower v \<le> L) \<and>
     0 \<le> r \<and> r = P - (\<Sum>v\<leftarrow>vs. getd 0 asn (ID v))"

text \<open>What the dispatcher promises of its result.\<close>

definition equal_spec :: "real Vehicle list \<Rightarrow> real \<Rightarrow> (string \<rightharpoonup> real) \<Rightarrow> bool" where
  "equal_spec vs P asn \<longleftrightarrow>
     (\<forall>v\<in>set vs. getd 0 asn (ID v) \<le> MaxPower v) \<and>
     (\<Sum>v\<leftarrow>vs. getd 0 asn (ID v)) = min P (\<Sum>v\<leftarrow>vs. MaxPower v) \<and>
     (\<forall>u\<in>set vs. \<forall>w\<in>set vs. getd 0 asn (ID u) < getd 0 asn (ID w) \<longrightarrow>
        getd 0 asn (ID u) = MaxPower u)"

lemma equal_inv_level_le:
  "equal_inv vs P need asn r L \<Longrightarrow> v \<in> set vs \<Longrightarrow> getd 0 asn (ID v) \<le> L \<and> getd 0 asn (ID v) \<le> MaxPower v"
  by (cases "v \<in> set need") (auto simp: equal_inv_def)

lemma equal_inv_fair:
  assumes inv: "equal_inv vs P need asn r L"
    and "u \<in> set vs" "w \<in> set vs" "getd 0 asn (ID u) < getd 0 asn (ID w)"
  shows "getd 0 asn (ID u) = MaxPower u"
proof (cases "u \<in> set need")
  case True
  then have "getd 0 asn (ID u) = L" using inv by (auto simp: equal_inv_def)
  then show ?thesis using equal_inv_level_le [OF inv assms(3)] assms(4) by simp
next
  case False
  then show ?thesis using inv assms(2) by (auto simp: equal_inv_def)
qed

lemma equal_inv_done:
  assumes inv: "equal_inv vs P need asn r L" and "r = 0 \<or> need = []"
  shows "equal_spec vs P asn"
proof -
  have le: "(\<Sum>v\<leftarrow>vs. getd 0 asn (ID v)) \<le> (\<Sum>v\<leftarrow>vs. MaxPower v)"
    using equal_inv_level_le [OF inv] by (intro sum_list_mono) auto
  have "(\<Sum>v\<leftarrow>vs. getd 0 asn (ID v)) = min P (\<Sum>v\<leftarrow>vs. MaxPower v)"
  proof (cases "r = 0")
    case True
    then have "(\<Sum>v\<leftarrow>vs. getd 0 asn (ID v)) = P" using inv by (simp add: equal_inv_def)
    with le show ?thesis by simp
  next
    case False
    then have "\<forall>v\<in>set vs. getd 0 asn (ID v) = MaxPower v"
      using inv assms(2) by (auto simp: equal_inv_def)
    then have "(\<Sum>v\<leftarrow>vs. getd 0 asn (ID v)) = (\<Sum>v\<leftarrow>vs. MaxPower v)"
      by (intro arg_cong [where f = sum_list] map_cong) auto
    moreover have "(\<Sum>v\<leftarrow>vs. getd 0 asn (ID v)) \<le> P" using inv by (auto simp: equal_inv_def)
    ultimately show ?thesis by simp
  qed
  then show ?thesis
    using equal_inv_level_le [OF inv] equal_inv_fair [OF inv] by (simp add: equal_spec_def)
qed


lemma equal_inv_raise:
  assumes inv: "equal_inv vs P need asn r L" and dist: "distinct (map ID vs)" and "0 < share"
    and inside: "\<forall>v\<in>set need. asn' (ID v) = Some (min (L + share) (MaxPower v))"
    and outside: "\<And>i. i \<notin> ID ` set need \<Longrightarrow> asn' i = asn i"
    and r': "r' = r - (\<Sum>v\<leftarrow>need. min share (MaxPower v - L))" "0 \<le> r'"
    and kept: "nxt = filter K need" "\<forall>v\<in>set need. if K v then L + share \<le> MaxPower v else MaxPower v \<le> L + share"
  shows "equal_inv vs P nxt asn' r' (L + share)"
proof -
  obtain Q where Q: "need = filter Q vs" using inv by (auto simp: equal_inv_def)
  have other: "asn' (ID v) = asn (ID v)" if "v \<in> set vs" "\<not> Q v" for v
  proof (rule outside)
    show "ID v \<notin> ID ` set need"
      using dist that Q by (auto simp: distinct_map inj_on_def)
  qed
  have lvl: "getd 0 asn' (ID v) = getd 0 asn (ID v) + (if Q v then min share (MaxPower v - L) else 0)"
    if "v \<in> set vs" for v
  proof (cases "Q v")
    case True
    then have "v \<in> set need" using that Q by simp
    then show ?thesis using True inside inv by (simp add: equal_inv_def min_def)
  next
    case False
    then show ?thesis using other [OF that] by (simp add: getd_def)
  qed
  have "(\<Sum>v\<leftarrow>vs. getd 0 asn' (ID v)) =
      (\<Sum>v\<leftarrow>vs. getd 0 asn (ID v) + (if Q v then min share (MaxPower v - L) else 0))"
    using lvl by (intro arg_cong [where f = sum_list] map_cong) auto
  also have "\<dots> = (\<Sum>v\<leftarrow>vs. getd 0 asn (ID v)) + (\<Sum>v\<leftarrow>need. min share (MaxPower v - L))"
    unfolding Q sum_list_map_filter' by (rule sum_list_addf)
  finally have sum: "r' = P - (\<Sum>v\<leftarrow>vs. getd 0 asn' (ID v))"
    using r' inv by (simp add: equal_inv_def)
  have sub: "\<exists>R. nxt = filter R vs" using kept(1) Q by auto
  have low: "\<forall>v\<in>set nxt. asn' (ID v) = Some (L + share) \<and> L + share \<le> MaxPower v"
    using inside kept by auto
  have high: "asn' (ID v) = Some (MaxPower v) \<and> MaxPower v \<le> L + share"
    if v: "v \<in> set vs - set nxt" for v
  proof (cases "Q v")
    case True
    then have "v \<in> set need" "\<not> K v" using v Q kept(1) by auto
    then show ?thesis using inside kept(2) by auto
  next
    case False
    then have "v \<in> set vs - set need" using v Q by auto
    then have "asn (ID v) = Some (MaxPower v)" "MaxPower v \<le> L" using inv by (auto simp: equal_inv_def)
    then show ?thesis using other [of v] False v \<open>0 < share\<close> by simp
  qed
  show ?thesis using sub low high sum r'(2) by (simp add: equal_inv_def)
qed

lemma equal_share_sum:
  fixes need :: "real Vehicle list"
  assumes "need \<noteq> []" "share = r / real (length need)"
  shows "(\<Sum>v\<leftarrow>need. min share (MaxPower v - L)) \<le> r"
    and "\<forall>v\<in>set need. share \<le> MaxPower v - L \<Longrightarrow> (\<Sum>v\<leftarrow>need. min share (MaxPower v - L)) = r"
    and "\<exists>v\<in>set need. MaxPower v - L < share \<Longrightarrow> (\<Sum>v\<leftarrow>need. min share (MaxPower v - L)) < r"
proof -
  have r: "(\<Sum>v\<leftarrow>need. share) = r"
    using assms by (simp add: sum_list_triv)
  show "(\<Sum>v\<leftarrow>need. min share (MaxPower v - L)) \<le> r"
    using sum_list_mono [of need "\<lambda>v. min share (MaxPower v - L)" "\<lambda>v. share"] r by simp
  show "(\<Sum>v\<leftarrow>need. min share (MaxPower v - L)) = r" if "\<forall>v\<in>set need. share \<le> MaxPower v - L"
  proof -
    have "map (\<lambda>v. min share (MaxPower v - L)) need = map (\<lambda>v. share) need"
      using that by (intro map_cong) auto
    then show ?thesis unfolding r [symmetric] by (rule arg_cong)
  qed
  show "(\<Sum>v\<leftarrow>need. min share (MaxPower v - L)) < r" if "\<exists>v\<in>set need. MaxPower v - L < share"
  proof -
    from that obtain v xs ys where v: "need = xs @ v # ys" "MaxPower v - L < share"
      by (metis in_set_conv_decomp)
    have "(\<Sum>v\<leftarrow>zs. min share (MaxPower v - L)) \<le> (\<Sum>v\<leftarrow>zs. share)" for zs
      by (intro sum_list_mono) simp
    from this [of xs] this [of ys] v r show ?thesis by simp
  qed
qed

text \<open>A round in which every vehicle can take the whole share ends the loop, any other round drops a vehicle.\<close>

lemma equal_round_all:
  assumes "distinct (map ID vs)" "equal_inv vs P need asn r L" "0 < r" "need \<noteq> []" "share = r / real (length need)"
    and "equal_round share need asn r = (asn', r', nxt)" "\<forall>v\<in>set need. share \<le> MaxPower v - L"
  shows "r' = 0 \<and> equal_spec vs P asn'"
proof -
  have pos: "0 < share" using assms(3-5) by simp
  have dn: "distinct (map ID need)" and lvl: "\<forall>v\<in>set need. asn (ID v) = Some L \<and> L \<le> MaxPower v"
    using assms(1,2) by (auto simp: equal_inv_def distinct_map_filter)
  note in' = equal_round_level [OF dn pos lvl, of r] and r' = equal_round_remaining [OF dn pos lvl, of r]
  have out: "asn' i = asn i" if "i \<notin> ID ` set need" for i
    using equal_round_outside [OF that, of share asn r] assms(6) by simp
  have "r' = 0" using r' assms(6) equal_share_sum(2) [OF _ assms(5) assms(7)] assms(3,4) by simp
  moreover have "equal_inv vs P need asn' 0 (L + share)"
    by (rule equal_inv_raise [OF assms(2,1) pos _ out, where K = "\<lambda>_. True" and r' = r', simplified \<open>r' = 0\<close>])
      (use in' r' assms(6,7) \<open>r' = 0\<close> in auto)
  ultimately show ?thesis by (auto intro: equal_inv_done)
qed

lemma equal_round_some:
  assumes "distinct (map ID vs)" "equal_inv vs P need asn r L" "0 < r" "need \<noteq> []" "share = r / real (length need)"
    and "equal_round share need asn r = (asn', r', nxt)" "\<not> (\<forall>v\<in>set need. share \<le> MaxPower v - L)"
  shows "equal_inv vs P nxt asn' r' (L + share)" "length nxt < length need"
proof -
  have pos: "0 < share" using assms(3-5) by simp
  have dn: "distinct (map ID need)" and lvl: "\<forall>v\<in>set need. asn (ID v) = Some L \<and> L \<le> MaxPower v"
    using assms(1,2) by (auto simp: equal_inv_def distinct_map_filter)
  note in' = equal_round_level [OF dn pos lvl, of r] and r' = equal_round_remaining [OF dn pos lvl, of r]
  have out: "asn' i = asn i" if "i \<notin> ID ` set need" for i
    using equal_round_outside [OF that, of share asn r] assms(6) by simp
  have less: "(\<Sum>v\<leftarrow>need. min share (MaxPower v - L)) < r"
    using equal_share_sum(3) [OF _ assms(5)] assms(3,4,7) by (auto simp: not_le)
  have nxt: "nxt = filter (\<lambda>v. L + share < MaxPower v) need"
    using equal_round_kept [OF dn pos lvl, of r, OF less] assms(6) by simp
  show "length nxt < length need"
    unfolding nxt using assms(7) by (auto intro!: length_filter_less simp: not_le algebra_simps)
  show "equal_inv vs P nxt asn' r' (L + share)"
    by (rule equal_inv_raise [OF assms(2,1) pos _ out, where K = "\<lambda>v. L + share < MaxPower v" and r' = r'])
      (use in' r' assms(6) nxt less in auto)
qed

lemma equal_loop_correct:
  assumes "distinct (map ID vs)" "equal_inv vs P need asn r L"
  shows "equal_spec vs P (equal_loop need asn r)"
  using assms(2)
proof (induction need asn r arbitrary: L rule: equal_loop.induct)
  case (1 need asn r)
  note inv = "1.prems"
  show ?case
  proof (cases "0 < r \<and> need \<noteq> []")
    case False
    moreover have "0 \<le> r" using inv unfolding equal_inv_def by blast
    ultimately have "r = 0 \<or> need = []" by linarith
    then show ?thesis
      using False equal_inv_done [OF inv] by (simp add: equal_loop.simps [of need asn r])
  next
    case True
    define share where "share = r / real (length need)"
    obtain asn' r' nxt where eq: "equal_round share need asn r = (asn', r', nxt)"
      by (metis prod_cases3)
    show ?thesis
    proof (cases "\<forall>v\<in>set need. share \<le> MaxPower v - L")
      case all: True
      then have "r' = 0" "equal_spec vs P asn'"
        using equal_round_all [OF assms(1) inv _ _ share_def eq] True by blast+
      then show ?thesis
        using True eq by (simp add: equal_loop.simps [of need asn r] equal_loop.simps [of nxt asn' 0] share_def)
    next
      case False
      then have "equal_inv vs P nxt asn' r' (L + share)" "length nxt < length need"
        using equal_round_some [OF assms(1) inv _ _ share_def eq] True by blast+
      then show ?thesis using True eq "1.IH" by (simp add: equal_loop.simps [of need asn r] share_def)
    qed
  qed
qed


subsection \<open>The first loop and the whole dispatcher\<close>

lemma equal_first_outside:
  "i \<notin> ID ` set vs \<Longrightarrow> fst (equal_first share vs asn r) i = asn i"
  by (induction vs arbitrary: asn r) (auto simp: Let_def case_prod_unfold)

lemma equal_first_apply:
  fixes vs :: "real Vehicle list"
  assumes "distinct (map ID vs)" "v \<in> set vs"
  shows "fst (equal_first share vs asn r) (ID v) = Some (min share (MaxPower v))"
  using assms
  by (induction vs arbitrary: asn r)
    (auto simp: Let_def case_prod_unfold equal_first_outside)

lemma equal_first_rest:
  fixes vs :: "real Vehicle list"
  shows "fst (snd (equal_first share vs asn r)) = r - (\<Sum>v\<leftarrow>vs. min share (MaxPower v))"
    and "snd (snd (equal_first share vs asn r)) = filter (\<lambda>v. share \<le> MaxPower v) vs"
  by (induction vs arbitrary: asn r) (auto simp: Let_def case_prod_unfold)

lemma equal_first_inv:
  assumes "distinct (map ID vs)" "vs \<noteq> []" "share = P / real (length vs)"
    and eq: "equal_first share vs Map.empty P = (asn, r, need)"
  shows "equal_inv vs P need asn r share"
proof -
  have asn: "asn (ID v) = Some (min share (MaxPower v))" if "v \<in> set vs" for v
    using equal_first_apply [OF assms(1) that, of share Map.empty P] eq by simp
  have r: "r = P - (\<Sum>v\<leftarrow>vs. min share (MaxPower v))"
    and need: "need = filter (\<lambda>v. share \<le> MaxPower v) vs"
    using equal_first_rest [of share vs Map.empty P] eq by simp_all
  have "(\<Sum>v\<leftarrow>vs. min share (MaxPower v)) \<le> P"
    using equal_share_sum(1) [OF assms(2,3), of 0] by simp
  moreover have "(\<Sum>v\<leftarrow>vs. getd 0 asn (ID v)) = (\<Sum>v\<leftarrow>vs. min share (MaxPower v))"
    using asn by (intro arg_cong [where f = sum_list] map_cong) auto
  ultimately show ?thesis
    using asn r need by (auto simp: equal_inv_def)
qed

lemma EqualDispatcher_spec:
  assumes "distinct (map ID vs)" "vs \<noteq> []"
  shows "equal_spec vs (PowerKW s) (EqualDispatcher_Dispatch vs s)"
proof -
  obtain asn r need where eq:
    "equal_first (PowerKW s / real (length vs)) vs Map.empty (PowerKW s) = (asn, r, need)"
    by (metis prod_cases3)
  from equal_loop_correct [OF assms(1) equal_first_inv [OF assms refl eq]] show ?thesis
    using assms(2) eq by (simp add: EqualDispatcher_Dispatch_def)
qed

lemma equal_spec_nonneg:
  assumes "equal_spec vs P asn" "0 \<le> P" "\<forall>v\<in>set vs. 0 \<le> MaxPower v" "v \<in> set vs"
  shows "0 \<le> getd 0 asn (ID v)"
proof (rule ccontr)
  assume neg: "\<not> 0 \<le> getd 0 asn (ID v)"
  then have "getd 0 asn (ID v) \<noteq> MaxPower v" using assms(3,4) by force
  then have le: "getd 0 asn (ID w) \<le> getd 0 asn (ID v)" if "w \<in> set vs" for w
    using assms(1,4) that by (auto simp: equal_spec_def not_less)
  have "(\<Sum>w\<leftarrow>vs. getd 0 asn (ID w)) \<le> (\<Sum>w\<leftarrow>vs. getd 0 asn (ID v))"
    using le by (intro sum_list_mono)
  also have "\<dots> < 0"
    using neg assms(4) by (auto simp: sum_list_triv not_le intro!: mult_pos_neg)
  finally have "min P (\<Sum>w\<leftarrow>vs. MaxPower w) < 0"
    using assms(1) by (simp add: equal_spec_def)
  moreover have "0 \<le> (\<Sum>w\<leftarrow>vs. MaxPower w)"
    using assms(3) by (intro sum_list_nonneg) auto
  ultimately show False using assms(2) by linarith
qed

lemma EqualDispatcher_total:
  fixes vs :: "real Vehicle list"
  assumes "distinct (map ID vs)"
  shows "total_kw (EqualDispatcher_Dispatch vs s) =
         (if vs = [] then 0 else min (PowerKW s) (\<Sum>v\<leftarrow>vs. MaxPower v))"
proof (cases "vs = []")
  case True
  then show ?thesis by (simp add: EqualDispatcher_Dispatch_def)
next
  case False
  have "total_kw (EqualDispatcher_Dispatch vs s) =
      (\<Sum>v\<leftarrow>vs. getd 0 (EqualDispatcher_Dispatch vs s) (ID v))"
    using total_kw_eq_sum_list [OF assms, of "EqualDispatcher_Dispatch vs s"]
    by (simp add: EqualDispatcher_dom comp_def)
  then show ?thesis
    using False EqualDispatcher_spec [OF assms False, of s] by (simp add: equal_spec_def)
qed

lemma EqualDispatcher_bounds:
  fixes vs :: "real Vehicle list"
  assumes "distinct (map ID vs)" "0 \<le> PowerKW s" "\<forall>v\<in>set vs. 0 \<le> MaxPower v" "v \<in> set vs"
  shows "\<exists>p. EqualDispatcher_Dispatch vs s (ID v) = Some p \<and> 0 \<le> p \<and> p \<le> MaxPower v"
proof -
  have ne: "vs \<noteq> []" using assms(4) by auto
  note spec = EqualDispatcher_spec [OF assms(1) ne, of s]
  have "ID v \<in> dom (EqualDispatcher_Dispatch vs s)" using assms(4) by (simp add: EqualDispatcher_dom)
  then obtain p where p: "EqualDispatcher_Dispatch vs s (ID v) = Some p" by blast
  moreover have "0 \<le> p" using equal_spec_nonneg [OF spec assms(2,3,4)] p by simp
  moreover have "p \<le> MaxPower v" using spec assms(4) p by (auto simp: equal_spec_def)
  ultimately show ?thesis by blast
qed

lemma EqualDispatcher_within:
  fixes vs :: "real Vehicle list"
  assumes "distinct (map ID vs)" "\<forall>v\<in>set vs. 0 \<le> MaxPower v" "0 \<le> PowerKW s" "EqualDispatcher_Dispatch vs s i = Some p"
  shows "\<exists>v\<in>set vs. ID v = i \<and> 0 \<le> p \<and> p \<le> MaxPower v"
proof -
  have "i \<in> ID ` set vs" using assms(4) EqualDispatcher_dom [of vs s] by auto
  then obtain v where "v \<in> set vs" "ID v = i" by blast
  with EqualDispatcher_bounds [OF assms(1,3,2)] assms(4) show ?thesis by fastforce
qed

subsection \<open>Properties\<close>

text \<open>
  C10. \<open>EqualDispatcher.Dispatch\<close> delivers, at exact arithmetic, the whole target when the
  fleet can carry it and the whole power of the fleet otherwise.
\<close>

theorem equal_dispatch_total:
  fixes vs :: "real Vehicle list"
  assumes "distinct (map ID vs)"
  shows "total_kw (EqualDispatcher_Dispatch vs s) =
         (if vs = [] then 0 else min (PowerKW s) (\<Sum>v\<leftarrow>vs. MaxPower v))"
  using assms by (rule EqualDispatcher_total)

theorem equal_dispatch_total_witness:
  "total_kw (EqualDispatcher_Dispatch
     [zeroVehicle\<lparr>ID := ''a'', MaxPower := 2\<rparr>, zeroVehicle\<lparr>ID := ''b'', MaxPower := 10\<rparr>]
     \<lparr>SigType = SignalFCR, PowerKW = 9, SigDuration = 0, Timestamp = timeZero\<rparr>) = (9 :: real)"
  using equal_dispatch_total [of
    "[zeroVehicle\<lparr>ID := ''a'', MaxPower := 2\<rparr>, zeroVehicle\<lparr>ID := ''b'', MaxPower := 10\<rparr>]"
    "\<lparr>SigType = SignalFCR, PowerKW = 9, SigDuration = 0, Timestamp = timeZero\<rparr>"]
  by simp

text \<open>
  For a non-negative target no vehicle is assigned a negative power or more than its
  \<open>MaxPower\<close>.
\<close>

theorem equal_dispatch_bounds:
  fixes vs :: "real Vehicle list"
  assumes "distinct (map ID vs)" "0 \<le> PowerKW s" "\<forall>v\<in>set vs. 0 \<le> MaxPower v" "v \<in> set vs"
  shows "\<exists>p. EqualDispatcher_Dispatch vs s (ID v) = Some p \<and> 0 \<le> p \<and> p \<le> MaxPower v"
  using assms by (rule EqualDispatcher_bounds)

theorem equal_dispatch_bounds_witness:
  "\<exists>p. EqualDispatcher_Dispatch
     [zeroVehicle\<lparr>ID := ''a'', MaxPower := 2\<rparr>, zeroVehicle\<lparr>ID := ''b'', MaxPower := 10\<rparr>]
     \<lparr>SigType = SignalFCR, PowerKW = 9, SigDuration = 0, Timestamp = timeZero\<rparr> ''a''
     = Some p \<and> 0 \<le> p \<and> p \<le> (2 :: real)"
  using equal_dispatch_bounds [of
    "[zeroVehicle\<lparr>ID := ''a'', MaxPower := 2\<rparr>, zeroVehicle\<lparr>ID := ''b'', MaxPower := 10\<rparr>]"
    "\<lparr>SigType = SignalFCR, PowerKW = 9, SigDuration = 0, Timestamp = timeZero\<rparr>"
    "zeroVehicle\<lparr>ID := ''a'', MaxPower := 2\<rparr>"]
  by simp

text \<open>
  C11. The allocation is max-min fair. A vehicle that gets less than another one is at its
  own limit.
\<close>

theorem equal_dispatch_max_min_fair:
  fixes vs :: "real Vehicle list"
  assumes "distinct (map ID vs)" "u \<in> set vs" "w \<in> set vs"
    and "EqualDispatcher_Dispatch vs s (ID u) = Some p" "EqualDispatcher_Dispatch vs s (ID w) = Some q"
    and "p < q"
  shows "p = (MaxPower u :: real)"
proof -
  have "vs \<noteq> []" using assms(2) by auto
  from EqualDispatcher_spec [OF assms(1) this, of s] assms(2-6)
  have "getd 0 (EqualDispatcher_Dispatch vs s) (ID u) = MaxPower u"
    unfolding equal_spec_def by (metis getd_Some)
  with assms(4) show ?thesis by simp
qed

theorem equal_dispatch_max_min_fair_witness:
  "EqualDispatcher_Dispatch
     [zeroVehicle\<lparr>ID := ''a'', MaxPower := 2\<rparr>, zeroVehicle\<lparr>ID := ''b'', MaxPower := 10\<rparr>]
     \<lparr>SigType = SignalFCR, PowerKW = 9, SigDuration = 0, Timestamp = timeZero\<rparr> ''a'' = Some (2 :: real)
   \<and> (2 :: real) = MaxPower (zeroVehicle\<lparr>ID := ''a'', MaxPower := 2\<rparr>)"
proof -
  let ?vs = "[zeroVehicle\<lparr>ID := ''a'', MaxPower := 2\<rparr>,
      zeroVehicle\<lparr>ID := ''b'', MaxPower := 10\<rparr>] :: real Vehicle list"
  let ?s = "\<lparr>SigType = SignalFCR, PowerKW = 9, SigDuration = 0, Timestamp = timeZero\<rparr>
      :: real FlexibilitySignal"
  have e: "EqualDispatcher_Dispatch ?vs ?s ''a'' = Some 2" "EqualDispatcher_Dispatch ?vs ?s ''b'' = Some 7"
    by (simp_all add: EqualDispatcher_Dispatch_def Let_def equal_loop.simps)
  show ?thesis
    using equal_dispatch_max_min_fair [of ?vs "?vs ! 0" "?vs ! 1" ?s 2 7] e by simp
qed

text \<open>
  For a negative target (a reduction) the loop of rounds never runs, and every vehicle is
  assigned the same negative share whatever its \<open>MaxPower\<close>: the limit is compared with the
  signed share, so it never binds.
\<close>

theorem equal_dispatch_negative_share:
  fixes vs :: "real Vehicle list"
  assumes "distinct (map ID vs)" "PowerKW s < 0" "\<forall>v\<in>set vs. 0 \<le> MaxPower v" "v \<in> set vs"
  shows "EqualDispatcher_Dispatch vs s (ID v) = Some (PowerKW s / real (length vs))"
proof -
  let ?share = "PowerKW s / real (length vs)"
  have ne: "vs \<noteq> []" using assms(4) by auto
  then have neg: "?share < 0" using assms(2) by (simp add: divide_neg_pos)
  have le: "?share \<le> MaxPower w" if "w \<in> set vs" for w
    using neg assms(3) that by force
  have r: "fst (snd (equal_first ?share vs Map.empty (PowerKW s))) = 0"
    using equal_share_sum(2) [OF ne refl, of "PowerKW s" 0] le by (simp add: equal_first_rest)
  have "fst (equal_first ?share vs Map.empty (PowerKW s)) (ID v) = Some ?share"
    using equal_first_apply [OF assms(1,4)] le [OF assms(4)] by (simp add: min_def)
  then show ?thesis
    using ne r by (simp add: EqualDispatcher_Dispatch_def case_prod_unfold Let_def
        equal_loop.simps [of _ _ 0])
qed

theorem equal_dispatch_negative_share_witness:
  "EqualDispatcher_Dispatch [zeroVehicle\<lparr>ID := ''a'', MaxPower := 7\<rparr>]
     \<lparr>SigType = SignalNEBEF, PowerKW = -100, SigDuration = 0, Timestamp = timeZero\<rparr> ''a''
     = Some (-100 :: real)"
  using equal_dispatch_negative_share [of "[zeroVehicle\<lparr>ID := ''a'', MaxPower := 7\<rparr>]"
    "\<lparr>SigType = SignalNEBEF, PowerKW = -100, SigDuration = 0, Timestamp = timeZero\<rparr>"
    "zeroVehicle\<lparr>ID := ''a'', MaxPower := 7\<rparr>"]
  by simp

end
