(* ===== verification/Go_Float64.thy ===== *)
theory Go_Float64
  imports V2G_Prelude "HOL-Library.Log_Nat"
begin

text \<open>
  IEEE-754 binary64, the number type Go's \<open>float64\<close> is. A finite float is a whole multiple of
  the least positive one, \<open>2 ^ -1074\<close>: \<open>Fin k\<close> stands for \<open>k * 2 ^ -1074\<close>. Every operation
  takes the exact result as a quotient of naturals in that unit and rounds it to nearest,
  ties to even, with 53 significant bits; at \<open>2 ^ 1024\<close> it overflows to an infinity.
  Zero has two signs (\<open>Fin 0\<close> and \<open>NegZero\<close>) and NaN is not ordered, as in Go.
  Instances of the syntactic classes make every generic definition of the development
  available at this type.
\<close>

datatype f64 = NaN | PInf | NInf | NegZero | Fin int

subsection \<open>Rounding\<close>

text \<open>\<open>k\<close> has at most 53 significant bits.\<close>

definition representable :: "nat \<Rightarrow> bool" where
  "representable k \<longleftrightarrow> 2 ^ (floorlog 2 k - 53) dvd k"

text \<open>The magnitude nearest to \<open>p / q\<close> on the grid of its binade.\<close>

definition rnat :: "nat \<Rightarrow> nat \<Rightarrow> nat" where
  "rnat p q =
     (let g = 2 ^ (floorlog 2 (p div q) - 53);
          t = p div (q * g);
          r = 2 * (p mod (q * g))
      in (if q * g < r \<or> (r = q * g \<and> odd t) then t + 1 else t) * g)"

definition fround :: "bool \<Rightarrow> nat \<Rightarrow> nat \<Rightarrow> f64" where
  "fround neg p q =
     (let k = rnat p q in
      if 2 ^ 2098 \<le> k then (if neg then NInf else PInf)
      else if k = 0 then (if neg then NegZero else Fin 0)
      else Fin (if neg then - int k else int k))"

subsection \<open>Operations\<close>

fun f64_neg :: "f64 \<Rightarrow> f64" where
  "f64_neg NaN = NaN"
| "f64_neg PInf = NInf"
| "f64_neg NInf = PInf"
| "f64_neg NegZero = Fin 0"
| "f64_neg (Fin k) = (if k = 0 then NegZero else Fin (- k))"

fun f64_sign :: "f64 \<Rightarrow> bool" where
  "f64_sign NaN = False"
| "f64_sign PInf = False"
| "f64_sign NInf = True"
| "f64_sign NegZero = True"
| "f64_sign (Fin k) = (k < 0)"

text \<open>The value of a finite float in units of \<open>2 ^ -1074\<close>.\<close>

fun f64_units :: "f64 \<Rightarrow> int" where
  "f64_units (Fin k) = k"
| "f64_units _ = 0"

definition f64_finite :: "f64 \<Rightarrow> bool" where
  "f64_finite x \<longleftrightarrow> x \<noteq> NaN \<and> x \<noteq> PInf \<and> x \<noteq> NInf"

definition f64_add :: "f64 \<Rightarrow> f64 \<Rightarrow> f64" where
  "f64_add x y =
     (if x = NaN \<or> y = NaN then NaN
      else if x = PInf then (if y = NInf then NaN else PInf)
      else if x = NInf then (if y = PInf then NaN else NInf)
      else if y = PInf \<or> y = NInf then y
      else if x = NegZero \<and> y = NegZero then NegZero
      else let s = f64_units x + f64_units y
           in if s = 0 then Fin 0 else fround (s < 0) (nat \<bar>s\<bar>) 1)"

definition f64_inf :: "bool \<Rightarrow> f64" where
  "f64_inf neg = (if neg then NInf else PInf)"

definition f64_mul :: "f64 \<Rightarrow> f64 \<Rightarrow> f64" where
  "f64_mul x y =
     (let neg = (f64_sign x \<noteq> f64_sign y) in
      if x = NaN \<or> y = NaN then NaN
      else if \<not> f64_finite x \<or> \<not> f64_finite y
      then (if (f64_finite x \<and> f64_units x = 0) \<or> (f64_finite y \<and> f64_units y = 0)
            then NaN else f64_inf neg)
      else fround neg (nat \<bar>f64_units x\<bar> * nat \<bar>f64_units y\<bar>) (2 ^ 1074))"

definition f64_div :: "f64 \<Rightarrow> f64 \<Rightarrow> f64" where
  "f64_div x y =
     (let neg = (f64_sign x \<noteq> f64_sign y) in
      if x = NaN \<or> y = NaN then NaN
      else if \<not> f64_finite x then (if \<not> f64_finite y then NaN else f64_inf neg)
      else if \<not> f64_finite y then (if neg then NegZero else Fin 0)
      else if f64_units y = 0 then (if f64_units x = 0 then NaN else f64_inf neg)
      else fround neg (nat \<bar>f64_units x\<bar> * 2 ^ 1074) (nat \<bar>f64_units y\<bar>))"

text \<open>Comparisons: the infinities bound the finite values, NaN compares with nothing.\<close>

fun f64_rank :: "f64 \<Rightarrow> int \<times> int" where
  "f64_rank NaN = (0, 0)"
| "f64_rank PInf = (1, 0)"
| "f64_rank NInf = (- 1, 0)"
| "f64_rank NegZero = (0, 0)"
| "f64_rank (Fin k) = (0, k)"

definition f64_less :: "f64 \<Rightarrow> f64 \<Rightarrow> bool" where
  "f64_less x y \<longleftrightarrow> x \<noteq> NaN \<and> y \<noteq> NaN \<and>
     (fst (f64_rank x) < fst (f64_rank y) \<or>
      (fst (f64_rank x) = fst (f64_rank y) \<and> snd (f64_rank x) < snd (f64_rank y)))"

definition f64_le :: "f64 \<Rightarrow> f64 \<Rightarrow> bool" where
  "f64_le x y \<longleftrightarrow> x \<noteq> NaN \<and> y \<noteq> NaN \<and>
     (fst (f64_rank x) < fst (f64_rank y) \<or>
      (fst (f64_rank x) = fst (f64_rank y) \<and> snd (f64_rank x) \<le> snd (f64_rank y)))"

instantiation f64 :: "{zero,one,plus,minus,uminus,times,inverse,ord}"
begin

definition zero_f64 :: f64 where "zero_f64 = Fin 0"
definition one_f64 :: f64 where "one_f64 = Fin (2 ^ 1074)"
definition plus_f64 :: "f64 \<Rightarrow> f64 \<Rightarrow> f64" where "plus_f64 x y = f64_add x y"
definition uminus_f64 :: "f64 \<Rightarrow> f64" where "uminus_f64 x = f64_neg x"
definition minus_f64 :: "f64 \<Rightarrow> f64 \<Rightarrow> f64" where "minus_f64 x y = f64_add x (f64_neg y)"
definition times_f64 :: "f64 \<Rightarrow> f64 \<Rightarrow> f64" where "times_f64 x y = f64_mul x y"
definition divide_f64 :: "f64 \<Rightarrow> f64 \<Rightarrow> f64" where "divide_f64 x y = f64_div x y"
definition inverse_f64 :: "f64 \<Rightarrow> f64" where "inverse_f64 x = f64_div (Fin (2 ^ 1074)) x"
definition less_f64 :: "f64 \<Rightarrow> f64 \<Rightarrow> bool" where "less_f64 x y = f64_less x y"
definition less_eq_f64 :: "f64 \<Rightarrow> f64 \<Rightarrow> bool" where "less_eq_f64 x y = f64_le x y"

instance ..

end

lemmas f64_defs = zero_f64_def one_f64_def plus_f64_def uminus_f64_def minus_f64_def
  times_f64_def divide_f64_def less_f64_def less_eq_f64_def

subsection \<open>Rounding is correct\<close>

lemma floorlog2_bound: "n < 2 ^ floorlog 2 n"
  using floorlog_bounds [of n 2] by (cases "n = 0") auto

lemma floorlog2_lower: "0 < n \<Longrightarrow> 2 ^ (floorlog 2 n - 1) \<le> n"
  using floorlog_bounds [of n 2] by simp

lemma floorlog2_mono: "m \<le> n \<Longrightarrow> floorlog 2 m \<le> floorlog 2 n"
  by (rule floorlog_mono)

lemma round_up_le:
  fixes p q g K :: nat
  assumes "0 < q" "0 < g" "g dvd K" "p \<le> K * q"
  shows "(if c \<and> p mod (q * g) \<noteq> 0 then p div (q * g) + 1 else p div (q * g)) * g \<le> K"
proof -
  obtain j where K: "K = g * j" using assms(3) by blast
  have le: "p \<le> j * (q * g)" using assms(4) K by (simp add: mult.commute mult.left_commute)
  have pos: "0 < q * g" using assms by simp
  have "p div (q * g) \<le> j" using le pos by (metis div_le_mono nonzero_mult_div_cancel_right not_gr0)
  moreover have "p div (q * g) < j" if "p mod (q * g) \<noteq> 0"
  proof (rule ccontr)
    assume "\<not> p div (q * g) < j"
    then have "j * (q * g) \<le> p div (q * g) * (q * g)" by simp
    moreover have "p = p div (q * g) * (q * g) + p mod (q * g)"
      by (rule div_mult_mod_eq [symmetric])
    ultimately show False using le that by linarith
  qed
  ultimately show ?thesis using K by (auto simp: mult.commute mult_le_mono)
qed

lemma rnat_upper:
  assumes "0 < q" "representable K" "p \<le> K * q"
  shows "rnat p q \<le> K"
proof -
  define g where "g = (2::nat) ^ (floorlog 2 (p div q) - 53)"
  have "p div q \<le> K" using assms by (metis div_le_mono nonzero_mult_div_cancel_right not_gr0)
  then have "floorlog 2 (p div q) - 53 \<le> floorlog 2 K - 53"
    by (intro diff_le_mono floorlog2_mono)
  then have gK: "g dvd K"
    using assms(2) unfolding representable_def g_def by (meson dvd_trans le_imp_power_dvd)
  have "0 < q * g" using assms(1) by (simp add: g_def)
  then have "p mod (q * g) \<noteq> 0" if "q * g < 2 * (p mod (q * g)) \<or> 2 * (p mod (q * g)) = q * g"
    using that by linarith
  then have "rnat p q = (if (q * g < 2 * (p mod (q * g)) \<or>
        (2 * (p mod (q * g)) = q * g \<and> odd (p div (q * g)))) \<and> p mod (q * g) \<noteq> 0
      then p div (q * g) + 1 else p div (q * g)) * g"
    by (auto simp: rnat_def Let_def g_def)
  also have "\<dots> \<le> K" by (rule round_up_le) (use assms gK in \<open>auto simp: g_def\<close>)
  finally show ?thesis .
qed

lemma rnat_lower:
  assumes "0 < q" "representable K" "K * q \<le> p"
  shows "K \<le> rnat p q"
proof -
  define b where "b = floorlog 2 (p div q)"
  define g where "g = (2::nat) ^ (b - 53)"
  have Kn: "K \<le> p div q" using assms by (simp add: less_eq_div_iff_mult_less_eq)
  have "p div (q * g) = p div q div g" by (simp add: div_mult2_eq)
  then have rn: "p div q div g * g \<le> rnat p q"
    by (simp add: rnat_def Let_def g_def b_def)
  have "\<exists>M. g dvd M \<and> K \<le> M \<and> M \<le> p div q"
  proof (cases "floorlog 2 K = b")
    case True
    then have "g dvd K" using assms(2) by (simp add: representable_def g_def)
    with Kn show ?thesis by blast
  next
    case False
    then have lt: "floorlog 2 K < b" using floorlog2_mono [OF Kn] by (simp add: b_def)
    then have "0 < p div q" by (intro gr0I) (simp add: b_def floorlog_def)
    then have "2 ^ (b - 1) \<le> p div q" unfolding b_def by (rule floorlog2_lower)
    moreover have "K \<le> 2 ^ (b - 1)"
    proof -
      have "K < 2 ^ floorlog 2 K" by (rule floorlog2_bound)
      also have "(2::nat) ^ floorlog 2 K \<le> 2 ^ (b - 1)" using lt by (intro power_increasing) auto
      finally show ?thesis by simp
    qed
    moreover have "g dvd 2 ^ (b - 1)" unfolding g_def by (intro le_imp_power_dvd) simp
    ultimately show ?thesis by blast
  qed
  then obtain j where "K \<le> g * j" "g * j \<le> p div q" by blast
  moreover have "0 < g" by (simp add: g_def)
  ultimately have "j \<le> p div q div g" by (simp add: less_eq_div_iff_mult_less_eq mult.commute)
  then have "g * j \<le> p div q div g * g" by (simp add: mult.commute)
  with \<open>K \<le> g * j\<close> rn show ?thesis by linarith
qed

lemma rnat_exact: "0 < q \<Longrightarrow> representable K \<Longrightarrow> p = K * q \<Longrightarrow> rnat p q = K"
  by (intro antisym rnat_upper rnat_lower) auto

lemma representable_small: "k < 2 ^ 53 \<Longrightarrow> representable k"
proof -
  assume "k < 2 ^ 53"
  then have "floorlog 2 k \<le> 53" by (simp add: floorlog_leI)
  then show ?thesis by (simp add: representable_def)
qed

lemma representable_shift: "m < 2 ^ 53 \<Longrightarrow> representable (m * 2 ^ e)"
proof -
  assume m: "m < 2 ^ 53"
  have "floorlog 2 (m * 2 ^ e) \<le> 53 + e"
    using m by (intro floorlog_leI) (auto simp: power_add)
  then have "floorlog 2 (m * 2 ^ e) - 53 \<le> e" by simp
  then show ?thesis
    unfolding representable_def by (metis dvd_mult le_imp_power_dvd)
qed

subsection \<open>Floats in the range of the format\<close>

fun wf_f64 :: "f64 \<Rightarrow> bool" where
  "wf_f64 (Fin k) \<longleftrightarrow> representable (nat \<bar>k\<bar>) \<and> \<bar>k\<bar> < 2 ^ 2098"
| "wf_f64 _ \<longleftrightarrow> True"

lemma fround_exact:
  "0 < k \<Longrightarrow> representable k \<Longrightarrow> k < 2 ^ 2098 \<Longrightarrow> fround False k 1 = Fin (int k)"
  by (simp add: fround_def Let_def rnat_exact)

lemma f64_add_pos:
  assumes "wf_f64 (Fin (a + b))" "0 \<le> a" "0 \<le> b" "0 < a + b"
  shows "Fin a + Fin b = Fin (a + b)"
proof -
  have "fround False (nat (a + b)) 1 = Fin (int (nat (a + b)))"
    using assms by (intro fround_exact) (auto simp: nat_less_iff)
  then show ?thesis using assms by (simp add: plus_f64_def f64_add_def Let_def)
qed

lemma f64_div_pos:
  assumes "wf_f64 (Fin c)" "0 < a" "0 < b" "0 < c" "a * 2 ^ 1074 = c * b"
  shows "Fin a / Fin b = Fin c"
proof -
  have "nat a * 2 ^ 1074 = nat c * nat b"
    using assms by (metis less_imp_le nat_mult_distrib nat_numeral_as_int nat_power_eq zero_le_numeral nat_numeral)
  then have "rnat (nat a * 2 ^ 1074) (nat b) = nat c"
    using assms by (intro rnat_exact) auto
  moreover have "nat c < 2 ^ 2098" using assms by (auto simp: nat_less_iff)
  ultimately show ?thesis
    using assms by (simp add: divide_f64_def f64_div_def Let_def f64_finite_def fround_def)
qed

lemma wf_shift: "m < 2 ^ 53 \<Longrightarrow> e \<le> 2045 \<Longrightarrow> wf_f64 (Fin (int m * 2 ^ e))"
proof -
  assume m: "m < 2 ^ 53" and e: "e \<le> 2045"
  have "nat \<bar>int m * 2 ^ e\<bar> = m * 2 ^ e" by (simp add: nat_mult_distrib nat_power_eq)
  moreover have "int m * 2 ^ e < 2 ^ 53 * 2 ^ 2045"
    using m e by (intro mult_less_le_imp_less power_increasing) auto
  moreover have "(2::int) ^ 53 * 2 ^ 2045 = 2 ^ 2098"
    by (metis numeral_plus_numeral add_num_simps power_add)
  ultimately show ?thesis
    using representable_shift [OF m, of e] by simp
qed

lemma f64_sub_zero:
  assumes "wf_f64 (Fin c)" "0 < c" "z = Fin 0 \<or> z = NegZero"
  shows "Fin c - z = Fin c"
proof -
  have "fround False (nat c) 1 = Fin (int (nat c))"
    using assms by (intro fround_exact) (auto simp: nat_less_iff)
  then show ?thesis
    using assms by (auto simp: f64_defs f64_add_def Let_def)
qed

lemma rnat_half: "2 * p \<le> q \<Longrightarrow> rnat p q = 0"
  by (cases "q = 0") (auto simp: rnat_def Let_def floorlog_def)

lemma f64_one: "(num 1 :: f64) = Fin (1 * 2 ^ 1074)"
proof -
  have "wf_f64 (Fin (0 + int 1 * 2 ^ 1074))" using wf_shift [of 1 1074] by simp
  then have "(Fin 0 :: f64) + Fin (int 1 * 2 ^ 1074) = Fin (0 + int 1 * 2 ^ 1074)"
    by (rule f64_add_pos) auto
  moreover have "(Fin 0 :: f64) + Fin 0 = Fin 0" by (simp add: plus_f64_def f64_add_def)
  moreover have "(num 0 :: f64) = Fin 0" by (simp add: num.simps [of 0] zero_f64_def)
  ultimately show ?thesis
    by (simp add: num.simps [of "Suc 0"] one_f64_def Let_def)
qed

lemma f64_half: "(lit 1 2 :: f64) = Fin (2 ^ 1073)"
proof -
  have "wf_f64 (Fin (1 * 2 ^ 1074 + 1 * 2 ^ 1074))" using wf_shift [of 2 1074] by simp
  then have two: "(num 2 :: f64) = Fin (1 * 2 ^ 1074 + 1 * 2 ^ 1074)"
    using f64_one f64_add_pos [of "1 * 2 ^ 1074" "1 * 2 ^ 1074"]
    by (simp only: num.simps [of 2] Let_def) simp
  show ?thesis unfolding lit_def f64_one two
    by (rule f64_div_pos) (use wf_shift [of 1 1073] in simp_all)
qed

lemma f64_ratio_half:
  assumes "0 < a" "2 * a \<le> b"
  shows "0 \<le> Fin a / Fin b \<and> Fin a / Fin b \<le> lit 1 2"
proof -
  have "nat a * 2 ^ 1074 \<le> 2 ^ 1073 * nat b"
  proof -
    have "nat (2 * a) * 2 ^ 1073 \<le> nat b * 2 ^ 1073" using assms by (intro mult_right_mono nat_mono) auto
    then show ?thesis using assms by (simp add: nat_mult_distrib mult.commute)
  qed
  then have "rnat (nat a * 2 ^ 1074) (nat b) \<le> 2 ^ 1073"
    using assms representable_shift [of 1 1073] by (intro rnat_upper) auto
  moreover have "int (rnat (nat a * 2 ^ 1074) (nat b)) \<le> int (2 ^ 1073)"
    using calculation by (simp only: of_nat_le_iff)
  moreover have "(2::nat) ^ 1073 < 2 ^ 2098" by (rule power_strict_increasing) auto
  ultimately show ?thesis
    using assms unfolding f64_half
    by (auto simp: f64_defs f64_div_def f64_finite_def fround_def Let_def f64_le_def)
qed

text \<open>The least positive float times a ratio of at most one half is zero.\<close>

lemma least_times_half:
  assumes "0 \<le> r" "r \<le> lit 1 2"
  shows "Fin 1 * r = Fin 0 \<or> Fin 1 * (r::f64) = NegZero"
proof -
  show ?thesis
  proof (cases r)
    case (Fin k)
    then have k: "0 \<le> k" "k \<le> 2 ^ 1073" using assms f64_half by (auto simp: f64_defs f64_le_def)
    then have "rnat (nat k) (2 ^ 1074) = 0"
      by (intro rnat_half) (simp add: nat_le_iff)
    then show ?thesis
      using k Fin by (simp add: f64_defs f64_mul_def f64_finite_def Let_def fround_def)
  qed (use assms f64_half in \<open>auto simp: f64_defs f64_le_def f64_mul_def f64_finite_def Let_def
          fround_def rnat_half\<close>)
qed

subsection \<open>Rounding sums and differences\<close>

text \<open>The unit in the last place of a magnitude, in units of the least positive float.\<close>

definition ulp :: "nat \<Rightarrow> nat" where
  "ulp n = 2 ^ (floorlog 2 n - 53)"

lemma ulp_mono: "m \<le> n \<Longrightarrow> ulp m \<le> ulp n"
  unfolding ulp_def by (intro power_increasing diff_le_mono floorlog2_mono) auto

lemma ulp_le: "0 < n \<Longrightarrow> ulp n \<le> n"
proof -
  assume n: "0 < n"
  have "ulp n \<le> 2 ^ (floorlog 2 n - 1)" unfolding ulp_def by (intro power_increasing) auto
  also have "\<dots> \<le> n" by (rule floorlog2_lower [OF n])
  finally show ?thesis .
qed

lemma rnat_le_ulp: "rnat n 1 \<le> n + ulp n"
proof -
  have "n div ulp n * ulp n \<le> n" by simp
  then show ?thesis unfolding rnat_def ulp_def Let_def by (simp add: add_mult_distrib trans_le_add1)
qed

text \<open>The next float after a float is one.\<close>

lemma representable_next:
  assumes "representable n"
  shows "representable (n + ulp n)"
proof -
  define e where "e = floorlog 2 n - 53"
  obtain m where m: "n = m * 2 ^ e" using assms unfolding representable_def e_def by (metis dvdE mult.commute)
  have "n < 2 ^ (53 + e)"
    using floorlog2_bound [of n] power_increasing [of "floorlog 2 n" "53 + e" "2::nat"] unfolding e_def by linarith
  then have "m < 2 ^ 53" by (simp add: m power_add)
  moreover have "ulp n = 2 ^ e" by (simp add: ulp_def e_def)
  then have next_eq: "n + ulp n = (m + 1) * 2 ^ e" using m by simp
  ultimately show ?thesis
  proof (cases "m + 1 = 2 ^ 53")
    case True
    then have "n + ulp n = 1 * 2 ^ (53 + e)" unfolding next_eq by (simp add: power_add)
    then show ?thesis using representable_shift [of 1 "53 + e"] by simp
  next
    case False
    with \<open>m < 2 ^ 53\<close> have "m + 1 < 2 ^ 53" by simp
    then show ?thesis unfolding next_eq by (rule representable_shift)
  qed
qed

text \<open>A positive sum and a positive difference.\<close>

lemma f64_add_units:
  assumes "0 \<le> a" "0 \<le> b" "int (rnat (nat (a + b)) 1) < 2 ^ 2098"
  shows "Fin a + Fin b = Fin (int (rnat (nat (a + b)) 1))"
  using assms by (cases "a + b = 0") (auto simp: plus_f64_def f64_add_def fround_def Let_def nat_less_iff rnat_half)

lemma f64_sub_units:
  assumes "0 \<le> a" "a < b" "int (rnat (nat (b - a)) 1) < 2 ^ 2098"
  shows "Fin b - Fin a = Fin (int (rnat (nat (b - a)) 1))"
  using assms
  by (cases "a = 0") (auto simp: minus_f64_def f64_add_def fround_def Let_def rnat_half)


text \<open>Numbers that are not NaN stay so when a finite float is taken away.\<close>

lemma f64_sub_fin: "x \<noteq> NaN \<Longrightarrow> x - Fin a \<noteq> NaN"
  by (cases x) (auto simp: f64_defs f64_add_def fround_def Let_def)

lemma f64_num: "n < 2 ^ 53 \<Longrightarrow> (num n :: f64) = Fin (int n * 2 ^ 1074)"
proof (induction n rule: less_induct)
  case (less n)
  show ?case
  proof (cases "n = 0")
    case False
    let ?h = "n div 2"
    have h: "(num ?h :: f64) = Fin (int ?h * 2 ^ 1074)" using less False by simp
    have dbl: "int ?h * 2 ^ 1074 + int ?h * 2 ^ 1074 = int (2 * ?h) * 2 ^ 1074" by (simp add: algebra_simps)
    have wf: "wf_f64 (Fin (int k * 2 ^ 1074))" if "k \<le> n" for k using that less.prems by (intro wf_shift) auto
    have hh: "(num ?h :: f64) + num ?h = Fin (int (2 * ?h) * 2 ^ 1074)"
    proof (cases "?h = 0")
      case True
      then show ?thesis unfolding h by (simp add: plus_f64_def f64_add_def)
    next
      case False
      then show ?thesis unfolding h using f64_add_pos [of "int ?h * 2 ^ 1074" "int ?h * 2 ^ 1074"] wf [of "2 * ?h"] by (simp only: dbl) simp
    qed
    show ?thesis
    proof (cases "even n")
      case True
      then show ?thesis using hh False by (simp add: num.simps [of n])
    next
      case odd: False
      have n: "int (2 * ?h) * 2 ^ 1074 + 2 ^ 1074 = int n * 2 ^ 1074"
        using odd by (metis add.commute distrib_right mult_1 odd_two_times_div_two_succ of_nat_Suc of_nat_1 of_nat_add plus_1_eq_Suc)
      have "Fin (int (2 * ?h) * 2 ^ 1074) + Fin (2 ^ 1074) = Fin (int n * 2 ^ 1074)"
        using f64_add_pos [of "int (2 * ?h) * 2 ^ 1074" "2 ^ 1074"] wf [of n] False unfolding n by simp
      then show ?thesis using hh odd False by (simp add: num.simps [of n] Let_def one_f64_def)
    qed
  qed (simp add: num.simps [of 0] zero_f64_def)
qed

subsection \<open>Results of operations are floats\<close>

lemma representable_rnat: "0 < q \<Longrightarrow> representable (rnat p q)"
proof -
  assume q: "0 < q"
  define e where "e = floorlog 2 (p div q) - 53"
  define t where "t = p div (q * 2 ^ e)"
  have t_eq: "t = p div q div 2 ^ e" by (simp add: t_def div_mult2_eq)
  have "p div q < 2 ^ (53 + e)"
    using floorlog2_bound [of "p div q"] power_increasing [of "floorlog 2 (p div q)" "53 + e" "2::nat"] unfolding e_def by linarith
  then have t: "t < 2 ^ 53" unfolding t_eq by (simp add: power_add div_less_iff_less_mult)
  have "rnat p q = t * 2 ^ e \<or> rnat p q = (t + 1) * 2 ^ e"
    unfolding rnat_def Let_def e_def [symmetric] t_def [symmetric] by (cases "q * 2 ^ e < 2 * (p mod (q * 2 ^ e)) \<or>
        2 * (p mod (q * 2 ^ e)) = q * 2 ^ e \<and> odd t") simp_all
  moreover have "representable ((t + 1) * 2 ^ e)"
  proof (cases "t + 1 = 2 ^ 53")
    case True
    then have "(t + 1) * 2 ^ e = 1 * 2 ^ (53 + e)" by (simp add: power_add)
    then show ?thesis using representable_shift [of 1 "53 + e"] by simp
  next
    case False
    with t show ?thesis by (intro representable_shift) simp
  qed
  ultimately show ?thesis using representable_shift [OF t, of e] by auto
qed

lemma fround_cases:
  assumes "0 < q"
  shows "fround False p q = PInf \<and> 2 ^ 2098 \<le> rnat p q \<or>
    fround False p q = Fin (int (rnat p q)) \<and> wf_f64 (Fin (int (rnat p q)))"
proof (cases "2 ^ 2098 \<le> rnat p q")
  case True
  then show ?thesis by (simp add: fround_def Let_def)
next
  case False
  then have "int (rnat p q) < int (2 ^ 2098)" by (simp only: of_nat_less_iff not_le)
  with False show ?thesis using representable_rnat [OF assms, of p] by (auto simp: fround_def Let_def)
qed

text \<open>A finite float that is not negative, with its units.\<close>

definition pos_units :: "f64 \<Rightarrow> nat \<Rightarrow> bool" where
  "pos_units x k \<longleftrightarrow> x = Fin (int k) \<and> wf_f64 (Fin (int k))"

lemma pos_unitsD: "pos_units x k \<Longrightarrow> x = Fin (int k)" "pos_units x k \<Longrightarrow> representable k"
  by (simp_all add: pos_units_def)

lemma fround_below:
  assumes "0 < q" "pos_units x k" "p \<le> k * q"
  shows "pos_units (fround False p q) (rnat p q)" "rnat p q \<le> k"
proof -
  show le: "rnat p q \<le> k" using assms pos_unitsD(2) by (intro rnat_upper) auto
  have "int k < int (2 ^ 2098)" using assms(2) by (simp add: pos_units_def)
  then have "k < 2 ^ 2098" by (simp only: of_nat_less_iff)
  then have "\<not> 2 ^ 2098 \<le> rnat p q" using le by linarith
  with fround_cases [OF assms(1), of p] show "pos_units (fround False p q) (rnat p q)" by (auto simp: pos_units_def)
qed

text \<open>Sums do not shrink, differences do not grow, and a part of a float is no more than the float.\<close>

lemma pos_units_add:
  assumes "pos_units x a" "pos_units y b"
  shows "x + y = PInf \<or> (\<exists>c. pos_units (x + y) c \<and> a \<le> c \<and> b \<le> c)"
proof -
  have ge: "a \<le> rnat (a + b) 1" "b \<le> rnat (a + b) 1" using assms pos_unitsD(2) by (auto intro!: rnat_lower)
  have "nat \<bar>int a + int b\<bar> = a + b" by simp
  then have "x + y = fround False (a + b) 1"
    using assms by (auto simp: pos_units_def plus_f64_def f64_add_def fround_def Let_def rnat_half)
  with fround_cases [of 1 "a + b"] ge show ?thesis by (auto simp: pos_units_def)
qed

lemma pos_units_sub:
  assumes "pos_units x a" "b \<le> a"
  shows "\<exists>c. pos_units (x - Fin (int b)) c \<and> c \<le> a \<and> (c = 0 \<longleftrightarrow> b = a)"
proof (cases "b = a")
  case True
  then have "x - Fin (int b) = Fin 0" using assms by (auto simp: pos_units_def minus_f64_def f64_add_def)
  moreover have "wf_f64 (Fin 0)" using representable_small [of 0] by simp
  ultimately show ?thesis using True by (intro exI [of _ 0]) (simp add: pos_units_def)
next
  case False
  then have lt: "b < a" using assms(2) by simp
  have "nat \<bar>int a - int b\<bar> = a - b" using lt by simp
  then have eq: "x - Fin (int b) = fround False (a - b) 1"
    using lt assms(1) by (auto simp: pos_units_def minus_f64_def f64_add_def Let_def)
  have "1 \<le> rnat (a - b) 1" using lt representable_small [of 1] by (intro rnat_lower) auto
  with fround_below [OF _ assms(1), of 1 "a - b"] False eq show ?thesis by (intro exI [of _ "rnat (a - b) 1"]) auto
qed

lemma pos_units_ratio:
  assumes "pos_units x a" "y = PInf \<or> (\<exists>b. pos_units y b \<and> a \<le> b \<and> 0 < b)"
  shows "\<exists>c. x / y = Fin (int c) \<and> c \<le> 2 ^ 1074"
  using assms(2)
proof
  assume "y = PInf"
  then have "x / y = Fin 0" using assms(1) by (auto simp: pos_units_def divide_f64_def f64_div_def f64_finite_def Let_def)
  then show ?thesis by (intro exI [of _ 0]) simp
next
  assume "\<exists>b. pos_units y b \<and> a \<le> b \<and> 0 < b"
  then obtain b where b: "pos_units y b" "a \<le> b" "0 < b" by blast
  have "x / y = fround False (a * 2 ^ 1074) b"
    using assms(1) b by (auto simp: pos_units_def divide_f64_def f64_div_def f64_finite_def Let_def)
  moreover have one: "pos_units (Fin (int (2 ^ 1074))) (2 ^ 1074)" using wf_shift [of 1 1074] by (simp add: pos_units_def)
  have "a * 2 ^ 1074 \<le> 2 ^ 1074 * b" using b(2) by (simp only: mult.commute mult_le_mono1)
  from fround_below [OF b(3) one this] have "fround False (a * 2 ^ 1074) b = Fin (int (rnat (a * 2 ^ 1074) b))"
    "rnat (a * 2 ^ 1074) b \<le> 2 ^ 1074" by (simp_all add: pos_units_def)
  ultimately show ?thesis by metis
qed

lemma pos_units_part:
  assumes "pos_units x a" "y = Fin (int c)" "c \<le> 2 ^ 1074"
  shows "x * y = Fin (int (rnat (a * c) (2 ^ 1074))) \<and> rnat (a * c) (2 ^ 1074) \<le> a"
proof -
  have "x * y = fround False (a * c) (2 ^ 1074)"
    using assms(1,2) by (auto simp: pos_units_def times_f64_def f64_mul_def f64_finite_def Let_def)
  moreover have "a * c \<le> a * 2 ^ 1074" using assms(3) by (rule mult_le_mono2)
  from fround_below [OF _ assms(1) this] have "fround False (a * c) (2 ^ 1074) = Fin (int (rnat (a * c) (2 ^ 1074)))"
    "rnat (a * c) (2 ^ 1074) \<le> a" by (simp_all add: pos_units_def)
  ultimately show ?thesis by simp
qed

end
