(* ===== verification/Equal_Float.thy ===== *)
theory Equal_Float
  imports Equal_Dispatcher Go_Float64
begin

text \<open>
  \<open>EqualDispatcher\<close> (\<open>core/dispatch/dispatcher.go\<close>) read at binary64, the arithmetic the program runs with.
  The facts of \<open>Equal_Dispatcher\<close> are at exact arithmetic; here every operation rounds. The spare capacity
  \<open>MaxPower - assignment\<close> can be rounded up, and adding it can pass the limit of the vehicle, but by no more
  than one unit in the last place.
\<close>

subsection \<open>One vehicle\<close>

lemma f64_fin_less [simp]: "Fin a < Fin b \<longleftrightarrow> a < b" "Fin a \<le> Fin b \<longleftrightarrow> a \<le> b" "(0::f64) < Fin b \<longleftrightarrow> 0 < b"
  by (simp_all add: f64_defs f64_less_def f64_le_def)

text \<open>The limits of a vehicle in units: from zero to the float after \<open>MaxPower\<close>.\<close>

definition in_limits :: "int \<Rightarrow> f64 \<Rightarrow> bool" where
  "in_limits M x \<longleftrightarrow> (\<exists>k. x = Fin k \<and> 0 \<le> k \<and> k \<le> M + int (ulp (nat M)))"

definition limit_ok :: "f64 Vehicle \<Rightarrow> int \<Rightarrow> bool" where
  "limit_ok v M \<longleftrightarrow> MaxPower v = Fin M \<and> wf_f64 (Fin M) \<and> 0 \<le> M \<and> M < 2 ^ 2097"

text \<open>A share: no NaN and not negative.\<close>

definition share_ok :: "f64 \<Rightarrow> bool" where
  "share_ok x \<longleftrightarrow> x = PInf \<or> (\<exists>k. x = Fin k \<and> 0 \<le> k)"

lemma limit_next:
  assumes "limit_ok v M"
  shows "M + int (ulp (nat M)) < 2 ^ 2098" "representable (nat (M + int (ulp (nat M))))"
proof -
  have "ulp (nat M) \<le> nat M \<or> ulp (nat M) = 1" using ulp_le [of "nat M"] by (cases "M = 0") (auto simp: ulp_def floorlog_def limit_ok_def)
  then have "M + int (ulp (nat M)) \<le> 2 * M + 1" using assms by (auto simp: limit_ok_def)
  moreover have "2 * M + 2 \<le> 2 * 2 ^ 2097" using assms by (simp add: limit_ok_def)
  moreover have "(2::int) * 2 ^ 2097 = 2 ^ 2098" by (simp only: power_Suc [symmetric]) simp
  ultimately show "M + int (ulp (nat M)) < 2 ^ 2098" by linarith
  show "representable (nat (M + int (ulp (nat M))))"
    using representable_next [of "nat M"] assms by (auto simp: limit_ok_def nat_add_distrib)
qed

text \<open>What a round adds to an assignment keeps it within the limits.\<close>

lemma raise_within:
  assumes "limit_ok v M" "0 \<le> a" "a < M" "share_ok share"
  defines "c \<equiv> MaxPower v - Fin a"
  shows "\<not> c \<le> 0" "in_limits M (Fin a + (if c < share then c else share))" "\<exists>b. (if c < share then c else share) = Fin b"
proof -
  let ?n = "nat (M - a)" and ?c = "int (rnat (nat (M - a)) 1)"
  have M: "MaxPower v = Fin M" "0 \<le> M" using assms(1) by (simp_all add: limit_ok_def)
  have "rnat ?n 1 \<le> ?n + ulp (nat M)"
    using rnat_le_ulp [of ?n] ulp_mono [of ?n "nat M"] assms(2) by linarith
  then have c: "?c \<le> M - a + int (ulp (nat M))" using assms(3) by linarith
  then have "?c < 2 ^ 2098" using limit_next(1) [OF assms(1)] assms(2) by linarith
  then have c_eq: "c = Fin ?c" unfolding c_def M(1) by (intro f64_sub_units assms(2,3))
  have "1 \<le> rnat ?n 1" using assms(3) representable_small [of 1] by (intro rnat_lower) auto
  then show "\<not> c \<le> 0" by (simp add: c_eq zero_f64_def)
  obtain b where b: "(if c < share then c else share) = Fin b" "0 \<le> b" "b \<le> ?c"
  proof (cases "c < share")
    case True
    then show ?thesis using that [of ?c] c_eq by simp
  next
    case False
    then obtain k where "share = Fin k" "0 \<le> k" using assms(4) by (auto simp: share_ok_def c_eq less_f64_def f64_less_def)
    then show ?thesis using that [of k] False c_eq by simp
  qed
  have "rnat (nat (a + b)) 1 \<le> nat (M + int (ulp (nat M)))"
    by (rule rnat_upper) (use limit_next(2) [OF assms(1)] b c assms(2) in auto)
  then have r: "int (rnat (nat (a + b)) 1) \<le> M + int (ulp (nat M))" using M(2) by linarith
  then have "Fin a + Fin b = Fin (int (rnat (nat (a + b)) 1))"
    using limit_next(1) [OF assms(1)] by (intro f64_add_units assms(2) b(2)) simp
  with r show "in_limits M (Fin a + (if c < share then c else share))" by (simp add: b(1) in_limits_def)
  show "\<exists>b. (if c < share then c else share) = Fin b" using b(1) by blast
qed

lemma equal_first_length: "length (snd (snd (equal_first share vs asn r))) \<le> length vs"
  by (induction vs arbitrary: asn r) (auto simp: Let_def case_prod_unfold le_SucI)

subsection \<open>The rounds\<close>

lemma share_ok_div:
  assumes "0 < n" "n < 2 ^ 53" "r = PInf \<or> (\<exists>k. r = Fin k \<and> 0 \<le> k)"
  shows "share_ok (r / num n)"
  using assms(3) unfolding f64_num [OF assms(2)] share_ok_def
  by (elim disjE exE)
    (use assms(1) in \<open>auto simp: divide_f64_def f64_div_def f64_finite_def f64_inf_def fround_def Let_def\<close>)

abbreviation units :: "f64 Vehicle \<Rightarrow> int" where
  "units v \<equiv> f64_units (MaxPower v)"

definition limits :: "(string \<rightharpoonup> f64) \<Rightarrow> f64 Vehicle list \<Rightarrow> bool" where
  "limits asn vs \<longleftrightarrow> (\<forall>v\<in>set vs. \<exists>x. asn (ID v) = Some x \<and> in_limits (units v) x)"

lemma spare_nonpos:
  assumes "0 \<le> M" "M \<le> a"
  shows "Fin M - Fin a \<le> 0"
proof -
  have "Fin M + f64_neg (Fin a) = Fin 0 \<or> f64_sign (Fin M + f64_neg (Fin a))"
    using assms by (cases "M = a") (auto simp: plus_f64_def f64_add_def fround_def Let_def)
  then show ?thesis by (cases "Fin M + f64_neg (Fin a)") (auto simp: f64_defs f64_le_def)
qed

lemma limits_upd:
  assumes "limits asn vs" "v \<in> set vs" "inj_on ID (set vs)" "in_limits (units v) x"
  shows "limits (asn(ID v \<mapsto> x)) vs"
  unfolding limits_def
proof
  fix w assume w: "w \<in> set vs"
  show "\<exists>y. (asn(ID v \<mapsto> x)) (ID w) = Some y \<and> in_limits (units w) y"
  proof (cases "ID w = ID v")
    case True
    then have "w = v" using inj_onD [OF assms(3)] w assms(2) by blast
    then show ?thesis using assms(4) by simp
  next
    case False
    then show ?thesis using assms(1) w by (simp add: limits_def)
  qed
qed

lemma equal_first_limits:
  assumes "share_ok share" "\<forall>v\<in>set vs. limit_ok v (units v)" "distinct (map ID vs)" "r \<noteq> NaN"
    and "equal_first share vs asn r = (asn', r', need)"
  shows "limits asn' vs \<and> r' \<noteq> NaN \<and> (\<forall>i. i \<notin> ID ` set vs \<longrightarrow> asn' i = asn i)"
  using assms(2-5)
proof (induction vs arbitrary: asn r need)
  case (Cons v vs)
  let ?amount = "if MaxPower v < share then MaxPower v else share"
  obtain M where M: "MaxPower v = Fin M" "0 \<le> M" using Cons.prems(1) unfolding limit_ok_def by (metis f64_units.simps(1) list.set_intros(1))
  have "\<exists>k. ?amount = Fin k \<and> 0 \<le> k \<and> k \<le> units v"
    using assms(1) M by (cases "MaxPower v < share") (auto simp: share_ok_def less_f64_def f64_less_def)
  then obtain k where k: "?amount = Fin k" "0 \<le> k" "k \<le> units v" by blast
  obtain need' where rest: "equal_first share vs (asn(ID v \<mapsto> ?amount)) (r - ?amount) = (asn', r', need')"
    using Cons.prems(4) by (auto simp: Let_def split: prod.splits)
  have ne: "r - ?amount \<noteq> NaN" unfolding k(1) by (rule f64_sub_fin [OF Cons.prems(3)])
  have IH: "limits asn' vs \<and> r' \<noteq> NaN \<and> (\<forall>i. i \<notin> ID ` set vs \<longrightarrow> asn' i = (asn(ID v \<mapsto> ?amount)) i)"
    by (rule Cons.IH [OF _ _ ne rest]) (use Cons.prems in auto)
  have "asn' (ID v) = Some (Fin k)" using IH Cons.prems(2) k(1) by auto
  moreover have "in_limits (units v) (Fin k)" using k by (simp add: in_limits_def)
  ultimately show ?case using IH by (auto simp: limits_def)
qed (simp add: limits_def)

lemma equal_round_limits:
  assumes "share_ok share" "\<forall>v\<in>set vs. limit_ok v (units v)" "inj_on ID (set vs)"
    and "equal_round share need asn r = (asn', r', nxt)" "set need \<subseteq> set vs" "limits asn vs" "r \<noteq> NaN"
  shows "limits asn' vs \<and> r' \<noteq> NaN"
  using assms(4-7)
proof (induction need arbitrary: asn r nxt)
  case (Cons v need)
  have v: "v \<in> set vs" using Cons.prems(2) by simp
  have M: "limit_ok v (units v)" using assms(2) v by blast
  obtain a where a: "asn (ID v) = Some (Fin a)" "0 \<le> a" using Cons.prems(3) v by (auto simp: limits_def in_limits_def)
  let ?c = "MaxPower v - Fin a" and ?add = "if MaxPower v - Fin a < share then MaxPower v - Fin a else share"
  show ?case
  proof (cases "?c \<le> 0")
    case True
    then show ?thesis using Cons.IH [of asn r nxt] Cons.prems a(1) by (simp add: Let_def)
  next
    case False
    have "a < units v" using False spare_nonpos M a(2) unfolding limit_ok_def by (metis linorder_not_less)
    note up = raise_within [OF M a(2) this assms(1)]
    obtain b where b: "?add = Fin b" using up(3) by blast
    let ?asn = "asn(ID v \<mapsto> Fin a + ?add)"
    obtain nxt' where rest: "equal_round share need ?asn (r - ?add) = (asn', r', nxt')"
      using Cons.prems(1) False a(1) by (auto simp: Let_def split: prod.splits)
    have "set need \<subseteq> set vs" using Cons.prems(2) by simp
    moreover have "limits ?asn vs"
      by (rule limits_upd [OF Cons.prems(3) v assms(3) up(2)])
    moreover have "r - ?add \<noteq> NaN" unfolding b by (rule f64_sub_fin [OF Cons.prems(4)])
    ultimately show ?thesis by (rule Cons.IH [OF rest])
  qed
qed simp

lemma equal_loop_limits:
  assumes "\<forall>v\<in>set vs. limit_ok v (units v)" "inj_on ID (set vs)"
    and "set need \<subseteq> set vs" "length need < 2 ^ 53" "limits asn vs" "r \<noteq> NaN"
  shows "limits (equal_loop need asn r) vs"
  using assms(3-6)
proof (induction need asn r rule: equal_loop.induct)
  case (1 need asn r)
  let ?share = "r / num (length need)"
  obtain asn' r' nxt where eq: "equal_round ?share need asn r = (asn', r', nxt)" by (metis prod_cases3)
  show ?case
  proof (cases "0 < r \<and> need \<noteq> []")
    case True
    then have "r = PInf \<or> (\<exists>k. r = Fin k \<and> 0 \<le> k)" by (cases r) (auto simp: f64_defs f64_less_def)
    then have sh: "share_ok ?share" using True "1.prems"(2) by (intro share_ok_div) auto
    have step: "limits asn' vs \<and> r' \<noteq> NaN"
      by (rule equal_round_limits [OF sh assms(1,2) eq "1.prems"(1,3,4)])
    have "set nxt \<subseteq> set need" "length nxt \<le> length need"
      using equal_round_next [of ?share need asn r] equal_round_length [of ?share need asn r] eq by auto
    then have "limits (equal_loop nxt asn' r') vs" if "length nxt \<noteq> length need"
      using "1.IH" [OF True eq [symmetric] refl that] step "1.prems" by force
    with step True eq show ?thesis by (simp add: equal_loop.simps [of need asn r])
  qed (use "1.prems" in \<open>auto simp: equal_loop.simps [of need asn r]\<close>)
qed

subsection \<open>The dispatch\<close>

text \<open>Requests that give power: finite and not negative.\<close>

definition request_ok :: "f64 \<Rightarrow> bool" where
  "request_ok x \<longleftrightarrow> (\<exists>k. x = Fin k \<and> 0 \<le> k)"

text \<open>
  C12. The limits hold in the arithmetic of the program. At binary64, with every operation rounded, the equal
  dispatcher assigns to each vehicle a finite power that is not negative and that passes \<open>MaxPower\<close> by at most
  one unit in the last place, for every fleet of fewer than \<open>2 ^ 53\<close> vehicles with limits below \<open>2 ^ 1023\<close> kW
  and every finite request for power, however many rounds are run and whatever is lost by rounding.
\<close>

theorem equal_dispatch_float_limits:
  assumes "distinct (map ID vs)" "length vs < 2 ^ 53" "\<forall>v\<in>set vs. limit_ok v (f64_units (MaxPower v))"
    and "request_ok (PowerKW s)" "v \<in> set vs"
  shows "\<exists>k M. EqualDispatcher_Dispatch vs s (ID v) = Some (Fin k) \<and> MaxPower v = Fin M \<and>
    0 \<le> k \<and> k \<le> M + int (ulp (nat M))"
proof -
  let ?share = "PowerKW s / num (length vs)"
  have ne: "vs \<noteq> []" using assms(5) by auto
  obtain asn r need where eq: "equal_first ?share vs Map.empty (PowerKW s) = (asn, r, need)" by (metis prod_cases3)
  have p: "PowerKW s = PInf \<or> (\<exists>k. PowerKW s = Fin k \<and> 0 \<le> k)" "PowerKW s \<noteq> NaN" using assms(4) by (auto simp: request_ok_def)
  have sh: "share_ok ?share" using ne assms(2) p(1) by (intro share_ok_div) auto
  have first: "limits asn vs" "r \<noteq> NaN" using equal_first_limits [OF sh assms(3,1) p(2) eq] by simp_all
  have need: "set need \<subseteq> set vs" "length need \<le> length vs"
    using equal_first_need [of ?share vs Map.empty "PowerKW s"] equal_first_length [of ?share vs Map.empty "PowerKW s"] eq by auto
  have "inj_on ID (set vs)" using assms(1) by (simp add: distinct_map)
  then have "limits (equal_loop need asn r) vs"
    by (rule equal_loop_limits [OF assms(3) _ need(1) _ first]) (use need(2) assms(2) in simp)
  moreover have "EqualDispatcher_Dispatch vs s = equal_loop need asn r"
    using ne eq by (simp add: EqualDispatcher_Dispatch_def Let_def)
  moreover obtain M where "MaxPower v = Fin M" using assms(3,5) unfolding limit_ok_def by blast
  ultimately show ?thesis using assms(5) by (auto simp: limits_def in_limits_def)
qed

subsection \<open>The bound is reached\<close>

text \<open>
  Three vehicles without power and one of little more than 24 kW, \<open>(3 * 2 ^ 52 + 2) * 2 ^ 1025\<close> units: its
  spare capacity after the first loop lies halfway between two floats and is rounded up, and so is the sum.
\<close>

definition step :: nat where "step = 2 ^ 1025"

definition float_vehicle :: "string \<Rightarrow> int \<Rightarrow> f64 Vehicle" where
  "float_vehicle i k = zeroVehicle\<lparr>ID := i, Available := True, MaxPower := Fin (k * int step)\<rparr>"

definition float_fleet :: "f64 Vehicle list" where
  "float_fleet = [float_vehicle ''v1'' 0, float_vehicle ''v2'' 0, float_vehicle ''v3'' 0, float_vehicle ''v4'' (3 * 2 ^ 52 + 2)]"

definition float_signal :: "f64 FlexibilitySignal" where
  "float_signal = \<lparr>SigType = SignalMA, PowerKW = Fin ((3 * 2 ^ 52 + 12) * int step), SigDuration = Hour, Timestamp = timeZero\<rparr>"

lemma rnat_scale:
  assumes "53 \<le> floorlog 2 m"
  shows "rnat (m * 2 ^ e) 1 = rnat m 1 * 2 ^ e"
proof -
  have fl: "floorlog 2 (m * 2 ^ e) = floorlog 2 m + e"
    using assms floorlog_power [of m 2 e] by (cases "m = 0") (auto simp: floorlog_def)
  define g where "g = (2::nat) ^ (floorlog 2 m - 53)"
  have g: "2 ^ (floorlog 2 m + e - 53) = g * 2 ^ e" using assms by (simp add: g_def flip: power_add)
  have "m * 2 ^ e mod (g * 2 ^ e) = m mod g * 2 ^ e" by simp
  then show ?thesis
    unfolding rnat_def Let_def by (simp add: fl g g_def [symmetric])
qed

text \<open>Numbers of 54 bits: the even ones are floats, an odd one is halfway between two.\<close>

lemma rnat_54:
  assumes "2 ^ 53 \<le> m" "m < 2 ^ 54"
  shows "rnat (m * step) 1 = (if even m then m else if odd (m div 2) then m + 1 else m - 1) * step"
proof -
  have fl: "floorlog 2 m = 54"
    using assms floorlog_le_iff [of 2 m 54] floorlog_geI [of 2 54 m] by simp
  have "rnat m 1 = (if even m then m else if odd (m div 2) then m + 1 else m - 1)"
    unfolding rnat_def Let_def div_by_1 fl by (auto elim!: oddE)
  then show ?thesis using rnat_scale [of m 1025] fl by (simp add: step_def)
qed

lemma step_bound: "k < 2 ^ 56 \<Longrightarrow> int k * int step < 2 ^ 2098"
proof -
  assume k: "k < 2 ^ 56"
  have "int k * int step < 2 ^ 56 * 2 ^ 1025" using k by (intro mult_less_le_imp_less) (auto simp: step_def)
  also have "\<dots> = (2::int) ^ 1081" by (simp only: power_add [symmetric]) simp
  also have "\<dots> \<le> 2 ^ 2098" by (intro power_increasing) auto
  finally show ?thesis .
qed

lemma wf_step:
  assumes "m < 2 ^ 53"
  shows "wf_f64 (Fin (int m * int step))" "wf_f64 (Fin (int (2 * m) * int step))"
proof -
  have one: "int m * int step = int m * 2 ^ 1025" and two: "int (2 * m) * int step = int m * 2 ^ 1026"
    by (simp_all add: step_def)
  show "wf_f64 (Fin (int m * int step))" unfolding one by (rule wf_shift [OF assms]) simp
  show "wf_f64 (Fin (int (2 * m) * int step))" unfolding two by (rule wf_shift [OF assms]) simp
qed

lemma step_add:
  assumes "rnat ((a + b) * step) 1 = c * step" "c < 2 ^ 56"
  shows "Fin (int a * int step) + Fin (int b * int step) = Fin (int c * int step)"
proof -
  have n: "nat (int a * int step + int b * int step) = (a + b) * step" by (simp add: nat_add_distrib nat_mult_distrib algebra_simps)
  then show ?thesis using assms step_bound [OF assms(2)] by (subst f64_add_units) simp_all
qed

lemma step_sub:
  assumes "rnat ((a - b) * step) 1 = c * step" "c < 2 ^ 56" "b < a"
  shows "Fin (int a * int step) - Fin (int b * int step) = Fin (int c * int step)"
proof -
  have "int a * int step - int b * int step = int ((a - b) * step)" using assms(3) by (simp add: of_nat_diff algebra_simps)
  then have n: "nat (int a * int step - int b * int step) = (a - b) * step" by (metis nat_int)
  have "int b * int step < int a * int step" using assms(3) by (simp add: step_def)
  then show ?thesis using assms step_bound [OF assms(2)] n by (subst f64_sub_units) simp_all
qed

lemma step_pos: "0 < int step"
  by (simp add: step_def)

lemma float_facts:
  defines "x \<equiv> (3 * 2 ^ 50 + 3) * int step" and "y \<equiv> (9 * 2 ^ 50 + 8) * int step"
  shows "Fin ((3 * 2 ^ 52 + 12) * int step) / num 4 = Fin x"
    and "Fin ((3 * 2 ^ 52 + 12) * int step) - Fin 0 = Fin ((3 * 2 ^ 52 + 12) * int step)"
    and "Fin ((3 * 2 ^ 52 + 12) * int step) - Fin x = Fin y"
    and "Fin ((3 * 2 ^ 52 + 2) * int step) - Fin x = Fin (9 * 2 ^ 50 * int step)"
    and "Fin x + Fin (9 * 2 ^ 50 * int step) = Fin ((3 * 2 ^ 52 + 4) * int step)"
    and "Fin y / num 1 = Fin y"
proof -
  show "Fin ((3 * 2 ^ 52 + 12) * int step) / num 4 = Fin x"
    unfolding f64_num [of 4, simplified] x_def
    by (rule f64_div_pos) (use wf_step(1) [of "3 * 2 ^ 50 + 3"] step_pos in \<open>simp_all del: power_numeral_even power_numeral_odd\<close>)
  show "Fin ((3 * 2 ^ 52 + 12) * int step) - Fin 0 = Fin ((3 * 2 ^ 52 + 12) * int step)"
    by (rule f64_sub_zero) (use wf_step(2) [of "3 * 2 ^ 51 + 6"] step_pos in simp_all)
  show "Fin ((3 * 2 ^ 52 + 12) * int step) - Fin x = Fin y"
    using step_sub [of "3 * 2 ^ 52 + 12" "3 * 2 ^ 50 + 3" "9 * 2 ^ 50 + 8"] rnat_54 [of "9 * 2 ^ 50 + 9"] by (simp add: x_def y_def)
  show "Fin ((3 * 2 ^ 52 + 2) * int step) - Fin x = Fin (9 * 2 ^ 50 * int step)"
    using step_sub [of "3 * 2 ^ 52 + 2" "3 * 2 ^ 50 + 3" "9 * 2 ^ 50"] rnat_54 [of "9 * 2 ^ 50 - 1"] by (simp add: x_def)
  show "Fin x + Fin (9 * 2 ^ 50 * int step) = Fin ((3 * 2 ^ 52 + 4) * int step)"
    using step_add [of "3 * 2 ^ 50 + 3" "9 * 2 ^ 50" "3 * 2 ^ 52 + 4"] rnat_54 [of "3 * 2 ^ 52 + 3"] by (simp add: x_def)
  show "Fin y / num 1 = Fin y"
    unfolding f64_one y_def
    by (rule f64_div_pos) (use wf_step(2) [of "9 * 2 ^ 49 + 4"] step_pos in simp_all)
qed

text \<open>
  The one unit is real: at binary64 a vehicle of little more than 24 kW is ordered one unit in the last place
  more than its \<open>MaxPower\<close>.
\<close>

theorem equal_dispatch_float_overshoots:
  "EqualDispatcher_Dispatch float_fleet float_signal ''v4'' = Some (Fin ((3 * 2 ^ 52 + 4) * int step))"
  "MaxPower (float_vehicle ''v4'' (3 * 2 ^ 52 + 2)) = Fin ((3 * 2 ^ 52 + 2) * int step)"
proof -
  define P x y c M where "P = (3 * 2 ^ 52 + 12) * int step" and "x = (3 * 2 ^ 50 + 3) * int step"
    and "y = (9 * 2 ^ 50 + 8) * int step" and "c = 9 * 2 ^ 50 * int step" and "M = (3 * 2 ^ 52 + 2) * int step"
  note f = float_facts [folded P_def x_def y_def c_def M_def]
  have ord: "0 < x" "x \<le> M" "0 < y" "0 < c" "c < y" "M \<le> (3 * 2 ^ 52 + 4) * int step"
    using step_pos by (simp_all add: x_def y_def c_def M_def)
  let ?z = "\<lambda>i. float_vehicle i 0" and ?v = "float_vehicle ''v4'' (3 * 2 ^ 52 + 2)"
  have v: "ID (float_vehicle i k) = i" "MaxPower (float_vehicle i k) = Fin (k * int step)" for i k by (simp_all add: float_vehicle_def)
  have v4: "MaxPower ?v = Fin M" and v0: "MaxPower (?z i) = Fin 0" for i by (simp_all add: v M_def)
  let ?asn = "[''v1'' \<mapsto> Fin 0, ''v2'' \<mapsto> Fin 0, ''v3'' \<mapsto> Fin 0, ''v4'' \<mapsto> Fin x]"
  have first: "equal_first (Fin x) float_fleet Map.empty (Fin P) = (?asn, Fin y, [?v])"
    using f ord by (simp add: float_fleet_def v(1) v0 v4 [simplified] Let_def del: mult_numeral_left)
  have round: "equal_round (Fin y) [?v] ?asn (Fin y) = (?asn(''v4'' \<mapsto> Fin ((3 * 2 ^ 52 + 4) * int step)), Fin y - Fin c, [])"
    using f ord by (simp add: v(1) v4 [simplified] zero_f64_def Let_def del: mult_numeral_left)
  have "equal_loop [?v] ?asn (Fin y) = ?asn(''v4'' \<mapsto> Fin ((3 * 2 ^ 52 + 4) * int step))"
    using f(6) ord(3) round by (simp add: equal_loop.simps [of "[_]"] equal_loop.simps [of "[]"] del: equal_round.simps)
  moreover have "float_fleet \<noteq> []" "length float_fleet = 4" "PowerKW float_signal = Fin P"
    by (simp_all add: float_fleet_def float_signal_def P_def)
  ultimately show "EqualDispatcher_Dispatch float_fleet float_signal ''v4'' = Some (Fin ((3 * 2 ^ 52 + 4) * int step))"
    using first f(1) by (simp add: EqualDispatcher_Dispatch_def Let_def)
  show "MaxPower ?v = Fin ((3 * 2 ^ 52 + 2) * int step)" by (simp add: v)
qed

lemma float_fleet_ok:
  "distinct (map ID float_fleet)" "\<forall>v\<in>set float_fleet. limit_ok v (f64_units (MaxPower v))" "request_ok (PowerKW float_signal)"
proof -
  show "distinct (map ID float_fleet)" by (simp add: float_fleet_def float_vehicle_def)
  have "(3 * 2 ^ 52 + 2) * int step < 2 ^ 2097"
  proof -
    have "(3 * 2 ^ 52 + 2) * int step < 2 ^ 56 * 2 ^ 1025" by (simp add: step_def)
    also have "\<dots> = (2::int) ^ 1081" by (simp only: power_add [symmetric]) simp
    also have "\<dots> \<le> 2 ^ 2097" by (intro power_increasing) auto
    finally show ?thesis .
  qed
  moreover have "wf_f64 (Fin ((3 * 2 ^ 52 + 2) * int step))" "wf_f64 (Fin (0 * int step))"
    using wf_step(2) [of "3 * 2 ^ 51 + 1"] wf_step(1) [of 0] by simp_all
  ultimately show "\<forall>v\<in>set float_fleet. limit_ok v (f64_units (MaxPower v))"
    using step_pos by (simp add: float_fleet_def float_vehicle_def limit_ok_def)
  show "request_ok (PowerKW float_signal)" using step_pos by (simp add: request_ok_def float_signal_def)
qed

theorem equal_dispatch_float_limits_witness:
  "\<exists>k M. EqualDispatcher_Dispatch float_fleet float_signal ''v4'' = Some (Fin k) \<and>
     MaxPower (float_vehicle ''v4'' (3 * 2 ^ 52 + 2)) = Fin M \<and> 0 \<le> k \<and> k \<le> M + int (ulp (nat M))"
proof -
  have "length float_fleet < 2 ^ 53" "float_vehicle ''v4'' (3 * 2 ^ 52 + 2) \<in> set float_fleet" "ID (float_vehicle ''v4'' (3 * 2 ^ 52 + 2)) = ''v4''"
    by (simp_all add: float_fleet_def float_vehicle_def)
  with equal_dispatch_float_limits [OF float_fleet_ok(1) _ float_fleet_ok(2,3)] show ?thesis by metis
qed

end
