(* ===== verification/Fallback.thy ===== *)
theory Fallback
  imports Dispatch_Helpers
begin

text \<open>
  The fallback strategies: \<open>NoopFallback\<close> (\<open>core/dispatch/fallback.go\<close>), \<open>BalancedFallback\<close>
  (\<open>balanced_fallback.go\<close>) and \<open>ProbabilisticFallback\<close> (\<open>probabilistic_fallback.go\<close>) with
  the allocation loop \<open>allocatePower\<close> they share. The loop has no bound in the source: it is
  a \<^theory_text>\<open>partial_function\<close> into \<open>option\<close>, where \<^term>\<open>None\<close> is a loop that never ends.
  Log calls have no effect on the result and are left out; the mutex of \<open>BalancedFallback\<close>
  makes each method one step.
\<close>

subsection \<open>NoopFallback (core/dispatch/fallback.go)\<close>

definition NoopFallback_Reallocate ::
  "'n Vehicle list \<Rightarrow> (string \<rightharpoonup> 'n) \<Rightarrow> 'n FlexibilitySignal \<Rightarrow> (string \<rightharpoonup> 'n)" where
  "NoopFallback_Reallocate failed current signal = current"

subsection \<open>The allocation loop (core/dispatch/balanced_fallback.go)\<close>

record 'n alloc =
  alloc_id :: string
  alloc_cap :: 'n

text \<open>
  One pass over \<open>avail\<close>, lines 115 to 128. \<open>next := avail[:0]\<close> filters in place. The share
  is taken from the power that remains at that point of the pass, while \<open>totalCap\<close> is the
  one of the start of the pass.
\<close>

fun allocate_round ::
  "'n::{zero,plus,minus,times,inverse,ord} \<Rightarrow> 'n \<Rightarrow> 'n alloc list \<Rightarrow> (string \<rightharpoonup> 'n) \<Rightarrow> 'n
    \<Rightarrow> (string \<rightharpoonup> 'n) \<times> 'n \<times> 'n alloc list" where
  "allocate_round totalCap sign [] res remaining = (res, remaining, [])"
| "allocate_round totalCap sign (a # as) res remaining =
     (let share0 = remaining * (alloc_cap a / totalCap);
          share = (if alloc_cap a < share0 then alloc_cap a else share0);
          res' = res(alloc_id a \<mapsto> getd 0 res (alloc_id a) + sign * share);
          a' = a\<lparr>alloc_cap := alloc_cap a - share\<rparr>;
          (res'', remaining'', nxt) = allocate_round totalCap sign as res' (remaining - share)
      in (res'', remaining'', if 0 < alloc_cap a' then a' # nxt else nxt))"

partial_function (option) allocatePower ::
  "'n::{zero,plus,minus,times,inverse,ord} alloc list \<Rightarrow> (string \<rightharpoonup> 'n) \<Rightarrow> 'n \<Rightarrow> 'n
    \<Rightarrow> ((string \<rightharpoonup> 'n) \<times> 'n) option" where
  "allocatePower avail res remaining sign =
     (if 0 < remaining \<and> avail \<noteq> []
      then (let totalCap = fsum alloc_cap avail in
            if feq totalCap 0 then Some (res, remaining)
            else (case allocate_round totalCap sign avail res remaining of
                    (res', remaining', nxt) \<Rightarrow> allocatePower nxt res' remaining' sign))
      else Some (res, remaining))"

subsection \<open>BalancedFallback (core/dispatch/balanced_fallback.go)\<close>

type_synonym 'n fallback_vehicles = "string \<rightharpoonup> 'n Vehicle"

definition NewBalancedFallback :: "'n fallback_vehicles" where
  "NewBalancedFallback = Map.empty"

text \<open>A later vehicle with the same ID overwrites an earlier one.\<close>

definition Balanced_SetVehicles ::
  "'n fallback_vehicles \<Rightarrow> 'n Vehicle list \<Rightarrow> 'n fallback_vehicles" where
  "Balanced_SetVehicles b vs = foldl (\<lambda>m v. m(ID v \<mapsto> v)) Map.empty vs"

fun Balanced_availableCapacity ::
  "'n::{zero,one,plus,minus,times,inverse,ord} fallback_vehicles \<Rightarrow> string list \<Rightarrow> string set
    \<Rightarrow> (string \<rightharpoonup> 'n) \<Rightarrow> 'n alloc list" where
  "Balanced_availableCapacity b [] failed res = []"
| "Balanced_availableCapacity b (i # ids) failed res =
     (let rest = Balanced_availableCapacity b ids failed res in
      if i \<in> failed then rest
      else let cap = (case b i of None \<Rightarrow> 0 | Some veh \<Rightarrow> EffectiveCapacity veh (getd 0 res i))
           in if 0 < cap then \<lparr>alloc_id = i, alloc_cap = cap\<rparr> # rest else rest)"

text \<open>The loop over the failed vehicles, lines 54 to 58: residual power and zeroed entries.\<close>

fun collect_failed ::
  "'n::{zero,plus,uminus,ord} Vehicle list \<Rightarrow> (string \<rightharpoonup> 'n) \<Rightarrow> 'n \<Rightarrow> (string \<rightharpoonup> 'n) \<times> 'n" where
  "collect_failed [] res residual = (res, residual)"
| "collect_failed (v # vs) res residual =
     collect_failed vs (res(ID v \<mapsto> 0)) (residual + mathAbs (getd 0 res (ID v)))"

definition signalSign :: "'n::{zero,one,uminus,ord} FlexibilitySignal \<Rightarrow> 'n" where
  "signalSign signal = (if PowerKW signal < 0 then - 1 else 1)"

text \<open>\<open>ids\<close> is the order in which \<open>range current\<close> yields the keys.\<close>

definition Balanced_Reallocate ::
  "'n::{zero,one,plus,minus,uminus,times,inverse,ord} fallback_vehicles \<Rightarrow> string list
    \<Rightarrow> 'n Vehicle list \<Rightarrow> (string \<rightharpoonup> 'n) \<Rightarrow> 'n FlexibilitySignal \<Rightarrow> (string \<rightharpoonup> 'n) option" where
  "Balanced_Reallocate b ids failed current signal =
     (if failed = [] then Some current
      else let (res, residual) = collect_failed failed current 0 in
           if feq residual 0 then Some res
           else let avail = Balanced_availableCapacity b ids (ID ` set failed) res
                in map_option fst (allocatePower avail res residual (signalSign signal)))"

text \<open>
  The state after at most \<open>n\<close> passes of the loop: the allocations that are left, the assignments and the
  power still to place. The loop ends when \<open>alloc_done\<close> holds.
\<close>

definition alloc_done :: "'n::{zero,plus,ord} alloc list \<Rightarrow> 'n \<Rightarrow> bool" where
  "alloc_done avail remaining \<longleftrightarrow> \<not> 0 < remaining \<or> avail = [] \<or> feq (fsum alloc_cap avail) 0"

fun alloc_passes ::
  "nat \<Rightarrow> 'n::{zero,plus,minus,times,inverse,ord} alloc list \<Rightarrow> (string \<rightharpoonup> 'n) \<Rightarrow> 'n \<Rightarrow> 'n
    \<Rightarrow> 'n alloc list \<times> (string \<rightharpoonup> 'n) \<times> 'n" where
  "alloc_passes 0 avail res remaining sign = (avail, res, remaining)"
| "alloc_passes (Suc n) avail res remaining sign =
     (if alloc_done avail remaining then (avail, res, remaining)
      else case allocate_round (fsum alloc_cap avail) sign avail res remaining of
             (res', remaining', nxt) \<Rightarrow> alloc_passes n nxt res' remaining' sign)"

text \<open>What a reallocation has made of the assignments after at most \<open>n\<close> passes, and the power still to place.\<close>

definition Balanced_passes ::
  "nat \<Rightarrow> 'n::{zero,one,plus,minus,uminus,times,inverse,ord} fallback_vehicles \<Rightarrow> string list
    \<Rightarrow> 'n Vehicle list \<Rightarrow> (string \<rightharpoonup> 'n) \<Rightarrow> 'n FlexibilitySignal \<Rightarrow> (string \<rightharpoonup> 'n) \<times> 'n" where
  "Balanced_passes n b ids failed current signal =
     (let (res, residual) = collect_failed failed current 0;
          avail = Balanced_availableCapacity b ids (ID ` set failed) res
      in snd (alloc_passes n avail res residual (signalSign signal)))"

subsection \<open>ProbabilisticFallback (core/dispatch/probabilistic_fallback.go)\<close>

definition NewProbabilisticFallback :: "'n fallback_vehicles" where
  "NewProbabilisticFallback = Map.empty"

definition Probabilistic_SetVehicles ::
  "'n fallback_vehicles \<Rightarrow> 'n Vehicle list \<Rightarrow> 'n fallback_vehicles" where
  "Probabilistic_SetVehicles p vs = foldl (\<lambda>m v. m(ID v \<mapsto> v)) Map.empty vs"

fun Probabilistic_availableCapacity ::
  "'n::{zero,one,plus,minus,times,inverse,ord} fallback_vehicles \<Rightarrow> string list \<Rightarrow> string set
    \<Rightarrow> (string \<rightharpoonup> 'n) \<Rightarrow> 'n alloc list" where
  "Probabilistic_availableCapacity p [] failed res = []"
| "Probabilistic_availableCapacity p (i # ids) failed res =
     (let rest = Probabilistic_availableCapacity p ids failed res in
      if i \<in> failed then rest
      else case p i of
             None \<Rightarrow> rest
           | Some veh \<Rightarrow>
               (let cap = EffectiveCapacity veh (getd 0 res i)
                in if 0 < cap then \<lparr>alloc_id = i, alloc_cap = cap\<rparr> # rest else rest))"

definition Probabilistic_Reallocate ::
  "'n::{zero,one,plus,minus,uminus,times,inverse,ord} fallback_vehicles \<Rightarrow> string list
    \<Rightarrow> 'n Vehicle list \<Rightarrow> (string \<rightharpoonup> 'n) \<Rightarrow> 'n FlexibilitySignal \<Rightarrow> (string \<rightharpoonup> 'n) option" where
  "Probabilistic_Reallocate p ids failed current signal =
     (if failed = [] then Some current
      else let (res, residual) = collect_failed failed current 0 in
           if feq residual 0 then Some res
           else let avail = Probabilistic_availableCapacity p ids (ID ` set failed) res
                in map_option fst (allocatePower avail res residual (signalSign signal)))"

subsection \<open>One pass of the loop at exact arithmetic\<close>

lemma allocate_round_ids:
  "alloc_id ` set (snd (snd (allocate_round T sign as res r))) \<subseteq> alloc_id ` set as"
  by (induction as arbitrary: res r) (auto simp: Let_def case_prod_unfold)

lemma allocate_round_outside:
  "i \<notin> alloc_id ` set as \<Longrightarrow> fst (allocate_round T sign as res r) i = res i"
  by (induction as arbitrary: res r) (auto simp: Let_def case_prod_unfold)

lemma allocatePower_outside:
  assumes "allocatePower as res r sign = Some (res', r')" "i \<notin> alloc_id ` set as"
  shows "res' i = res i"
proof -
  have "i \<notin> alloc_id ` set as \<longrightarrow> fst (res', r') i = res i"
  proof (rule allocatePower.raw_induct [where
        P = "\<lambda>as res r sign out. i \<notin> alloc_id ` set as \<longrightarrow> fst out i = res i", OF _ assms(1)])
    fix f :: "'a alloc list \<Rightarrow> (string \<rightharpoonup> 'a) \<Rightarrow> 'a \<Rightarrow> 'a \<Rightarrow> ((string \<rightharpoonup> 'a) \<times> 'a) option"
    fix as res r sign out
    assume IH: "\<And>as res r sign out. f as res r sign = Some out \<Longrightarrow>
        i \<notin> alloc_id ` set as \<longrightarrow> fst out i = res i"
      and eq: "(if 0 < r \<and> as \<noteq> []
        then (let totalCap = fsum alloc_cap as in
              if feq totalCap 0 then Some (res, r)
              else (case allocate_round totalCap sign as res r of
                      (res', r', nxt) \<Rightarrow> f nxt res' r' sign))
        else Some (res, r)) = Some out"
    show "i \<notin> alloc_id ` set as \<longrightarrow> fst out i = res i"
    proof
      assume i: "i \<notin> alloc_id ` set as"
      let ?R = "allocate_round (fsum alloc_cap as) sign as res r"
      show "fst out i = res i"
      proof (cases "0 < r \<and> as \<noteq> [] \<and> \<not> feq (fsum alloc_cap as) 0")
        case True
        then have "f (snd (snd ?R)) (fst ?R) (fst (snd ?R)) sign = Some out"
          using eq by (simp add: Let_def case_prod_unfold)
        moreover have "i \<notin> alloc_id ` set (snd (snd ?R))"
          using i allocate_round_ids by blast
        ultimately have "fst out i = fst ?R i" using IH by blast
        with allocate_round_outside [OF i] show ?thesis by simp
      next
        case False
        then show ?thesis using eq by (auto simp: Let_def split: if_splits)
      qed
    qed
  qed
  with assms(2) show ?thesis by simp
qed

text \<open>The loop returns what it has after the pass that ends it.\<close>

lemma alloc_passes_done: "alloc_done as r \<Longrightarrow> alloc_passes n as res r sign = (as, res, r)"
  by (cases n) simp_all

lemma allocatePower_unfold:
  "allocatePower as res r sign =
     (if alloc_done as r then Some (res, r)
      else case allocate_round (fsum alloc_cap as) sign as res r of (res', r', nxt) \<Rightarrow> allocatePower nxt res' r' sign)"
  by (subst allocatePower.simps) (simp add: alloc_done_def Let_def)

lemma allocatePower_passes_end:
  assumes "alloc_passes n as res r sign = (as', res', r')" "alloc_done as' r'"
  shows "allocatePower as res r sign = Some (res', r')"
  using assms
proof (induction n arbitrary: as res r)
  case 0
  then show ?case by (simp add: allocatePower_unfold)
next
  case (Suc n)
  show ?case
  proof (cases "alloc_done as r")
    case True
    with Suc.prems show ?thesis by (simp add: allocatePower_unfold)
  next
    case False
    obtain res1 r1 nxt where "allocate_round (fsum alloc_cap as) sign as res r = (res1, r1, nxt)" by (metis prod_cases3)
    with False Suc show ?thesis by (subst allocatePower_unfold) simp
  qed
qed

lemma allocatePower_after_passes:
  "alloc_passes n as res r sign = (as', res', r') \<Longrightarrow> allocatePower as res r sign = allocatePower as' res' r' sign"
proof (induction n arbitrary: as res r)
  case (Suc n)
  show ?case
  proof (cases "alloc_done as r")
    case False
    obtain res1 r1 nxt where "allocate_round (fsum alloc_cap as) sign as res r = (res1, r1, nxt)" by (metis prod_cases3)
    with False Suc show ?thesis by (subst allocatePower_unfold) simp
  qed (use Suc.prems in simp)
qed simp

lemma allocatePower_passes:
  assumes "allocatePower as res r sign = Some (res', r')"
  shows "\<exists>n as'. alloc_passes n as res r sign = (as', res', r') \<and> alloc_done as' r'"
proof -
  have "\<exists>n as'. alloc_passes n as res r sign = (as', fst (res', r'), snd (res', r')) \<and> alloc_done as' (snd (res', r'))"
  proof (rule allocatePower.raw_induct [where P = "\<lambda>as res r sign out.
        \<exists>n as'. alloc_passes n as res r sign = (as', fst out, snd out) \<and> alloc_done as' (snd out)", OF _ assms])
    fix f :: "'a alloc list \<Rightarrow> (string \<rightharpoonup> 'a) \<Rightarrow> 'a \<Rightarrow> 'a \<Rightarrow> ((string \<rightharpoonup> 'a) \<times> 'a) option"
    fix as res r sign out
    assume IH: "\<And>as res r sign out. f as res r sign = Some out \<Longrightarrow>
        \<exists>n as'. alloc_passes n as res r sign = (as', fst out, snd out) \<and> alloc_done as' (snd out)"
      and eq: "(if 0 < r \<and> as \<noteq> []
        then (let totalCap = fsum alloc_cap as in
              if feq totalCap 0 then Some (res, r)
              else (case allocate_round totalCap sign as res r of
                      (res', r', nxt) \<Rightarrow> f nxt res' r' sign))
        else Some (res, r)) = Some out"
    show "\<exists>n as'. alloc_passes n as res r sign = (as', fst out, snd out) \<and> alloc_done as' (snd out)"
    proof (cases "alloc_done as r")
      case True
      then have "out = (res, r)" using eq by (auto simp: alloc_done_def Let_def split: if_splits)
      with True show ?thesis by (intro exI [of _ 0] exI [of _ as]) simp
    next
      case False
      obtain res1 r1 nxt where rd: "allocate_round (fsum alloc_cap as) sign as res r = (res1, r1, nxt)" by (metis prod_cases3)
      then have "f nxt res1 r1 sign = Some out" using False eq by (auto simp: alloc_done_def Let_def)
      then obtain n as' where "alloc_passes n nxt res1 r1 sign = (as', fst out, snd out)" "alloc_done as' (snd out)"
        using IH by blast
      then show ?thesis using False rd by (intro exI [of _ "Suc n"] exI [of _ as']) simp
    qed
  qed
  then show ?thesis by simp
qed

text \<open>The capacities of a list of allocations by ID.\<close>

definition capm :: "'n alloc list \<Rightarrow> (string \<rightharpoonup> 'n)" where
  "capm as = map_of (map (\<lambda>a. (alloc_id a, alloc_cap a)) as)"

abbreviation cap_sum :: "real alloc list \<Rightarrow> real" where
  "cap_sum as \<equiv> (\<Sum>a\<leftarrow>as. alloc_cap a)"

lemma capm_simps [simp]:
  "capm [] = Map.empty"
  "capm (a # as) = (capm as)(alloc_id a \<mapsto> alloc_cap a)"
  by (simp_all add: capm_def)

lemma capm_dom: "dom (capm as) = alloc_id ` set as"
  by (force simp: capm_def dom_map_of_conv_image_fst)

lemma capm_outside [simp]: "i \<notin> alloc_id ` set as \<Longrightarrow> capm as i = None"
  using capm_dom by fastforce

lemma allocate_round_Cons:
  fixes a :: "real alloc"
  assumes "share = min (alloc_cap a) (r * (alloc_cap a / T))"
    and "R = allocate_round T sign as (res(alloc_id a \<mapsto> getd 0 res (alloc_id a) + sign * share)) (r - share)"
  shows "allocate_round T sign (a # as) res r =
    (fst R, fst (snd R),
     if share < alloc_cap a then a\<lparr>alloc_cap := alloc_cap a - share\<rparr> # snd (snd R) else snd (snd R))"
proof -
  have "share = (if alloc_cap a < r * (alloc_cap a / T) then alloc_cap a else r * (alloc_cap a / T))"
    using assms(1) by (simp add: min_def)
  then show ?thesis
    using assms(2) by (simp only: allocate_round.simps Let_def case_prod_unfold) simp
qed

lemma allocate_round_distinct:
  assumes "distinct (map alloc_id as)"
  shows "distinct (map alloc_id (snd (snd (allocate_round T sign as res r))))"
  using assms
proof (induction as arbitrary: res r)
  case (Cons a as)
  have "alloc_id a \<notin> alloc_id ` set (snd (snd (allocate_round T sign as res' r')))" for res' r'
    using Cons.prems allocate_round_ids [of T sign as res' r'] by auto
  with Cons show ?case by (simp add: Let_def case_prod_unfold)
qed simp

lemma allocate_round_caps_pos:
  "\<forall>a\<in>set (snd (snd (allocate_round T sign as res r))). 0 < alloc_cap a"
  by (induction as arbitrary: res r) (auto simp: Let_def case_prod_unfold)

lemma allocate_round_length:
  "length (snd (snd (allocate_round T sign as res r))) \<le> length as"
  by (induction as arbitrary: res r) (auto simp: Let_def case_prod_unfold le_SucI)

declare allocate_round.simps(2) [simp del]

lemma allocate_round_balance:
  fixes as :: "real alloc list"
  shows "fst (snd (allocate_round T sign as res r)) - cap_sum (snd (snd (allocate_round T sign as res r)))
         = r - cap_sum as"
proof (induction as arbitrary: res r)
  case (Cons a as)
  define share where "share = min (alloc_cap a) (r * (alloc_cap a / T))"
  define R where "R = allocate_round T sign as
    (res(alloc_id a \<mapsto> getd 0 res (alloc_id a) + sign * share)) (r - share)"
  have "fst (snd R) - cap_sum (snd (snd R)) = r - share - cap_sum as"
    unfolding R_def by (rule Cons.IH)
  moreover have "share \<le> alloc_cap a" by (simp add: share_def)
  ultimately show ?case
    by (simp add: allocate_round_Cons [OF share_def R_def])
qed simp

lemma share_le:
  fixes r :: real
  assumes "0 < c" "c \<le> T" "0 \<le> r"
  shows "r * (c / T) \<le> r" and "0 \<le> r * (c / T)"
  using assms by (simp_all add: divide_le_eq mult_left_mono)

lemma allocate_round_remaining_nonneg:
  fixes as :: "real alloc list"
  assumes "\<forall>a\<in>set as. 0 < alloc_cap a \<and> alloc_cap a \<le> T" "0 \<le> r"
  shows "0 \<le> fst (snd (allocate_round T sign as res r))"
  using assms
proof (induction as arbitrary: res r)
  case (Cons a as)
  define share where "share = min (alloc_cap a) (r * (alloc_cap a / T))"
  define R where "R = allocate_round T sign as
    (res(alloc_id a \<mapsto> getd 0 res (alloc_id a) + sign * share)) (r - share)"
  have "0 \<le> r - share"
    using share_le(1) [of "alloc_cap a" T r] Cons.prems by (simp add: share_def)
  then have "0 \<le> fst (snd R)" unfolding R_def using Cons by simp
  then show ?case by (simp add: allocate_round_Cons [OF share_def R_def])
qed simp

lemma allocate_round_res:
  fixes as :: "real alloc list"
  assumes "distinct (map alloc_id as)" "i \<in> alloc_id ` set as"
  shows "fst (allocate_round T sign as res r) i =
    Some (getd 0 res i + sign * (getd 0 (capm as) i - getd 0 (capm (snd (snd (allocate_round T sign as res r)))) i))"
  using assms
proof (induction as arbitrary: res r)
  case (Cons a as)
  define share where "share = min (alloc_cap a) (r * (alloc_cap a / T))"
  define R where "R = allocate_round T sign as
    (res(alloc_id a \<mapsto> getd 0 res (alloc_id a) + sign * share)) (r - share)"
  have out: "alloc_id a \<notin> alloc_id ` set as" using Cons.prems(1) by simp
  have out': "alloc_id a \<notin> alloc_id ` set (snd (snd R))"
    using out allocate_round_ids unfolding R_def by blast
  have le: "share \<le> alloc_cap a" by (simp add: share_def)
  show ?case
  proof (cases "i = alloc_id a")
    case True
    moreover have "fst R (alloc_id a) = Some (getd 0 res (alloc_id a) + sign * share)"
      unfolding R_def by (simp add: allocate_round_outside [OF out])
    ultimately show ?thesis
      using out' le by (simp add: allocate_round_Cons [OF share_def R_def])
  next
    case False
    then have "i \<in> alloc_id ` set as" using Cons.prems(2) by auto
    then have "fst R i = Some (getd 0 res i + sign * (getd 0 (capm as) i - getd 0 (capm (snd (snd R))) i))"
      using Cons.IH Cons.prems(1) False unfolding R_def by simp
    moreover have "getd 0 (capm (b # bs)) i = getd 0 (capm bs) i" if "alloc_id b = alloc_id a"
      for bs and b :: "real alloc"
      using False that by simp
    ultimately show ?thesis
      by (simp add: allocate_round_Cons [OF share_def R_def] del: capm_simps)
  qed
qed simp

lemma allocate_round_saturates_head:
  fixes a :: "real alloc"
  assumes "0 < alloc_cap a" "0 < T" "T \<le> r"
  shows "length (snd (snd (allocate_round T sign (a # as) res r))) < length (a # as)"
proof -
  define share where "share = min (alloc_cap a) (r * (alloc_cap a / T))"
  define R where "R = allocate_round T sign as
    (res(alloc_id a \<mapsto> getd 0 res (alloc_id a) + sign * share)) (r - share)"
  have "alloc_cap a * T \<le> r * alloc_cap a" using assms by (simp add: mult.commute)
  then have "share = alloc_cap a" using assms by (simp add: share_def field_simps)
  then show ?thesis
    by (simp add: allocate_round_Cons [OF share_def R_def] R_def less_Suc_eq_le allocate_round_length)
qed

lemma allocate_round_keeps_all:
  fixes as :: "real alloc list"
  assumes "\<forall>a\<in>set as. 0 < alloc_cap a \<and> alloc_cap a < T" "0 < r" "r < T"
  shows "length (snd (snd (allocate_round T sign as res r))) = length as \<and>
         0 < fst (snd (allocate_round T sign as res r))"
  using assms
proof (induction as arbitrary: res r)
  case (Cons a as)
  define share where "share = min (alloc_cap a) (r * (alloc_cap a / T))"
  define R where "R = allocate_round T sign as
    (res(alloc_id a \<mapsto> getd 0 res (alloc_id a) + sign * share)) (r - share)"
  have "r * alloc_cap a < T * alloc_cap a" "r * alloc_cap a < r * T" using Cons.prems by simp_all
  then have lt: "r * (alloc_cap a / T) < alloc_cap a" "r * (alloc_cap a / T) < r" "0 < r * (alloc_cap a / T)"
    using Cons.prems by (simp_all add: field_simps)
  then have "share = r * (alloc_cap a / T)" by (simp add: share_def)
  then have "0 < r - share" "r - share < T" "share < alloc_cap a" using lt Cons.prems(3) by linarith+
  then show ?case
    using Cons.IH [of "r - share"] Cons.prems
    by (simp add: allocate_round_Cons [OF share_def R_def] R_def)
qed simp

subsection \<open>The whole loop at exact arithmetic\<close>

text \<open>Adding the signed capacity of every allocation to its entry.\<close>

definition add_caps :: "real \<Rightarrow> real alloc list \<Rightarrow> (string \<rightharpoonup> real) \<Rightarrow> (string \<rightharpoonup> real)" where
  "add_caps sign as res = (\<lambda>i. case capm as i of
     None \<Rightarrow> res i | Some c \<Rightarrow> Some (getd 0 res i + sign * c))"

definition well_alloc :: "real alloc list \<Rightarrow> bool" where
  "well_alloc as \<longleftrightarrow> distinct (map alloc_id as) \<and> (\<forall>a\<in>set as. 0 < alloc_cap a)"

lemma well_alloc_round:
  "well_alloc as \<Longrightarrow> well_alloc (snd (snd (allocate_round T sign as res r)))"
  by (simp add: well_alloc_def allocate_round_distinct allocate_round_caps_pos)

lemma cap_sum_pos: "well_alloc as \<Longrightarrow> as \<noteq> [] \<Longrightarrow> 0 < cap_sum as"
proof (induction as)
  case (Cons a as)
  then show ?case
    by (cases "as = []") (auto simp: well_alloc_def)
qed simp

lemma cap_le_sum: "well_alloc as \<Longrightarrow> a \<in> set as \<Longrightarrow> alloc_cap a \<le> cap_sum as"
  by (rule member_le_sum_list [of "alloc_cap a" "map alloc_cap as", simplified])
    (auto simp: well_alloc_def intro: less_imp_le)

lemma allocatePower_step:
  assumes "0 < r" "as \<noteq> []" "well_alloc as"
  shows "allocatePower as res r sign =
    allocatePower (snd (snd (allocate_round (cap_sum as) sign as res r)))
      (fst (allocate_round (cap_sum as) sign as res r))
      (fst (snd (allocate_round (cap_sum as) sign as res r))) sign"
  using assms cap_sum_pos [OF assms(3,2)]
  by (subst allocatePower.simps) (simp add: case_prod_unfold Let_def)

lemma allocatePower_stop: "r \<le> 0 \<or> as = [] \<Longrightarrow> allocatePower as res (r :: real) sign = Some (res, r)"
  by (subst allocatePower.simps) auto

lemma add_caps_round:
  assumes "well_alloc as"
  shows "add_caps sign (snd (snd (allocate_round T sign as res r)))
           (fst (allocate_round T sign as res r)) = add_caps sign as res"
proof
  fix i
  let ?R = "allocate_round T sign as res r"
  have sub: "alloc_id ` set (snd (snd ?R)) \<subseteq> alloc_id ` set as" by (rule allocate_round_ids)
  show "add_caps sign (snd (snd ?R)) (fst ?R) i = add_caps sign as res i"
  proof (cases "i \<in> alloc_id ` set as")
    case True
    then obtain c where c: "capm as i = Some c" using capm_dom [of as] by blast
    have "fst ?R i = Some (getd 0 res i + sign * (c - getd 0 (capm (snd (snd ?R))) i))"
      using allocate_round_res [OF _ True] assms c by (simp add: well_alloc_def)
    then have "fst ?R i = Some (getd 0 (fst ?R) i)"
      and "getd 0 (fst ?R) i = getd 0 res i + sign * (c - getd 0 (capm (snd (snd ?R))) i)"
      by simp_all
    then show ?thesis
      using c by (cases "capm (snd (snd ?R)) i") (simp_all add: add_caps_def right_diff_distrib)
  next
    case False
    then have "capm as i = None" "capm (snd (snd ?R)) i = None"
      using sub by (auto intro!: capm_outside)
    then show ?thesis
      by (simp add: add_caps_def allocate_round_outside [OF False])
  qed
qed

text \<open>Enough residual power to saturate everybody: the loop ends and everybody is saturated.\<close>

lemma allocatePower_saturates:
  assumes "well_alloc as" "cap_sum as \<le> r"
  shows "allocatePower as res r sign = Some (add_caps sign as res, r - cap_sum as)"
  using assms
proof (induction "length as" arbitrary: as res r rule: less_induct)
  case less
  show ?case
  proof (cases as)
    case Nil
    then show ?thesis by (simp add: allocatePower_stop add_caps_def)
  next
    case (Cons a as')
    let ?R = "allocate_round (cap_sum as) sign as res r"
    have pos: "0 < cap_sum as" using less.prems(1) Cons cap_sum_pos by blast
    have "allocatePower as res r sign =
        allocatePower (snd (snd ?R)) (fst ?R) (fst (snd ?R)) sign"
      using allocatePower_step less.prems Cons pos by auto
    also have "\<dots> = Some (add_caps sign (snd (snd ?R)) (fst ?R), fst (snd ?R) - cap_sum (snd (snd ?R)))"
    proof (rule less.hyps)
      show "length (snd (snd ?R)) < length as"
        using allocate_round_saturates_head [of a "cap_sum as" r sign as' res] less.prems Cons pos
        by (simp add: well_alloc_def)
      show "well_alloc (snd (snd ?R))" using less.prems(1) by (rule well_alloc_round)
      show "cap_sum (snd (snd ?R)) \<le> fst (snd ?R)"
        using allocate_round_balance [of "cap_sum as" sign as res r] less.prems(2) by linarith
    qed
    also have "\<dots> = Some (add_caps sign as res, r - cap_sum as)"
      using add_caps_round [OF less.prems(1)] by (simp add: allocate_round_balance)
    finally show ?thesis .
  qed
qed

text \<open>One vehicle with spare capacity takes the whole residual.\<close>

lemma allocatePower_single:
  assumes "0 < r" "r < alloc_cap a"
  shows "allocatePower [a] res r sign =
         Some (res(alloc_id a \<mapsto> getd 0 res (alloc_id a) + sign * r), 0 :: real)"
  using assms
  by (subst allocatePower_step) (auto simp: well_alloc_def allocate_round.simps Let_def allocatePower_stop)

text \<open>
  Two or more vehicles whose spare capacity exceeds the residual: every pass leaves all of
  them in the list and some residual, and the gap between capacity and residual stays.
\<close>

definition stuck :: "real alloc list \<Rightarrow> real \<Rightarrow> bool" where
  "stuck as r \<longleftrightarrow> well_alloc as \<and> 2 \<le> length as \<and> 0 < r \<and> r < cap_sum as"

lemma cap_less_sum:
  assumes "well_alloc as" "2 \<le> length as" "a \<in> set as"
  shows "alloc_cap a < cap_sum as"
proof -
  obtain xs ys where as: "as = xs @ a # ys" using assms(3) by (metis in_set_conv_decomp)
  have "xs @ ys \<noteq> []" using assms(2) as by (cases xs; cases ys) auto
  moreover have "well_alloc (xs @ ys)" using assms(1) as by (auto simp: well_alloc_def)
  ultimately have "0 < cap_sum (xs @ ys)" by (intro cap_sum_pos)
  with as show ?thesis by simp
qed

lemma stuck_round:
  assumes "stuck as r"
  shows "stuck (snd (snd (allocate_round (cap_sum as) sign as res r)))
               (fst (snd (allocate_round (cap_sum as) sign as res r)))"
proof -
  have caps: "\<forall>a\<in>set as. 0 < alloc_cap a \<and> alloc_cap a < cap_sum as"
    using assms cap_less_sum by (auto simp: stuck_def well_alloc_def)
  have "0 < r" "r < cap_sum as" using assms by (auto simp: stuck_def)
  note keeps = allocate_round_keeps_all [OF caps this, of sign res]
  show ?thesis
    using keeps assms well_alloc_round [of as "cap_sum as" sign res r]
      allocate_round_balance [of "cap_sum as" sign as res r]
    by (simp add: stuck_def)
qed

lemma stuck_diverges:
  assumes "stuck as r"
  shows "allocatePower as res r sign = None"
proof (rule ccontr)
  assume "allocatePower as res r sign \<noteq> None"
  then obtain out where ret: "allocatePower as res r sign = Some out" by blast
  have "\<not> stuck as r"
  proof (rule allocatePower.raw_induct [where P = "\<lambda>as res r sign out. \<not> stuck as r", OF _ ret])
    fix f :: "real alloc list \<Rightarrow> (string \<rightharpoonup> real) \<Rightarrow> real \<Rightarrow> real \<Rightarrow> ((string \<rightharpoonup> real) \<times> real) option"
    fix as res r sign out
    assume IH: "\<And>as res r sign out. f as res r sign = Some out \<Longrightarrow> \<not> stuck as r"
      and eq: "(if 0 < r \<and> as \<noteq> []
        then (let totalCap = fsum alloc_cap as in
              if feq totalCap 0 then Some (res, r)
              else (case allocate_round totalCap sign as res r of
                      (res', r', nxt) \<Rightarrow> f nxt res' r' sign))
        else Some (res, r)) = Some out"
    show "\<not> stuck as r"
    proof
      assume st: "stuck as r"
      then have "0 < r" "as \<noteq> []" "0 < cap_sum as" by (auto simp: stuck_def)
      then have "f (snd (snd (allocate_round (cap_sum as) sign as res r)))
          (fst (allocate_round (cap_sum as) sign as res r))
          (fst (snd (allocate_round (cap_sum as) sign as res r))) sign = Some out"
        using eq by (simp add: Let_def case_prod_unfold)
      then show False using IH stuck_round [OF st] by blast
    qed
  qed
  with assms show False by blast
qed


lemma allocatePower_exact:
  assumes "well_alloc as"
  shows "allocatePower as res r sign =
    (if r \<le> 0 \<or> as = [] then Some (res, r)
     else if cap_sum as \<le> r then Some (add_caps sign as res, r - cap_sum as)
     else if length as = 1
     then Some (res(alloc_id (hd as) \<mapsto> getd 0 res (alloc_id (hd as)) + sign * r), 0)
     else None)"
proof -
  consider "r \<le> 0 \<or> as = []" | "0 < r" "as \<noteq> []" "cap_sum as \<le> r"
    | "0 < r" "r < cap_sum as" "length as = 1" | "0 < r" "r < cap_sum as" "2 \<le> length as"
  proof -
    have "length as = 0 \<or> length as = 1 \<or> 2 \<le> length as" by linarith
    then show ?thesis using that by (cases "0 < r"; cases "cap_sum as \<le> r") auto
  qed
  then show ?thesis
  proof cases
    case 1
    then show ?thesis by (auto simp: allocatePower_stop)
  next
    case 2
    then show ?thesis using allocatePower_saturates [OF assms 2(3)] by auto
  next
    case 3
    then obtain a where "as = [a]" by (auto simp: length_Suc_conv)
    with 3 show ?thesis by (simp add: allocatePower_single)
  next
    case 4
    then have "stuck as r" using assms by (simp add: stuck_def)
    with 4 show ?thesis by (auto simp: stuck_diverges)
  qed
qed

lemma add_caps_Cons:
  "alloc_id a \<notin> alloc_id ` set as \<Longrightarrow> add_caps sign (a # as) res =
   (add_caps sign as res)(alloc_id a \<mapsto> getd 0 (add_caps sign as res) (alloc_id a) + sign * alloc_cap a)"
  by (auto simp: add_caps_def fun_eq_iff getd_def)

lemma add_caps_dom: "dom (add_caps sign as res) = dom res \<union> alloc_id ` set as"
  by (auto simp: add_caps_def capm_dom [symmetric] split: option.splits)

lemma total_add_caps:
  assumes "distinct (map alloc_id as)" "finite (dom res)"
  shows "total_kw (add_caps sign as res) = total_kw res + sign * cap_sum as"
  using assms
proof (induction as)
  case Nil
  then show ?case by (simp add: add_caps_def)
next
  case (Cons a as)
  have "alloc_id a \<notin> alloc_id ` set as" and fin: "finite (dom (add_caps sign as res))"
    using Cons.prems by (auto simp: add_caps_dom)
  from add_caps_Cons [OF this(1)] total_kw_upd [OF fin]
  have "total_kw (add_caps sign (a # as) res) = total_kw (add_caps sign as res) + sign * alloc_cap a"
    by (metis add_diff_cancel_left' diff_add_cancel diff_add_eq)
  with Cons show ?case by (simp add: distrib_left)
qed

text \<open>
  What a returning loop does: it distributes \<open>r - r'\<close> of the residual, nobody is given more
  than its capacity, and some residual is left only when everybody is saturated.
\<close>

lemma allocatePower_distributes:
  assumes wa: "well_alloc as" and ret: "allocatePower as res r sign = Some (res', r')"
    and fin: "finite (dom res)" and r: "0 \<le> r"
  shows "total_kw res' = total_kw res + sign * (r - r')" and "r' = max 0 (r - cap_sum as)"
proof -
  have "total_kw res' = total_kw res + sign * (r - r') \<and> r' = max 0 (r - cap_sum as)"
  proof (cases "r \<le> 0 \<or> as = []")
    case True
    have "0 \<le> cap_sum as" using wa by (intro sum_list_nonneg) (auto simp: well_alloc_def intro: less_imp_le)
    with True show ?thesis using ret r allocatePower_exact [OF wa, of res r sign] by auto
  next
    case False
    then show ?thesis
      using ret allocatePower_exact [OF wa, of res r sign] wa fin
      by (auto simp: well_alloc_def total_add_caps total_kw_upd split: if_splits)
  qed
  then show "total_kw res' = total_kw res + sign * (r - r')" and "r' = max 0 (r - cap_sum as)"
    by simp_all
qed

subsection \<open>After any number of passes\<close>

lemma allocate_round_caps_le:
  fixes as :: "real alloc list"
  assumes "distinct (map alloc_id as)" "\<forall>a\<in>set as. 0 < alloc_cap a \<and> alloc_cap a \<le> T" "0 \<le> r"
  shows "getd 0 (capm (snd (snd (allocate_round T sign as res r)))) i \<le> getd 0 (capm as) i"
  using assms
proof (induction as arbitrary: res r)
  case (Cons a as)
  define share where "share = min (alloc_cap a) (r * (alloc_cap a / T))"
  define R where "R = allocate_round T sign as
    (res(alloc_id a \<mapsto> getd 0 res (alloc_id a) + sign * share)) (r - share)"
  have sh: "0 \<le> share" "share \<le> r"
    using share_le [of "alloc_cap a" T r] Cons.prems by (auto simp: share_def)
  have "getd 0 (capm (snd (snd R))) i \<le> getd 0 (capm as) i"
    unfolding R_def using Cons.prems sh by (intro Cons.IH) auto
  moreover have "alloc_id a \<notin> alloc_id ` set as" using Cons.prems(1) by simp
  then have "alloc_id a \<notin> alloc_id ` set (snd (snd R))" using allocate_round_ids unfolding R_def by blast
  ultimately show ?case
    using sh Cons.prems(2)
    by (cases "i = alloc_id a"; cases "share < alloc_cap a") (simp_all add: allocate_round_Cons [OF share_def R_def] getd_def)
qed simp

text \<open>Within a pass that the capacities can absorb, the power still to place shrinks by a factor of \<open>exp (- 1)\<close> at least.\<close>

lemma allocate_round_decay:
  fixes as :: "real alloc list"
  assumes "\<forall>a\<in>set as. 0 < alloc_cap a \<and> alloc_cap a \<le> T" "0 \<le> r" "r \<le> T"
  shows "fst (snd (allocate_round T sign as res r)) \<le> r * exp (- (cap_sum as / T))"
  using assms
proof (induction as arbitrary: res r)
  case (Cons a as)
  define share where "share = min (alloc_cap a) (r * (alloc_cap a / T))"
  define R where "R = allocate_round T sign as
    (res(alloc_id a \<mapsto> getd 0 res (alloc_id a) + sign * share)) (r - share)"
  have T: "0 < T" using Cons.prems(1) by force
  have "r * alloc_cap a \<le> T * alloc_cap a" using Cons.prems by (intro mult_right_mono) auto
  then have share: "share = r * (alloc_cap a / T)" using T by (simp add: share_def field_simps)
  have sh: "0 \<le> share" "share \<le> r"
    unfolding share using share_le [of "alloc_cap a" T r] Cons.prems by auto
  have "fst (snd R) \<le> (r - share) * exp (- (cap_sum as / T))"
    unfolding R_def using Cons.prems sh by (intro Cons.IH) auto
  also have "r - share = r * (1 - alloc_cap a / T)" unfolding share by (simp add: right_diff_distrib)
  also have "r * (1 - alloc_cap a / T) * exp (- (cap_sum as / T)) \<le> r * exp (- (alloc_cap a / T)) * exp (- (cap_sum as / T))"
    using exp_ge_add_one_self [of "- (alloc_cap a / T)"] Cons.prems(2) by (intro mult_right_mono mult_left_mono) auto
  also have "\<dots> = r * exp (- (cap_sum (a # as) / T))" by (simp add: mult_exp_exp add_divide_distrib)
  finally show ?case by (simp add: allocate_round_Cons [OF share_def R_def])
qed simp

lemma alloc_done_iff: "well_alloc as \<Longrightarrow> alloc_done as r \<longleftrightarrow> r \<le> (0::real) \<or> as = []"
  using cap_sum_pos [of as] by (auto simp: alloc_done_def not_less)

text \<open>One pass on a well-formed list, as the induction over the passes needs it.\<close>

lemma pass_step:
  assumes "well_alloc as" "\<not> alloc_done as r" "allocate_round (cap_sum as) sign as res r = (res1, r1, nxt)"
  shows "well_alloc nxt" "0 \<le> r1" "r1 - cap_sum nxt = r - cap_sum as"
    "r \<le> cap_sum as \<Longrightarrow> r1 \<le> r * exp (- 1)"
    "getd 0 (capm nxt) i \<le> getd 0 (capm as) i" "i \<notin> alloc_id ` set as \<Longrightarrow> res1 i = res i \<and> capm nxt i = None"
    "i \<in> alloc_id ` set as \<Longrightarrow> res1 i = Some (getd 0 res i + sign * (getd 0 (capm as) i - getd 0 (capm nxt) i))"
proof -
  let ?R = "allocate_round (cap_sum as) sign as res r"
  have pos: "0 < r" "as \<noteq> []" and caps: "\<forall>a\<in>set as. 0 < alloc_cap a \<and> alloc_cap a \<le> cap_sum as"
    using assms(1,2) cap_le_sum [OF assms(1)] by (auto simp: alloc_done_iff well_alloc_def)
  have d: "distinct (map alloc_id as)" using assms(1) by (simp add: well_alloc_def)
  show "well_alloc nxt" using well_alloc_round [OF assms(1), of "cap_sum as" sign res r] assms(3) by simp
  show "0 \<le> r1" using allocate_round_remaining_nonneg [OF caps, of r sign res] pos assms(3) by simp
  show "r1 - cap_sum nxt = r - cap_sum as" using allocate_round_balance [of "cap_sum as" sign as res r] assms(3) by simp
  show "r1 \<le> r * exp (- 1)" if "r \<le> cap_sum as"
    using allocate_round_decay [OF caps _ that, of sign res] pos cap_sum_pos [OF assms(1) pos(2)] assms(3) by simp
  show "getd 0 (capm nxt) i \<le> getd 0 (capm as) i"
    using allocate_round_caps_le [OF d caps, of r sign res i] pos assms(3) by simp
  show "res1 i = res i \<and> capm nxt i = None" if "i \<notin> alloc_id ` set as"
    using that allocate_round_outside [OF that, of "cap_sum as" sign res r] allocate_round_ids [of "cap_sum as" sign as res r]
      assms(3) by (auto intro!: capm_outside)
  show "res1 i = Some (getd 0 res i + sign * (getd 0 (capm as) i - getd 0 (capm nxt) i))" if "i \<in> alloc_id ` set as"
    using allocate_round_res [OF d that, of "cap_sum as" sign res r] assms(3) by simp
qed

text \<open>Nobody is given more than its capacity, after however many passes.\<close>

lemma alloc_passes_shares:
  assumes "alloc_passes n as res r sign = (as', res', r')" "well_alloc as" "capm as i = Some c" "res i = Some p"
  shows "\<exists>x. 0 \<le> x \<and> x \<le> c \<and> res' i = Some (p + sign * x)"
proof -
  have "\<exists>y. 0 \<le> y \<and> y \<le> getd 0 (capm as) i \<and> res' i = Some (p + sign * y)"
    using assms(1,2,4)
  proof (induction n arbitrary: as res r p)
    case 0
    then have "0 \<le> getd 0 (capm as) i"
      by (cases "capm as i") (auto simp: capm_def well_alloc_def less_imp_le dest!: map_of_SomeD)
    with 0 show ?case by (intro exI [of _ 0]) auto
  next
    case (Suc n)
    show ?case
    proof (cases "alloc_done as r")
      case True
      with Suc.prems have "alloc_passes n as res r sign = (as', res', r')" by (simp add: alloc_passes_done)
      from Suc.IH [OF this Suc.prems(2,3)] show ?thesis .
    next
      case False
      obtain res1 r1 nxt where rd: "allocate_round (cap_sum as) sign as res r = (res1, r1, nxt)" by (metis prod_cases3)
      note st = pass_step [OF Suc.prems(2) False rd]
      let ?d = "getd 0 (capm as) i - getd 0 (capm nxt) i"
      have d: "0 \<le> ?d" using st(5) [of i] by simp
      have "res1 i = Some (p + sign * ?d)"
        using st(6,7) [of i] Suc.prems(3) by (cases "i \<in> alloc_id ` set as") auto
      moreover have "alloc_passes n nxt res1 r1 sign = (as', res', r')" using Suc.prems(1) False rd by simp
      ultimately obtain y where y: "0 \<le> y" "y \<le> getd 0 (capm nxt) i" "res' i = Some (p + sign * ?d + sign * y)"
        using Suc.IH [OF _ st(1)] by blast
      from y(3) have "res' i = Some (p + sign * (?d + y))" by (simp add: distrib_left)
      with d y(1,2) show ?thesis by (intro exI [of _ "?d + y"]) simp
    qed
  qed
  with assms(3) show ?thesis by simp
qed

lemma alloc_passes_outside:
  assumes "alloc_passes n as res r sign = (as', res', r')" "well_alloc as" "i \<notin> alloc_id ` set as"
  shows "res' i = (res i :: real option)"
  using assms
proof (induction n arbitrary: as res r)
  case (Suc n)
  show ?case
  proof (cases "alloc_done as r")
    case False
    obtain res1 r1 nxt where rd: "allocate_round (cap_sum as) sign as res r = (res1, r1, nxt)" by (metis prod_cases3)
    note st = pass_step [OF Suc.prems(2) False rd]
    have "i \<notin> alloc_id ` set nxt" using st(6) [OF Suc.prems(3)] capm_dom [of nxt] by auto
    from Suc.IH [OF _ st(1) this, of res1 r1] Suc.prems(1) False rd st(6) [OF Suc.prems(3)] show ?thesis by simp
  qed (use Suc.prems in simp)
qed simp

lemma alloc_passes_decay:
  assumes "alloc_passes n as res r sign = (as', res', r')" "well_alloc as" "0 \<le> r" "r \<le> cap_sum as"
  shows "r' \<le> exp (- real n) * r"
  using assms
proof (induction n arbitrary: as res r)
  case (Suc n)
  show ?case
  proof (cases "alloc_done as r")
    case True
    then have "r = 0" using Suc.prems(2-4) by (auto simp: alloc_done_iff)
    with True Suc.prems(1) show ?thesis by simp
  next
    case False
    obtain res1 r1 nxt where rd: "allocate_round (cap_sum as) sign as res r = (res1, r1, nxt)" by (metis prod_cases3)
    note st = pass_step [OF Suc.prems(2) False rd]
    have "r' \<le> exp (- real n) * r1"
      using Suc.IH [OF _ st(1,2), of res1] Suc.prems(1,4) False rd st(3) by simp
    also have "\<dots> \<le> exp (- real n) * (r * exp (- 1))" using st(4) [OF Suc.prems(4)] by simp
    also have "\<dots> = exp (- real (Suc n)) * r" by (simp add: mult_exp_exp mult.commute mult.left_commute)
    finally show ?thesis .
  qed
qed simp

subsection \<open>Reallocation\<close>

lemma Probabilistic_availableCapacity_eq:
  "Probabilistic_availableCapacity p ids failed res =
   Balanced_availableCapacity p ids failed (res :: string \<rightharpoonup> real)"
  by (induction ids) (auto simp: Let_def split: option.split)

lemma Balanced_availableCapacity_capm:
  "distinct ids \<Longrightarrow> capm (Balanced_availableCapacity b ids failed res) i =
     (if i \<in> set ids \<and> i \<notin> failed then
        case b i of None \<Rightarrow> None
        | Some v \<Rightarrow> if 0 < EffectiveCapacity v (getd 0 res i)
                   then Some (EffectiveCapacity v (getd 0 res i)) else None
      else (None :: real option))"
  by (induction ids) (auto simp: Let_def split: option.split)

lemma Balanced_availableCapacity_ids:
  "alloc_id ` set (Balanced_availableCapacity b ids failed res) \<subseteq> set ids - failed"
  by (induction ids) (auto simp: Let_def split: option.split if_splits)

lemma Balanced_availableCapacity_well:
  "distinct ids \<Longrightarrow> well_alloc (Balanced_availableCapacity b ids failed res)"
proof (induction ids)
  case (Cons i ids)
  have "i \<notin> alloc_id ` set (Balanced_availableCapacity b ids failed res)"
    using Cons.prems Balanced_availableCapacity_ids [of b ids failed res] by auto
  with Cons show ?case by (auto simp: well_alloc_def Let_def)
qed (simp add: well_alloc_def)

lemma collect_failed_res:
  "fst (collect_failed failed res r) i = (if i \<in> ID ` set failed then Some 0 else res i)"
  by (induction failed arbitrary: res r) auto

lemma collect_failed_residual:
  fixes failed :: "real Vehicle list"
  assumes "distinct (map ID failed)"
  shows "snd (collect_failed failed res r) = r + (\<Sum>v\<leftarrow>failed. \<bar>getd 0 res (ID v)\<bar>)"
  using assms
proof (induction failed arbitrary: res r)
  case (Cons v vs)
  have "(\<Sum>w\<leftarrow>vs. \<bar>getd 0 (res(ID v \<mapsto> 0)) (ID w)\<bar>) = (\<Sum>w\<leftarrow>vs. \<bar>getd 0 res (ID w)\<bar>)"
    using Cons.prems by (intro arg_cong [where f = sum_list] map_cong) (auto simp: getd_other_key simp del: getd_upd)
  with Cons show ?case by simp
qed simp

lemma collect_failed_total:
  fixes failed :: "real Vehicle list"
  assumes "distinct (map ID failed)" "finite (dom res)"
  shows "total_kw (fst (collect_failed failed res r)) = total_kw res - (\<Sum>v\<leftarrow>failed. getd 0 res (ID v))"
  using assms
proof (induction failed arbitrary: res r)
  case (Cons v vs)
  have "(\<Sum>w\<leftarrow>vs. getd 0 (res(ID v \<mapsto> 0)) (ID w)) = (\<Sum>w\<leftarrow>vs. getd 0 res (ID w))"
    using Cons.prems by (intro arg_cong [where f = sum_list] map_cong) (auto simp: getd_other_key simp del: getd_upd)
  with Cons show ?case by (simp add: total_kw_upd)
qed simp


lemma Balanced_Reallocate_unfold:
  fixes current :: "string \<rightharpoonup> real"
  assumes "failed \<noteq> []"
  shows "Balanced_Reallocate b ids failed current signal =
    (let R = collect_failed failed current 0 in
     if snd R = 0 then Some (fst R)
     else map_option fst (allocatePower
       (Balanced_availableCapacity b ids (ID ` set failed) (fst R)) (fst R) (snd R) (signalSign signal)))"
  using assms by (simp add: Balanced_Reallocate_def Let_def case_prod_unfold)

lemma Balanced_Reallocate_cases:
  fixes current :: "string \<rightharpoonup> real"
  assumes "Balanced_Reallocate b ids failed current signal = Some res'" "failed \<noteq> []" "distinct ids"
  obtains r where "res' = fst (collect_failed failed current 0)" "snd (collect_failed failed current 0) = 0" "r = 0"
  | r where "allocatePower (Balanced_availableCapacity b ids (ID ` set failed) (fst (collect_failed failed current 0)))
      (fst (collect_failed failed current 0)) (snd (collect_failed failed current 0)) (signalSign signal)
      = Some (res', r)"
  using assms(1) that unfolding Balanced_Reallocate_unfold [OF assms(2)]
  by (auto simp: Let_def split: if_splits)

subsection \<open>Properties\<close>

text \<open>
  At exact arithmetic \<open>allocatePower\<close> returns only if there is nothing to distribute, or at most one
  vehicle can take power, or the residual saturates all of them: with two or more vehicles whose spare
  capacity exceeds the residual every pass leaves some of it, because each share is taken from a residual
  that has already shrunk. Where the program's loop returns in that case, it is rounding that ends it, as
  \<open>Fallback_Float\<close> shows; what it has done by then is the subject of \<open>balanced_reallocate_limits\<close>.
\<close>

theorem allocatePower_returns_iff:
  assumes "distinct (map alloc_id as)" "\<forall>a\<in>set as. 0 < alloc_cap a"
  shows "(\<exists>out. allocatePower as res r sign = Some out) \<longleftrightarrow>
         r \<le> 0 \<or> length as \<le> 1 \<or> (\<Sum>a\<leftarrow>as. alloc_cap a) \<le> (r :: real)"
proof -
  have "well_alloc as" using assms by (simp add: well_alloc_def)
  from allocatePower_exact [OF this, of res r sign] show ?thesis
    by (auto simp: le_Suc_eq)
qed

theorem allocatePower_returns_iff_witness:
  "allocatePower [\<lparr>alloc_id = ''b'', alloc_cap = 10\<rparr>, \<lparr>alloc_id = ''c'', alloc_cap = 10\<rparr>]
     Map.empty 10 1 = (None :: ((string \<rightharpoonup> real) \<times> real) option)"
  using allocatePower_returns_iff [of
    "[\<lparr>alloc_id = ''b'', alloc_cap = 10\<rparr>, \<lparr>alloc_id = ''c'', alloc_cap = 10\<rparr>]" Map.empty 10 1]
  by (cases "allocatePower [\<lparr>alloc_id = ''b'', alloc_cap = 10\<rparr>, \<lparr>alloc_id = ''c'', alloc_cap = 10\<rparr>]
     Map.empty 10 (1 :: real)") auto

text \<open>
  C17. A reallocation that returns keeps the books. For a non-negative signal and
  non-negative assignments the new total is the old one less the part of the failed power
  that exceeds the spare capacity of the other vehicles.
\<close>

theorem balanced_reallocate_total:
  fixes current :: "string \<rightharpoonup> real"
  assumes "Balanced_Reallocate b ids failed current signal = Some res'"
    and "ranges ids current" "distinct (map ID failed)" "0 \<le> PowerKW signal"
    and "\<forall>p\<in>ran current. 0 \<le> p"
  shows "total_kw res' = total_kw current -
    max 0 ((\<Sum>v\<leftarrow>failed. getd 0 current (ID v)) -
           (\<Sum>a\<leftarrow>Balanced_availableCapacity b ids (ID ` set failed) (fst (collect_failed failed current 0)).
              alloc_cap a))"
proof (cases "failed = []")
  case True
  have "0 \<le> cap_sum (Balanced_availableCapacity b ids {} current)"
    using Balanced_availableCapacity_well [OF rangesD(1) [OF assms(2)]]
    by (intro sum_list_nonneg) (auto simp: well_alloc_def intro: less_imp_le)
  with True assms(1) show ?thesis by (simp add: Balanced_Reallocate_def)
next
  case False
  let ?res = "fst (collect_failed failed current 0)"
  let ?as = "Balanced_availableCapacity b ids (ID ` set failed) ?res"
  have nonneg: "0 \<le> getd 0 current i" for i
    using assms(5) by (cases "current i") (auto simp: ran_def)
  have residual: "snd (collect_failed failed current 0) = (\<Sum>v\<leftarrow>failed. getd 0 current (ID v))"
    using collect_failed_residual [OF assms(3), of current 0] nonneg by simp
  have fin: "finite (dom current)" using assms(2) by (rule ranges_finite)
  then have fin': "finite (dom ?res)"
    by (rule finite_subset [rotated, OF finite_UnI [OF _ finite_imageI [OF finite_set [of failed], of ID]]])
      (auto simp: collect_failed_res split: if_splits)
  note tot = collect_failed_total [OF assms(3) fin, of 0]
  have wa: "well_alloc ?as" using Balanced_availableCapacity_well rangesD(1) [OF assms(2)] by blast
  have cap: "0 \<le> cap_sum ?as"
    using wa by (intro sum_list_nonneg) (auto simp: well_alloc_def intro: less_imp_le)
  show ?thesis
  proof (rule Balanced_Reallocate_cases [OF assms(1) False rangesD(1) [OF assms(2)]])
    fix r :: real
    assume "res' = ?res" "snd (collect_failed failed current 0) = 0"
    then show ?thesis using tot residual cap by simp
  next
    fix r
    assume ret: "allocatePower ?as ?res (snd (collect_failed failed current 0)) (signalSign signal) = Some (res', r)"
    have "0 \<le> snd (collect_failed failed current 0)"
      unfolding residual using nonneg by (intro sum_list_nonneg) auto
    from allocatePower_distributes [OF wa ret fin' this] tot residual assms(4) show ?thesis
      by (simp add: signalSign_def)
  qed
qed


text \<open>The fleet of the repository's own test of \<open>BalancedFallback\<close>.\<close>

definition test_fleet :: "real Vehicle list" where
  "test_fleet = [zeroVehicle\<lparr>ID := ''v1'', MaxPower := 50, SoC := 1\<rparr>,
                 zeroVehicle\<lparr>ID := ''v2'', MaxPower := 100, SoC := 1\<rparr>]"

definition test_signal :: "real \<Rightarrow> real FlexibilitySignal" where
  "test_signal p = \<lparr>SigType = SignalFCR, PowerKW = p, SigDuration = 0, Timestamp = timeZero\<rparr>"

lemma test_reallocate:
  "Balanced_Reallocate (Balanced_SetVehicles Map.empty test_fleet) [''v1'', ''v2''] [hd test_fleet]
     [''v1'' \<mapsto> 30, ''v2'' \<mapsto> 60] (test_signal 90) = Some [''v1'' \<mapsto> 0, ''v2'' \<mapsto> 90]"
proof -
  have cap: "EffectiveCapacity (zeroVehicle\<lparr>ID := ''v2'', MaxPower := 100, SoC := 1\<rparr>) (60 :: real) = 40"
    by (simp add: EffectiveCapacity_def zeroVehicle_def Let_def)
  have "allocatePower [\<lparr>alloc_id = ''v2'', alloc_cap = 40\<rparr>] [''v2'' \<mapsto> 60, ''v1'' \<mapsto> 0] 30 1 =
      Some ([''v2'' \<mapsto> 90, ''v1'' \<mapsto> 0], 0 :: real)"
    by (simp add: allocatePower_single fun_upd_twist)
  then show ?thesis
    by (simp add: Balanced_Reallocate_def Balanced_SetVehicles_def test_fleet_def test_signal_def
        signalSign_def cap fun_upd_twist)
qed


theorem balanced_reallocate_total_witness:
  "total_kw [''v1'' \<mapsto> 0, ''v2'' \<mapsto> 90] = (total_kw [''v1'' \<mapsto> 30, ''v2'' \<mapsto> 60] :: real)"
proof -
  have cap: "EffectiveCapacity (zeroVehicle\<lparr>ID := ''v2'', MaxPower := 100, SoC := 1\<rparr>) (60 :: real) = 40"
    by (simp add: EffectiveCapacity_def zeroVehicle_def Let_def)
  have rng: "ranges [''v1'', ''v2''] [''v1'' \<mapsto> (30 :: real), ''v2'' \<mapsto> 60]"
    by (auto simp: ranges_def)
  have nonneg: "\<forall>p\<in>ran [''v1'' \<mapsto> (30 :: real), ''v2'' \<mapsto> 60]. 0 \<le> p"
    by (auto simp: ran_def split: if_splits)
  show ?thesis
    using balanced_reallocate_total [OF test_reallocate rng _ _ nonneg]
    by (simp add: test_fleet_def test_signal_def Balanced_SetVehicles_def cap)
qed

lemma Balanced_passes_unfold:
  "Balanced_passes n b ids failed current signal =
     snd (alloc_passes n (Balanced_availableCapacity b ids (ID ` set failed) (fst (collect_failed failed current 0)))
       (fst (collect_failed failed current 0)) (snd (collect_failed failed current 0)) (signalSign signal))"
  by (simp add: Balanced_passes_def case_prod_unfold Let_def)

lemma Balanced_Reallocate_passes:
  fixes current :: "string \<rightharpoonup> real"
  assumes "Balanced_Reallocate b ids failed current signal = Some res'"
  shows "\<exists>m. res' = fst (Balanced_passes m b ids failed current signal)"
proof (cases "snd (collect_failed failed current 0) = 0")
  case True
  then have "res' = fst (collect_failed failed current 0)"
    using assms by (cases "failed = []") (auto simp: Balanced_Reallocate_def case_prod_unfold)
  then show ?thesis by (intro exI [of _ 0]) (simp add: Balanced_passes_unfold)
next
  case False
  then have "failed \<noteq> []" by auto
  with False assms obtain r where "allocatePower (Balanced_availableCapacity b ids (ID ` set failed) (fst (collect_failed failed current 0)))
      (fst (collect_failed failed current 0)) (snd (collect_failed failed current 0)) (signalSign signal) = Some (res', r)"
    by (auto simp: Balanced_Reallocate_unfold Let_def)
  from allocatePower_passes [OF this] show ?thesis by (metis Balanced_passes_unfold fst_conv snd_conv)
qed

lemma passes_survivor:
  fixes current :: "string \<rightharpoonup> real"
  assumes "ranges ids current" "0 \<le> PowerKW signal" "Balanced_passes n b ids failed current signal = (res', remaining)"
    and "i \<notin> ID ` set failed" "current i = Some p" "b i = Some v" "p \<le> MaxPower v" "0 \<le> MaxPower v" "0 \<le> SoC v" "SoC v \<le> 1"
  shows "\<exists>q. res' i = Some q \<and> p \<le> q \<and> q \<le> MaxPower v"
proof -
  let ?res = "fst (collect_failed failed current 0)"
  let ?as = "Balanced_availableCapacity b ids (ID ` set failed) ?res"
  have di: "distinct ids" using assms(1) by (rule rangesD)
  note wa = Balanced_availableCapacity_well [OF di, of b "ID ` set failed" ?res]
  have sign: "signalSign signal = 1" using assms(2) by (simp add: signalSign_def)
  obtain as' where ps: "alloc_passes n ?as ?res (snd (collect_failed failed current 0)) 1 = (as', res', remaining)"
    using assms(3) by (auto simp: Balanced_passes_unfold sign prod_eq_iff)
  have p: "?res i = Some p" using assms(4,5) by (simp add: collect_failed_res)
  show ?thesis
  proof (cases "capm ?as i")
    case None
    then have "i \<notin> alloc_id ` set ?as" using capm_dom [of ?as] by blast
    from alloc_passes_outside [OF ps wa this] p assms(7) show ?thesis by simp
  next
    case (Some c)
    then have c: "c = EffectiveCapacity v p"
      using assms(4,6) p by (auto simp: Balanced_availableCapacity_capm [OF di] split: if_splits)
    have "c \<le> MaxPower v - p" unfolding c using assms(7-10) by (intro EffectiveCapacity_le) auto
    with alloc_passes_shares [OF ps wa Some p] show ?thesis by force
  qed
qed

text \<open>
  C16. The reallocation keeps the limits however far it gets. At exact arithmetic, for a signal that is not
  negative, and after any number \<open>n\<close> of passes of the loop, whether or not it ends: every failed vehicle has
  an assignment of zero; a vehicle that did not fail has at least what it had and stays within its \<open>MaxPower\<close>
  (given a state of charge between 0 and 1); and when the others can take the power of the failed vehicles, at
  most the fraction \<open>exp (- n)\<close> of it is still to place. What a reallocation that returns has made is what it
  has after some number of passes.
\<close>

theorem balanced_reallocate_limits:
  fixes current :: "string \<rightharpoonup> real"
  assumes "ranges ids current" "distinct (map ID failed)" "0 \<le> PowerKW signal"
    and "Balanced_passes n b ids failed current signal = (res', remaining)"
  shows "(\<forall>v\<in>set failed. res' (ID v) = Some 0) \<and>
    (\<forall>i p v. i \<notin> ID ` set failed \<and> current i = Some p \<and> b i = Some v \<and> p \<le> MaxPower v \<and> 0 \<le> MaxPower v \<and>
       0 \<le> SoC v \<and> SoC v \<le> 1 \<longrightarrow> (\<exists>q. res' i = Some q \<and> p \<le> q \<and> q \<le> MaxPower v)) \<and>
    ((\<Sum>v\<leftarrow>failed. \<bar>getd 0 current (ID v)\<bar>) \<le>
       (\<Sum>a\<leftarrow>Balanced_availableCapacity b ids (ID ` set failed) (fst (collect_failed failed current 0)). alloc_cap a) \<longrightarrow>
     remaining \<le> exp (- real n) * (\<Sum>v\<leftarrow>failed. \<bar>getd 0 current (ID v)\<bar>)) \<and>
    (\<forall>out. Balanced_Reallocate b ids failed current signal = Some out \<longrightarrow>
       (\<exists>m. out = fst (Balanced_passes m b ids failed current signal)))"
proof -
  let ?res = "fst (collect_failed failed current 0)"
  let ?as = "Balanced_availableCapacity b ids (ID ` set failed) ?res"
  note wa = Balanced_availableCapacity_well [OF rangesD(1) [OF assms(1)], of b "ID ` set failed" ?res]
  obtain as' where ps: "alloc_passes n ?as ?res (snd (collect_failed failed current 0)) (signalSign signal) = (as', res', remaining)"
    using assms(4) by (auto simp: Balanced_passes_unfold prod_eq_iff)
  have "res' (ID v) = Some 0" if "v \<in> set failed" for v
  proof -
    have "ID v \<notin> alloc_id ` set ?as" using that Balanced_availableCapacity_ids by fastforce
    from alloc_passes_outside [OF ps wa this] that show ?thesis by (simp add: collect_failed_res)
  qed
  moreover have "0 \<le> (\<Sum>v\<leftarrow>failed. \<bar>getd 0 current (ID v)\<bar>)" by (intro sum_list_nonneg) auto
  note decay = alloc_passes_decay [OF ps wa, unfolded collect_failed_residual [OF assms(2)] add_0, OF this]
  ultimately show ?thesis
    using decay passes_survivor [OF assms(1,3,4)] Balanced_Reallocate_passes [of b ids failed current signal] by blast
qed

text \<open>A third vehicle in the fleet: two survivors, for whom the loop at exact arithmetic has no end.\<close>

theorem balanced_reallocate_limits_witness:
  "\<exists>q. fst (Balanced_passes 3 (Balanced_SetVehicles Map.empty (test_fleet @ [zeroVehicle\<lparr>ID := ''v3'', MaxPower := 100, SoC := 1\<rparr>]))
       [''v1'', ''v2'', ''v3''] [hd test_fleet] [''v1'' \<mapsto> 30, ''v2'' \<mapsto> 60, ''v3'' \<mapsto> 60] (test_signal 150)) ''v2'' = Some q \<and>
     60 \<le> q \<and> q \<le> (100 :: real)"
proof -
  let ?b = "Balanced_SetVehicles Map.empty (test_fleet @ [zeroVehicle\<lparr>ID := ''v3'', MaxPower := 100, SoC := 1\<rparr>])"
    and ?cur = "[''v1'' \<mapsto> 30, ''v2'' \<mapsto> 60, ''v3'' \<mapsto> (60 :: real)]"
  have rng: "ranges [''v1'', ''v2'', ''v3''] ?cur" by (auto simp: ranges_def)
  obtain res' r where p: "Balanced_passes 3 ?b [''v1'', ''v2'', ''v3''] [hd test_fleet] ?cur (test_signal 150) = (res', r)"
    by (metis prod.collapse)
  have "\<exists>q. res' ''v2'' = Some q \<and> 60 \<le> q \<and> q \<le> MaxPower (test_fleet ! 1)"
    by (rule conjunct1 [OF conjunct2 [OF balanced_reallocate_limits [OF rng _ _ p]], rule_format])
      (simp_all add: test_fleet_def test_signal_def Balanced_SetVehicles_def zeroVehicle_def)
  then show ?thesis unfolding p by (simp add: test_fleet_def)
qed

text \<open>
  For a negative signal the limit is not respected. \<open>EffectiveCapacity\<close> subtracts the
  signed assignment, so a vehicle that already reduces by 5 kW appears to have 15 kW left of
  its 10 kW, and ends at 15 kW.
\<close>

theorem balanced_reallocate_negative_overshoot:
  "Balanced_Reallocate
     (Balanced_SetVehicles Map.empty
        [zeroVehicle\<lparr>ID := ''v1'', MaxPower := 10, SoC := 1\<rparr>,
         zeroVehicle\<lparr>ID := ''v2'', MaxPower := 10, SoC := 1\<rparr>])
     [''v1'', ''v2''] [zeroVehicle\<lparr>ID := ''v1'', MaxPower := 10, SoC := 1\<rparr>]
     [''v1'' \<mapsto> -10, ''v2'' \<mapsto> -5]
     \<lparr>SigType = SignalNEBEF, PowerKW = -15, SigDuration = 0, Timestamp = timeZero\<rparr>
   = Some [''v1'' \<mapsto> 0, ''v2'' \<mapsto> (-15 :: real)]"
proof -
  have cap: "EffectiveCapacity (zeroVehicle\<lparr>ID := ''v2'', MaxPower := 10, SoC := 1\<rparr>) (-5 :: real) = 15"
    by (simp add: EffectiveCapacity_def zeroVehicle_def Let_def)
  have "allocatePower [\<lparr>alloc_id = ''v2'', alloc_cap = 15\<rparr>] [''v2'' \<mapsto> -5, ''v1'' \<mapsto> 0] 10 (-1) =
      Some ([''v2'' \<mapsto> -15, ''v1'' \<mapsto> 0], 0 :: real)"
    by (simp add: allocatePower_single fun_upd_twist)
  then show ?thesis
    by (simp add: Balanced_Reallocate_def Balanced_SetVehicles_def signalSign_def cap fun_upd_twist)
qed

text \<open>
  The probabilistic fallback computes the same reallocation as the balanced one, on every
  input: both weigh by \<open>EffectiveCapacity\<close>, and the only difference in the code, how an
  unknown vehicle is skipped, does not show.
\<close>

theorem probabilistic_equals_balanced:
  "Probabilistic_Reallocate (Probabilistic_SetVehicles p vs) ids failed current signal =
   Balanced_Reallocate (Balanced_SetVehicles b vs) ids failed (current :: string \<rightharpoonup> real) signal"
  by (simp add: Probabilistic_Reallocate_def Balanced_Reallocate_def Probabilistic_SetVehicles_def
      Balanced_SetVehicles_def case_prod_unfold Let_def Probabilistic_availableCapacity_eq)

end
