(* ===== verification/Fallback_Float.thy ===== *)
theory Fallback_Float
  imports Fallback Go_Float64
begin

text \<open>
  The allocation loop of \<open>core/dispatch/balanced_fallback.go\<close> read at binary64, the arithmetic
  the program runs with. The residual power shrinks from pass to pass; at the least positive
  float a pass whose ratios are at most one half rounds every share to zero, and the loop
  repeats the same state for ever. The second part says exactly when the loop returns: every pass either
  takes something away from the capacities or the power, or leads back to its own state.
\<close>

subsection \<open>The loop repeats itself\<close>

text \<open>No survivor holds more than half of the spare capacity.\<close>

definition spread :: "f64 alloc list \<Rightarrow> bool" where
  "spread avail \<longleftrightarrow> avail \<noteq> [] \<and>
     list_all (\<lambda>a. wf_f64 (alloc_cap a) \<and> 0 < alloc_cap a \<and> alloc_cap a < PInf \<and>
       0 \<le> alloc_cap a / fsum alloc_cap avail \<and>
       alloc_cap a / fsum alloc_cap avail \<le> lit 1 2) avail"

lemma stuck_share:
  assumes "wf_f64 c" "0 < c" "c < PInf" "z = Fin 0 \<or> z = NegZero"
  shows "\<not> c < z" "c - z = c" "Fin 1 - z = Fin 1"
proof -
  obtain k where k: "c = Fin k" "0 < k" 
    using assms(2,3) by (cases c) (auto simp: f64_defs f64_less_def)
  show "\<not> c < z" using k assms(4) by (auto simp: f64_defs f64_less_def)
  show "c - z = c" using f64_sub_zero k assms by blast
  have "wf_f64 (Fin 1)" using wf_shift [of 1 0] by simp
  then show "Fin 1 - z = Fin 1" using f64_sub_zero [of 1] assms(4) by simp
qed

lemma allocate_round_stuck:
  assumes "list_all (\<lambda>a. wf_f64 (alloc_cap a) \<and> 0 < alloc_cap a \<and> alloc_cap a < PInf \<and>
       0 \<le> alloc_cap a / T \<and> alloc_cap a / T \<le> lit 1 2) as"
  shows "snd (allocate_round T sign as res (Fin 1)) = (Fin 1, as)"
  using assms
proof (induction as arbitrary: res)
  case (Cons a as)
  define z where "z = Fin 1 * (alloc_cap a / T)"
  have z: "z = Fin 0 \<or> z = NegZero" unfolding z_def using Cons.prems by (intro least_times_half) auto
  note st = stuck_share [OF _ _ _ z]
  have "\<not> alloc_cap a < z" "alloc_cap a - z = alloc_cap a" "Fin 1 - z = Fin 1"
    using st Cons.prems by auto
  with Cons show ?case
    by (simp add: allocate_round.simps(2) Let_def case_prod_unfold z_def [symmetric])
qed simp

lemma spread_total_nonzero: "spread avail \<Longrightarrow> \<not> feq (fsum alloc_cap avail) 0"
proof
  assume s: "spread avail" and z: "feq (fsum alloc_cap avail) 0"
  let ?T = "fsum alloc_cap avail"
  obtain a as where a: "avail = a # as" using s by (cases avail) (auto simp: spread_def)
  obtain k where k: "alloc_cap a = Fin k" "0 < k"
    using s a by (cases "alloc_cap a") (auto simp: spread_def f64_defs f64_less_def)
  have "?T = Fin 0 \<or> ?T = NegZero"
    using z by (cases ?T) (auto simp: feq_def f64_defs f64_le_def)
  then have "alloc_cap a / ?T = PInf \<or> alloc_cap a / ?T = NInf"
    using k by (auto simp: f64_defs f64_div_def f64_finite_def f64_inf_def Let_def)
  moreover have "0 \<le> alloc_cap a / ?T \<and> alloc_cap a / ?T \<le> lit 1 2"
    using s a by (simp add: spread_def)
  ultimately show False using f64_half by (auto simp: f64_defs f64_le_def)
qed

lemma allocatePower_stuck:
  assumes "allocatePower avail res r sign = Some y"
  shows "\<not> (r = Fin 1 \<and> spread avail)"
proof (rule allocatePower.raw_induct [where
      P = "\<lambda>avail res r sign y. \<not> (r = Fin 1 \<and> spread avail)", OF _ assms])
  fix f :: "f64 alloc list \<Rightarrow> (string \<rightharpoonup> f64) \<Rightarrow> f64 \<Rightarrow> f64 \<Rightarrow> ((string \<rightharpoonup> f64) \<times> f64) option"
  fix avail res r sign y
  assume IH: "\<And>avail res r sign y. f avail res r sign = Some y \<Longrightarrow> \<not> (r = Fin 1 \<and> spread avail)"
    and eq: "(if 0 < r \<and> avail \<noteq> []
        then (let totalCap = fsum alloc_cap avail in
              if feq totalCap 0 then Some (res, r)
              else (case allocate_round totalCap sign avail res r of
                      (res', remaining', nxt) \<Rightarrow> f nxt res' remaining' sign))
        else Some (res, r)) = Some y"
  show "\<not> (r = Fin 1 \<and> spread avail)"
  proof
    assume "r = Fin 1 \<and> spread avail"
    then have s: "spread avail" and r1: "r = Fin 1" by auto
    let ?T = "fsum alloc_cap avail"
    have "snd (allocate_round ?T sign avail res (Fin 1)) = (Fin 1, avail)"
      using s by (intro allocate_round_stuck) (simp add: spread_def)
    then obtain res' where r: "allocate_round ?T sign avail res (Fin 1) = (res', Fin 1, avail)"
      by (metis prod.collapse)
    have "(0::f64) < Fin 1" "avail \<noteq> []" using s by (auto simp: f64_defs f64_less_def spread_def)
    then have "f avail res' (Fin 1) sign = Some y"
      using eq r1 spread_total_nonzero [OF s] r by (simp add: Let_def)
    then show False using IH s by blast
  qed
qed

text \<open>
  C19. At binary64 the allocation loop of the fallback strategies does not end once the power
  still to place is the least positive float and no survivor holds more than half of the spare
  capacity: every share rounds to zero, so capacities and residual power stay as they are. The
  witness has three survivors with 10 kW of spare capacity each.
\<close>

theorem allocatePower_float_hangs:
  fixes avail :: "f64 alloc list"
  assumes "spread avail"
  shows "allocatePower avail res (Fin 1) sign = None"
  using allocatePower_stuck assms by (metis not_Some_eq)

lemma three_equal_spread:
  "spread [\<lparr>alloc_id = i, alloc_cap = Fin (10 * 2 ^ 1074)\<rparr>, \<lparr>alloc_id = j, alloc_cap = Fin (10 * 2 ^ 1074)\<rparr>,
           \<lparr>alloc_id = k, alloc_cap = Fin (10 * 2 ^ 1074)\<rparr>]"
proof -
  let ?c = "10 * 2 ^ 1074 :: int"
  have w: "wf_f64 (Fin ?c)" "wf_f64 (Fin (?c + ?c))" "wf_f64 (Fin (?c + ?c + ?c))"
    using wf_shift [of 10 1074] wf_shift [of 20 1074] wf_shift [of 30 1074] by simp_all
  have T: "Fin 0 + Fin ?c + Fin ?c + Fin ?c = Fin (?c + ?c + ?c)"
    using w f64_add_pos [of 0 ?c] f64_add_pos [of ?c ?c] f64_add_pos [of "?c + ?c" ?c] by simp
  have "0 \<le> Fin ?c / Fin (?c + ?c + ?c) \<and> Fin ?c / Fin (?c + ?c + ?c) \<le> lit 1 2"
    by (rule f64_ratio_half) simp_all
  with w T show ?thesis
    by (simp add: spread_def fsum_def zero_f64_def f64_defs(8) less_f64_def f64_less_def)
qed

theorem allocatePower_float_hangs_witness:
  "allocatePower
     [\<lparr>alloc_id = ''v1'', alloc_cap = Fin (10 * 2 ^ 1074)\<rparr>,
      \<lparr>alloc_id = ''v2'', alloc_cap = Fin (10 * 2 ^ 1074)\<rparr>,
      \<lparr>alloc_id = ''v3'', alloc_cap = Fin (10 * 2 ^ 1074)\<rparr>] Map.empty (Fin 1) 1 = None"
  by (rule allocatePower_float_hangs [OF three_equal_spread])

subsection \<open>When the loop returns\<close>

text \<open>Capacities that are positive finite floats, power to place that is a finite float and not negative.\<close>

definition caps_ok :: "f64 alloc list \<Rightarrow> bool" where
  "caps_ok as \<longleftrightarrow> (\<forall>a\<in>set as. \<exists>c. pos_units (alloc_cap a) c \<and> 0 < c)"

definition weight :: "f64 alloc list \<Rightarrow> nat" where
  "weight as = (\<Sum>a\<leftarrow>as. nat (f64_units (alloc_cap a)))"

text \<open>A total that every capacity is a part of.\<close>

definition total_of :: "f64 \<Rightarrow> f64 alloc list \<Rightarrow> bool" where
  "total_of T as \<longleftrightarrow> T = PInf \<or> (\<exists>t. pos_units T t \<and> (\<forall>a\<in>set as. f64_units (alloc_cap a) \<le> int t))"

lemma fsum_total: "caps_ok as \<Longrightarrow> total_of (fsum alloc_cap as) as"
proof -
  have "total_of (foldl (\<lambda>s a. s + alloc_cap a) x as) as \<and>
      (x = PInf \<longrightarrow> foldl (\<lambda>s a. s + alloc_cap a) x as = PInf) \<and>
      (\<forall>k. pos_units x k \<longrightarrow> foldl (\<lambda>s a. s + alloc_cap a) x as = PInf \<or>
         (\<exists>t. pos_units (foldl (\<lambda>s a. s + alloc_cap a) x as) t \<and> k \<le> t))"
    if "caps_ok as" "x = PInf \<or> (\<exists>k. pos_units x k)" for x
    using that
  proof (induction as arbitrary: x)
    case Nil
    then show ?case by (auto simp: total_of_def)
  next
    case (Cons a as)
    obtain c where c: "pos_units (alloc_cap a) c" using Cons.prems(1) by (auto simp: caps_ok_def)
    have inf: "PInf + alloc_cap a = PInf" using pos_unitsD(1) [OF c] by (simp add: plus_f64_def f64_add_def)
    let ?y = "x + alloc_cap a"
    have y: "?y = PInf \<or> (\<exists>d. pos_units ?y d \<and> c \<le> d \<and> (\<forall>k. pos_units x k \<longrightarrow> k \<le> d))"
      using Cons.prems(2) inf pos_units_add [OF _ c, of x] by (auto simp: pos_units_def)
    have "caps_ok as" using Cons.prems(1) by (simp add: caps_ok_def)
    note IH = Cons.IH [OF this, of ?y]
    show ?case
    proof (cases "?y = PInf")
      case True
      with IH show ?thesis by (auto simp: total_of_def)
    next
      case False
      with y obtain d where d: "pos_units ?y d" "c \<le> d" "\<forall>k. pos_units x k \<longrightarrow> k \<le> d" by blast
      have "x \<noteq> PInf" using False inf by auto
      with IH d c show ?thesis by (fastforce simp: total_of_def pos_units_def)
    qed
  qed
  moreover have "pos_units 0 0" using representable_small [of 0] by (simp add: pos_units_def zero_f64_def)
  ultimately show "caps_ok as \<Longrightarrow> total_of (fsum alloc_cap as) as" unfolding fsum_def by blast
qed

text \<open>One share: between nothing and the smaller of the capacity and the power to place.\<close>

lemma share_units:
  assumes "pos_units c k" "0 < k" "pos_units r m" "T = PInf \<or> (\<exists>t. pos_units T t \<and> k \<le> t)"
  shows "\<exists>j. (if c < r * (c / T) then c else r * (c / T)) = Fin (int j) \<and> j \<le> k \<and> j \<le> m"
proof -
  obtain q where q: "c / T = Fin (int q)" "q \<le> 2 ^ 1074"
    using pos_units_ratio [OF assms(1), of T] assms(2,4) by (metis less_le_trans)
  obtain j where j: "r * (c / T) = Fin (int j)" "j \<le> m" using pos_units_part [OF assms(3) q] by blast
  have c: "c = Fin (int k)" using assms(1) by (rule pos_unitsD)
  show ?thesis
  proof (cases "c < r * (c / T)")
    case True
    then have "c < Fin (int j)" by (simp only: j(1))
    then have "k < j" by (simp add: c less_f64_def f64_less_def)
    with True c j(2) show ?thesis by (intro exI [of _ k]) simp
  next
    case False
    then have "\<not> c < Fin (int j)" by (simp only: j(1) not_False_eq_True)
    then have "j \<le> k" by (simp add: c less_f64_def f64_less_def)
    with False j show ?thesis by (intro exI [of _ j]) simp
  qed
qed

lemma weight_Cons: "pos_units (alloc_cap a) c \<Longrightarrow> weight (a # as) = c + weight as"
  by (simp add: weight_def pos_units_def)

text \<open>A pass never adds to capacities or power, and one that takes nothing away changes nothing.\<close>

lemma round_weight:
  assumes "caps_ok as" "total_of T as" "pos_units r m" "allocate_round T sign as res r = (res', r', nxt)"
  shows "caps_ok nxt \<and> (\<exists>m'. pos_units r' m' \<and> m' \<le> m \<and> weight nxt \<le> weight as \<and>
    (weight as + m \<le> weight nxt + m' \<longrightarrow> nxt = as \<and> r' = r))"
  using assms
proof (induction as arbitrary: res r m nxt)
  case Nil
  then show ?case by auto
next
  case (Cons a as)
  define share where "share = (if alloc_cap a < r * (alloc_cap a / T) then alloc_cap a else r * (alloc_cap a / T))"
  obtain c where c: "pos_units (alloc_cap a) c" "0 < c" using Cons.prems(1) by (auto simp: caps_ok_def)
  have "T = PInf \<or> (\<exists>t. pos_units T t \<and> c \<le> t)"
    using Cons.prems(2) pos_unitsD(1) [OF c(1)] by (auto simp: total_of_def)
  then obtain j where j: "share = Fin (int j)" "j \<le> c" "j \<le> m"
    using share_units [OF c Cons.prems(3)] unfolding share_def by blast
  obtain c' where c': "pos_units (alloc_cap a - share) c'" "c' \<le> c" using pos_units_sub [OF c(1) j(2)] j(1) by auto
  obtain m1 where m1: "pos_units (r - share) m1" "m1 \<le> m" using pos_units_sub [OF Cons.prems(3) j(3)] j(1) by auto
  let ?res = "res(alloc_id a \<mapsto> getd 0 res (alloc_id a) + sign * share)"
  obtain nxt1 where rest: "allocate_round T sign as ?res (r - share) = (res', r', nxt1)"
    and nxt: "nxt = (if 0 < alloc_cap a - share then a\<lparr>alloc_cap := alloc_cap a - share\<rparr> # nxt1 else nxt1)"
    using Cons.prems(4) by (auto simp: allocate_round.simps(2) Let_def share_def [symmetric] split: prod.splits)
  have "caps_ok as" "total_of T as" using Cons.prems(1,2) by (auto simp: caps_ok_def total_of_def)
  from Cons.IH [OF this m1(1) rest] obtain m' where IH: "caps_ok nxt1" "pos_units r' m'" "m' \<le> m1" "weight nxt1 \<le> weight as"
    "weight as + m1 \<le> weight nxt1 + m' \<longrightarrow> nxt1 = as \<and> r' = r - share" by blast
  have pos: "0 < alloc_cap a - share \<longleftrightarrow> 0 < c'" using c'(1) by (simp add: pos_units_def zero_f64_def less_f64_def f64_less_def)
  show ?case
  proof (cases "0 < c'")
    case True
    let ?a = "a\<lparr>alloc_cap := alloc_cap a - share\<rparr>"
    have n: "nxt = ?a # nxt1" using nxt pos True by simp
    have w: "weight nxt = c' + weight nxt1" "weight (a # as) = c + weight as"
      unfolding n using weight_Cons [of ?a c' nxt1] weight_Cons [OF c(1), of as] c'(1) by simp_all
    have "nxt = a # as \<and> r' = r" if "weight (a # as) + m \<le> weight nxt + m'"
    proof -
      have "c' = c" "m1 = m" "weight as + m1 \<le> weight nxt1 + m'" using that w c'(2) m1(2) IH(3,4) by linarith+
      moreover have "alloc_cap a - share = alloc_cap a" "r - share = r"
        using \<open>c' = c\<close> \<open>m1 = m\<close> c(1) c'(1) m1(1) Cons.prems(3) by (simp_all add: pos_units_def)
      ultimately show ?thesis using n IH(5) by simp
    qed
    moreover have "caps_ok nxt" using n IH(1) c'(1) True by (auto simp: caps_ok_def)
    moreover have "weight nxt \<le> weight (a # as)" "m' \<le> m" using w c'(2) m1(2) IH(3,4) by linarith+
    ultimately show ?thesis using IH(2) by blast
  next
    case False
    then have n: "nxt = nxt1" using nxt pos by simp
    have w: "weight (a # as) = c + weight as" by (rule weight_Cons [OF c(1)])
    have "weight nxt < weight (a # as)" unfolding n w using c(2) IH(4) by linarith
    moreover have "m' \<le> m" using m1(2) IH(3) by linarith
    ultimately show ?thesis using IH(1,2) n by (intro conjI exI [of _ m']) auto
  qed
qed

text \<open>The control of the loop does not look at the assignments.\<close>

lemma allocate_round_control: "snd (allocate_round T sign as res r) = snd (allocate_round T sign' as res' r)"
proof (induction as arbitrary: res res' r)
  case (Cons a as)
  define share where "share = (if alloc_cap a < r * (alloc_cap a / T) then alloc_cap a else r * (alloc_cap a / T))"
  have "snd (allocate_round T sign as (res(alloc_id a \<mapsto> getd 0 res (alloc_id a) + sign * share)) (r - share)) =
    snd (allocate_round T sign' as (res'(alloc_id a \<mapsto> getd 0 res' (alloc_id a) + sign' * share)) (r - share))"
    by (rule Cons.IH)
  then show ?case
    by (simp add: allocate_round.simps(2) Let_def case_prod_unfold prod_eq_iff share_def [symmetric])
qed simp

text \<open>A state from which a pass leads back to itself.\<close>

definition idle :: "f64 alloc list \<Rightarrow> f64 \<Rightarrow> bool" where
  "idle as r \<longleftrightarrow> \<not> alloc_done as r \<and> snd (allocate_round (fsum alloc_cap as) 1 as Map.empty r) = (r, as)"

lemma idle_passes: "idle as r \<Longrightarrow> \<exists>res'. alloc_passes n as res r sign = (as, res', r)"
proof (induction n arbitrary: res)
  case (Suc n)
  have "snd (allocate_round (fsum alloc_cap as) sign as res r) = (r, as)"
    using Suc.prems allocate_round_control [of "fsum alloc_cap as" sign as res r 1 Map.empty] by (simp add: idle_def)
  then obtain res1 where "allocate_round (fsum alloc_cap as) sign as res r = (res1, r, as)" by (metis prod.collapse)
  with Suc show ?case by (simp add: idle_def)
qed simp

lemma idle_hangs: "idle as r \<Longrightarrow> allocatePower as res r sign = None"
proof (rule ccontr)
  assume idle: "idle as r" and "allocatePower as res r sign \<noteq> None"
  then obtain out where "allocatePower as res r sign = Some (fst out, snd out)" by (metis option.exhaust prod.collapse)
  from allocatePower_passes [OF this] obtain n as' where
    "alloc_passes n as res r sign = (as', fst out, snd out)" "alloc_done as' (snd out)" by blast
  with idle_passes [OF idle, of n res sign] idle show False by (auto simp: idle_def)
qed

lemma float_loop_ends:
  assumes "caps_ok as" "pos_units r m"
  shows "\<exists>n as' res' r'. alloc_passes n as res r sign = (as', res', r') \<and> (alloc_done as' r' \<or> idle as' r')"
  using assms
proof (induction "weight as + m" arbitrary: as res r m rule: less_induct)
  case less
  show ?case
  proof (cases "alloc_done as r \<or> idle as r")
    case True
    then show ?thesis by (intro exI [of _ 0]) simp
  next
    case False
    obtain res1 r1 nxt where rd: "allocate_round (fsum alloc_cap as) sign as res r = (res1, r1, nxt)" by (metis prod_cases3)
    from round_weight [OF less.prems(1) fsum_total [OF less.prems(1)] less.prems(2) rd] obtain m1 where
      m1: "caps_ok nxt" "pos_units r1 m1" "m1 \<le> m" "weight nxt \<le> weight as"
      "weight as + m \<le> weight nxt + m1 \<longrightarrow> nxt = as \<and> r1 = r" by blast
    have "\<not> (nxt = as \<and> r1 = r)"
      using False rd allocate_round_control [of "fsum alloc_cap as" sign as res r 1 Map.empty] by (auto simp: idle_def)
    then have "weight nxt + m1 < weight as + m" using m1(5) by linarith
    from less.hyps [OF this m1(1,2), of res1] obtain n as' res' r' where
      "alloc_passes n nxt res1 r1 sign = (as', res', r')" "alloc_done as' r' \<or> idle as' r'" by blast
    then show ?thesis using False rd by (intro exI [of _ "Suc n"]) simp
  qed
qed

text \<open>A single survivor takes what it can in one pass.\<close>

lemma single_returns:
  assumes "caps_ok [a]" "pos_units r m"
  shows "allocatePower [a] res r sign \<noteq> None"
proof -
  obtain c where c: "pos_units (alloc_cap a) c" "0 < c" using assms(1) by (auto simp: caps_ok_def)
  have T: "fsum alloc_cap [a] = alloc_cap a"
    using c f64_add_pos [of 0 "int c"] by (simp add: fsum_def zero_f64_def pos_units_def)
  have one: "alloc_cap a / alloc_cap a = Fin (int (2 ^ 1074))"
    using c f64_div_pos [of "2 ^ 1074" "int c" "int c"] wf_shift [of 1 1074] by (simp add: pos_units_def mult.commute)
  have "rnat (m * 2 ^ 1074) (2 ^ 1074) = m" using pos_unitsD(2) [OF assms(2)] by (intro rnat_exact) simp_all
  then have r: "r * (alloc_cap a / alloc_cap a) = Fin (int m)"
    using pos_units_part [OF assms(2) one order_refl] by simp
  obtain res1 r1 nxt where rd: "allocate_round (alloc_cap a) sign [a] res r = (res1, r1, nxt)" by (metis prod_cases3)
  have "alloc_done nxt r1"
  proof (cases "c < m")
    case True
    then have "alloc_cap a < Fin (int m)" using c by (simp add: pos_units_def less_f64_def f64_less_def)
    moreover have "alloc_cap a - alloc_cap a = Fin 0" using c by (simp add: pos_units_def minus_f64_def f64_add_def)
    ultimately have "nxt = []" using rd by (auto simp: allocate_round.simps Let_def r zero_f64_def less_f64_def f64_less_def)
    then show ?thesis by (simp add: alloc_done_def)
  next
    case False
    then have "\<not> alloc_cap a < Fin (int m)" using c by (simp add: pos_units_def less_f64_def f64_less_def)
    moreover have "r - Fin (int m) = Fin 0" using assms(2) by (simp add: pos_units_def minus_f64_def f64_add_def)
    ultimately have "r1 = Fin 0" using rd by (auto simp: allocate_round.simps Let_def r)
    then show ?thesis by (simp add: alloc_done_def zero_f64_def less_f64_def f64_less_def)
  qed
  then have "alloc_passes (Suc 0) [a] res r sign = (nxt, res1, r1) \<or> alloc_done [a] r" using rd T by auto
  then show ?thesis
    using allocatePower_passes_end [of "Suc 0" "[a]" res r sign] \<open>alloc_done nxt r1\<close> by (auto simp: allocatePower_unfold)
qed

text \<open>
  C18. When the loop of the fallback returns, in the arithmetic of the program. For any survivors with positive
  finite capacities and any finite power to place, the loop at binary64 fails to end exactly when it comes, after
  some number of passes, to a state in which a pass changes neither the capacities nor the power still to place;
  in every other case it returns, since each other pass takes at least one unit in the last place away. With a
  single survivor it always returns.
\<close>

theorem allocatePower_float_returns_iff:
  fixes as :: "f64 alloc list"
  assumes "caps_ok as" "pos_units r m"
  shows "(allocatePower as res r sign = None \<longleftrightarrow>
      (\<exists>n as' res' r' res''. alloc_passes n as res r sign = (as', res', r') \<and> \<not> alloc_done as' r' \<and>
         allocate_round (fsum alloc_cap as') sign as' res' r' = (res'', r', as'))) \<and>
    (length as \<le> 1 \<longrightarrow> allocatePower as res r sign \<noteq> None)"
proof (intro conjI impI iffI)
  assume none: "allocatePower as res r sign = None"
  obtain n as' res' r' where n: "alloc_passes n as res r sign = (as', res', r')" "alloc_done as' r' \<or> idle as' r'"
    using float_loop_ends [OF assms] by blast
  have "\<not> alloc_done as' r'" using none allocatePower_passes_end [OF n(1)] by auto
  moreover have "snd (allocate_round (fsum alloc_cap as') sign as' res' r') = (r', as')"
    using n(2) calculation allocate_round_control [of "fsum alloc_cap as'" sign as' res' r' 1 Map.empty] by (simp add: idle_def)
  ultimately show "\<exists>n as' res' r' res''. alloc_passes n as res r sign = (as', res', r') \<and> \<not> alloc_done as' r' \<and>
      allocate_round (fsum alloc_cap as') sign as' res' r' = (res'', r', as')" using n(1) by (metis prod.collapse)
next
  assume "\<exists>n as' res' r' res''. alloc_passes n as res r sign = (as', res', r') \<and> \<not> alloc_done as' r' \<and>
      allocate_round (fsum alloc_cap as') sign as' res' r' = (res'', r', as')"
  then obtain n as' res' r' res'' where n: "alloc_passes n as res r sign = (as', res', r')" "\<not> alloc_done as' r'"
    "allocate_round (fsum alloc_cap as') sign as' res' r' = (res'', r', as')" by blast
  then have "idle as' r'"
    using allocate_round_control [of "fsum alloc_cap as'" 1 as' Map.empty r' sign res'] by (simp add: idle_def)
  then show "allocatePower as res r sign = None" using allocatePower_after_passes [OF n(1)] idle_hangs by simp
next
  assume "length as \<le> 1"
  then show "allocatePower as res r sign \<noteq> None"
    using single_returns [OF _ assms(2)] assms(1) by (cases as) (auto simp: allocatePower_unfold alloc_done_def)
qed

theorem allocatePower_float_returns_iff_witness:
  "allocatePower [\<lparr>alloc_id = ''v1'', alloc_cap = Fin (10 * 2 ^ 1074)\<rparr>] Map.empty (Fin (int 1)) 1 \<noteq> None \<and>
   allocatePower [\<lparr>alloc_id = ''v1'', alloc_cap = Fin (10 * 2 ^ 1074)\<rparr>, \<lparr>alloc_id = ''v2'', alloc_cap = Fin (10 * 2 ^ 1074)\<rparr>,
     \<lparr>alloc_id = ''v3'', alloc_cap = Fin (10 * 2 ^ 1074)\<rparr>] Map.empty (Fin (int 1)) 1 = None"
proof -
  let ?a = "\<lambda>i. \<lparr>alloc_id = i, alloc_cap = Fin (10 * 2 ^ 1074)\<rparr>"
  let ?as = "[?a ''v1'', ?a ''v2'', ?a ''v3'']"
  have "pos_units (Fin (10 * 2 ^ 1074)) (10 * 2 ^ 1074)" using wf_shift [of 10 1074] by (simp add: pos_units_def)
  then have caps: "caps_ok [?a ''v1'']" "caps_ok ?as" unfolding caps_ok_def by auto
  have r: "pos_units (Fin (int 1)) 1" using wf_shift [of 1 0] by (simp add: pos_units_def)
  have sp: "spread ?as" by (rule three_equal_spread)
  have "snd (allocate_round (fsum alloc_cap ?as) 1 ?as Map.empty (Fin 1)) = (Fin 1, ?as)"
    using sp by (intro allocate_round_stuck) (simp add: spread_def)
  then obtain res where "allocate_round (fsum alloc_cap ?as) 1 ?as Map.empty (Fin 1) = (res, Fin 1, ?as)" by (metis prod.collapse)
  moreover have "\<not> alloc_done ?as (Fin 1)"
    using spread_total_nonzero [OF sp] by (simp add: alloc_done_def zero_f64_def less_f64_def f64_less_def)
  ultimately have idle: "\<exists>n as' res' r' res''. alloc_passes n ?as Map.empty (Fin (int 1)) 1 = (as', res', r') \<and> \<not> alloc_done as' r' \<and>
      allocate_round (fsum alloc_cap as') 1 as' res' r' = (res'', r', as')" by (intro exI [of _ 0]) auto
  have "allocatePower [?a ''v1''] Map.empty (Fin (int 1)) 1 \<noteq> None"
    by (rule allocatePower_float_returns_iff [OF caps(1) r, THEN conjunct2, THEN mp]) simp
  moreover have "allocatePower ?as Map.empty (Fin (int 1)) 1 = None"
    by (rule allocatePower_float_returns_iff [OF caps(2) r, THEN conjunct1, THEN iffD2]) (rule idle)
  ultimately show ?thesis by (rule conjI)
qed

end
