(* ===== verification/Go_Text.thy ===== *)
theory Go_Text
  imports V2G_Prelude "HOL-Library.Sublist"
begin

text \<open>
  The text operations of Go's \<open>strings\<close>, \<open>path/filepath\<close>, \<open>fmt\<close> and \<open>strconv\<close> that the program
  uses: lower case, splitting at a separator, trimming a prefix or suffix, file name extensions and
  decimal numbers. A \<^typ>\<open>string\<close> is the sequence of bytes of a Go string; lower case is that of the
  ASCII letters, all that configuration words need.
\<close>

subsection \<open>Definitions\<close>

definition lowerChar :: "char \<Rightarrow> char" where
  "lowerChar c = (let n = (of_char c :: nat) in if 65 \<le> n \<and> n \<le> 90 then char_of (n + 32) else c)"

definition ToLower :: "string \<Rightarrow> string" where
  "ToLower s = map lowerChar s"

definition TrimPrefix :: "string \<Rightarrow> string \<Rightarrow> string" where
  "TrimPrefix s p = (if prefix p s then drop (length p) s else s)"

definition TrimSuffix :: "string \<Rightarrow> string \<Rightarrow> string" where
  "TrimSuffix s p = (if suffix p s then take (length s - length p) s else s)"

text \<open>\<open>strings.Split(s, sep)\<close> for a separator of one byte: never empty.\<close>

fun Split :: "char \<Rightarrow> string \<Rightarrow> string list" where
  "Split sep [] = [[]]"
| "Split sep (c # cs) =
     (if c = sep then [] # Split sep cs else (c # hd (Split sep cs)) # tl (Split sep cs))"

text \<open>\<open>filepath.Ext\<close>: from the last dot of the last path element on.\<close>

fun ext_rev :: "string \<Rightarrow> string \<Rightarrow> string" where
  "ext_rev [] acc = []"
| "ext_rev (c # cs) acc =
     (if c = CHR ''/'' then [] else if c = CHR ''.'' then c # acc else ext_rev cs (c # acc))"

definition Ext :: "string \<Rightarrow> string" where
  "Ext path = ext_rev (rev path) []"

definition digit :: "nat \<Rightarrow> char" where
  "digit n = char_of (48 + n)"

fun Itoa :: "nat \<Rightarrow> string" where
  "Itoa n = (if n < 10 then [digit n] else Itoa (n div 10) @ [digit (n mod 10)])"

declare Itoa.simps [simp del]

text \<open>\<open>%0wd\<close> on a number that is not negative.\<close>

definition padded :: "nat \<Rightarrow> nat \<Rightarrow> string" where
  "padded w n = replicate (w - length (Itoa n)) (CHR ''0'') @ Itoa n"

text \<open>\<open>strconv.FormatBool\<close>\<close>

definition FormatBool :: "bool \<Rightarrow> string" where
  "FormatBool b = (if b then ''true'' else ''false'')"

subsection \<open>Facts\<close>

lemma Split_not_Nil [simp]: "Split sep s \<noteq> []"
  by (cases s) auto

lemma Split_no_sep: "sep \<notin> set s \<Longrightarrow> Split sep s = [s]"
  by (induction s) auto

lemma Split_append:
  "sep \<notin> set s \<Longrightarrow> Split sep (s @ sep # t) = s # Split sep t"
  by (induction s) auto

lemma last_Split: "last (Split sep (s @ sep # t)) = last (Split sep t)"
proof (induction s)
  case (Cons c cs)
  have "tl (Split sep (cs @ sep # t)) \<noteq> [] \<or> Split sep (cs @ sep # t) = [hd (Split sep (cs @ sep # t))]"
    by (metis Split_not_Nil list.exhaust_sel)
  moreover have "1 < length (Split sep (cs @ sep # t))"
    by (induction cs) (auto simp: length_greater_0_conv)
  ultimately have "tl (Split sep (cs @ sep # t)) \<noteq> []" by (metis One_nat_def length_Cons list.size(3) nat_neq_iff)
  then show ?case using Cons by (simp add: last_tl)
qed simp

definition digits_value :: "string \<Rightarrow> nat" where
  "digits_value s = foldl (\<lambda>n c. 10 * n + (of_char c - 48)) 0 s"

lemma of_digit: "n < 10 \<Longrightarrow> (of_char (digit n) :: nat) = 48 + n"
  by (simp add: digit_def)

lemma digits_value_snoc: "n < 10 \<Longrightarrow> digits_value (s @ [digit n]) = 10 * digits_value s + n"
  by (simp add: digits_value_def of_digit)

lemma digits_value_zeros: "digits_value (replicate k (CHR ''0'') @ s) = digits_value s"
proof -
  have "foldl (\<lambda>n c. 10 * n + (of_char c - 48)) 0 (replicate k (CHR ''0'')) = (0 :: nat)"
    by (induction k) simp_all
  then show ?thesis by (simp add: digits_value_def)
qed

lemma digits_value_Itoa [simp]: "digits_value (Itoa n) = n"
proof (induction n rule: Itoa.induct)
  case (1 n)
  show ?case
  proof (cases "n < 10")
    case True
    then show ?thesis using digits_value_snoc [of n "[]"] by (simp add: Itoa.simps [of n] digits_value_def)
  next
    case False
    then show ?thesis using 1 digits_value_snoc [of "n mod 10"] by (simp add: Itoa.simps [of n])
  qed
qed

lemma Itoa_inj: "Itoa m = Itoa n \<Longrightarrow> m = n"
  by (metis digits_value_Itoa)

lemma padded_inj: "padded w m = padded w n \<Longrightarrow> m = n"
  unfolding padded_def by (metis digits_value_Itoa digits_value_zeros)

end
