(* ===== verification/Smart_Dispatcher.thy ===== *)
theory Smart_Dispatcher
  imports Dispatch_Helpers
begin

text \<open>
  \<open>SmartDispatcher\<close> (\<open>core/dispatch/smart_dispatcher.go\<close>): the SoC filter, the weighted score,
  one allocation round and the bounded loop of rounds. \<open>math.Exp\<close> is the argument \<open>expf\<close>.
  Logging has no effect on the result and is left out. With \<open>MaxRounds = 0\<close> the loop has no
  bound, so it is a \<^theory_text>\<open>partial_function\<close> into \<open>option\<close>.
\<close>

subsection \<open>State\<close>

record 'n SmartDispatcher =
  SocWeight :: 'n
  TimeWeight :: 'n
  PriorityWeight :: 'n
  PriceWeight :: 'n
  WearWeight :: 'n
  FairnessWeight :: 'n
  AvailabilityWeight :: 'n
  MarketPrice :: 'n
  Participation :: "(string \<rightharpoonup> 'n) option"
  MaxRounds :: int
  scores :: "string \<rightharpoonup> 'n"
  EnableSoCConstraints :: bool
  FleetMinSoC :: 'n
  SafeDischargeFloor :: 'n

definition NewSmartDispatcher :: "'n::{zero,one,plus,inverse} SmartDispatcher" where
  "NewSmartDispatcher =
     \<lparr>SocWeight = lit 5 10, TimeWeight = lit 3 10, PriorityWeight = lit 1 10,
      PriceWeight = lit 5 100, WearWeight = lit 5 100, FairnessWeight = lit 5 100,
      AvailabilityWeight = lit 1 10, MarketPrice = 0, Participation = Some Map.empty,
      MaxRounds = 10, scores = Map.empty, EnableSoCConstraints = True,
      FleetMinSoC = lit 1 10, SafeDischargeFloor = lit 1 10\<rparr>"

subsection \<open>Filtering and scoring\<close>

text \<open>The loop of \<open>filterBySoC\<close>; \<open>n\<close> is \<open>len(vehicles)\<close> of the whole slice.\<close>

fun filterBySoC_loop ::
  "'n::{zero,one,plus,minus,uminus,times,inverse,ord} SmartDispatcher \<Rightarrow> 'n FlexibilitySignal
    \<Rightarrow> nat \<Rightarrow> 'n Vehicle list \<Rightarrow> 'n Vehicle list \<times> 'n Vehicle list" where
  "filterBySoC_loop d s n [] = ([], [])"
| "filterBySoC_loop d s n (v # vs) =
     (let (eligible, excluded) = filterBySoC_loop d s n vs in
      if SoC v < FleetMinSoC d \<or> BatteryKWh v \<le> 0 then (eligible, v # excluded)
      else let (energy, cap) = availableEnergyAndCapacity v s True (SafeDischargeFloor d) in
           if PowerKW s < 0 \<and> energy \<le> 0 then (eligible, v # excluded)
           else if n = 1 \<and> cap < mathAbs (PowerKW s) then (eligible, v # excluded)
           else (v # eligible, excluded))"

definition filterBySoC ::
  "'n::{zero,one,plus,minus,uminus,times,inverse,ord} SmartDispatcher \<Rightarrow> 'n Vehicle list
    \<Rightarrow> 'n FlexibilitySignal \<Rightarrow> 'n Vehicle list \<times> 'n Vehicle list" where
  "filterBySoC d vs s =
     (if \<not> EnableSoCConstraints d then (vs, []) else filterBySoC_loop d s (length vs) vs)"

definition weightsForSignal ::
  "'n::{zero,one,plus,inverse} SmartDispatcher \<Rightarrow> SignalType
    \<Rightarrow> 'n \<times> 'n \<times> 'n \<times> 'n \<times> 'n \<times> 'n \<times> 'n" where
  "weightsForSignal d t =
     (let soc = SocWeight d; tm = TimeWeight d; prio = PriorityWeight d; price = PriceWeight d;
          wear = WearWeight d; fair = FairnessWeight d; avail = AvailabilityWeight d in
      case t of
        SignalFCR \<Rightarrow> (soc + lit 2 10, tm, prio + lit 1 10, price, wear, fair, avail)
      | SignalNEBEF \<Rightarrow> (soc + lit 1 10, tm + lit 2 10, prio, price, wear, fair, avail)
      | SignalMA \<Rightarrow> (soc + lit 1 10, tm, prio, price, wear, fair, avail)
      | SignalEcoWatt \<Rightarrow> (soc + lit 1 10, tm, prio, price, wear, fair, avail)
      | _ \<Rightarrow> (soc, tm, prio, price, wear, fair, avail))"

definition vehicleScore ::
  "('n \<Rightarrow> 'n) \<Rightarrow> 'n::{zero,one,plus,minus,uminus,times,inverse,ord} SmartDispatcher \<Rightarrow> 'n Vehicle
    \<Rightarrow> 'n DispatchContext \<Rightarrow> 'n" where
  "vehicleScore expf d v ctx =
     (let (socW, timeW, prioW, priceW, wearW, fairW, availW) =
            weightsForSignal d (SigType (CtxSignal ctx)) in
      if BatteryKWh v \<le> 0 then 0
      else let denom = 1 - MinSoC v;
               e0 = (if feq denom 0 then 0 else (SoC v - MinSoC v) / denom);
               e1 = (if e0 < 0 then 0 else e0);
               energyNorm = (if 1 < e1 then 1 else e1);
               minutes = Minutes (timeSub (Departure v) (CtxNow ctx));
               timeScore = (if 0 < minutes then expf (- minutes / num 30) else 0);
               priority = (if Priority v then 1 else 0);
               wear = GetParticipation ctx (ID v);
               score0 = energyNorm * socW + timeScore * timeW + priority * prioW
                        + energyNorm * CtxMarketPrice ctx * priceW;
               score1 = score0 + AvailabilityProb v * availW;
               score = score1 - (wear * wearW + wear * fairW)
           in if score < 0 then 0 else score)"

definition buildCandidates ::
  "('n \<Rightarrow> 'n) \<Rightarrow> 'n::{zero,one,plus,minus,uminus,times,inverse,ord} SmartDispatcher \<Rightarrow> 'n Vehicle list
    \<Rightarrow> 'n FlexibilitySignal \<Rightarrow> 'n DispatchContext \<Rightarrow> 'n candidate list \<times> 'n Vehicle list" where
  "buildCandidates expf d vs s ctx =
     (let (eligible, excluded) = filterBySoC d vs s in
      (prepareVehicles eligible s ctx (vehicleScore expf d) (EnableSoCConstraints d)
         (SafeDischargeFloor d), excluded))"

subsection \<open>Allocation rounds\<close>

text \<open>
  The loop of \<open>allocateRound\<close>. \<open>next := list[:0]\<close> filters in place behind the read position;
  a \<open>break\<close> drops the candidates not yet visited.
\<close>

fun allocateRound_loop ::
  "'n::{zero,plus,minus,times,inverse,ord} candidate list \<Rightarrow> 'n \<Rightarrow> 'n \<Rightarrow> 'n \<Rightarrow> (string \<rightharpoonup> 'n) \<Rightarrow> 'n
    \<Rightarrow> 'n candidate list \<times> 'n \<times> 'n \<times> 'n \<times> (string \<rightharpoonup> 'n)" where
  "allocateRound_loop [] weightSum sign remaining asn consumed =
     ([], weightSum, remaining, consumed, asn)"
| "allocateRound_loop (c # cs) weightSum sign remaining asn consumed =
     (if remaining \<le> 0 \<or> weightSum \<le> 0 then ([], weightSum, remaining, consumed, asn)
      else let share = remaining * (cand_score c / weightSum);
               i = ID (cand_v c) in
           if cand_capacity c \<le> share
           then allocateRound_loop cs (weightSum - cand_score c) sign (remaining - cand_capacity c)
                  (asn(i \<mapsto> getd 0 asn i + sign * cand_capacity c)) (consumed + cand_capacity c)
           else (case allocateRound_loop cs weightSum sign (remaining - share)
                        (asn(i \<mapsto> getd 0 asn i + sign * share)) (consumed + share) of
                   (nxt, res) \<Rightarrow> (c\<lparr>cand_capacity := cand_capacity c - share\<rparr> # nxt, res)))"

definition allocateRound ::
  "'n::{zero,plus,minus,times,inverse,ord} candidate list \<Rightarrow> 'n \<Rightarrow> 'n \<Rightarrow> 'n \<Rightarrow> (string \<rightharpoonup> 'n)
    \<Rightarrow> 'n candidate list \<times> 'n \<times> 'n \<times> 'n \<times> (string \<rightharpoonup> 'n)" where
  "allocateRound lst weightSum sign remaining asn =
     allocateRound_loop lst weightSum sign remaining asn 0"

text \<open>The loop of \<open>Dispatch\<close>, lines 190 to 198.\<close>

partial_function (option) smart_loop ::
  "int \<Rightarrow> 'n::{zero,plus,minus,times,inverse,ord} \<Rightarrow> 'n candidate list \<Rightarrow> 'n \<Rightarrow> 'n \<Rightarrow> (string \<rightharpoonup> 'n)
    \<Rightarrow> int \<Rightarrow> (string \<rightharpoonup> 'n) option" where
  "smart_loop maxRounds sign lst weightSum remaining asn rounds =
     (if 0 < remaining \<and> lst \<noteq> [] \<and> 0 < weightSum \<and> (maxRounds = 0 \<or> rounds < maxRounds)
      then (case allocateRound lst weightSum sign remaining asn of
              (nxt, weightSum', remaining', consumed, asn') \<Rightarrow>
                if feq consumed 0 then Some asn'
                else smart_loop maxRounds sign nxt weightSum' remaining' asn' (rounds + 1))
      else Some asn)"

definition SmartDispatcher_Dispatch ::
  "('n \<Rightarrow> 'n) \<Rightarrow> 'n::{zero,one,plus,minus,uminus,times,inverse,ord} SmartDispatcher \<Rightarrow> 'n Vehicle list
    \<Rightarrow> 'n FlexibilitySignal \<Rightarrow> ('n SmartDispatcher \<times> (string \<rightharpoonup> 'n)) option" where
  "SmartDispatcher_Dispatch expf d vs s =
     (if vs = [] \<or> feq (PowerKW s) 0 then Some (d, Map.empty)
      else let ctx = \<lparr>CtxSignal = s, CtxNow = Timestamp s, CtxMarketPrice = MarketPrice d,
                      ParticipationScore = Participation d\<rparr>;
               lst = fst (buildCandidates expf d vs s ctx);
               d' = d\<lparr>scores := foldl (\<lambda>m c. m(ID (cand_v c) \<mapsto> cand_score c)) Map.empty lst\<rparr> in
           if lst = [] then Some (d', Map.empty)
           else let remaining = mathAbs (PowerKW s);
                    sign = (if PowerKW s < 0 then - 1 else 1);
                    weightSum = fsum cand_score lst in
                map_option (Pair d')
                  (smart_loop (MaxRounds d) sign lst weightSum remaining Map.empty 0))"

definition GetScores :: "'n SmartDispatcher \<Rightarrow> (string \<rightharpoonup> 'n)" where
  "GetScores d = scores d"

definition GetMarketPrice :: "'n SmartDispatcher \<Rightarrow> 'n" where
  "GetMarketPrice d = MarketPrice d"

subsection \<open>Filtering\<close>

definition soc_eligible ::
  "'n::{zero,one,plus,minus,uminus,times,inverse,ord} SmartDispatcher \<Rightarrow> 'n FlexibilitySignal
    \<Rightarrow> nat \<Rightarrow> 'n Vehicle \<Rightarrow> bool" where
  "soc_eligible d s n v \<longleftrightarrow>
     \<not> SoC v < FleetMinSoC d \<and> \<not> BatteryKWh v \<le> 0 \<and>
     \<not> (PowerKW s < 0 \<and> fst (availableEnergyAndCapacity v s True (SafeDischargeFloor d)) \<le> 0) \<and>
     \<not> (n = 1 \<and> snd (availableEnergyAndCapacity v s True (SafeDischargeFloor d)) < mathAbs (PowerKW s))"

lemma filterBySoC_loop_eq:
  "filterBySoC_loop d s n vs = (filter (soc_eligible d s n) vs, filter (\<lambda>v. \<not> soc_eligible d s n v) vs)"
  by (induction vs) (auto simp: soc_eligible_def Let_def case_prod_unfold)

lemma filterBySoC_eq:
  "fst (filterBySoC d vs s) =
     filter (\<lambda>v. EnableSoCConstraints d \<longrightarrow> soc_eligible d s (length vs) v) vs"
  by (auto simp: filterBySoC_def filterBySoC_loop_eq)

definition smart_ctx :: "'n SmartDispatcher \<Rightarrow> 'n FlexibilitySignal \<Rightarrow> 'n DispatchContext" where
  "smart_ctx d s = \<lparr>CtxSignal = s, CtxNow = Timestamp s, CtxMarketPrice = MarketPrice d,
                      ParticipationScore = Participation d\<rparr>"

definition smart_list ::
  "('n \<Rightarrow> 'n) \<Rightarrow> 'n::{zero,one,plus,minus,uminus,times,inverse,ord} SmartDispatcher \<Rightarrow> 'n Vehicle list
    \<Rightarrow> 'n FlexibilitySignal \<Rightarrow> 'n candidate list" where
  "smart_list expf d vs s = fst (buildCandidates expf d vs s (smart_ctx d s))"

lemma smart_list_distinct:
  "distinct (map ID vs) \<Longrightarrow> distinct (map (\<lambda>c. ID (cand_v c)) (smart_list expf d vs s))"
  by (auto simp: smart_list_def buildCandidates_def case_prod_unfold filterBySoC_eq
      intro!: prepareVehicles_distinct distinct_map_filter)

lemma smart_list_mem:
  assumes "c \<in> set (smart_list expf d vs s)"
  shows "cand_v c \<in> set vs" "cand_score c = vehicleScore expf d (cand_v c) (smart_ctx d s)"
    "cand_capacity c = snd (availableEnergyAndCapacity (cand_v c) s (EnableSoCConstraints d) (SafeDischargeFloor d))"
    "\<not> cand_capacity c \<le> 0"
    "EnableSoCConstraints d \<Longrightarrow> soc_eligible d s (length vs) (cand_v c)"
  using assms
  by (auto simp: smart_list_def buildCandidates_def case_prod_unfold filterBySoC_eq prepareVehicles_eq)

lemma vehicleScore_nonneg: "0 \<le> vehicleScore expf d v (ctx :: real DispatchContext)"
  by (simp add: vehicleScore_def Let_def case_prod_unfold)

subsection \<open>One round at exact arithmetic\<close>

declare allocateRound_loop.simps [simp del]

definition cands_ok :: "real candidate list \<Rightarrow> bool" where
  "cands_ok cs \<longleftrightarrow> list_all (\<lambda>c. 0 \<le> cand_score c \<and> 0 \<le> cand_capacity c) cs"

definition score_sum :: "real candidate list \<Rightarrow> real" where
  "score_sum cs = sum_list (map cand_score cs)"

lemma cands_ok_simps [simp]:
  "cands_ok []" "cands_ok (c # cs) \<longleftrightarrow> 0 \<le> cand_score c \<and> 0 \<le> cand_capacity c \<and> cands_ok cs"
  by (simp_all add: cands_ok_def)

lemma score_sum_simps [simp]:
  "score_sum [] = 0" "score_sum (c # cs) = cand_score c + score_sum cs"
  by (simp_all add: score_sum_def)

lemma score_sum_nonneg: "cands_ok cs \<Longrightarrow> 0 \<le> score_sum cs"
  by (induction cs) auto

lemma share_bounds:
  assumes "0 \<le> (r::real)" "0 \<le> x" "x \<le> W" "0 < W"
  shows "0 \<le> r * (x / W)" "r * (x / W) \<le> r"
proof -
  show "0 \<le> r * (x / W)" using assms by simp
  have "x / W \<le> 1" using assms by simp
  then show "r * (x / W) \<le> r" using assms(1) mult_left_mono [of "x / W" 1 r] by simp
qed

lemma round_balance:
  assumes "allocateRound_loop cs W sign r asn con = (nxt, W', r', con', asn')"
    and "cands_ok cs" "0 \<le> r" "0 \<le> e" "W = e + score_sum cs"
  shows "0 \<le> r' \<and> r' \<le> r \<and> con' = con + (r - r') \<and> cands_ok nxt \<and>
     (0 < r' \<longrightarrow> 0 < W' \<longrightarrow> W' = e + score_sum nxt)"
  using assms
proof (induction cs arbitrary: W r asn con nxt e)
  case (Cons c cs)
  define share where "share = r * (cand_score c / W)"
  show ?case
  proof (cases "r \<le> 0 \<or> W \<le> 0")
    case False
    have "0 \<le> cand_score c" "cand_score c \<le> W"
      using Cons.prems score_sum_nonneg [of cs] by auto
    then have sh: "0 \<le> share" "share \<le> r"
      unfolding share_def using False Cons.prems(3) share_bounds [of r "cand_score c" W] by auto
    show ?thesis
    proof (cases "cand_capacity c \<le> share")
      case True
      then have eq: "allocateRound_loop cs (W - cand_score c) sign (r - cand_capacity c)
          (asn(ID (cand_v c) \<mapsto> getd 0 asn (ID (cand_v c)) + sign * cand_capacity c))
          (con + cand_capacity c) = (nxt, W', r', con', asn')"
        using Cons.prems(1) False by (simp add: allocateRound_loop.simps Let_def share_def)
      show ?thesis using Cons.IH [OF eq, of e] Cons.prems True sh by auto
    next
      case keep: False
      obtain nx where nx: "nxt = c\<lparr>cand_capacity := cand_capacity c - share\<rparr> # nx"
        and eq: "allocateRound_loop cs W sign (r - share)
          (asn(ID (cand_v c) \<mapsto> getd 0 asn (ID (cand_v c)) + sign * share))
          (con + share) = (nx, W', r', con', asn')"
        using Cons.prems(1) False keep
        by (auto simp: allocateRound_loop.simps Let_def share_def split: prod.splits)
      show ?thesis using Cons.IH [OF eq, of "e + cand_score c"] Cons.prems keep sh nx by auto
    qed
  qed (use Cons.prems in \<open>auto simp: allocateRound_loop.simps\<close>)
qed (auto simp: allocateRound_loop.simps)

lemma round_total:
  assumes "allocateRound_loop cs W sign r asn con = (nxt, W', r', con', asn')" "finite (dom asn)"
  shows "finite (dom asn') \<and> total_kw asn' = total_kw asn + sign * (r - r')"
  using assms
proof (induction cs arbitrary: W r asn con nxt)
  case (Cons c cs)
  then show ?case
    by (auto simp: allocateRound_loop.simps Let_def total_kw_upd algebra_simps
        split: prod.splits if_splits)
qed (auto simp: allocateRound_loop.simps)

lemma round_outside:
  assumes "allocateRound_loop cs W sign r asn con = (nxt, W', r', con', asn')"
    "i \<notin> (\<lambda>c. ID (cand_v c)) ` set cs"
  shows "asn' i = asn i"
  using assms
proof (induction cs arbitrary: W r asn con nxt)
  case (Cons c cs)
  then show ?case
    by (auto simp: allocateRound_loop.simps Let_def split: prod.splits if_splits)
qed (auto simp: allocateRound_loop.simps)

lemma round_ids:
  assumes "allocateRound_loop cs W sign r asn con = (nxt, W', r', con', asn')"
  shows "(\<lambda>c. ID (cand_v c)) ` set nxt \<subseteq> (\<lambda>c. ID (cand_v c)) ` set cs \<and>
    (distinct (map (\<lambda>c. ID (cand_v c)) cs) \<longrightarrow> distinct (map (\<lambda>c. ID (cand_v c)) nxt))"
  using assms
proof (induction cs arbitrary: W r asn con nxt)
  case (Cons c cs)
  show ?case
  proof (cases "r \<le> 0 \<or> W \<le> 0 \<or> cand_capacity c \<le> r * (cand_score c / W)")
    case True
    show ?thesis
    proof (cases "r \<le> 0 \<or> W \<le> 0")
      case False
      have "allocateRound_loop cs (W - cand_score c) sign (r - cand_capacity c)
          (asn(ID (cand_v c) \<mapsto> getd 0 asn (ID (cand_v c)) + sign * cand_capacity c))
          (con + cand_capacity c) = (nxt, W', r', con', asn')"
        using Cons.prems(1) False True by (simp add: allocateRound_loop.simps Let_def)
      from Cons.IH [OF this] show ?thesis by (simp add: subset_insertI2)
    qed (use Cons.prems in \<open>auto simp: allocateRound_loop.simps\<close>)
  next
    case False
    then obtain nx where nx: "nxt = c\<lparr>cand_capacity := cand_capacity c - r * (cand_score c / W)\<rparr> # nx"
      and eq: "allocateRound_loop cs W sign (r - r * (cand_score c / W))
        (asn(ID (cand_v c) \<mapsto> getd 0 asn (ID (cand_v c)) + sign * (r * (cand_score c / W))))
        (con + r * (cand_score c / W)) = (nx, W', r', con', asn')"
      using Cons.prems by (auto simp: allocateRound_loop.simps Let_def split: prod.splits)
    have "(\<lambda>c. ID (cand_v c)) ` set nx \<subseteq> (\<lambda>c. ID (cand_v c)) ` set cs" using Cons.IH [OF eq] by blast
    then have "ID (cand_v c) \<notin> (\<lambda>c. ID (cand_v c)) ` set nx"
      if "ID (cand_v c) \<notin> (\<lambda>c. ID (cand_v c)) ` set cs" using that by blast
    with Cons.IH [OF eq] nx show ?thesis by auto
  qed
qed (auto simp: allocateRound_loop.simps)

text \<open>Within its capacity \<open>K\<close> every vehicle gets power of the requested direction only.\<close>

definition budget :: "(string \<Rightarrow> real) \<Rightarrow> real \<Rightarrow> (string \<rightharpoonup> real) \<Rightarrow> real candidate list \<Rightarrow> bool" where
  "budget K sign asn cs \<longleftrightarrow>
     (\<forall>i. 0 \<le> sign * getd 0 asn i \<and> sign * getd 0 asn i \<le> K i) \<and>
     (\<forall>c\<in>set cs. sign * getd 0 asn (ID (cand_v c)) + cand_capacity c \<le> K (ID (cand_v c)))"

lemma budgetD: "budget K sign asn cs \<Longrightarrow> 0 \<le> sign * getd 0 asn i \<and> sign * getd 0 asn i \<le> K i"
  by (simp add: budget_def)

lemma budget_total: "budget K sign asn cs \<Longrightarrow> 0 \<le> sign * total_kw asn"
proof -
  assume b: "budget K sign asn cs"
  have "0 \<le> sign * the (asn i)" if "i \<in> dom asn" for i
    using budgetD [OF b, of i] that by (auto simp: getd_def)
  then show ?thesis by (simp add: total_kw_def sum_distrib_left sum_nonneg)
qed

lemma budget_step:
  assumes "budget K sign asn (c # cs)" "sign * sign = 1" "0 \<le> x" "x \<le> cand_capacity c"
    "ID (cand_v c) \<notin> (\<lambda>c. ID (cand_v c)) ` set cs"
  shows "budget K sign (asn(ID (cand_v c) \<mapsto> getd 0 asn (ID (cand_v c)) + sign * x)) cs"
    "sign * (getd 0 asn (ID (cand_v c)) + sign * x) + (cand_capacity c - x) \<le> K (ID (cand_v c))"
proof -
  let ?i = "ID (cand_v c)"
  have d: "sign * (getd 0 asn ?i + sign * x) = sign * getd 0 asn ?i + x"
    using assms(2) by (simp add: distrib_left mult.assoc [symmetric])
  have b: "0 \<le> sign * getd 0 asn ?i" "sign * getd 0 asn ?i + cand_capacity c \<le> K ?i"
    using assms(1) by (auto simp: budget_def)
  show "sign * (getd 0 asn ?i + sign * x) + (cand_capacity c - x) \<le> K ?i" using d b by simp
  have other: "ID (cand_v c') \<noteq> ?i" if "c' \<in> set cs" for c'
    using that assms(5) by (metis imageI)
  show "budget K sign (asn(?i \<mapsto> getd 0 asn ?i + sign * x)) cs"
    using assms(1,3,4) b other unfolding budget_def by (auto simp: d)
qed

lemma round_budget:
  assumes "allocateRound_loop cs W sign r asn con = (nxt, W', r', con', asn')"
    and "cands_ok cs" "0 \<le> r" "0 \<le> e" "W = e + score_sum cs" "sign * sign = 1"
    and "distinct (map (\<lambda>c. ID (cand_v c)) cs)" "budget K sign asn cs"
  shows "budget K sign asn' nxt"
  using assms
proof (induction cs arbitrary: W r asn con nxt e)
  case (Cons c cs)
  define share where "share = r * (cand_score c / W)"
  let ?i = "ID (cand_v c)"
  have fresh: "?i \<notin> (\<lambda>c. ID (cand_v c)) ` set cs" using Cons.prems(7) by simp
  show ?case
  proof (cases "r \<le> 0 \<or> W \<le> 0")
    case False
    have "0 \<le> cand_score c" "cand_score c \<le> W"
      using Cons.prems score_sum_nonneg [of cs] by auto
    then have sh: "0 \<le> share" "share \<le> r"
      unfolding share_def using False Cons.prems(3) share_bounds [of r "cand_score c" W] by auto
    show ?thesis
    proof (cases "cand_capacity c \<le> share")
      case True
      then have eq: "allocateRound_loop cs (W - cand_score c) sign (r - cand_capacity c)
          (asn(?i \<mapsto> getd 0 asn ?i + sign * cand_capacity c))
          (con + cand_capacity c) = (nxt, W', r', con', asn')"
        using Cons.prems(1) False by (simp add: allocateRound_loop.simps Let_def share_def)
      have b: "budget K sign (asn(?i \<mapsto> getd 0 asn ?i + sign * cand_capacity c)) cs"
        using Cons.prems fresh by (intro budget_step) auto
      show ?thesis
        by (rule Cons.IH [OF eq _ _ _ _ _ _ b, of e]) (use Cons.prems True sh in auto)
    next
      case keep: False
      obtain nx where nx: "nxt = c\<lparr>cand_capacity := cand_capacity c - share\<rparr> # nx"
        and eq: "allocateRound_loop cs W sign (r - share)
          (asn(?i \<mapsto> getd 0 asn ?i + sign * share)) (con + share) = (nx, W', r', con', asn')"
        using Cons.prems(1) False keep
        by (auto simp: allocateRound_loop.simps Let_def share_def split: prod.splits)
      have b: "budget K sign (asn(?i \<mapsto> getd 0 asn ?i + sign * share)) cs"
        "sign * (getd 0 asn ?i + sign * share) + (cand_capacity c - share) \<le> K ?i"
        using Cons.prems(6,8) sh keep fresh by (auto intro!: budget_step)
      have "budget K sign asn' nx"
        by (rule Cons.IH [OF eq _ _ _ _ _ _ b(1), of "e + cand_score c"])
          (use Cons.prems sh in auto)
      moreover have "getd 0 asn' ?i = getd 0 asn ?i + sign * share"
        using round_outside [OF eq fresh] by simp
      ultimately show ?thesis using b(2) nx by (simp add: budget_def)
    qed
  qed (use Cons.prems in \<open>auto simp: allocateRound_loop.simps budget_def\<close>)
qed (auto simp: allocateRound_loop.simps)

subsection \<open>The loop of rounds\<close>

text \<open>What holds each time the loop condition is tested.\<close>

definition smart_inv ::
  "(string \<Rightarrow> real) \<Rightarrow> real \<Rightarrow> real \<Rightarrow> real candidate list \<Rightarrow> real \<Rightarrow> real \<Rightarrow> (string \<rightharpoonup> real) \<Rightarrow> bool" where
  "smart_inv K target sign lst W r asn \<longleftrightarrow>
     cands_ok lst \<and> 0 \<le> r \<and> (0 < r \<longrightarrow> 0 < W \<longrightarrow> W = score_sum lst) \<and>
     sign * sign = 1 \<and> distinct (map (\<lambda>c. ID (cand_v c)) lst) \<and> budget K sign asn lst \<and>
     finite (dom asn) \<and> total_kw asn = sign * (target - r)"

lemma smart_inv_round:
  assumes inv: "smart_inv K target sign lst W r asn" and pos: "0 < r" "0 < W"
    and eq: "allocateRound lst W sign r asn = (nxt, W', r', con, asn')"
  shows "smart_inv K target sign nxt W' r' asn'" and "con = r - r'"
proof -
  note eq' = eq [unfolded allocateRound_def]
  have i: "cands_ok lst" "0 \<le> r" "(0::real) \<le> 0" "W = 0 + score_sum lst" "sign * sign = 1"
    "distinct (map (\<lambda>c. ID (cand_v c)) lst)" "budget K sign asn lst" "finite (dom asn)"
    "total_kw asn = sign * (target - r)"
    using inv pos by (simp_all add: smart_inv_def)
  have b: "0 \<le> r' \<and> r' \<le> r \<and> con = 0 + (r - r') \<and> cands_ok nxt \<and>
     (0 < r' \<longrightarrow> 0 < W' \<longrightarrow> W' = 0 + score_sum nxt)"
    by (rule round_balance [OF eq' i(1-4)])
  show "con = r - r'" using b by simp
  show "smart_inv K target sign nxt W' r' asn'"
    using b round_budget [OF eq' i(1-7)] round_ids [OF eq'] round_total [OF eq' i(8)] i(5,6,9)
    by (simp add: smart_inv_def algebra_simps)
qed

lemma smart_loop_inv:
  assumes "smart_loop mr sign lst W r asn k = Some out" "smart_inv K target sign lst W r asn"
  shows "\<exists>nxt W' r'. smart_inv K target sign nxt W' r' out"
proof -
  have "smart_inv K target sign lst W r asn \<longrightarrow> (\<exists>nxt W' r'. smart_inv K target sign nxt W' r' out)"
  proof (rule smart_loop.raw_induct [where P = "\<lambda>mr sign lst W r asn k out.
        smart_inv K target sign lst W r asn \<longrightarrow> (\<exists>nxt W' r'. smart_inv K target sign nxt W' r' out)",
        OF _ assms(1)])
    fix f :: "int \<Rightarrow> real \<Rightarrow> real candidate list \<Rightarrow> real \<Rightarrow> real \<Rightarrow> (string \<rightharpoonup> real) \<Rightarrow> int
      \<Rightarrow> (string \<rightharpoonup> real) option"
    fix mr sign lst W r asn k out
    assume IH: "\<And>mr sign lst W r asn k out. f mr sign lst W r asn k = Some out \<Longrightarrow>
        smart_inv K target sign lst W r asn \<longrightarrow> (\<exists>nxt W' r'. smart_inv K target sign nxt W' r' out)"
      and eq: "(if 0 < r \<and> lst \<noteq> [] \<and> 0 < W \<and> (mr = 0 \<or> k < mr)
        then (case allocateRound lst W sign r asn of (nxt, W', r', con, asn') \<Rightarrow>
                if feq con 0 then Some asn' else f mr sign nxt W' r' asn' (k + 1))
        else Some asn) = Some out"
    show "smart_inv K target sign lst W r asn \<longrightarrow> (\<exists>nxt W' r'. smart_inv K target sign nxt W' r' out)"
    proof
      assume inv: "smart_inv K target sign lst W r asn"
      obtain nxt W' r' con asn' where rd: "allocateRound lst W sign r asn = (nxt, W', r', con, asn')"
        by (metis prod_cases5)
      show "\<exists>nxt W' r'. smart_inv K target sign nxt W' r' out"
      proof (cases "0 < r \<and> lst \<noteq> [] \<and> 0 < W \<and> (mr = 0 \<or> k < mr)")
        case True
        then have "smart_inv K target sign nxt W' r' asn'" using smart_inv_round [OF inv _ _ rd] by blast
        with True eq rd IH show ?thesis by (auto split: if_splits)
      qed (use eq inv in \<open>auto split: if_splits\<close>)
    qed
  qed
  with assms(2) show ?thesis by blast
qed

lemma smart_loop_returns:
  "mr \<noteq> 0 \<Longrightarrow> \<exists>out. smart_loop mr sign lst W r asn k = Some out"
proof (induction "nat (mr - k)" arbitrary: lst W r asn k rule: less_induct)
  case less
  show ?case
  proof (cases "0 < r \<and> lst \<noteq> [] \<and> 0 < W \<and> (mr = 0 \<or> k < mr)")
    case True
    obtain nxt W' r' con asn' where rd: "allocateRound lst W sign r asn = (nxt, W', r', con, asn')"
      by (metis prod_cases5)
    have "nat (mr - (k + 1)) < nat (mr - k)" using True less.prems by auto
    then obtain out where "smart_loop mr sign nxt W' r' asn' (k + 1) = Some out"
      using less by blast
    with True rd show ?thesis
      by (simp add: smart_loop.simps [of mr sign lst W r asn k])
  next
    case False
    then have "smart_loop mr sign lst W r asn k = Some asn" by (subst smart_loop.simps) auto
    then show ?thesis by blast
  qed
qed

subsection \<open>Rounds in which no capacity binds\<close>

text \<open>What one round leaves of the remaining power when no vehicle reaches its capacity.\<close>

definition round_factor :: "real \<Rightarrow> real candidate list \<Rightarrow> real" where
  "round_factor W cs = prod_list (map (\<lambda>c. 1 - cand_score c / W) cs)"

lemma round_factor_Cons: "round_factor W (c # cs) = (1 - cand_score c / W) * round_factor W cs"
  by (simp add: round_factor_def)

lemma round_unbound:
  assumes "allocateRound_loop cs W sign r asn con = (nxt, W', r', con', asn')"
    and "cands_ok cs" "0 \<le> r" "0 < W" "score_sum cs \<le> W" "\<forall>c\<in>set cs. r < cand_capacity c"
  shows "W' = W \<and> r' = r * round_factor W cs \<and>
    (0 < r' \<longrightarrow> map cand_score nxt = map cand_score cs \<and> (\<forall>c\<in>set nxt. r' < cand_capacity c))"
  using assms
proof (induction cs arbitrary: r asn con nxt)
  case (Cons c cs)
  define share where "share = r * (cand_score c / W)"
  have sc: "0 \<le> cand_score c" "cand_score c \<le> W" "score_sum cs \<le> W"
    using Cons.prems score_sum_nonneg [of cs] by auto
  then have sh: "0 \<le> share" "share \<le> r"
    unfolding share_def using Cons.prems(3,4) share_bounds [of r "cand_score c" W] by auto
  have step: "r - share = r * (1 - cand_score c / W)" by (simp add: share_def right_diff_distrib)
  show ?case
  proof (cases "r \<le> 0")
    case False
    have keep: "\<not> cand_capacity c \<le> share" using Cons.prems(6) sh by force
    then obtain nx where nx: "nxt = c\<lparr>cand_capacity := cand_capacity c - share\<rparr> # nx"
      and eq: "allocateRound_loop cs W sign (r - share)
        (asn(ID (cand_v c) \<mapsto> getd 0 asn (ID (cand_v c)) + sign * share))
        (con + share) = (nx, W', r', con', asn')"
      using Cons.prems(1,4) False
      by (auto simp: allocateRound_loop.simps Let_def share_def split: prod.splits)
    have lt: "\<forall>c\<in>set cs. r - share < cand_capacity c" using Cons.prems(6) sh by force
    have ih: "W' = W \<and> r' = (r - share) * round_factor W cs \<and>
        (0 < r' \<longrightarrow> map cand_score nx = map cand_score cs \<and> (\<forall>c\<in>set nx. r' < cand_capacity c))"
      by (rule Cons.IH [OF eq]) (use Cons.prems sh sc lt in auto)
    have "r' \<le> r - share"
      using round_balance [OF eq, of "W - score_sum cs"] Cons.prems sh sc by auto
    then have lt': "r' < cand_capacity c - share" using Cons.prems(6) by force
    have rf: "r' = r * round_factor W (c # cs)"
      using ih by (simp add: step round_factor_Cons mult.assoc)
    have "map cand_score nxt = map cand_score (c # cs) \<and> (\<forall>c\<in>set nxt. r' < cand_capacity c)"
      if "0 < r'" using ih that lt' unfolding nx by auto
    with ih rf show ?thesis by blast
  qed (use Cons.prems in \<open>auto simp: allocateRound_loop.simps\<close>)
qed (auto simp: allocateRound_loop.simps round_factor_def)

lemma round_factor_bounds:
  assumes "cands_ok cs" "0 < W" "score_sum cs \<le> W"
  shows "0 \<le> round_factor W cs" "round_factor W cs \<le> exp (- (score_sum cs / W))"
proof -
  have "0 \<le> round_factor W cs \<and> round_factor W cs \<le> exp (- (score_sum cs / W))"
    using assms
  proof (induction cs)
    case (Cons c cs)
    have sc: "0 \<le> cand_score c" "cand_score c \<le> W" "score_sum cs \<le> W"
      using Cons.prems score_sum_nonneg [of cs] by auto
    have f: "0 \<le> 1 - cand_score c / W" "1 - cand_score c / W \<le> exp (- (cand_score c / W))"
      using sc Cons.prems(2) exp_ge_add_one_self [of "- (cand_score c / W)"] by auto
    have "(1 - cand_score c / W) * round_factor W cs \<le>
        exp (- (cand_score c / W)) * exp (- (score_sum cs / W))"
      using f Cons sc by (intro mult_mono) auto
    also have "\<dots> = exp (- (score_sum (c # cs) / W))"
      by (simp add: exp_add [symmetric] add_divide_distrib)
    finally show ?case using f Cons sc by (simp add: round_factor_Cons)
  qed (simp add: round_factor_def)
  then show "0 \<le> round_factor W cs" "round_factor W cs \<le> exp (- (score_sum cs / W))" by auto
qed

lemma round_factor_cong: "map cand_score xs = map cand_score ys \<Longrightarrow> round_factor W xs = round_factor W ys"
proof -
  assume "map cand_score xs = map cand_score ys"
  then have "map (\<lambda>x. 1 - x / W) (map cand_score xs) = map (\<lambda>x. 1 - x / W) (map cand_score ys)" by simp
  then show ?thesis by (simp add: round_factor_def comp_def)
qed

text \<open>With \<open>n\<close> rounds left, at most the \<open>n\<close>-th power of the factor stays unassigned.\<close>

lemma shortfall_round:
  assumes "allocateRound lst W sign r asn = (nxt, W', r', con, asn')" "smart_inv K target sign lst W r asn"
    and "0 < r" "0 < W" "W = score_sum lst" "\<forall>c\<in>set lst. r < cand_capacity c"
  shows "W' = W" "0 \<le> r'" "r' \<le> r * exp (- 1)" "con \<noteq> 0" "smart_inv K target sign nxt W r' asn'"
    and "0 < r' \<Longrightarrow> map cand_score nxt = map cand_score lst \<and> (\<forall>c\<in>set nxt. r' < cand_capacity c)"
proof -
  have ok: "cands_ok lst" using assms(2) by (simp add: smart_inv_def)
  have un: "W' = W \<and> r' = r * round_factor W lst \<and>
    (0 < r' \<longrightarrow> map cand_score nxt = map cand_score lst \<and> (\<forall>c\<in>set nxt. r' < cand_capacity c))"
    by (rule round_unbound [OF assms(1) [unfolded allocateRound_def]]) (use assms(3-6) ok in auto)
  have fac: "0 \<le> round_factor W lst" "round_factor W lst \<le> exp (- 1)"
    using round_factor_bounds [OF ok assms(4)] assms(4,5) by auto
  show r': "0 \<le> r'" "r' \<le> r * exp (- 1)" using un fac assms(3) mult_left_mono by auto
  have i: "smart_inv K target sign nxt W r' asn'" "con = r - r'"
    using smart_inv_round [OF assms(2) _ _ assms(1)] assms(3,4) un by auto
  have "r * exp (- 1) < r * 1" using assms(3) by (intro mult_strict_left_mono) auto
  with i r' show "con \<noteq> 0" by simp
  show "W' = W" "smart_inv K target sign nxt W r' asn'"
    and "0 < r' \<Longrightarrow> map cand_score nxt = map cand_score lst \<and> (\<forall>c\<in>set nxt. r' < cand_capacity c)"
    using un i(1) by auto
qed

lemma smart_loop_shortfall:
  assumes "smart_loop mr sign lst W r asn k = Some out" "smart_inv K target sign lst W r asn"
    "mr \<noteq> 0" "0 < W" "W = score_sum lst" "\<forall>c\<in>set lst. r < cand_capacity c"
  shows "sign * total_kw out \<ge> target - r * exp (- real (nat (mr - k)))"
  using assms
proof (induction "nat (mr - k)" arbitrary: lst r asn k rule: less_induct)
  case less
  note inv = less.prems(2)
  have sg: "sign * sign = 1" and tot: "total_kw asn = sign * (target - r)"
    and rnn: "0 \<le> r" using inv by (auto simp: smart_inv_def)
  have val: "sign * total_kw asn = target - r" using sg tot by (simp add: mult.assoc [symmetric])
  show ?case
  proof (cases "0 < r \<and> lst \<noteq> [] \<and> 0 < W \<and> k < mr")
    case False
    have "lst \<noteq> []" using less.prems(4,5) by auto
    then have out: "out = asn" "r = 0 \<or> nat (mr - k) = 0"
      using less.prems(1,3,4) False rnn by (subst (asm) smart_loop.simps, auto)+
    then show ?thesis using val by auto
  next
    case True
    obtain nxt W' r' con asn' where rd: "allocateRound lst W sign r asn = (nxt, W', r', con, asn')"
      by (metis prod_cases5)
    have r: "0 < r" using True by blast
    note rnd = shortfall_round [OF rd inv r less.prems(4-6)]
    note un = rnd(1) and r' = rnd(2,3) and i = rnd(5)
    have rec: "smart_loop mr sign nxt W r' asn' (k + 1) = Some out"
      using less.prems(1) True rd un rnd(4) by (simp add: smart_loop.simps [of mr sign lst W r asn k])
    have val': "sign * total_kw asn' = target - r'"
      using i sg by (simp add: smart_inv_def mult.assoc [symmetric])
    have e: "exp (- 1) * exp (- real (nat (mr - (k + 1)))) = exp (- real (nat (mr - k)))"
    proof -
      have "real (nat (mr - k)) = 1 + real (nat (mr - (k + 1)))" using True by auto
      then show ?thesis by (simp add: exp_add [symmetric])
    qed
    have "target - r' * exp (- real (nat (mr - (k + 1)))) \<le> sign * total_kw out"
    proof (cases "0 < r'")
      case pos: True
      then have "map cand_score nxt = map cand_score lst" "\<forall>c\<in>set nxt. r' < cand_capacity c"
        using rnd(6) by auto
      moreover from this have "W = score_sum nxt" using less.prems(5) by (simp add: score_sum_def)
      ultimately show ?thesis using less.hyps [of "k + 1", OF _ rec i] True less.prems by auto
    next
      case False
      then have "out = asn'" using rec by (subst (asm) smart_loop.simps) auto
      then show ?thesis using False r' val' by simp
    qed
    moreover have "r' * exp (- real (nat (mr - (k + 1)))) \<le> r * exp (- 1) * exp (- real (nat (mr - (k + 1))))"
      using r'(2) by (intro mult_right_mono) auto
    ultimately show ?thesis using e by (simp add: mult.assoc)
  qed
qed

subsection \<open>The dispatcher\<close>

text \<open>The dispatchable power of the candidate with a given ID, zero for any other ID.\<close>

definition cand_limit :: "real candidate list \<Rightarrow> string \<Rightarrow> real" where
  "cand_limit lst i =
     (case find (\<lambda>c. ID (cand_v c) = i) lst of None \<Rightarrow> 0 | Some c \<Rightarrow> cand_capacity c)"

lemma cand_limit_mem:
  assumes "distinct (map (\<lambda>c. ID (cand_v c)) lst)" "c \<in> set lst"
  shows "cand_limit lst (ID (cand_v c)) = cand_capacity c"
proof -
  have "find (\<lambda>x. ID (cand_v x) = ID (cand_v c)) lst = Some c"
    using assms by (induction lst) (auto simp: image_iff)
  then show ?thesis by (simp add: cand_limit_def)
qed

lemma cand_limit_cases:
  "cand_limit lst i = 0 \<or> (\<exists>c\<in>set lst. ID (cand_v c) = i \<and> cand_limit lst i = cand_capacity c)"
  by (auto simp: cand_limit_def find_Some_iff split: option.splits intro: nth_mem)

lemma smart_list_ok: "cands_ok (smart_list expf d vs s)"
  using smart_list_mem(2,4) [of _ expf d vs s] vehicleScore_nonneg
  by (fastforce simp: cands_ok_def list_all_iff)

lemma smart_start_inv:
  assumes "distinct (map ID vs)" "sign * sign = 1"
  shows "smart_inv (cand_limit (smart_list expf d vs s)) t sign (smart_list expf d vs s)
    (score_sum (smart_list expf d vs s)) t Map.empty = (0 \<le> t)"
proof -
  have "0 \<le> cand_limit (smart_list expf d vs s) i" for i
    using cand_limit_cases [of "smart_list expf d vs s" i] smart_list_mem(4) by fastforce
  then show ?thesis
    using assms smart_list_ok [of expf d vs s] smart_list_distinct [OF assms(1)]
    by (auto simp: smart_inv_def budget_def cand_limit_mem)
qed

definition request_sign :: "real FlexibilitySignal \<Rightarrow> real" where
  "request_sign s = (if PowerKW s < 0 then - 1 else 1)"

lemma smart_dispatch_loop:
  fixes s :: "real FlexibilitySignal"
  assumes "SmartDispatcher_Dispatch expf d vs s = Some (d', asn)"
  shows "(asn = Map.empty \<and> (vs = [] \<or> PowerKW s = 0 \<or> smart_list expf d vs s = [])) \<or>
    smart_loop (MaxRounds d) (request_sign s) (smart_list expf d vs s)
      (score_sum (smart_list expf d vs s)) \<bar>PowerKW s\<bar> Map.empty 0 = Some asn"
  using assms
  by (auto simp: SmartDispatcher_Dispatch_def Let_def smart_list_def smart_ctx_def score_sum_def
      request_sign_def split: if_splits)

lemma smart_dispatch_inv:
  assumes "SmartDispatcher_Dispatch expf d vs s = Some (d', asn)" "distinct (map ID vs)"
  shows "\<exists>nxt W r. smart_inv (cand_limit (smart_list expf d vs s)) \<bar>PowerKW s\<bar> (request_sign s) nxt W r asn"
proof -
  have sg: "request_sign s * request_sign s = 1" by (simp add: request_sign_def)
  have i0: "smart_inv (cand_limit (smart_list expf d vs s)) \<bar>PowerKW s\<bar> (request_sign s)
      (smart_list expf d vs s) (score_sum (smart_list expf d vs s)) \<bar>PowerKW s\<bar> Map.empty"
    using smart_start_inv [OF assms(2) sg] by simp
  from smart_dispatch_loop [OF assms(1)] show ?thesis
  proof
    assume "smart_loop (MaxRounds d) (request_sign s) (smart_list expf d vs s)
      (score_sum (smart_list expf d vs s)) \<bar>PowerKW s\<bar> Map.empty 0 = Some asn"
    from smart_loop_inv [OF this i0] show ?thesis .
  qed (use i0 in blast)
qed

lemma smart_dispatch_total:
  fixes s :: "real FlexibilitySignal"
  assumes "SmartDispatcher_Dispatch expf d vs s = Some (d', asn)" "distinct (map ID vs)"
  shows "\<bar>total_kw asn\<bar> \<le> \<bar>PowerKW s\<bar>"
proof -
  obtain nxt W r where
    inv: "smart_inv (cand_limit (smart_list expf d vs s)) \<bar>PowerKW s\<bar> (request_sign s) nxt W r asn"
    using smart_dispatch_inv [OF assms] by blast
  have tot: "total_kw asn = request_sign s * (\<bar>PowerKW s\<bar> - r)" "0 \<le> r"
    using inv by (auto simp: smart_inv_def)
  have "0 \<le> request_sign s * total_kw asn"
    using inv by (intro budget_total) (auto simp: smart_inv_def)
  with tot show ?thesis by (auto simp: request_sign_def split: if_splits)
qed

lemma smart_dispatch_capacity:
  fixes s :: "real FlexibilitySignal"
  assumes "SmartDispatcher_Dispatch expf d vs s = Some (d', asn)" "distinct (map ID vs)"
    and "asn i = Some p"
  shows "0 \<le> request_sign s * p"
    and "p \<noteq> 0 \<Longrightarrow> \<exists>c\<in>set (smart_list expf d vs s). ID (cand_v c) = i \<and> \<bar>p\<bar> \<le> cand_capacity c"
proof -
  let ?lst = "smart_list expf d vs s"
  obtain nxt W r where inv: "smart_inv (cand_limit ?lst) \<bar>PowerKW s\<bar> (request_sign s) nxt W r asn"
    using smart_dispatch_inv [OF assms(1,2)] by blast
  then have b: "0 \<le> request_sign s * p" "request_sign s * p \<le> cand_limit ?lst i"
    using assms(3) budgetD [of "cand_limit ?lst" "request_sign s" asn nxt i] by (auto simp: smart_inv_def)
  show "0 \<le> request_sign s * p" by (rule b(1))
  have "\<bar>p\<bar> = request_sign s * p" using b(1) by (auto simp: request_sign_def split: if_splits)
  with b show "\<exists>c\<in>set ?lst. ID (cand_v c) = i \<and> \<bar>p\<bar> \<le> cand_capacity c" if "p \<noteq> 0"
    using cand_limit_cases [of ?lst i] that by auto
qed

lemma smart_dispatch_defined:
  "MaxRounds d \<noteq> 0 \<Longrightarrow> \<exists>d' asn. SmartDispatcher_Dispatch expf d vs s = Some (d', asn)"
  using smart_loop_returns [of "MaxRounds d"]
  by (auto simp: SmartDispatcher_Dispatch_def Let_def)

text \<open>
  With a round limit other than zero the dispatcher returns for every fleet, signal and
  reading of \<open>math.Exp\<close>; this is the setting of \<open>NewSmartDispatcher\<close>.
\<close>

theorem smart_dispatch_returns:
  assumes "MaxRounds d \<noteq> 0"
  shows "\<exists>d' asn. SmartDispatcher_Dispatch expf d vs s = Some (d', asn)"
  using assms by (rule smart_dispatch_defined)

theorem smart_dispatch_returns_witness:
  "\<exists>d' asn. SmartDispatcher_Dispatch exp NewSmartDispatcher [zeroVehicle]
     \<lparr>SigType = SignalFCR, PowerKW = 5, SigDuration = 0, Timestamp = timeZero\<rparr> =
     Some (d', asn :: string \<rightharpoonup> real)"
  by (rule smart_dispatch_returns) (simp add: NewSmartDispatcher_def)

text \<open>A single vehicle of 50 kWh and 50 kW, asked for \<open>-10\<close> kW over one hour.\<close>

definition smart_test_vehicle :: "real Vehicle" where
  "smart_test_vehicle =
     zeroVehicle\<lparr>ID := ''v1'', SoC := 4/5, MaxPower := 50, BatteryKWh := 50, Available := True\<rparr>"

definition smart_test_signal :: "real FlexibilitySignal" where
  "smart_test_signal =
     \<lparr>SigType = SignalAFRR, PowerKW = - 10, SigDuration = Hour, Timestamp = timeZero\<rparr>"

lemma smart_test_list:
  "smart_list exp NewSmartDispatcher [smart_test_vehicle] smart_test_signal =
     [\<lparr>cand_v = smart_test_vehicle, cand_score = 2/5, cand_capacity = 35\<rparr>]"
proof -
  have sc: "vehicleScore exp NewSmartDispatcher smart_test_vehicle
      (smart_ctx NewSmartDispatcher smart_test_signal) = 2/5"
    by (simp add: vehicleScore_def weightsForSignal_def smart_ctx_def NewSmartDispatcher_def
        smart_test_vehicle_def smart_test_signal_def zeroVehicle_def Let_def timeSub_def timeZero_def
        GetParticipation_def)
  have cap: "availableEnergyAndCapacity smart_test_vehicle smart_test_signal True (1/10) = (35, 35)"
    by (simp add: availableEnergyAndCapacity_def smart_test_vehicle_def smart_test_signal_def
        zeroVehicle_def Let_def duration_units)
  have "soc_eligible NewSmartDispatcher smart_test_signal 1 smart_test_vehicle"
    using cap by (simp add: soc_eligible_def NewSmartDispatcher_def)
      (simp add: smart_test_vehicle_def smart_test_signal_def zeroVehicle_def)
  with sc cap show ?thesis
    by (simp add: smart_list_def buildCandidates_def case_prod_unfold filterBySoC_eq
        prepareVehicles_eq mk_candidate_def NewSmartDispatcher_def)
qed

lemma smart_test_dispatch:
  "\<exists>d'. SmartDispatcher_Dispatch exp NewSmartDispatcher [smart_test_vehicle] smart_test_signal =
     Some (d', [''v1'' \<mapsto> - 10])"
proof -
  have id: "ID smart_test_vehicle = ''v1''" by (simp add: smart_test_vehicle_def)
  have "allocateRound [\<lparr>cand_v = smart_test_vehicle, cand_score = 2/5, cand_capacity = 35\<rparr>]
      (2/5) (- 1) 10 Map.empty =
      ([\<lparr>cand_v = smart_test_vehicle, cand_score = 2/5, cand_capacity = 25\<rparr>], 2/5, 0, 10, [''v1'' \<mapsto> - 10])"
    by (simp add: allocateRound_def allocateRound_loop.simps id)
  then have "smart_loop 10 (- 1) [\<lparr>cand_v = smart_test_vehicle, cand_score = 2/5, cand_capacity = 35\<rparr>]
      (2/5) 10 Map.empty 0 = Some [''v1'' \<mapsto> - 10]"
    by (simp add: smart_loop.simps [of _ _ "[_]"] smart_loop.simps [of _ _ _ _ 0])
  then show ?thesis
    using smart_test_list unfolding smart_list_def smart_ctx_def
    by (auto simp: SmartDispatcher_Dispatch_def Let_def)
      (simp_all add: smart_test_signal_def NewSmartDispatcher_def)
qed

lemma smart_dispatch_within:
  fixes s :: "real FlexibilitySignal"
  assumes "SmartDispatcher_Dispatch expf d vs s = Some (d', asn)" "distinct (map ID vs)"
    and "asn i = Some p" "p \<noteq> 0"
  shows "\<exists>v\<in>set vs. ID v = i \<and> \<bar>p\<bar> \<le> MaxPower v \<and>
      (EnableSoCConstraints d \<longrightarrow> FleetMinSoC d \<le> SoC v \<and> 0 < BatteryKWh v)"
proof -
  obtain c where c: "c \<in> set (smart_list expf d vs s)" "ID (cand_v c) = i" "\<bar>p\<bar> \<le> cand_capacity c"
    using smart_dispatch_capacity(2) [OF assms(1-3)] assms(4) by blast
  have "cand_capacity c \<le> MaxPower (cand_v c)"
    using smart_list_mem(3,4) [OF c(1)] by (auto simp: availableEnergyAndCapacity_def Let_def split: if_splits)
  with c smart_list_mem(1,5) [OF c(1)] show ?thesis
    by (intro bexI [of _ "cand_v c"]) (auto simp: soc_eligible_def)
qed

text \<open>The rules of the filter on the state of charge, for one vehicle of a fleet of \<open>n\<close>.\<close>

definition soc_fit :: "real SmartDispatcher \<Rightarrow> real FlexibilitySignal \<Rightarrow> nat \<Rightarrow> real Vehicle \<Rightarrow> bool" where
  "soc_fit d s n v \<longleftrightarrow>
     FleetMinSoC d \<le> SoC v \<and> 0 < BatteryKWh v \<and>
     (PowerKW s < 0 \<longrightarrow> max (MinSoC v) (SafeDischargeFloor d) < SoC v) \<and>
     (n = 1 \<longrightarrow> \<bar>PowerKW s\<bar> \<le> MaxPower v \<and>
        (PowerKW s < 0 \<and> 0 < SigDuration s \<longrightarrow>
           \<bar>PowerKW s\<bar> * Hours (SigDuration s) \<le> (SoC v - max (MinSoC v) (SafeDischargeFloor d)) * BatteryKWh v))"

lemma availableEnergy_eq:
  fixes v :: "real Vehicle"
  shows "fst (availableEnergyAndCapacity v s True flr) = (SoC v - max (MinSoC v) flr) * BatteryKWh v"
  by (auto simp: availableEnergyAndCapacity_def Let_def max_def)

lemma capacity_covers:
  fixes v :: "real Vehicle"
  assumes "0 < x" "PowerKW s < 0 \<longrightarrow> 0 < (SoC v - max (MinSoC v) flr) * BatteryKWh v"
  shows "x \<le> snd (availableEnergyAndCapacity v s True flr) \<longleftrightarrow> x \<le> MaxPower v \<and>
    (PowerKW s < 0 \<and> 0 < SigDuration s \<longrightarrow> x * Hours (SigDuration s) \<le> (SoC v - max (MinSoC v) flr) * BatteryKWh v)"
proof -
  let ?e = "(SoC v - max (MinSoC v) flr) * BatteryKWh v" and ?h = "Hours (SigDuration s) :: real"
  have "snd (availableEnergyAndCapacity v s True flr) =
      (let cap = (if PowerKW s < 0 \<and> 0 < SigDuration s then min (?e / ?h) (MaxPower v) else MaxPower v) in max cap 0)"
    using assms(2) by (auto simp: availableEnergyAndCapacity_def Let_def max_def min_def split: if_splits)
  moreover have "x \<le> ?e / ?h \<longleftrightarrow> x * ?h \<le> ?e" if "0 < SigDuration s" using that by (simp add: pos_le_divide_eq)
  ultimately show ?thesis using assms(1) by (auto simp: Let_def le_max_iff_disj)
qed

lemma soc_eligible_iff:
  assumes "PowerKW s \<noteq> 0"
  shows "soc_eligible d s n v \<longleftrightarrow> soc_fit d s n v"
proof (cases "0 < BatteryKWh v")
  case True
  let ?e = "(SoC v - max (MinSoC v) (SafeDischargeFloor d)) * BatteryKWh v"
  have e: "0 < ?e \<longleftrightarrow> max (MinSoC v) (SafeDischargeFloor d) < SoC v" using True by (simp add: zero_less_mult_iff)
  show ?thesis
  proof (cases "PowerKW s < 0 \<longrightarrow> 0 < ?e")
    case ok: True
    from capacity_covers [of "\<bar>PowerKW s\<bar>" s v, OF _ ok] assms True e ok show ?thesis
      by (auto simp: soc_eligible_def soc_fit_def availableEnergy_eq not_less not_le)
  next
    case False
    with e show ?thesis by (auto simp: soc_eligible_def soc_fit_def availableEnergy_eq)
  qed
qed (auto simp: soc_eligible_def soc_fit_def)

lemma smart_dispatch_fit:
  assumes "SmartDispatcher_Dispatch expf d vs s = Some (d', asn)" "distinct (map ID vs)"
    and "asn i = Some p" "p \<noteq> 0" "PowerKW s \<noteq> 0"
  shows "\<exists>v\<in>set vs. ID v = i \<and> \<bar>p\<bar> \<le> MaxPower v \<and> (EnableSoCConstraints d \<longrightarrow> soc_fit d s (length vs) v)"
proof -
  obtain c where c: "c \<in> set (smart_list expf d vs s)" "ID (cand_v c) = i" "\<bar>p\<bar> \<le> cand_capacity c"
    using smart_dispatch_capacity(2) [OF assms(1-3)] assms(4) by blast
  have "cand_capacity c \<le> MaxPower (cand_v c)"
    using smart_list_mem(3,4) [OF c(1)] by (auto simp: availableEnergyAndCapacity_def Let_def split: if_splits)
  with c smart_list_mem(1,5) [OF c(1)] soc_eligible_iff [OF assms(5)] show ?thesis
    by (intro bexI [of _ "cand_v c"]) auto
qed

lemma filterBySoC_excluded:
  assumes "PowerKW s \<noteq> 0"
  shows "snd (filterBySoC d vs s) = filter (\<lambda>v. EnableSoCConstraints d \<and> \<not> soc_fit d s (length vs) v) vs"
  by (simp add: filterBySoC_def filterBySoC_loop_eq soc_eligible_iff [OF assms])



lemma smart_dispatch_energy:
  fixes s :: "real FlexibilitySignal"
  assumes "SmartDispatcher_Dispatch expf d vs s = Some (d', asn)" "distinct (map ID vs)"
    and "EnableSoCConstraints d" "PowerKW s < 0" "0 < SigDuration s"
    and "v \<in> set vs" "asn (ID v) = Some p" "p \<noteq> 0"
  shows "\<bar>p\<bar> * Hours (SigDuration s) \<le> (SoC v - max (MinSoC v) (SafeDischargeFloor d)) * BatteryKWh v"
proof -
  obtain c where c: "c \<in> set (smart_list expf d vs s)" "ID (cand_v c) = ID v" "\<bar>p\<bar> \<le> cand_capacity c"
    using smart_dispatch_capacity(2) [OF assms(1,2,7)] assms(8) by blast
  have v: "cand_v c = v"
    using assms(2,6) c(2) smart_list_mem(1) [OF c(1)] by (auto simp: distinct_map inj_on_def)
  let ?e = "(SoC v - max (MinSoC v) (SafeDischargeFloor d)) * BatteryKWh v"
  have "0 < ?e" using smart_list_mem(5) [OF c(1)] assms(3,4) v by (auto simp: soc_eligible_def availableEnergy_eq)
  with capacity_covers [of "\<bar>p\<bar>" s v "SafeDischargeFloor d"] c(3) smart_list_mem(3) [OF c(1)] assms(3-5,8) v
  show ?thesis by auto
qed

lemma floor_unused:
  assumes "\<not> PowerKW s < 0"
  shows "smart_list expf (d\<lparr>SafeDischargeFloor := flr\<rparr>) vs s = smart_list expf d vs s"
proof -
  have cap: "snd (availableEnergyAndCapacity v s uf f) = snd (availableEnergyAndCapacity v s uf' f')" for v uf uf' f f'
    using assms by (auto simp: availableEnergyAndCapacity_def Let_def)
  have "soc_eligible (d\<lparr>SafeDischargeFloor := flr\<rparr>) s n v \<longleftrightarrow> soc_eligible d s n v" for n v
    using assms cap [of v True flr True "SafeDischargeFloor d"] by (simp add: soc_eligible_def)
  moreover have "vehicleScore expf (d\<lparr>SafeDischargeFloor := flr\<rparr>) v ctx = vehicleScore expf d v ctx" for v ctx
    by (simp add: vehicleScore_def weightsForSignal_def)
  ultimately show ?thesis
    using cap [of _ "EnableSoCConstraints d" flr "EnableSoCConstraints d" "SafeDischargeFloor d"]
    by (simp add: smart_list_def smart_ctx_def buildCandidates_def case_prod_unfold filterBySoC_eq prepareVehicles_eq
        mk_candidate_def [abs_def])
qed

text \<open>
  C8. Where the floor counts. With the constraints on the state of charge enabled, a negative request of
  positive duration assigns to no vehicle a power that over this duration is more energy than its battery
  holds above the larger of the vehicle's \<open>MinSoC\<close> and the dispatcher's \<open>SafeDischargeFloor\<close>. A positive request, which the sign convention of
  \<open>core/model/signal.go\<close> and \<open>simulator/battery.go\<close> makes the injection that discharges the battery, is
  divided as if there was no floor: whatever floor is set, the assignments are the same.
\<close>

theorem smart_dispatch_floor:
  fixes s :: "real FlexibilitySignal"
  assumes "SmartDispatcher_Dispatch expf d vs s = Some (d', asn)" "distinct (map ID vs)"
  shows "(\<forall>v p. EnableSoCConstraints d \<and> PowerKW s < 0 \<and> 0 < SigDuration s \<and> v \<in> set vs \<and> asn (ID v) = Some p \<longrightarrow>
      p = 0 \<or> \<bar>p\<bar> * Hours (SigDuration s) \<le> (SoC v - max (MinSoC v) (SafeDischargeFloor d)) * BatteryKWh v) \<and>
    (0 < PowerKW s \<longrightarrow> (\<forall>flr. map_option snd (SmartDispatcher_Dispatch expf (d\<lparr>SafeDischargeFloor := flr\<rparr>) vs s) = Some asn))"
proof -
  have "map_option snd (SmartDispatcher_Dispatch expf (d\<lparr>SafeDischargeFloor := flr\<rparr>) vs s) = Some asn"
    if "0 < PowerKW s" for flr
    using assms(1) floor_unused [where s = s and expf = expf and d = d and vs = vs and flr = flr] that
    by (auto simp: SmartDispatcher_Dispatch_def Let_def smart_list_def smart_ctx_def option.map_comp comp_def split: if_splits)
  with smart_dispatch_energy [OF assms] show ?thesis by blast
qed

text \<open>A vehicle whose charge is at the floor, asked to inject 10 kW for one hour.\<close>

definition low_vehicle :: "real Vehicle" where
  "low_vehicle =
     zeroVehicle\<lparr>ID := ''v1'', SoC := 1/10, MaxPower := 50, BatteryKWh := 50, Available := True\<rparr>"

lemma low_dispatch:
  "\<exists>d'. SmartDispatcher_Dispatch exp NewSmartDispatcher [low_vehicle] (smart_test_signal\<lparr>PowerKW := 10\<rparr>) =
     Some (d', [''v1'' \<mapsto> 10])"
proof -
  let ?s = "smart_test_signal\<lparr>PowerKW := 10\<rparr>" and ?c = "\<lparr>cand_v = low_vehicle, cand_score = 1/20, cand_capacity = 50\<rparr>"
  have sc: "vehicleScore exp NewSmartDispatcher low_vehicle (smart_ctx NewSmartDispatcher ?s) = 1/20"
    by (simp add: vehicleScore_def weightsForSignal_def smart_ctx_def NewSmartDispatcher_def low_vehicle_def
        smart_test_signal_def zeroVehicle_def Let_def timeSub_def timeZero_def GetParticipation_def)
  have cap: "availableEnergyAndCapacity low_vehicle ?s True (1/10) = (0, 50)"
    by (simp add: availableEnergyAndCapacity_def low_vehicle_def smart_test_signal_def zeroVehicle_def Let_def)
  have "soc_eligible NewSmartDispatcher ?s 1 low_vehicle"
    using cap by (simp add: soc_eligible_def NewSmartDispatcher_def)
      (simp add: low_vehicle_def smart_test_signal_def zeroVehicle_def)
  with sc cap have lst: "smart_list exp NewSmartDispatcher [low_vehicle] ?s = [?c]"
    by (simp add: smart_list_def buildCandidates_def case_prod_unfold filterBySoC_eq
        prepareVehicles_eq mk_candidate_def NewSmartDispatcher_def)
  have id: "ID low_vehicle = ''v1''" by (simp add: low_vehicle_def)
  have "allocateRound [?c] (1/20) 1 10 Map.empty = ([?c\<lparr>cand_capacity := 40\<rparr>], 1/20, 0, 10, [''v1'' \<mapsto> 10])"
    by (simp add: allocateRound_def allocateRound_loop.simps id)
  then have "smart_loop 10 1 [?c] (1/20) 10 Map.empty 0 = Some [''v1'' \<mapsto> 10]"
    by (simp add: smart_loop.simps [of _ _ "[_]"] smart_loop.simps [of _ _ _ _ 0])
  then show ?thesis
    using lst unfolding smart_list_def smart_ctx_def
    by (auto simp: SmartDispatcher_Dispatch_def Let_def)
      (simp_all add: smart_test_signal_def NewSmartDispatcher_def)
qed

theorem smart_dispatch_floor_witness:
  "\<bar>- 10\<bar> * (Hours Hour :: real) \<le> (SoC smart_test_vehicle - 1/10) * BatteryKWh smart_test_vehicle \<and>
   map_option snd (SmartDispatcher_Dispatch exp (NewSmartDispatcher\<lparr>SafeDischargeFloor := 1/10\<rparr>) [low_vehicle]
     (smart_test_signal\<lparr>PowerKW := 10\<rparr>)) = Some [''v1'' \<mapsto> 10] \<and>
   SoC low_vehicle - 10 * Hours (SigDuration smart_test_signal) / BatteryKWh low_vehicle < 1/10"
proof -
  obtain d' where run: "SmartDispatcher_Dispatch exp NewSmartDispatcher [smart_test_vehicle]
      smart_test_signal = Some (d', [''v1'' \<mapsto> - 10])" using smart_test_dispatch by blast
  obtain d'' where low: "SmartDispatcher_Dispatch exp NewSmartDispatcher [low_vehicle] (smart_test_signal\<lparr>PowerKW := 10\<rparr>) =
      Some (d'', [''v1'' \<mapsto> 10])" using low_dispatch by blast
  have "\<bar>- 10\<bar> * (Hours Hour :: real) \<le> (SoC smart_test_vehicle - 1/10) * BatteryKWh smart_test_vehicle"
    using conjunct1 [OF smart_dispatch_floor [OF run], rule_format, of smart_test_vehicle "- 10"]
    by (simp add: NewSmartDispatcher_def smart_test_signal_def smart_test_vehicle_def zeroVehicle_def duration_units)
  moreover have "map_option snd (SmartDispatcher_Dispatch exp (NewSmartDispatcher\<lparr>SafeDischargeFloor := 1/10\<rparr>) [low_vehicle]
     (smart_test_signal\<lparr>PowerKW := 10\<rparr>)) = Some [''v1'' \<mapsto> 10]"
    using conjunct2 [OF smart_dispatch_floor [OF low]] by simp
  ultimately show ?thesis by (simp add: low_vehicle_def smart_test_signal_def duration_units)
qed

text \<open>
  C9. The loop converges geometrically: when some candidate has a positive score and every
  candidate could deliver more than the whole request, at most the fraction
  \<open>exp (- MaxRounds)\<close> of the request stays unassigned (about 0.005 percent with the default
  of ten rounds).
\<close>

theorem smart_dispatch_shortfall:
  fixes s :: "real FlexibilitySignal"
  assumes "SmartDispatcher_Dispatch expf d vs s = Some (d', asn)" "distinct (map ID vs)"
    and "0 < MaxRounds d" "\<forall>c\<in>set (smart_list expf d vs s). \<bar>PowerKW s\<bar> < cand_capacity c"
    and "c \<in> set (smart_list expf d vs s)" "0 < cand_score c"
  shows "\<bar>PowerKW s\<bar> * (1 - exp (- of_int (MaxRounds d))) \<le> request_sign s * total_kw asn"
proof -
  let ?lst = "smart_list expf d vs s"
  have "cand_score c \<le> score_sum ?lst"
    using assms(5) smart_list_ok [of expf d vs s]
    by (auto simp: score_sum_def cands_ok_def list_all_iff intro!: member_le_sum_list)
  then have pos: "0 < score_sum ?lst" using assms(6) by linarith
  have sg: "request_sign s * request_sign s = 1" by (simp add: request_sign_def)
  have inv: "smart_inv (cand_limit ?lst) \<bar>PowerKW s\<bar> (request_sign s) ?lst (score_sum ?lst) \<bar>PowerKW s\<bar> Map.empty"
    using smart_start_inv [OF assms(2) sg] by simp
  have e: "real (nat (MaxRounds d)) = of_int (MaxRounds d)" using assms(3) by simp
  from smart_dispatch_loop [OF assms(1)] show ?thesis
  proof
    assume "asn = Map.empty \<and> (vs = [] \<or> PowerKW s = 0 \<or> ?lst = [])"
    with assms(5) smart_list_mem(1) [OF assms(5)] show ?thesis by auto
  next
    assume run: "smart_loop (MaxRounds d) (request_sign s) ?lst (score_sum ?lst) \<bar>PowerKW s\<bar> Map.empty 0 = Some asn"
    from smart_loop_shortfall [OF run inv _ pos refl assms(4)] assms(3)
    show ?thesis by (simp add: e right_diff_distrib)
  qed
qed

theorem smart_dispatch_shortfall_witness:
  "10 * (1 - exp (- 10)) \<le> - total_kw [''v1'' \<mapsto> (- 10 :: real)]"
proof -
  obtain d' where run: "SmartDispatcher_Dispatch exp NewSmartDispatcher [smart_test_vehicle]
      smart_test_signal = Some (d', [''v1'' \<mapsto> - 10])" using smart_test_dispatch by blast
  show ?thesis
    using smart_dispatch_shortfall [OF run] smart_test_list
    by (simp add: NewSmartDispatcher_def smart_test_signal_def request_sign_def)
qed

subsection \<open>The dispatcher contract\<close>

definition smart_assign ::
  "('n \<Rightarrow> 'n) \<Rightarrow> 'n::{zero,one,plus,minus,uminus,times,inverse,ord} SmartDispatcher \<Rightarrow> 'n Vehicle list
    \<Rightarrow> 'n FlexibilitySignal \<Rightarrow> (string \<rightharpoonup> 'n)" where
  "smart_assign expf d vs s =
     (case SmartDispatcher_Dispatch expf d vs s of None \<Rightarrow> Map.empty | Some (d', asn) \<Rightarrow> asn)"

lemma round_dom:
  assumes "allocateRound_loop cs W sign r asn con = (nxt, W', r', con', asn')"
  shows "dom asn' \<subseteq> dom asn \<union> (\<lambda>c. ID (cand_v c)) ` set cs"
proof
  fix i assume i: "i \<in> dom asn'"
  show "i \<in> dom asn \<union> (\<lambda>c. ID (cand_v c)) ` set cs"
  proof (cases "i \<in> (\<lambda>c. ID (cand_v c)) ` set cs")
    case False
    from round_outside [OF assms this] i show ?thesis by (simp add: dom_def)
  qed (rule UnI2)
qed

lemma smart_loop_dom:
  assumes "smart_loop mr sign lst W r asn k = Some out"
  shows "dom out \<subseteq> dom asn \<union> (\<lambda>c. ID (cand_v c)) ` set lst"
proof (rule smart_loop.raw_induct [where P = "\<lambda>mr sign lst W r asn k out.
      dom out \<subseteq> dom asn \<union> (\<lambda>c. ID (cand_v c)) ` set lst", OF _ assms])
  fix f :: "int \<Rightarrow> 'a \<Rightarrow> 'a candidate list \<Rightarrow> 'a \<Rightarrow> 'a \<Rightarrow> (string \<rightharpoonup> 'a) \<Rightarrow> int \<Rightarrow> (string \<rightharpoonup> 'a) option"
  fix mr sign lst W r asn k out
  assume IH: "\<And>mr sign lst W r asn k out. f mr sign lst W r asn k = Some out \<Longrightarrow>
      dom out \<subseteq> dom asn \<union> (\<lambda>c. ID (cand_v c)) ` set lst"
    and eq: "(if 0 < r \<and> lst \<noteq> [] \<and> 0 < W \<and> (mr = 0 \<or> k < mr)
      then (case allocateRound lst W sign r asn of (nxt, W', r', con, asn') \<Rightarrow>
              if feq con 0 then Some asn' else f mr sign nxt W' r' asn' (k + 1))
      else Some asn) = Some out"
  obtain nxt W' r' con asn' where rd: "allocateRound lst W sign r asn = (nxt, W', r', con, asn')"
    by (metis prod_cases5)
  note rd' = rd [unfolded allocateRound_def]
  note d = round_dom [OF rd'] conjunct1 [OF round_ids [OF rd']]
  show "dom out \<subseteq> dom asn \<union> (\<lambda>c. ID (cand_v c)) ` set lst"
  proof (cases "f mr sign nxt W' r' asn' (k + 1) = Some out")
    case True
    from IH [OF this] d show ?thesis by blast
  next
    case False
    with eq rd have "out = asn \<or> out = asn'" by (auto split: if_splits)
    with d(1) show ?thesis by blast
  qed
qed

lemma smart_dispatch_dom:
  assumes "SmartDispatcher_Dispatch expf d vs s = Some (d', asn)"
  shows "dom asn \<subseteq> (\<lambda>c. ID (cand_v c)) ` set (smart_list expf d vs s)"
proof -
  have "asn = Map.empty \<or> (\<exists>sign W t. smart_loop (MaxRounds d) sign (smart_list expf d vs s) W t Map.empty 0 = Some asn)"
    using assms by (auto simp: SmartDispatcher_Dispatch_def Let_def smart_list_def smart_ctx_def split: if_splits)
  then show ?thesis
  proof
    assume "\<exists>sign W t. smart_loop (MaxRounds d) sign (smart_list expf d vs s) W t Map.empty 0 = Some asn"
    then obtain sign W t where
      "smart_loop (MaxRounds d) sign (smart_list expf d vs s) W t Map.empty 0 = Some asn" by blast
    from smart_loop_dom [OF this] show ?thesis by simp
  qed simp
qed

lemma smart_assign_dom: "dom (smart_assign expf d vs s) \<subseteq> ID ` set vs"
proof (cases "SmartDispatcher_Dispatch expf d vs s")
  case (Some r)
  obtain d' asn where r: "r = (d', asn)" by (cases r)
  have "(\<lambda>c. ID (cand_v c)) ` set (smart_list expf d vs s) \<subseteq> ID ` set vs"
    using smart_list_mem(1) by (metis image_eqI image_subsetI)
  then have "dom asn \<subseteq> ID ` set vs" using smart_dispatch_dom [of expf d vs s d' asn] Some r by simp
  then show ?thesis using Some r by (simp add: smart_assign_def)
qed (simp add: smart_assign_def)

interpretation smart: dispatcher "smart_assign expf d"
  by unfold_locales (rule smart_assign_dom)

end
