(* ===== verification/LP_Dispatcher.thy ===== *)
theory LP_Dispatcher
  imports Smart_Dispatcher
begin

text \<open>
  \<open>LPDispatcher\<close> (\<open>core/dispatch/lp_dispatcher.go\<close>): the linear program it poses, the strict
  dispatch with its clamping and its check of the target, and the dispatch that falls back to
  the \<open>SmartDispatcher\<close>. Gonum's \<open>lp.Convert\<close> and \<open>lp.Simplex\<close> are not part of the repository:
  they are arguments of \<open>solveLP\<close>, and the solver is an argument of the dispatcher, as it is a
  variable (\<open>lpSolve\<close>) in the source.
\<close>

record 'n lpData =
  lp_ids :: "string list"
  lp_scores :: "'n list"
  lp_caps :: "'n list"

definition buildData ::
  "('n \<Rightarrow> 'n) \<Rightarrow> 'n::{zero,one,plus,minus,uminus,times,inverse,ord} SmartDispatcher \<Rightarrow> 'n Vehicle list
    \<Rightarrow> 'n FlexibilitySignal \<Rightarrow> 'n DispatchContext \<Rightarrow> 'n lpData" where
  "buildData expf d vs s ctx =
     (let cands = prepareVehicles vs s ctx (vehicleScore expf d) (EnableSoCConstraints d)
                    (SafeDischargeFloor d) in
      \<lparr>lp_ids = map (\<lambda>c. ID (cand_v c)) cands, lp_scores = map cand_score cands,
       lp_caps = map cand_capacity cands\<rparr>)"

text \<open>
  The program \<open>solveLP\<close> hands to \<open>lp.Convert\<close>, lines 38 to 54: objective \<open>c\<close>, inequalities
  \<open>G x \<le> h\<close> and equalities \<open>A x = b\<close>, with matrices as lists of rows.
\<close>

definition lp_program ::
  "'n::{zero,one,uminus} list \<Rightarrow> 'n list \<Rightarrow> 'n
    \<Rightarrow> 'n list \<times> 'n list list \<times> 'n list \<times> 'n list list \<times> 'n list" where
  "lp_program scs caps target =
     (map uminus scs,
      map (\<lambda>i. map (\<lambda>j. if i = j then 1 else 0) [0..<length caps]) [0..<length caps],
      caps,
      [map (\<lambda>_. 1) caps],
      [target])"

definition solveLP ::
  "('n list \<Rightarrow> 'n list list \<Rightarrow> 'n list \<Rightarrow> 'n list list \<Rightarrow> 'n list \<Rightarrow> 'n list \<times> 'n list list \<times> 'n list)
    \<Rightarrow> ('n list \<Rightarrow> 'n list list \<Rightarrow> 'n list \<Rightarrow> 'n \<Rightarrow> go_error + 'n list)
    \<Rightarrow> 'n::{zero,one,plus,uminus,inverse} list \<Rightarrow> 'n list \<Rightarrow> 'n \<Rightarrow> go_error + 'n list" where
  "solveLP convert simplex scs caps target =
     (case lp_program scs caps target of (c, g, h, A, b) \<Rightarrow>
        case convert c g h A b of (cStd, AStd, bStd) \<Rightarrow> simplex cStd AStd bStd (lit 1 10000000))"

definition NewLPDispatcher :: "'n::{zero,one,plus,inverse} SmartDispatcher" where
  "NewLPDispatcher = NewSmartDispatcher"

text \<open>
  What a strict dispatch can do: index the solution out of range, return an error together with
  a map (nil or filled), or return assignments.
\<close>

datatype 'n strict_result =
    StrictPanic
  | StrictErr "string \<rightharpoonup> 'n" go_error
  | StrictOk "string \<rightharpoonup> 'n"

text \<open>The loop over the solution, lines 108 to 119; \<^term>\<open>None\<close> is the index panic.\<close>

definition lp_clamp :: "'n::{zero,ord} \<Rightarrow> 'n \<Rightarrow> 'n" where
  "lp_clamp cap x = (let p = (if x < 0 then 0 else x) in if cap < p then cap else p)"

fun lp_assign ::
  "'n::{zero,plus,times,ord} \<Rightarrow> string list \<Rightarrow> 'n list \<Rightarrow> 'n list \<Rightarrow> (string \<rightharpoonup> 'n) \<Rightarrow> 'n
    \<Rightarrow> ((string \<rightharpoonup> 'n) \<times> 'n) option" where
  "lp_assign sign (i # is) (cap # caps) (x # sol) asn acc =
     (let p = lp_clamp cap x in lp_assign sign is caps sol (asn(i \<mapsto> sign * p)) (acc + p))"
| "lp_assign sign [] caps sol asn acc = Some (asn, acc)"
| "lp_assign sign is caps sol asn acc = None"

definition DispatchStrict ::
  "('n list \<Rightarrow> 'n list \<Rightarrow> 'n \<Rightarrow> go_error + 'n list) \<Rightarrow> ('n \<Rightarrow> 'n)
    \<Rightarrow> 'n::{zero,one,plus,minus,uminus,times,inverse,ord} SmartDispatcher \<Rightarrow> 'n Vehicle list
    \<Rightarrow> 'n FlexibilitySignal \<Rightarrow> 'n SmartDispatcher \<times> 'n strict_result" where
  "DispatchStrict lpSolve expf d vs s =
     (if vs = [] \<or> feq (PowerKW s) 0 then (d, StrictOk Map.empty)
      else let ctx = \<lparr>CtxSignal = s, CtxNow = Timestamp s, CtxMarketPrice = MarketPrice d,
                      ParticipationScore = Participation d\<rparr>;
               data = buildData expf d vs s ctx;
               d' = d\<lparr>scores := foldl (\<lambda>m (i, x). m(i \<mapsto> x)) Map.empty
                                  (zip (lp_ids data) (lp_scores data))\<rparr> in
           if lp_ids data = [] then (d', StrictOk Map.empty)
           else let target = mathAbs (PowerKW s);
                    sign = (if PowerKW s < 0 then - 1 else 1) in
                case lpSolve (lp_scores data) (lp_caps data) target of
                  Inl err \<Rightarrow> (d', StrictErr Map.empty err)
                | Inr sol \<Rightarrow>
                    (case lp_assign sign (lp_ids data) (lp_caps data) sol Map.empty 0 of
                       None \<Rightarrow> (d', StrictPanic)
                     | Some (asn, acc) \<Rightarrow>
                         if lit 1 1000 < mathAbs (acc - target) then (d', StrictErr asn ErrInfeasible)
                         else (d', StrictOk asn)))"

definition LP_GetScores :: "'n SmartDispatcher \<Rightarrow> (string \<rightharpoonup> 'n)" where
  "LP_GetScores d = scores d"

text \<open>
  \<open>Dispatch\<close>: on an error a copy of the embedded dispatcher runs, so the scores kept are those
  of the strict dispatch. \<^term>\<open>None\<close>: no return, by the index panic or an endless loop of the
  fallback.
\<close>

definition LPDispatcher_Dispatch ::
  "('n list \<Rightarrow> 'n list \<Rightarrow> 'n \<Rightarrow> go_error + 'n list) \<Rightarrow> ('n \<Rightarrow> 'n)
    \<Rightarrow> 'n::{zero,one,plus,minus,uminus,times,inverse,ord} SmartDispatcher \<Rightarrow> 'n Vehicle list
    \<Rightarrow> 'n FlexibilitySignal \<Rightarrow> ('n SmartDispatcher \<times> (string \<rightharpoonup> 'n)) option" where
  "LPDispatcher_Dispatch lpSolve expf d vs s =
     (case DispatchStrict lpSolve expf d vs s of
        (d', StrictPanic) \<Rightarrow> None
      | (d', StrictErr asn err) \<Rightarrow>
          map_option (\<lambda>(gd, asn). (d', asn)) (SmartDispatcher_Dispatch expf d' vs s)
      | (d', StrictOk asn) \<Rightarrow> Some (d', asn))"

subsection \<open>The candidates and the loop over the solution\<close>

definition lp_cands ::
  "('n \<Rightarrow> 'n) \<Rightarrow> 'n::{zero,one,plus,minus,uminus,times,inverse,ord} SmartDispatcher \<Rightarrow> 'n Vehicle list
    \<Rightarrow> 'n FlexibilitySignal \<Rightarrow> 'n candidate list" where
  "lp_cands expf d vs s =
     prepareVehicles vs s (smart_ctx d s) (vehicleScore expf d) (EnableSoCConstraints d) (SafeDischargeFloor d)"

lemma buildData_sel [simp]:
  "lp_ids (buildData expf d vs s (smart_ctx d s)) = map (\<lambda>c. ID (cand_v c)) (lp_cands expf d vs s)"
  "lp_scores (buildData expf d vs s (smart_ctx d s)) = map cand_score (lp_cands expf d vs s)"
  "lp_caps (buildData expf d vs s (smart_ctx d s)) = map cand_capacity (lp_cands expf d vs s)"
  by (simp_all add: buildData_def lp_cands_def Let_def)

lemma lp_cands_mem:
  assumes "c \<in> set (lp_cands expf d vs s)"
  shows "cand_v c \<in> set vs" and "\<not> cand_capacity c \<le> 0"
    and "cand_capacity c = snd (availableEnergyAndCapacity (cand_v c) s (EnableSoCConstraints d) (SafeDischargeFloor d))"
  using assms by (auto simp: lp_cands_def prepareVehicles_eq)

lemma lp_cands_distinct:
  "distinct (map ID vs) \<Longrightarrow> distinct (map (\<lambda>c. ID (cand_v c)) (lp_cands expf d vs s))"
  unfolding lp_cands_def by (rule prepareVehicles_distinct)

lemma lp_clamp_bounds: "0 \<le> cap \<Longrightarrow> 0 \<le> lp_clamp cap x \<and> lp_clamp cap (x::real) \<le> cap"
  by (auto simp: lp_clamp_def)

lemma lp_clamp_feasible [simp]: "0 \<le> x \<Longrightarrow> x \<le> cap \<Longrightarrow> lp_clamp cap (x::real) = x"
  by (auto simp: lp_clamp_def)

text \<open>The loop returns exactly when the solution has an entry per candidate.\<close>

lemma lp_assign_returns:
  "length is = length caps \<Longrightarrow> lp_assign sign is caps sol asn acc \<noteq> None \<longleftrightarrow> length is \<le> length sol"
proof (induction "is" arbitrary: caps sol asn acc)
  case (Cons i "is")
  then obtain cap caps' where "caps = cap # caps'" "length is = length caps'" by (cases caps) auto
  with Cons.IH show ?case by (cases sol) (auto simp: Let_def simp del: not_None_eq)
qed simp

lemma lp_assign_result:
  fixes asn :: "string \<rightharpoonup> real"
  assumes "lp_assign sign (map f cs) (map g cs) sol asn acc = Some (asn', acc')"
    "distinct (map f cs)" "set (map f cs) \<inter> dom asn = {}" "finite (dom asn)"
  shows "total_kw asn' = total_kw asn + sign * (acc' - acc)"
    and "acc' = acc + sum_list (map2 lp_clamp (map g cs) sol)"
    and "dom asn' = dom asn \<union> set (map f cs)"
    and "i < length cs \<Longrightarrow> asn' (f (cs ! i)) = Some (sign * lp_clamp (g (cs ! i)) (sol ! i))"
proof -
  have "total_kw asn' = total_kw asn + sign * (acc' - acc) \<and>
    acc' = acc + sum_list (map2 lp_clamp (map g cs) sol) \<and>
    dom asn' = dom asn \<union> set (map f cs) \<and>
    (\<forall>k. k \<notin> set (map f cs) \<longrightarrow> asn' k = asn k) \<and>
    (\<forall>i<length cs. asn' (f (cs ! i)) = Some (sign * lp_clamp (g (cs ! i)) (sol ! i)))"
    using assms
  proof (induction cs arbitrary: sol asn acc)
    case (Cons c cs)
    obtain x rest where sol: "sol = x # rest" using Cons.prems(1) by (cases sol) auto
    let ?p = "lp_clamp (g c) x"
    have run: "lp_assign sign (map f cs) (map g cs) rest (asn(f c \<mapsto> sign * ?p)) (acc + ?p) = Some (asn', acc')"
      using Cons.prems(1) sol by (simp add: Let_def)
    have new: "f c \<notin> dom asn" "f c \<notin> set (map f cs)" using Cons.prems(2,3) by auto
    have pre: "distinct (map f cs)" "set (map f cs) \<inter> dom (asn(f c \<mapsto> sign * ?p)) = {}"
      "finite (dom (asn(f c \<mapsto> sign * ?p)))"
      using Cons.prems(2-4) by auto
    have ih: "total_kw asn' = total_kw (asn(f c \<mapsto> sign * ?p)) + sign * (acc' - (acc + ?p))"
      "acc' = acc + ?p + sum_list (map2 lp_clamp (map g cs) rest)"
      "dom asn' = dom (asn(f c \<mapsto> sign * ?p)) \<union> set (map f cs)"
      "\<forall>k. k \<notin> set (map f cs) \<longrightarrow> asn' k = (asn(f c \<mapsto> sign * ?p)) k"
      "\<forall>i<length cs. asn' (f (cs ! i)) = Some (sign * lp_clamp (g (cs ! i)) (rest ! i))"
      using Cons.IH [OF run pre] by blast+
    have t: "total_kw (asn(f c \<mapsto> sign * ?p)) = total_kw asn + sign * ?p"
      using new(1) Cons.prems(4) by (simp add: total_kw_upd domIff)
    have a: "total_kw asn' = total_kw asn + sign * (acc' - acc)"
      "acc' = acc + sum_list (map2 lp_clamp (map g (c # cs)) sol)"
      "dom asn' = dom asn \<union> set (map f (c # cs))"
      using ih t sol by (auto simp: algebra_simps)
    have b: "asn' k = asn k" if "k \<notin> set (map f (c # cs))" for k
      using ih that by simp
    have "asn' (f ((c # cs) ! i)) = Some (sign * lp_clamp (g ((c # cs) ! i)) (sol ! i))"
      if "i < length (c # cs)" for i
      using ih new(2) that sol by (cases i) auto
    with a b show ?case by blast
  qed simp
  then show "total_kw asn' = total_kw asn + sign * (acc' - acc)"
    and "acc' = acc + sum_list (map2 lp_clamp (map g cs) sol)"
    and "dom asn' = dom asn \<union> set (map f cs)"
    and "i < length cs \<Longrightarrow> asn' (f (cs ! i)) = Some (sign * lp_clamp (g (cs ! i)) (sol ! i))"
    by auto
qed

subsection \<open>The strict dispatch\<close>

lemma DispatchStrict_unfold:
  fixes s :: "real FlexibilitySignal"
  shows "snd (DispatchStrict lpSolve expf d vs s) =
    (let cs = lp_cands expf d vs s in
     if vs = [] \<or> PowerKW s = 0 \<or> cs = [] then StrictOk Map.empty
     else case lpSolve (map cand_score cs) (map cand_capacity cs) \<bar>PowerKW s\<bar> of
            Inl err \<Rightarrow> StrictErr Map.empty err
          | Inr sol \<Rightarrow>
              (case lp_assign (request_sign s) (map (\<lambda>c. ID (cand_v c)) cs) (map cand_capacity cs) sol Map.empty 0 of
                 None \<Rightarrow> StrictPanic
               | Some (asn, acc) \<Rightarrow>
                   if 1/1000 < \<bar>acc - \<bar>PowerKW s\<bar>\<bar> then StrictErr asn ErrInfeasible else StrictOk asn))"
  unfolding DispatchStrict_def smart_ctx_def [symmetric] request_sign_def
  by (auto simp: Let_def split: sum.splits option.splits prod.splits)

lemma strict_ok_solution:
  fixes s :: "real FlexibilitySignal"
  assumes "DispatchStrict lpSolve expf d vs s = (d', StrictOk asn)" "asn \<noteq> Map.empty"
  obtains sol acc where
    "lp_assign (request_sign s) (map (\<lambda>c. ID (cand_v c)) (lp_cands expf d vs s))
       (map cand_capacity (lp_cands expf d vs s)) sol Map.empty 0 = Some (asn, acc)"
    "\<bar>acc - \<bar>PowerKW s\<bar>\<bar> \<le> 1/1000"
proof -
  have "snd (DispatchStrict lpSolve expf d vs s) = StrictOk asn" using assms(1) by simp
  then show ?thesis
    using that assms(2)
    by (auto simp: DispatchStrict_unfold Let_def split: if_splits sum.splits option.splits prod.splits)
qed

lemma lp_cand_capacity_le:
  fixes s :: "real FlexibilitySignal"
  assumes "c \<in> set (lp_cands expf d vs s)"
  shows "0 < cand_capacity c \<and> cand_capacity c \<le> MaxPower (cand_v c)"
  using lp_cands_mem(2,3) [OF assms]
  by (auto simp: availableEnergyAndCapacity_def Let_def split: if_splits)

lemma strict_ok_limits:
  fixes s :: "real FlexibilitySignal"
  assumes "DispatchStrict lpSolve expf d vs s = (d', StrictOk asn)" "distinct (map ID vs)"
    "asn i = Some p"
  shows "\<exists>v\<in>set vs. ID v = i \<and> \<bar>p\<bar> \<le> MaxPower v \<and> 0 \<le> request_sign s * p"
proof -
  let ?cs = "lp_cands expf d vs s"
  have "asn \<noteq> Map.empty" using assms(3) by auto
  then obtain sol acc where run: "lp_assign (request_sign s) (map (\<lambda>c. ID (cand_v c)) ?cs)
       (map cand_capacity ?cs) sol Map.empty 0 = Some (asn, acc)"
    using strict_ok_solution [OF assms(1)] by metis
  note res = lp_assign_result [OF run lp_cands_distinct [OF assms(2)]]
  have "i \<in> set (map (\<lambda>c. ID (cand_v c)) ?cs)" using res(3) assms(3) by auto
  then obtain k where k: "k < length ?cs" "ID (cand_v (?cs ! k)) = i"
    by (auto simp: in_set_conv_nth)
  then have p: "p = request_sign s * lp_clamp (cand_capacity (?cs ! k)) (sol ! k)"
    using res(4) [of k] assms(3) by simp
  have mem: "?cs ! k \<in> set ?cs" using k(1) by simp
  note cap = lp_cand_capacity_le [OF mem]
  have "0 \<le> lp_clamp (cand_capacity (?cs ! k)) (sol ! k)"
    "lp_clamp (cand_capacity (?cs ! k)) (sol ! k) \<le> MaxPower (cand_v (?cs ! k))"
    using cap lp_clamp_bounds [of "cand_capacity (?cs ! k)" "sol ! k"] by linarith+
  then show ?thesis
    using k(2) p lp_cands_mem(1) [OF mem]
    by (intro bexI [of _ "cand_v (?cs ! k)"]) (auto simp: request_sign_def)
qed

lemma strict_ok_total:
  fixes s :: "real FlexibilitySignal"
  assumes "DispatchStrict lpSolve expf d vs s = (d', StrictOk asn)" "distinct (map ID vs)"
    "asn \<noteq> Map.empty"
  shows "\<bar>request_sign s * total_kw asn - \<bar>PowerKW s\<bar>\<bar> \<le> 1/1000"
proof -
  obtain sol acc where run: "lp_assign (request_sign s) (map (\<lambda>c. ID (cand_v c)) (lp_cands expf d vs s))
       (map cand_capacity (lp_cands expf d vs s)) sol Map.empty 0 = Some (asn, acc)"
    "\<bar>acc - \<bar>PowerKW s\<bar>\<bar> \<le> 1/1000"
    using strict_ok_solution [OF assms(1,3)] by metis
  have "request_sign s * total_kw asn = acc"
    using lp_assign_result(1) [OF run(1) lp_cands_distinct [OF assms(2)]]
    by (simp add: request_sign_def)
  with run(2) show ?thesis by simp
qed

text \<open>
  C15. A strict dispatch that succeeds with a non-empty result meets the request to within
  0.001 kW, whatever the solver returned: the clamped solution is checked, not trusted. Every
  vehicle stays within its \<open>MaxPower\<close> and gets power of the direction of the signal.
\<close>

theorem lp_strict_meets_target:
  fixes s :: "real FlexibilitySignal"
  assumes "DispatchStrict lpSolve expf d vs s = (d', StrictOk asn)" "distinct (map ID vs)"
    and "asn i = Some p"
  shows "\<bar>request_sign s * total_kw asn - \<bar>PowerKW s\<bar>\<bar> \<le> 1/1000 \<and>
    (\<exists>v\<in>set vs. ID v = i \<and> \<bar>p\<bar> \<le> MaxPower v \<and> 0 \<le> request_sign s * p)"
proof
  have "asn \<noteq> Map.empty" using assms(3) by auto
  then show "\<bar>request_sign s * total_kw asn - \<bar>PowerKW s\<bar>\<bar> \<le> 1/1000"
    by (rule strict_ok_total [OF assms(1,2)])
qed (rule strict_ok_limits [OF assms])

lemma lp_test_cands:
  "lp_cands exp NewLPDispatcher [smart_test_vehicle] smart_test_signal =
     [\<lparr>cand_v = smart_test_vehicle, cand_score = 2/5, cand_capacity = 35\<rparr>]"
proof -
  have "soc_eligible NewSmartDispatcher smart_test_signal 1 smart_test_vehicle"
    using smart_list_mem(5) [of "\<lparr>cand_v = smart_test_vehicle, cand_score = 2/5, cand_capacity = 35\<rparr>"
        exp NewSmartDispatcher "[smart_test_vehicle]" smart_test_signal] smart_test_list
    by (simp add: NewSmartDispatcher_def)
  then show ?thesis
    using smart_test_list
    by (simp add: smart_list_def buildCandidates_def case_prod_unfold filterBySoC_eq lp_cands_def
        NewLPDispatcher_def)
qed

lemma lp_test_run:
  "\<exists>d'. DispatchStrict (\<lambda>_ _ t. Inr [t]) exp NewLPDispatcher [smart_test_vehicle] smart_test_signal
     = (d', StrictOk [''v1'' \<mapsto> - 10])"
proof -
  have "snd (DispatchStrict (\<lambda>_ _ t. Inr [t]) exp NewLPDispatcher [smart_test_vehicle] smart_test_signal)
     = StrictOk [''v1'' \<mapsto> - 10]"
    unfolding DispatchStrict_unfold lp_test_cands
    by (simp add: smart_test_signal_def request_sign_def smart_test_vehicle_def)
  then show ?thesis by (metis prod.collapse)
qed

theorem lp_strict_meets_target_witness:
  "\<bar>- total_kw [''v1'' \<mapsto> (- 10 :: real)] - 10\<bar> \<le> 1/1000"
proof -
  obtain d' where run: "DispatchStrict (\<lambda>_ _ t. Inr [t]) exp NewLPDispatcher [smart_test_vehicle]
      smart_test_signal = (d', StrictOk [''v1'' \<mapsto> - 10])" using lp_test_run by blast
  show ?thesis
    using lp_strict_meets_target [OF run, of "''v1''" "- 10"]
    by (simp add: smart_test_signal_def request_sign_def)
qed

subsection \<open>The dispatch with fallback\<close>

lemma DispatchStrict_state: "\<exists>m. fst (DispatchStrict lpSolve expf d vs s) = d\<lparr>scores := m\<rparr>"
proof -
  have "fst (DispatchStrict lpSolve expf d vs s) = d \<or>
      (\<exists>m. fst (DispatchStrict lpSolve expf d vs s) = d\<lparr>scores := m\<rparr>)"
    by (simp add: DispatchStrict_def Let_def case_prod_unfold split: sum.split option.split) blast
  moreover have "d = d\<lparr>scores := scores d\<rparr>" by simp
  ultimately show ?thesis by metis
qed

lemma LPDispatcher_Dispatch_cases:
  assumes "LPDispatcher_Dispatch lpSolve expf d vs s = Some (d', asn)"
  shows "DispatchStrict lpSolve expf d vs s = (d', StrictOk asn) \<or>
    (\<exists>gd. SmartDispatcher_Dispatch expf d' vs s = Some (gd, asn) \<and> (\<exists>m. d' = d\<lparr>scores := m\<rparr>))"
proof -
  obtain d1 r where r: "DispatchStrict lpSolve expf d vs s = (d1, r)" by fastforce
  have "\<exists>m. d1 = d\<lparr>scores := m\<rparr>" using DispatchStrict_state [of lpSolve expf d vs s] r by simp
  with assms r show ?thesis
    by (cases r) (auto simp: LPDispatcher_Dispatch_def)
qed

lemma lp_dispatch_within:
  fixes s :: "real FlexibilitySignal"
  assumes "LPDispatcher_Dispatch lpSolve expf d vs s = Some (d', asn)" "distinct (map ID vs)"
    and "asn i = Some p" "p \<noteq> 0"
  shows "0 \<le> request_sign s * p \<and> \<bar>total_kw asn\<bar> \<le> \<bar>PowerKW s\<bar> + 1/1000 \<and>
    (\<exists>v\<in>set vs. ID v = i \<and> \<bar>p\<bar> \<le> MaxPower v)"
  using LPDispatcher_Dispatch_cases [OF assms(1)]
proof
  assume ok: "DispatchStrict lpSolve expf d vs s = (d', StrictOk asn)"
  have "asn \<noteq> Map.empty" using assms(3) by auto
  then have "\<bar>request_sign s * total_kw asn - \<bar>PowerKW s\<bar>\<bar> \<le> 1/1000"
    by (rule strict_ok_total [OF ok assms(2)])
  moreover have "\<bar>request_sign s * total_kw asn\<bar> = \<bar>total_kw asn\<bar>"
    by (simp add: request_sign_def)
  ultimately have "\<bar>total_kw asn\<bar> \<le> \<bar>PowerKW s\<bar> + 1/1000" by linarith
  with strict_ok_limits [OF ok assms(2,3)] show ?thesis by blast
next
  assume "\<exists>gd. SmartDispatcher_Dispatch expf d' vs s = Some (gd, asn) \<and> (\<exists>m. d' = d\<lparr>scores := m\<rparr>)"
  then obtain gd where fb: "SmartDispatcher_Dispatch expf d' vs s = Some (gd, asn)" by blast
  show ?thesis
    using smart_dispatch_total [OF fb assms(2)] smart_dispatch_capacity(1) [OF fb assms(2,3)]
      smart_dispatch_within [OF fb assms(2-)] by fastforce
qed

text \<open>
  Whatever the solver answers, the assignments \<open>Dispatch\<close> returns keep to the limits: power
  of the direction of the signal, at most \<open>MaxPower\<close> per vehicle of the fleet, and in total at
  most the request plus the tolerance of 0.001 kW.
\<close>

theorem lp_dispatch_limits:
  fixes s :: "real FlexibilitySignal"
  assumes "LPDispatcher_Dispatch lpSolve expf d vs s = Some (d', asn)" "distinct (map ID vs)"
    and "asn i = Some p" "p \<noteq> 0"
  shows "0 \<le> request_sign s * p \<and> \<bar>total_kw asn\<bar> \<le> \<bar>PowerKW s\<bar> + 1/1000 \<and>
    (\<exists>v\<in>set vs. ID v = i \<and> \<bar>p\<bar> \<le> MaxPower v)"
  using assms by (rule lp_dispatch_within)

theorem lp_dispatch_limits_witness:
  "\<bar>total_kw [''v1'' \<mapsto> (- 10 :: real)]\<bar> \<le> 10 + 1/1000 \<and> \<bar>- 10\<bar> \<le> MaxPower smart_test_vehicle"
proof -
  obtain d' where "DispatchStrict (\<lambda>_ _ t. Inr [t]) exp NewLPDispatcher [smart_test_vehicle]
      smart_test_signal = (d', StrictOk [''v1'' \<mapsto> - 10])" using lp_test_run by blast
  then have run: "LPDispatcher_Dispatch (\<lambda>_ _ t. Inr [t]) exp NewLPDispatcher [smart_test_vehicle]
      smart_test_signal = Some (d', [''v1'' \<mapsto> - 10])" by (simp add: LPDispatcher_Dispatch_def)
  show ?thesis
    using lp_dispatch_limits [OF run, of "''v1''" "- 10"] by (simp add: smart_test_signal_def)
qed

lemma strict_no_panic:
  fixes s :: "real FlexibilitySignal"
  assumes "\<And>scs caps t sol. lpSolve scs caps t = Inr sol \<Longrightarrow> length caps \<le> length sol"
  shows "snd (DispatchStrict lpSolve expf d vs s) \<noteq> StrictPanic"
proof
  let ?cs = "lp_cands expf d vs s"
  assume "snd (DispatchStrict lpSolve expf d vs s) = StrictPanic"
  then obtain sol where sol: "lpSolve (map cand_score ?cs) (map cand_capacity ?cs) \<bar>PowerKW s\<bar> = Inr sol"
    and none: "lp_assign (request_sign s) (map (\<lambda>c. ID (cand_v c)) ?cs) (map cand_capacity ?cs) sol Map.empty 0 = None"
    by (auto simp: DispatchStrict_unfold Let_def split: if_splits sum.splits option.splits prod.splits)
  have "length (map (\<lambda>c. ID (cand_v c)) ?cs) \<le> length sol" using assms [OF sol] by simp
  with none lp_assign_returns [of "map (\<lambda>c. ID (cand_v c)) ?cs" "map cand_capacity ?cs"]
  show False by (metis length_map)
qed

lemma lp_dispatch_defined:
  fixes d :: "real SmartDispatcher"
  assumes "MaxRounds d \<noteq> 0"
    and "\<And>scs caps t sol. lpSolve scs caps t = Inr sol \<Longrightarrow> length caps \<le> length sol"
  shows "\<exists>d' asn. LPDispatcher_Dispatch lpSolve expf d vs s = Some (d', asn)"
proof -
  obtain d1 r where r: "DispatchStrict lpSolve expf d vs s = (d1, r)" by fastforce
  obtain m where "d1 = d\<lparr>scores := m\<rparr>" using DispatchStrict_state [of lpSolve expf d vs s] r by auto
  then have "MaxRounds d1 \<noteq> 0" using assms(1) by simp
  then have fb: "\<exists>gd asn. SmartDispatcher_Dispatch expf d1 vs s = Some (gd, asn)"
    by (rule smart_dispatch_defined)
  have "r \<noteq> StrictPanic" using strict_no_panic [of lpSolve expf d vs s, OF assms(2)] r by auto
  with fb r show ?thesis by (cases r) (auto simp: LPDispatcher_Dispatch_def)
qed

text \<open>
  With a round limit and a solver that answers either an error or a vector with an entry
  for every candidate, \<open>Dispatch\<close> returns. The witness solver proposes the capacities.
\<close>

theorem lp_dispatch_returns:
  fixes d :: "real SmartDispatcher"
  assumes "MaxRounds d \<noteq> 0"
    and "\<And>scs caps t sol. lpSolve scs caps t = Inr sol \<Longrightarrow> length caps \<le> length sol"
  shows "\<exists>d' asn. LPDispatcher_Dispatch lpSolve expf d vs s = Some (d', asn)"
  using assms by (rule lp_dispatch_defined)

theorem lp_dispatch_returns_witness:
  "\<exists>d' asn. LPDispatcher_Dispatch (\<lambda>scs caps t. Inr caps) exp NewLPDispatcher
     [smart_test_vehicle] smart_test_signal = Some (d', asn)"
  by (rule lp_dispatch_returns) (auto simp: NewLPDispatcher_def NewSmartDispatcher_def)

subsection \<open>The linear program that is posed\<close>

definition dot :: "real list \<Rightarrow> real list \<Rightarrow> real" where
  "dot u v = sum_list (map2 (*) u v)"

fun lp_feasible :: "real list \<times> real list list \<times> real list \<times> real list list \<times> real list \<Rightarrow> real list \<Rightarrow> bool" where
  "lp_feasible (c, g, h, A, b) x \<longleftrightarrow> length x = length c \<and>
     list_all2 (\<lambda>row hi. dot row x \<le> hi) g h \<and> list_all2 (\<lambda>row bi. dot row x = bi) A b"

definition lp_optimal :: "real list \<times> real list list \<times> real list \<times> real list list \<times> real list \<Rightarrow> real list \<Rightarrow> bool" where
  "lp_optimal P x \<longleftrightarrow> lp_feasible P x \<and> (\<forall>y. lp_feasible P y \<longrightarrow> dot (fst P) x \<le> dot (fst P) y)"

lemma dot_nth: "length u = length v \<Longrightarrow> dot u v = (\<Sum>i<length v. u ! i * v ! i)"
  by (simp add: dot_def sum_list_sum_nth lessThan_atLeast0)

lemma dot_unit:
  assumes "i < n" "length x = n"
  shows "dot (map (\<lambda>j. if i = j then 1 else 0) [0..<n]) x = x ! i"
proof -
  have "dot (map (\<lambda>j. if i = j then 1 else 0) [0..<n]) x = (\<Sum>j<n. (if i = j then 1 else 0) * x ! j)"
    using assms by (simp add: dot_nth)
  also have "\<dots> = (\<Sum>j<n. if i = j then x ! j else 0)" by (intro sum.cong) auto
  finally show ?thesis using assms by simp
qed

lemma dot_ones: "length x = length caps \<Longrightarrow> dot (map (\<lambda>_. 1) caps) x = (\<Sum>i<length x. x ! i)"
  by (auto simp: dot_nth intro!: sum.cong)

text \<open>Feasible: upper bounds and the sum, and no lower bound on any variable.\<close>

lemma lp_program_feasible:
  assumes "length scs = length caps"
  shows "lp_feasible (lp_program scs caps t) x \<longleftrightarrow>
    length x = length caps \<and> (\<forall>i<length caps. x ! i \<le> caps ! i) \<and> (\<Sum>i<length caps. x ! i) = t"
  using assms by (auto simp: lp_program_def list_all2_conv_all_nth dot_unit dot_ones)

lemma posed_optimum:
  assumes len: "length scs = length caps" and opt: "lp_optimal (lp_program scs caps t) x"
    and j: "j < length caps" and low: "\<forall>i<length caps. i \<noteq> j \<longrightarrow> scs ! j < scs ! i"
    and i: "i < length caps" "i \<noteq> j"
  shows "x ! i = caps ! i"
proof (rule ccontr)
  let ?n = "length caps"
  assume ne: "x ! i \<noteq> caps ! i"
  have f: "length x = ?n" "\<forall>i<?n. x ! i \<le> caps ! i" "(\<Sum>i<?n. x ! i) = t"
    using opt lp_program_feasible [OF len] by (auto simp: lp_optimal_def)
  define e where "e = caps ! i - x ! i"
  have e: "0 < e" using f(2) i(1) ne by (force simp: e_def)
  define y where "y = x[i := x ! i + e, j := x ! j - e]"
  have y: "y ! k = x ! k + (if k = i then e else 0) - (if k = j then e else 0)" if "k < ?n" for k
    using that f(1) i j by (auto simp: y_def nth_list_update)
  have len_y: "length y = ?n" by (simp add: y_def f(1))
  have sum_if: "(\<Sum>k<?n. w k * (if k = m then e else 0)) = w m * e" if "m < ?n" for m and w :: "nat \<Rightarrow> real"
    using that by (simp add: if_distrib [of "\<lambda>z. _ * z"] cong: if_cong)
  have weighted: "(\<Sum>k<?n. w k * y ! k) = (\<Sum>k<?n. w k * x ! k) + w i * e - w j * e" for w :: "nat \<Rightarrow> real"
  proof -
    have "(\<Sum>k<?n. w k * y ! k) =
        (\<Sum>k<?n. w k * x ! k + w k * (if k = i then e else 0) - w k * (if k = j then e else 0))"
      by (intro sum.cong) (auto simp: y algebra_simps)
    also have "\<dots> = (\<Sum>k<?n. w k * x ! k) + w i * e - w j * e"
      using i(1) j by (simp only: sum_subtractf sum.distrib sum_if)
    finally show ?thesis .
  qed
  have "lp_feasible (lp_program scs caps t) y"
    using lp_program_feasible [OF len] len_y f weighted [of "\<lambda>_. 1"] y e i
    by (auto simp: e_def)
  then have "dot (map uminus scs) x \<le> dot (map uminus scs) y"
    using opt by (simp add: lp_optimal_def lp_program_def)
  then have "(\<Sum>k<?n. (- scs ! k) * x ! k) \<le> (\<Sum>k<?n. (- scs ! k) * y ! k)"
    using len f(1) len_y by (simp add: dot_nth)
  then have "scs ! i * e \<le> scs ! j * e" using weighted [of "\<lambda>k. - scs ! k"] by simp
  with e low i show False by auto
qed

text \<open>
  The program \<open>solveLP\<close> poses bounds the variables from above only. When one candidate
  has the least score and the others together could deliver more than the request, the optimum
  runs all the others at capacity and the last one negative, so for a solver that returns the
  optimum (or its positive part, which the clamping makes the same) the strict dispatch reports
  \<open>ErrInfeasible\<close> although the request can be met.
\<close>

theorem lp_posed_optimum_rejected:
  fixes s :: "real FlexibilitySignal"
  assumes cs_def: "cs = lp_cands expf d vs s"
    and "PowerKW s \<noteq> 0" "distinct (map ID vs)"
    and "lpSolve (map cand_score cs) (map cand_capacity cs) \<bar>PowerKW s\<bar> = Inr sol"
    and "lp_optimal (lp_program (map cand_score cs) (map cand_capacity cs) \<bar>PowerKW s\<bar>) x"
    and "length cs \<le> length sol" "\<forall>i<length cs. sol ! i = x ! i \<or> sol ! i = max 0 (x ! i)"
    and "j < length cs" "\<forall>i<length cs. i \<noteq> j \<longrightarrow> cand_score (cs ! j) < cand_score (cs ! i)"
    and "\<bar>PowerKW s\<bar> + 1/1000 < (\<Sum>i\<in>{..<length cs} - {j}. cand_capacity (cs ! i))"
  shows "\<exists>asn. snd (DispatchStrict lpSolve expf d vs s) = StrictErr asn ErrInfeasible"
proof -
  let ?n = "length cs"
  let ?caps = "map cand_capacity cs"
  have pos: "0 < cand_capacity (cs ! i)" if "i < ?n" for i
    using lp_cand_capacity_le [of "cs ! i" expf d vs s] that by (simp add: cs_def)
  have vs: "vs \<noteq> []" "cs \<noteq> []" using assms(8) by (auto simp: cs_def lp_cands_def)
  have at_cap: "lp_clamp (cand_capacity (cs ! i)) (sol ! i) = cand_capacity (cs ! i)"
    if "i < ?n" "i \<noteq> j" for i
  proof -
    have "x ! i = ?caps ! i"
      by (rule posed_optimum [OF _ assms(5), of j]) (use assms(8,9) that in auto)
    then have "sol ! i = cand_capacity (cs ! i)" using assms(7) that pos [of i] by auto
    then show ?thesis using pos [of i] that by simp
  qed
  obtain asn acc where run: "lp_assign (request_sign s) (map (\<lambda>c. ID (cand_v c)) cs) ?caps sol Map.empty 0 = Some (asn, acc)"
    using lp_assign_returns [of "map (\<lambda>c. ID (cand_v c)) cs" ?caps "request_sign s" sol Map.empty 0] assms(6)
    by fastforce
  have dist: "distinct (map (\<lambda>c. ID (cand_v c)) cs)"
    unfolding cs_def by (rule lp_cands_distinct [OF assms(3)])
  have "acc = sum_list (map2 lp_clamp ?caps sol)"
    using lp_assign_result(2) [OF run dist] by simp
  also have "\<dots> = (\<Sum>i<?n. lp_clamp (cand_capacity (cs ! i)) (sol ! i))"
    using assms(6) by (simp add: sum_list_sum_nth lessThan_atLeast0)
  also have "\<dots> = lp_clamp (cand_capacity (cs ! j)) (sol ! j) +
      (\<Sum>i\<in>{..<?n} - {j}. lp_clamp (cand_capacity (cs ! i)) (sol ! i))"
    using assms(8) by (simp add: sum.remove [of "{..<?n}" j])
  also have "(\<Sum>i\<in>{..<?n} - {j}. lp_clamp (cand_capacity (cs ! i)) (sol ! i)) =
      (\<Sum>i\<in>{..<?n} - {j}. cand_capacity (cs ! i))"
    using at_cap by (intro sum.cong) auto
  finally have "\<bar>PowerKW s\<bar> + 1/1000 < acc"
    using assms(10) lp_clamp_bounds [of "cand_capacity (cs ! j)" "sol ! j"] pos [OF assms(8)] by linarith
  then have "1/1000 < \<bar>acc - \<bar>PowerKW s\<bar>\<bar>" by linarith
  with run assms(2,4) vs show ?thesis
    unfolding DispatchStrict_unfold by (simp add: Let_def cs_def)
qed

text \<open>Two vehicles of 20 kW that differ in the priority flag, and a request of 10 kW.\<close>

definition lp_test_fleet :: "real Vehicle list" where
  "lp_test_fleet =
     [zeroVehicle\<lparr>ID := ''a'', SoC := 4/5, MaxPower := 20, BatteryKWh := 50, Priority := True\<rparr>,
      zeroVehicle\<lparr>ID := ''b'', SoC := 4/5, MaxPower := 20, BatteryKWh := 50\<rparr>]"

definition lp_test_signal :: "real FlexibilitySignal" where
  "lp_test_signal = \<lparr>SigType = SignalAFRR, PowerKW = 10, SigDuration = 0, Timestamp = timeZero\<rparr>"

lemma lp_test_fleet_cands:
  "lp_cands exp NewLPDispatcher lp_test_fleet lp_test_signal =
     [\<lparr>cand_v = lp_test_fleet ! 0, cand_score = 1/2, cand_capacity = 20\<rparr>,
      \<lparr>cand_v = lp_test_fleet ! 1, cand_score = 2/5, cand_capacity = 20\<rparr>]"
  by (simp add: lp_cands_def lp_test_fleet_def lp_test_signal_def NewLPDispatcher_def
      NewSmartDispatcher_def smart_ctx_def vehicleScore_def weightsForSignal_def Let_def timeSub_def
      timeZero_def GetParticipation_def zeroVehicle_def availableEnergyAndCapacity_def)

lemma lp_test_optimal: "lp_optimal (lp_program [1/2, 2/5] [20, 20] 10) [20, - 10]"
proof -
  have len: "length [1/2, 2/5 :: real] = length [20, 20 :: real]" by simp
  have "dot [- 1/2, - 2/5] [20, - 10] \<le> dot [- 1/2, - 2/5] y"
    if "lp_feasible (lp_program [1/2, 2/5] [20, 20] 10) y" for y
  proof -
    have "length y = 2" using that lp_program_feasible [OF len, of 10 y] by simp
    then obtain a b where y: "y = [a, b]" by (auto simp: length_Suc_conv numeral_2_eq_2)
    have "a \<le> 20" "a + b = 10"
      using that lp_program_feasible [OF len, of 10 y] y by (auto simp: numeral_2_eq_2)
    then show ?thesis by (simp add: dot_def y)
  qed
  moreover have "lp_feasible (lp_program [1/2, 2/5] [20, 20] 10) [20, - 10]"
    using lp_program_feasible [OF len, of 10 "[20, - 10]"] by (auto simp: numeral_2_eq_2 less_Suc_eq)
  ultimately show ?thesis by (simp add: lp_optimal_def lp_program_def)
qed

theorem lp_posed_optimum_rejected_witness:
  "\<exists>asn. snd (DispatchStrict (\<lambda>_ _ _. Inr [20, - 10]) exp NewLPDispatcher lp_test_fleet lp_test_signal)
     = StrictErr asn ErrInfeasible"
proof (rule lp_posed_optimum_rejected [where x = "[20, - 10]" and j = 1 and sol = "[20, - 10]",
      OF lp_test_fleet_cands [symmetric]])
  show "distinct (map ID lp_test_fleet)" by (simp add: lp_test_fleet_def)
qed (use lp_test_optimal in \<open>auto simp: lp_test_signal_def less_Suc_eq numeral_2_eq_2 lessThan_Suc\<close>)

end
