(* ===== verification/Segmented_Dispatcher.thy ===== *)
theory Segmented_Dispatcher
  imports LP_Dispatcher
begin

text \<open>
  \<open>SegmentedSmartDispatcher\<close> (\<open>core/dispatch/segmented_dispatcher.go\<close>): the fleet is split by
  segment, the request is divided evenly between the segments, and each segment runs its own
  configured dispatcher. The two range loops over Go maps take their iteration order as an
  argument: \<open>word\<close> for the weights of a configuration, \<open>segs\<close> for the groups.
\<close>

record 'n SegmentConfig =
  Weights :: "string \<rightharpoonup> 'n"
  DispatcherType :: string
  SegFallback :: bool

definition zeroSegmentConfig :: "'n SegmentConfig" where
  "zeroSegmentConfig = \<lparr>Weights = Map.empty, DispatcherType = [], SegFallback = False\<rparr>"

definition DefaultSegmentConfigs :: "string \<rightharpoonup> ('n::{zero,one,plus,inverse}) SegmentConfig" where
  "DefaultSegmentConfigs =
     [''commuter'' \<mapsto>
        \<lparr>Weights = [''soc'' \<mapsto> lit 6 10, ''time'' \<mapsto> lit 3 10, ''priority'' \<mapsto> lit 1 10],
         DispatcherType = ''heuristic'', SegFallback = False\<rparr>,
      ''captive_fleet'' \<mapsto>
        \<lparr>Weights = [''soc'' \<mapsto> lit 4 10, ''time'' \<mapsto> lit 2 10, ''availability'' \<mapsto> lit 4 10],
         DispatcherType = ''lp'', SegFallback = True\<rparr>,
      ''opportunistic_charger'' \<mapsto>
        \<lparr>Weights = [''soc'' \<mapsto> lit 2 10, ''time'' \<mapsto> lit 1 10, ''price'' \<mapsto> lit 4 10,
                    ''availability'' \<mapsto> lit 2 10, ''wear'' \<mapsto> lit 1 10],
         DispatcherType = ''heuristic'', SegFallback = True\<rparr>]"

text \<open>The copy loop yields an equal map; \<^term>\<open>None\<close> is the nil map.\<close>

definition NewSegmentedSmartDispatcher ::
  "(string \<rightharpoonup> 'n SegmentConfig) option \<Rightarrow> (string \<rightharpoonup> ('n::{zero,one,plus,inverse}) SegmentConfig)" where
  "NewSegmentedSmartDispatcher cfg = (case cfg of None \<Rightarrow> DefaultSegmentConfigs | Some c \<Rightarrow> c)"

definition applyWeight :: "'n SmartDispatcher \<Rightarrow> string \<Rightarrow> 'n \<Rightarrow> 'n SmartDispatcher" where
  "applyWeight d k v =
     (if k = ''soc'' then d\<lparr>SocWeight := v\<rparr>
      else if k = ''time'' then d\<lparr>TimeWeight := v\<rparr>
      else if k = ''priority'' then d\<lparr>PriorityWeight := v\<rparr>
      else if k = ''price'' then d\<lparr>PriceWeight := v\<rparr>
      else if k = ''wear'' then d\<lparr>WearWeight := v\<rparr>
      else if k = ''fairness'' then d\<lparr>FairnessWeight := v\<rparr>
      else if k = ''availability'' then d\<lparr>AvailabilityWeight := v\<rparr>
      else if k = ''market_price'' then d\<lparr>MarketPrice := v\<rparr>
      else d)"

definition applyWeights ::
  "string list \<Rightarrow> 'n::zero SmartDispatcher \<Rightarrow> (string \<rightharpoonup> 'n) \<Rightarrow> 'n SmartDispatcher" where
  "applyWeights ks d w = foldl (\<lambda>d k. applyWeight d k (getd 0 w k)) d ks"

definition dispatchSegment ::
  "('n list \<Rightarrow> 'n list \<Rightarrow> 'n \<Rightarrow> go_error + 'n list) \<Rightarrow> ('n \<Rightarrow> 'n)
    \<Rightarrow> ((string \<rightharpoonup> 'n::{zero,one,plus,minus,uminus,times,inverse,ord}) \<Rightarrow> string list)
    \<Rightarrow> 'n Vehicle list \<Rightarrow> 'n FlexibilitySignal \<Rightarrow> 'n SegmentConfig \<Rightarrow> (string \<rightharpoonup> 'n) option" where
  "dispatchSegment lpSolve expf word vs s cfg =
     (let sd = applyWeights (word (Weights cfg)) NewSmartDispatcher (Weights cfg) in
      if DispatcherType cfg = ''lp''
      then (if SegFallback cfg
            then (case snd (DispatchStrict lpSolve expf sd vs s) of
                    StrictPanic \<Rightarrow> None
                  | StrictErr asn err \<Rightarrow> map_option snd (SmartDispatcher_Dispatch expf sd vs s)
                  | StrictOk asn \<Rightarrow> Some asn)
            else map_option snd (LPDispatcher_Dispatch lpSolve expf sd vs s))
      else map_option snd (SmartDispatcher_Dispatch expf sd vs s))"

definition segment_groups :: "'n Vehicle list \<Rightarrow> (string \<rightharpoonup> 'n Vehicle list)" where
  "segment_groups vs =
     foldl (\<lambda>m v. m(Segment v \<mapsto> getd [] m (Segment v) @ [v])) Map.empty vs"

text \<open>The loop over the groups; writing the entries of a segment's map is \<open>++\<close>.\<close>

fun segment_loop ::
  "(string \<Rightarrow> (string \<rightharpoonup> 'n) option) \<Rightarrow> string list \<Rightarrow> (string \<rightharpoonup> 'n) \<Rightarrow> (string \<rightharpoonup> 'n) option" where
  "segment_loop run [] asn = Some asn"
| "segment_loop run (seg # segs) asn =
     (case run seg of None \<Rightarrow> None | Some res \<Rightarrow> segment_loop run segs (asn ++ res))"

definition Segmented_Dispatch ::
  "('n list \<Rightarrow> 'n list \<Rightarrow> 'n \<Rightarrow> go_error + 'n list) \<Rightarrow> ('n \<Rightarrow> 'n)
    \<Rightarrow> ((string \<rightharpoonup> 'n::{zero,one,plus,minus,uminus,times,inverse,ord}) \<Rightarrow> string list)
    \<Rightarrow> string list \<Rightarrow> (string \<rightharpoonup> 'n SegmentConfig) \<Rightarrow> 'n Vehicle list \<Rightarrow> 'n FlexibilitySignal
    \<Rightarrow> (string \<rightharpoonup> 'n) option" where
  "Segmented_Dispatch lpSolve expf word segs segments vs s =
     (if vs = [] then Some Map.empty
      else let groups = segment_groups vs;
               share = PowerKW s / num (length (remdups (map Segment vs))) in
           segment_loop
             (\<lambda>seg. dispatchSegment lpSolve expf word (getd [] groups seg) (s\<lparr>PowerKW := share\<rparr>)
                      (getd zeroSegmentConfig segments seg))
             segs Map.empty)"

subsection \<open>Weights\<close>

lemma applyWeight_sel:
  "SocWeight (applyWeight d k x) = (if k = ''soc'' then x else SocWeight d)"
  "TimeWeight (applyWeight d k x) = (if k = ''time'' then x else TimeWeight d)"
  "PriorityWeight (applyWeight d k x) = (if k = ''priority'' then x else PriorityWeight d)"
  "PriceWeight (applyWeight d k x) = (if k = ''price'' then x else PriceWeight d)"
  "WearWeight (applyWeight d k x) = (if k = ''wear'' then x else WearWeight d)"
  "FairnessWeight (applyWeight d k x) = (if k = ''fairness'' then x else FairnessWeight d)"
  "AvailabilityWeight (applyWeight d k x) = (if k = ''availability'' then x else AvailabilityWeight d)"
  "MarketPrice (applyWeight d k x) = (if k = ''market_price'' then x else MarketPrice d)"
  "Participation (applyWeight d k x) = Participation d"
  "scores (applyWeight d k x) = scores d"
  by (simp_all add: applyWeight_def)

lemma applyWeight_keeps [simp]:
  "MaxRounds (applyWeight d k x) = MaxRounds d"
  "EnableSoCConstraints (applyWeight d k x) = EnableSoCConstraints d"
  "FleetMinSoC (applyWeight d k x) = FleetMinSoC d"
  "SafeDischargeFloor (applyWeight d k x) = SafeDischargeFloor d"
  by (simp_all add: applyWeight_def)

lemma applyWeights_keeps [simp]:
  "MaxRounds (applyWeights ks d w) = MaxRounds d"
  "EnableSoCConstraints (applyWeights ks d w) = EnableSoCConstraints d"
  "FleetMinSoC (applyWeights ks d w) = FleetMinSoC d"
  "SafeDischargeFloor (applyWeights ks d w) = SafeDischargeFloor d"
  unfolding applyWeights_def by (induction ks arbitrary: d) simp_all

lemma applyWeight_commute:
  "k \<noteq> l \<Longrightarrow> applyWeight (applyWeight d k x) l y = applyWeight (applyWeight d l y) k x"
  by (rule SmartDispatcher.equality) (auto simp: applyWeight_sel)

text \<open>The weights of a configuration do not depend on the order in which they are read.\<close>

lemma applyWeights_front:
  "distinct (xs @ k # ys) \<Longrightarrow> applyWeights (xs @ k # ys) d w = applyWeights (k # xs @ ys) d w"
proof (induction xs arbitrary: d)
  case (Cons x xs)
  then show ?case by (simp add: applyWeights_def applyWeight_commute [of x k])
qed simp

lemma applyWeights_perm:
  assumes "distinct ks" "distinct ls" "set ks = set ls"
  shows "applyWeights ks d w = applyWeights ls d w"
  using assms
proof (induction ks arbitrary: ls d)
  case (Cons k ks)
  obtain xs ys where ls: "ls = xs @ k # ys" using Cons.prems(3) by (metis list.set_intros(1) split_list)
  have "set ks = set (xs @ ys)" using Cons.prems ls by auto
  then have "applyWeights ks (applyWeight d k (getd 0 w k)) w = applyWeights (xs @ ys) (applyWeight d k (getd 0 w k)) w"
    using Cons ls by auto
  moreover have "applyWeights ls d w = applyWeights (k # xs @ ys) d w"
    using applyWeights_front Cons.prems(2) ls by metis
  ultimately show ?case by (simp add: applyWeights_def)
qed simp

subsection \<open>Groups\<close>

lemma segment_groups_apply:
  "segment_groups vs seg =
     (let g = filter (\<lambda>v. Segment v = seg) vs in if g = [] then None else Some g)"
proof -
  have "foldl (\<lambda>m v. m(Segment v \<mapsto> getd [] m (Segment v) @ [v])) m vs seg =
      (let g = getd [] m seg @ filter (\<lambda>v. Segment v = seg) vs in
       if filter (\<lambda>v. Segment v = seg) vs = [] then m seg else Some g)" for m
    by (induction vs arbitrary: m) (auto simp: Let_def)
  then show ?thesis by (simp add: segment_groups_def Let_def)
qed

lemma segment_groups_dom: "dom (segment_groups vs) = Segment ` set vs"
  by (auto simp: dom_def segment_groups_apply Let_def filter_empty_conv)

lemma segment_groups_get: "getd [] (segment_groups vs) seg = filter (\<lambda>v. Segment v = seg) vs"
  by (simp add: getd_def segment_groups_apply Let_def)

subsection \<open>The configured fallback\<close>

lemma vehicleScore_scores [simp]: "vehicleScore expf (d\<lparr>scores := m\<rparr>) = vehicleScore expf d"
  by (intro ext) (simp add: vehicleScore_def weightsForSignal_def)

lemma soc_eligible_scores [simp]: "soc_eligible (d\<lparr>scores := m\<rparr>) s n v = soc_eligible d s n v"
  by (simp add: soc_eligible_def)

lemma buildCandidates_scores [simp]:
  "fst (buildCandidates expf (d\<lparr>scores := m\<rparr>) vs s ctx) = fst (buildCandidates expf d vs s ctx)"
  by (simp add: buildCandidates_def case_prod_unfold filterBySoC_eq)

lemma SmartDispatcher_Dispatch_scores:
  "map_option snd (SmartDispatcher_Dispatch expf (d\<lparr>scores := m\<rparr>) vs s) =
   map_option snd (SmartDispatcher_Dispatch expf d vs s)"
  by (simp add: SmartDispatcher_Dispatch_def Let_def option.map_comp comp_def)

text \<open>
  The \<open>fallback\<close> flag of a segment configuration has no effect on the assignments: without
  it the segment runs \<open>LPDispatcher.Dispatch\<close>, which falls back to the same greedy dispatcher
  in the same cases.
\<close>

theorem segment_fallback_flag_irrelevant:
  fixes s :: "real FlexibilitySignal"
  shows "dispatchSegment lpSolve expf word vs s (cfg\<lparr>SegFallback := True\<rparr>) =
         dispatchSegment lpSolve expf word vs s (cfg\<lparr>SegFallback := False\<rparr>)"
proof -
  let ?sd = "applyWeights (word (Weights cfg)) NewSmartDispatcher (Weights cfg)"
  obtain d1 r where r: "DispatchStrict lpSolve expf ?sd vs s = (d1, r)" by fastforce
  obtain m where d1: "d1 = ?sd\<lparr>scores := m\<rparr>"
    using DispatchStrict_state [of lpSolve expf ?sd vs s] r by auto
  have "map_option snd (SmartDispatcher_Dispatch expf d1 vs s) =
      map_option snd (SmartDispatcher_Dispatch expf ?sd vs s)"
    unfolding d1 by (rule SmartDispatcher_Dispatch_scores)
  then show ?thesis
    using r
    by (cases r) (auto simp: dispatchSegment_def LPDispatcher_Dispatch_def Let_def option.map_comp
        comp_def case_prod_unfold)
qed

subsection \<open>Every segment on its own\<close>

lemma segment_loop_None:
  "segment_loop run segs asn = None \<longleftrightarrow> (\<exists>seg\<in>set segs. run seg = None)"
  by (induction segs arbitrary: asn) (auto split: option.splits)

lemma segment_loop_apply:
  assumes "segment_loop run segs asn = Some out" "distinct segs"
    and "\<And>seg res i. run seg = Some res \<Longrightarrow> i \<in> dom res \<Longrightarrow> own i = seg"
  shows "out i = (if own i \<in> set segs \<and> the (run (own i)) i \<noteq> None
                  then the (run (own i)) i else asn i)"
  using assms(1,2)
proof (induction segs arbitrary: asn)
  case (Cons seg segs)
  obtain res where res: "run seg = Some res" and rest: "segment_loop run segs (asn ++ res) = Some out"
    using Cons.prems(1) by (auto split: option.splits)
  have ih: "out i = (if own i \<in> set segs \<and> the (run (own i)) i \<noteq> None
                  then the (run (own i)) i else (asn ++ res) i)"
    using Cons.IH [OF rest] Cons.prems(2) by simp
  show ?case
  proof (cases "res i")
    case None
    then have "(asn ++ res) i = asn i" by (simp add: map_add_def)
    with ih None res show ?thesis by auto
  next
    case (Some p)
    then have "own i = seg" using assms(3) [OF res] by auto
    with ih Some res Cons.prems(2) show ?thesis by auto
  qed
qed simp

lemma dispatchSegment_cases:
  fixes s :: "real FlexibilitySignal"
  assumes "dispatchSegment lpSolve expf word vs s cfg = Some res"
  shows "(\<exists>d d'. EnableSoCConstraints d \<and> SmartDispatcher_Dispatch expf d vs s = Some (d', res)) \<or>
    (\<exists>d d'. DispatchStrict lpSolve expf d vs s = (d', StrictOk res))"
proof -
  let ?sd = "applyWeights (word (Weights cfg)) NewSmartDispatcher (Weights cfg)"
  have e: "EnableSoCConstraints ?sd" by (simp add: NewSmartDispatcher_def)
  obtain d1 r where r: "DispatchStrict lpSolve expf ?sd vs s = (d1, r)" by fastforce
  obtain m where "d1 = ?sd\<lparr>scores := m\<rparr>"
    using DispatchStrict_state [of lpSolve expf ?sd vs s] r by auto
  then have e1: "EnableSoCConstraints d1" using e by simp
  from assms r have "(\<exists>d'. SmartDispatcher_Dispatch expf ?sd vs s = Some (d', res)) \<or>
      (\<exists>d'. SmartDispatcher_Dispatch expf d1 vs s = Some (d', res)) \<or> r = StrictOk res"
    by (cases r) (auto simp: dispatchSegment_def LPDispatcher_Dispatch_def Let_def split: if_splits)
  with e e1 r show ?thesis by blast
qed

lemma dispatchSegment_limits:
  fixes s :: "real FlexibilitySignal"
  assumes "dispatchSegment lpSolve expf word vs s cfg = Some res" "distinct (map ID vs)"
    "res i = Some p" "p \<noteq> 0"
  shows "0 \<le> request_sign s * p \<and> (\<exists>v\<in>set vs. ID v = i \<and> \<bar>p\<bar> \<le> MaxPower v)"
  using dispatchSegment_cases [OF assms(1)]
proof
  assume "\<exists>d d'. EnableSoCConstraints d \<and> SmartDispatcher_Dispatch expf d vs s = Some (d', res)"
  then obtain d d' where r: "SmartDispatcher_Dispatch expf d vs s = Some (d', res)" by blast
  from smart_dispatch_capacity(1) [OF r assms(2,3)] smart_dispatch_within [OF r assms(2-4)]
  show ?thesis by blast
next
  assume "\<exists>d d'. DispatchStrict lpSolve expf d vs s = (d', StrictOk res)"
  then obtain d d' where r: "DispatchStrict lpSolve expf d vs s = (d', StrictOk res)" by blast
  from strict_ok_limits [OF r assms(2,3)] show ?thesis by blast
qed

lemma dispatchSegment_dom:
  fixes s :: "real FlexibilitySignal"
  assumes "dispatchSegment lpSolve expf word vs s cfg = Some res" "distinct (map ID vs)"
  shows "dom res \<subseteq> ID ` set vs"
  using dispatchSegment_cases [OF assms(1)]
proof
  assume "\<exists>d d'. EnableSoCConstraints d \<and> SmartDispatcher_Dispatch expf d vs s = Some (d', res)"
  then obtain d d' where r: "SmartDispatcher_Dispatch expf d vs s = Some (d', res)" by blast
  then show ?thesis using smart.dispatch_dom [of expf d vs s] by (simp add: smart_assign_def)
next
  assume "\<exists>d d'. DispatchStrict lpSolve expf d vs s = (d', StrictOk res)"
  then obtain d d' where r: "DispatchStrict lpSolve expf d vs s = (d', StrictOk res)" by blast
  show ?thesis
  proof
    fix i assume "i \<in> dom res"
    then obtain p where "res i = Some p" by blast
    from strict_ok_limits [OF r assms(2) this] show "i \<in> ID ` set vs" by blast
  qed
qed

lemma dispatchSegment_returns:
  fixes s :: "real FlexibilitySignal"
  assumes "\<And>scs caps t sol. lpSolve scs caps t = Inr sol \<Longrightarrow> length caps \<le> length sol"
  shows "dispatchSegment lpSolve expf word vs s cfg \<noteq> None"
proof -
  let ?sd = "applyWeights (word (Weights cfg)) NewSmartDispatcher (Weights cfg)"
  have mr: "MaxRounds ?sd \<noteq> 0" by (simp add: NewSmartDispatcher_def)
  obtain d1 r where r: "DispatchStrict lpSolve expf ?sd vs s = (d1, r)" by fastforce
  obtain m where "d1 = ?sd\<lparr>scores := m\<rparr>"
    using DispatchStrict_state [of lpSolve expf ?sd vs s] r by auto
  then have "MaxRounds d1 \<noteq> 0" using mr by simp
  from smart_dispatch_defined [OF this, of expf vs s] smart_dispatch_defined [OF mr, of expf vs s]
    strict_no_panic [of lpSolve expf ?sd vs s, OF assms] r
  show ?thesis
    by (cases r) (auto simp: dispatchSegment_def LPDispatcher_Dispatch_def Let_def)
qed

subsection \<open>The segmented dispatch\<close>

text \<open>The part of the request every segment is asked for, and what segment \<open>seg\<close> makes of it.\<close>

definition segment_part :: "real Vehicle list \<Rightarrow> real FlexibilitySignal \<Rightarrow> real FlexibilitySignal" where
  "segment_part vs s = s\<lparr>PowerKW := PowerKW s / real (card (Segment ` set vs))\<rparr>"

definition segment_run ::
  "(real list \<Rightarrow> real list \<Rightarrow> real \<Rightarrow> go_error + real list) \<Rightarrow> (real \<Rightarrow> real) \<Rightarrow> ((string \<rightharpoonup> real) \<Rightarrow> string list)
    \<Rightarrow> (string \<rightharpoonup> real SegmentConfig) \<Rightarrow> real Vehicle list \<Rightarrow> real FlexibilitySignal \<Rightarrow> string
    \<Rightarrow> (string \<rightharpoonup> real) option" where
  "segment_run lpSolve expf word segments vs s seg =
     dispatchSegment lpSolve expf word (filter (\<lambda>v. Segment v = seg) vs) (segment_part vs s)
       (getd zeroSegmentConfig segments seg)"

lemma Segmented_Dispatch_loop:
  "Segmented_Dispatch lpSolve expf word segs segments vs s =
     (if vs = [] then Some Map.empty
      else segment_loop (segment_run lpSolve expf word segments vs s) segs Map.empty)"
proof -
  have "length (remdups (map Segment vs)) = card (Segment ` set vs)"
    by (metis length_remdups_card_conv set_map)
  then show ?thesis
    by (simp add: Segmented_Dispatch_def segment_run_def [abs_def] segment_part_def segment_groups_get Let_def)
qed

definition owner_segment :: "real Vehicle list \<Rightarrow> string \<Rightarrow> string" where
  "owner_segment vs i = (case find (\<lambda>v. ID v = i) vs of None \<Rightarrow> [] | Some v \<Rightarrow> Segment v)"

lemma owner_segment_mem:
  assumes "distinct (map ID vs)" "v \<in> set vs"
  shows "owner_segment vs (ID v) = Segment v"
proof -
  have "find (\<lambda>u. ID u = ID v) vs = Some v" using assms by (induction vs) (auto simp: image_iff)
  then show ?thesis by (simp add: owner_segment_def)
qed

lemma segment_run_own:
  assumes "distinct (map ID vs)" "segment_run lpSolve expf word segments vs s seg = Some res" "i \<in> dom res"
  shows "owner_segment vs i = seg"
proof -
  have "dom res \<subseteq> ID ` set (filter (\<lambda>v. Segment v = seg) vs)"
    using assms(2) unfolding segment_run_def
    by (rule dispatchSegment_dom) (use assms(1) in \<open>simp add: distinct_map_filter\<close>)
  with assms(3) obtain v where "v \<in> set vs" "ID v = i" "Segment v = seg" by auto
  with owner_segment_mem [OF assms(1)] show ?thesis by blast
qed

lemma segmented_value:
  assumes "Segmented_Dispatch lpSolve expf word segs segments vs s = Some out" "distinct (map ID vs)"
    "ranges segs (segment_groups vs)" "vs \<noteq> []"
  shows "out i = (if owner_segment vs i \<in> set segs
    then the (segment_run lpSolve expf word segments vs s (owner_segment vs i)) i else None)"
proof -
  have run: "segment_loop (segment_run lpSolve expf word segments vs s) segs Map.empty = Some out"
    using assms(1,4) by (simp add: Segmented_Dispatch_loop)
  have "out i = (if owner_segment vs i \<in> set segs \<and>
        the (segment_run lpSolve expf word segments vs s (owner_segment vs i)) i \<noteq> None
      then the (segment_run lpSolve expf word segments vs s (owner_segment vs i)) i else Map.empty i)"
    by (rule segment_loop_apply [OF run])
      (use assms(3) segment_run_own [OF assms(2)] in \<open>auto simp: ranges_def\<close>)
  then show ?thesis by auto
qed

text \<open>
  C14. The request is divided by the number of segments, and every vehicle gets exactly what the
  dispatcher of its own segment assigns to it; with a solver that answers a vector with an entry
  per candidate the dispatch always returns. \<open>segs\<close> is any order of the segments.
\<close>

theorem segmented_dispatch_by_segment:
  fixes s :: "real FlexibilitySignal"
  assumes "\<And>scs caps t sol. lpSolve scs caps t = Inr sol \<Longrightarrow> length caps \<le> length sol"
    and "distinct (map ID vs)" "ranges segs (segment_groups vs)" "v \<in> set vs"
  shows "\<exists>out res. Segmented_Dispatch lpSolve expf word segs segments vs s = Some out \<and>
    dispatchSegment lpSolve expf word (filter (\<lambda>u. Segment u = Segment v) vs) (segment_part vs s)
      (getd zeroSegmentConfig segments (Segment v)) = Some res \<and> out (ID v) = res (ID v)"
proof -
  have ne: "vs \<noteq> []" using assms(4) by auto
  have defined: "segment_run lpSolve expf word segments vs s seg \<noteq> None" for seg
    unfolding segment_run_def using assms(1) by (rule dispatchSegment_returns)
  have "segment_loop (segment_run lpSolve expf word segments vs s) segs Map.empty \<noteq> None"
    unfolding segment_loop_None using defined by blast
  then obtain out where out: "Segmented_Dispatch lpSolve expf word segs segments vs s = Some out"
    using ne by (auto simp: Segmented_Dispatch_loop)
  obtain res where res: "segment_run lpSolve expf word segments vs s (Segment v) = Some res"
    using defined by blast
  have "Segment v \<in> set segs" using assms(3,4) by (simp add: ranges_def segment_groups_dom)
  then have "out (ID v) = res (ID v)"
    using segmented_value [OF out assms(2,3) ne, of "ID v"] owner_segment_mem [OF assms(2,4)] res by simp
  with out res show ?thesis by (auto simp: segment_run_def)
qed

definition seg_test_fleet :: "real Vehicle list" where
  "seg_test_fleet =
     [zeroVehicle\<lparr>ID := ''a'', Segment := ''commuter'', SoC := 4/5, MaxPower := 20, BatteryKWh := 50\<rparr>,
      zeroVehicle\<lparr>ID := ''b'', Segment := ''captive_fleet'', SoC := 4/5, MaxPower := 20, BatteryKWh := 50\<rparr>]"

lemma seg_test_ranges:
  "ranges [''commuter'', ''captive_fleet''] (segment_groups seg_test_fleet)"
  "ranges [''captive_fleet'', ''commuter''] (segment_groups seg_test_fleet)"
  by (auto simp: ranges_def segment_groups_dom seg_test_fleet_def)

theorem segmented_dispatch_by_segment_witness:
  "\<exists>out res. Segmented_Dispatch (\<lambda>_ caps _. Inr caps) exp (\<lambda>_. []) [''commuter'', ''captive_fleet'']
      DefaultSegmentConfigs seg_test_fleet lp_test_signal = Some out \<and>
    dispatchSegment (\<lambda>_ caps _. Inr caps) exp (\<lambda>_. [])
      (filter (\<lambda>u. Segment u = Segment (hd seg_test_fleet)) seg_test_fleet)
      (segment_part seg_test_fleet lp_test_signal)
      (getd zeroSegmentConfig DefaultSegmentConfigs (Segment (hd seg_test_fleet))) = Some res \<and>
    out (ID (hd seg_test_fleet)) = res (ID (hd seg_test_fleet))"
  by (rule segmented_dispatch_by_segment [OF _ _ seg_test_ranges(1)])
    (auto simp: seg_test_fleet_def)

text \<open>
  The result does not depend on the order in which the runtime ranges over the groups, and
  neither does whether the dispatch returns.
\<close>

theorem segmented_dispatch_order_independent:
  fixes s :: "real FlexibilitySignal"
  assumes "distinct (map ID vs)" "ranges segs (segment_groups vs)" "ranges segs' (segment_groups vs)"
  shows "Segmented_Dispatch lpSolve expf word segs segments vs s =
         Segmented_Dispatch lpSolve expf word segs' segments vs s"
proof (cases "vs = []")
  case False
  have seteq: "set segs = set segs'" using assms(2,3) by (simp add: ranges_def)
  show ?thesis
  proof (cases "Segmented_Dispatch lpSolve expf word segs segments vs s")
    case None
    then have "Segmented_Dispatch lpSolve expf word segs' segments vs s = None"
      using False seteq by (simp add: Segmented_Dispatch_loop segment_loop_None)
    with None show ?thesis by simp
  next
    case (Some out)
    have "Segmented_Dispatch lpSolve expf word segs' segments vs s \<noteq> None"
      using Some False seteq by (metis Segmented_Dispatch_loop option.distinct(1) segment_loop_None)
    then obtain out' where o': "Segmented_Dispatch lpSolve expf word segs' segments vs s = Some out'"
      by blast
    have "out = out'"
      by (rule ext) (simp only: segmented_value [OF Some assms(1,2) False]
          segmented_value [OF o' assms(1,3) False] seteq)
    with Some o' show ?thesis by simp
  qed
qed (simp add: Segmented_Dispatch_loop)

theorem segmented_dispatch_order_independent_witness:
  "Segmented_Dispatch (\<lambda>_ caps _. Inr caps) exp (\<lambda>_. []) [''commuter'', ''captive_fleet'']
     DefaultSegmentConfigs seg_test_fleet lp_test_signal =
   Segmented_Dispatch (\<lambda>_ caps _. Inr caps) exp (\<lambda>_. []) [''captive_fleet'', ''commuter'']
     DefaultSegmentConfigs seg_test_fleet lp_test_signal"
  by (rule segmented_dispatch_order_independent [OF _ seg_test_ranges]) (simp add: seg_test_fleet_def)

end
