(* ===== verification/Configuration.thy ===== *)
theory Configuration
  imports Go_Text Go_Time Segmented_Dispatcher
begin

text \<open>
  The configuration of the service, package \<open>config\<close> with the sections of \<open>core/dispatch\<close>,
  \<open>core/metrics\<close> and \<open>infra/mqtt\<close>: the records, their defaults and validations, and \<open>Load\<close>. Reading
  and merging a file and the environment (koanf) is the argument \<open>read\<close> of \<open>Load\<close>: it gets the
  chosen format and the path, and answers the decoded record or an error.
\<close>

subsection \<open>Logging (config/logging.go)\<close>

record LoggingConfig =
  Backend :: string
  LogPath :: string
  MaxSizeMB :: int
  MaxBackups :: int
  MaxAgeDays :: int

definition Logging_SetDefaults :: "LoggingConfig \<Rightarrow> LoggingConfig" where
  "Logging_SetDefaults c =
     (let c1 = (if Backend c = [] then c\<lparr>Backend := ''jsonl''\<rparr> else c)
      in if LogPath c1 = [] then c1\<lparr>LogPath := ''dispatch.log''\<rparr> else c1)"

definition Logging_Validate :: "LoggingConfig \<Rightarrow> go_error option" where
  "Logging_Validate c =
     (if Backend c \<noteq> ''jsonl'' \<and> Backend c \<noteq> ''sqlite'' then Some (Errorf (''unknown backend '' @ Backend c))
      else if LogPath c = [] then Some (Errorf ''path is required'')
      else None)"

subsection \<open>RTE connector (config/rte.go)\<close>

record RTEClientConfig =
  APIURL :: string
  ClientID :: string
  ClientSecret :: string
  TokenURL :: string
  PollIntervalSeconds :: int

record RTEConfig =
  RteMode :: string
  RteClient :: RTEClientConfig
  MockAddress :: string

definition RTE_SetDefaults :: "RTEConfig \<Rightarrow> RTEConfig" where
  "RTE_SetDefaults c =
     (if RteMode c = ''client'' \<and> PollIntervalSeconds (RteClient c) \<le> 0
      then c\<lparr>RteClient := (RteClient c)\<lparr>PollIntervalSeconds := 60\<rparr>\<rparr> else c)"

definition RTE_Validate :: "RTEConfig \<Rightarrow> go_error option" where
  "RTE_Validate c =
     (if RteMode c = ''mock''
      then (if MockAddress c = [] then Some (Errorf ''mock.address is required'') else None)
      else if RteMode c = ''client''
      then (let cl = RteClient c in
            if APIURL cl = [] then Some (Errorf ''client.api_url is required'')
            else if ClientID cl = [] \<or> ClientSecret cl = [] then Some (Errorf ''client credentials are required'')
            else if TokenURL cl = [] then Some (Errorf ''client.token_url is required'')
            else if PollIntervalSeconds cl \<le> 0
            then Some (Errorf ''client.poll_interval_seconds must be greater than 0'')
            else None)
      else Some (Errorf (''unknown mode '' @ RteMode c)))"

subsection \<open>RTE generator (config/rte_generator.go)\<close>

record 'n RTEGeneratorConfig =
  Enabled :: bool
  GenMode :: string
  HTTPEndpoint :: string
  Scenario :: string
  MinIntervalSeconds :: int
  MaxIntervalSeconds :: int
  MinDurationSeconds :: int
  MaxDurationSeconds :: int
  MinPowerKW :: 'n
  MaxPowerKW :: 'n
  SignalTypes :: "string list"
  JitterPct :: 'n
  Seed :: int
  TimeZone :: string

text \<open>\<open>localName\<close> is \<open>time.Local.String()\<close>.\<close>

definition Generator_SetDefaults ::
  "string \<Rightarrow> 'n::{zero,one,plus,inverse,ord} RTEGeneratorConfig \<Rightarrow> 'n RTEGeneratorConfig" where
  "Generator_SetDefaults localName c =
     c\<lparr>MinIntervalSeconds := (if MinIntervalSeconds c \<le> 0 then 120 else MinIntervalSeconds c),
       MaxIntervalSeconds := (if MaxIntervalSeconds c \<le> 0 then 300 else MaxIntervalSeconds c),
       MinDurationSeconds := (if MinDurationSeconds c \<le> 0 then 120 else MinDurationSeconds c),
       MaxDurationSeconds := (if MaxDurationSeconds c \<le> 0 then 600 else MaxDurationSeconds c),
       MinPowerKW := (if feq (MinPowerKW c) 0 then lit 5 1 else MinPowerKW c),
       MaxPowerKW := (if feq (MaxPowerKW c) 0 then lit 25 1 else MaxPowerKW c),
       JitterPct := (if feq (JitterPct c) 0 then lit 15 100 else JitterPct c),
       Scenario := (if Scenario c = [] then ''steady'' else Scenario c),
       GenMode := (if GenMode c = [] then ''internal'' else GenMode c),
       SignalTypes := (if SignalTypes c = [] then [''FCR''] else SignalTypes c),
       TimeZone := (if TimeZone c = [] then localName else TimeZone c)\<rparr>"

definition Generator_Validate :: "'n::ord RTEGeneratorConfig \<Rightarrow> go_error option" where
  "Generator_Validate c =
     (if MinIntervalSeconds c < 0 \<or> MaxIntervalSeconds c < 0
      then Some (Errorf ''interval seconds must be positive'')
      else if MaxIntervalSeconds c < MinIntervalSeconds c
      then Some (Errorf ''min_interval_seconds > max_interval_seconds'')
      else if MinDurationSeconds c \<le> 0 \<or> MaxDurationSeconds c \<le> 0
      then Some (Errorf ''duration seconds must be >0'')
      else if MaxDurationSeconds c < MinDurationSeconds c
      then Some (Errorf ''min_duration_seconds > max_duration_seconds'')
      else if MaxPowerKW c < MinPowerKW c then Some (Errorf ''min_power_kw > max_power_kw'')
      else if GenMode c \<noteq> ''internal'' \<and> GenMode c \<noteq> ''http'' \<and> GenMode c \<noteq> []
      then Some (Errorf (''unknown mode '' @ GenMode c))
      else None)"

definition minInterval :: "'n RTEGeneratorConfig \<Rightarrow> Duration" where
  "minInterval c = durMul (MinIntervalSeconds c) Second"

definition maxInterval :: "'n RTEGeneratorConfig \<Rightarrow> Duration" where
  "maxInterval c = durMul (MaxIntervalSeconds c) Second"

definition minDuration :: "'n RTEGeneratorConfig \<Rightarrow> Duration" where
  "minDuration c = durMul (MinDurationSeconds c) Second"

definition maxDuration :: "'n RTEGeneratorConfig \<Rightarrow> Duration" where
  "maxDuration c = durMul (MaxDurationSeconds c) Second"

subsection \<open>Telemetry (config/telemetry.go), Sentry, dispatch and metrics\<close>

record TelemetryConfig =
  TelEnabled :: bool
  TelMode :: string
  IntervalSeconds :: int
  RequestTopic :: string
  ResponsePrefix :: string
  StatePrefix :: string
  TimeoutSeconds :: int

definition Interval :: "TelemetryConfig \<Rightarrow> int" where
  "Interval c = (if IntervalSeconds c \<le> 0 then 10 else IntervalSeconds c)"

definition Timeout :: "TelemetryConfig \<Rightarrow> int" where
  "Timeout c = (if TimeoutSeconds c \<le> 0 then 3 else TimeoutSeconds c)"

record 'n SentryConfig =
  DSN :: string
  Environment :: string
  TracesSampleRate :: 'n
  Release :: string

record 'n DispatchConfig =
  AckTimeoutSeconds :: int
  CfgLPFirst :: "(SignalType \<rightharpoonup> bool) option"
  CfgSegments :: "string \<rightharpoonup> 'n SegmentConfig"
  CfgEnableSoCConstraints :: bool
  CfgMinSoC :: 'n
  CfgSafeDischargeFloor :: 'n

record 'n MetricsConfig =
  PrometheusEnabled :: bool
  PrometheusPort :: string
  InfluxEnabled :: bool
  InfluxURL :: string
  InfluxToken :: string
  InfluxOrg :: string
  InfluxBucket :: string
  EmissionFactor :: 'n

record MqttConfig =
  Broker :: string
  MqttClientID :: string
  Username :: string
  Password :: string
  AckTopic :: string
  UseTLS :: bool
  ClientCert :: string
  ClientKey :: string
  CABundle :: string
  AuthMethod :: string
  QoS :: "string \<rightharpoonup> nat"
  LWTTopic :: string
  LWTPayload :: string
  LWTQoS :: nat
  LWTRetain :: bool
  MaxRetries :: int
  BackoffMS :: int

subsection \<open>The whole configuration (config/config.go)\<close>

record 'n AppConfig =
  CfgMQTT :: MqttConfig
  CfgDispatch :: "'n DispatchConfig"
  CfgMetrics :: "'n MetricsConfig"
  CfgLogging :: LoggingConfig
  CfgRTE :: RTEConfig
  CfgRTEGenerator :: "'n RTEGeneratorConfig"
  CfgSentry :: "'n SentryConfig"
  CfgTelemetry :: TelemetryConfig

datatype config_format = YAML | JSON

definition config_format_of :: "string \<Rightarrow> config_format option" where
  "config_format_of path =
     (let ext = ToLower (Ext path) in
      if ext = ''.yaml'' \<or> ext = ''.yml'' then Some YAML else if ext = ''.json'' then Some JSON else None)"

text \<open>The defaults and validations that end \<open>Load\<close>, lines 56 to 67.\<close>

definition finish_config ::
  "string \<Rightarrow> 'n::{zero,one,plus,inverse,ord} AppConfig \<Rightarrow> go_error + 'n AppConfig" where
  "finish_config localName raw =
     (let cfg = raw\<lparr>CfgLogging := Logging_SetDefaults (CfgLogging raw),
                    CfgRTEGenerator := Generator_SetDefaults localName (CfgRTEGenerator raw)\<rparr> in
      case RTE_Validate (CfgRTE cfg) of
        Some e \<Rightarrow> Inl e
      | None \<Rightarrow>
          (case Generator_Validate (CfgRTEGenerator cfg) of
             Some e \<Rightarrow> Inl e
           | None \<Rightarrow> (case Logging_Validate (CfgLogging cfg) of Some e \<Rightarrow> Inl e | None \<Rightarrow> Inr cfg)))"

definition Load ::
  "(config_format \<Rightarrow> string \<Rightarrow> go_error + 'n AppConfig) \<Rightarrow> string \<Rightarrow> string
    \<Rightarrow> go_error + 'n::{zero,one,plus,inverse,ord} AppConfig" where
  "Load read localName path =
     (case config_format_of path of
        None \<Rightarrow> Inl (Errorf (''unsupported config format: '' @ ToLower (Ext path)))
      | Some fmt \<Rightarrow> (case read fmt path of Inl e \<Rightarrow> Inl e | Inr raw \<Rightarrow> finish_config localName raw))"

subsection \<open>What a loaded configuration promises\<close>

definition generator_ok :: "'n::ord RTEGeneratorConfig \<Rightarrow> bool" where
  "generator_ok c \<longleftrightarrow>
     0 < MinIntervalSeconds c \<and> MinIntervalSeconds c \<le> MaxIntervalSeconds c \<and>
     0 < MinDurationSeconds c \<and> MinDurationSeconds c \<le> MaxDurationSeconds c \<and>
     \<not> MaxPowerKW c < MinPowerKW c \<and> SignalTypes c \<noteq> [] \<and> GenMode c \<in> {''internal'', ''http''}"

lemma Generator_Validate_None:
  "Generator_Validate c = None \<longleftrightarrow>
     0 \<le> MinIntervalSeconds c \<and> MinIntervalSeconds c \<le> MaxIntervalSeconds c \<and>
     0 < MinDurationSeconds c \<and> MinDurationSeconds c \<le> MaxDurationSeconds c \<and>
     \<not> MaxPowerKW c < MinPowerKW c \<and> GenMode c \<in> {''internal'', ''http'', []}"
  unfolding Generator_Validate_def by (simp del: not_less)

lemma Generator_SetDefaults_sel:
  "0 < MinIntervalSeconds (Generator_SetDefaults z c)" "SignalTypes (Generator_SetDefaults z c) \<noteq> []"
  "GenMode (Generator_SetDefaults z c) \<noteq> []"
  by (simp_all add: Generator_SetDefaults_def)

lemma generator_defaults_ok:
  "Generator_Validate (Generator_SetDefaults z c) = None \<Longrightarrow> generator_ok (Generator_SetDefaults z c)"
  using Generator_SetDefaults_sel [of z c] by (auto simp: Generator_Validate_None generator_ok_def)

definition rte_ok :: "RTEConfig \<Rightarrow> bool" where
  "rte_ok c \<longleftrightarrow>
     RteMode c = ''mock'' \<and> MockAddress c \<noteq> [] \<or>
     RteMode c = ''client'' \<and> APIURL (RteClient c) \<noteq> [] \<and> ClientID (RteClient c) \<noteq> [] \<and>
       ClientSecret (RteClient c) \<noteq> [] \<and> TokenURL (RteClient c) \<noteq> [] \<and> 0 < PollIntervalSeconds (RteClient c)"

lemma RTE_Validate_None: "RTE_Validate c = None \<longleftrightarrow> rte_ok c"
  by (auto simp: RTE_Validate_def rte_ok_def Let_def split: if_splits)

lemma Logging_Validate_None:
  "Logging_Validate c = None \<longleftrightarrow> Backend c \<in> {''jsonl'', ''sqlite''} \<and> LogPath c \<noteq> []"
  by (simp add: Logging_Validate_def)

lemma Load_cases:
  assumes "Load read z path = Inr cfg"
  obtains fmt raw where "config_format_of path = Some fmt" "read fmt path = Inr raw"
    "finish_config z raw = Inr cfg"
  using assms by (auto simp: Load_def split: option.splits sum.splits)

lemma Load_generator_ok: "Load read z path = Inr cfg \<Longrightarrow> generator_ok (CfgRTEGenerator cfg)"
  by (erule Load_cases)
    (auto simp: finish_config_def Let_def generator_defaults_ok split: option.splits)

text \<open>
  What the defaults make of the sections that have some: a value that is set stays, any other becomes the
  default of the field.
\<close>

definition generator_from ::
  "string \<Rightarrow> 'n::{zero,one,plus,inverse,ord} RTEGeneratorConfig \<Rightarrow> 'n RTEGeneratorConfig \<Rightarrow> bool" where
  "generator_from localName g g' \<longleftrightarrow>
     Enabled g' = Enabled g \<and> HTTPEndpoint g' = HTTPEndpoint g \<and> Seed g' = Seed g \<and>
     MinIntervalSeconds g' = (if 0 < MinIntervalSeconds g then MinIntervalSeconds g else 120) \<and>
     MaxIntervalSeconds g' = (if 0 < MaxIntervalSeconds g then MaxIntervalSeconds g else 300) \<and>
     MinDurationSeconds g' = (if 0 < MinDurationSeconds g then MinDurationSeconds g else 120) \<and>
     MaxDurationSeconds g' = (if 0 < MaxDurationSeconds g then MaxDurationSeconds g else 600) \<and>
     MinPowerKW g' = (if feq (MinPowerKW g) 0 then lit 5 1 else MinPowerKW g) \<and>
     MaxPowerKW g' = (if feq (MaxPowerKW g) 0 then lit 25 1 else MaxPowerKW g) \<and>
     JitterPct g' = (if feq (JitterPct g) 0 then lit 15 100 else JitterPct g) \<and>
     Scenario g' = (if Scenario g \<noteq> [] then Scenario g else ''steady'') \<and>
     GenMode g' = (if GenMode g \<noteq> [] then GenMode g else ''internal'') \<and>
     SignalTypes g' = (if SignalTypes g \<noteq> [] then SignalTypes g else [''FCR'']) \<and>
     TimeZone g' = (if TimeZone g \<noteq> [] then TimeZone g else localName)"

definition logging_from :: "LoggingConfig \<Rightarrow> LoggingConfig \<Rightarrow> bool" where
  "logging_from l l' \<longleftrightarrow>
     Backend l' = (if Backend l \<noteq> [] then Backend l else ''jsonl'') \<and>
     LogPath l' = (if LogPath l \<noteq> [] then LogPath l else ''dispatch.log'') \<and>
     MaxSizeMB l' = MaxSizeMB l \<and> MaxBackups l' = MaxBackups l \<and> MaxAgeDays l' = MaxAgeDays l"

lemma Generator_SetDefaults_iff: "g' = Generator_SetDefaults z g \<longleftrightarrow> generator_from z g g'"
proof
  show "g' = Generator_SetDefaults z g \<Longrightarrow> generator_from z g g'"
    unfolding generator_from_def by (intro conjI; simp add: Generator_SetDefaults_def)
  assume "generator_from z g g'"
  note eqs = this [unfolded generator_from_def]
  show "g' = Generator_SetDefaults z g"
    by (rule RTEGeneratorConfig.equality; insert eqs; simp only: Generator_SetDefaults_def RTEGeneratorConfig.simps; simp)
qed

lemma Logging_SetDefaults_iff: "l' = Logging_SetDefaults l \<longleftrightarrow> logging_from l l'"
  by (auto simp: Logging_SetDefaults_def logging_from_def Let_def intro!: LoggingConfig.equality)

lemma finish_config_iff:
  "finish_config z raw = Inr cfg \<longleftrightarrow>
     cfg = raw\<lparr>CfgLogging := Logging_SetDefaults (CfgLogging raw),
               CfgRTEGenerator := Generator_SetDefaults z (CfgRTEGenerator raw)\<rparr> \<and>
     rte_ok (CfgRTE cfg) \<and> generator_ok (CfgRTEGenerator cfg) \<and> Backend (CfgLogging cfg) \<in> {''jsonl'', ''sqlite''}"
proof -
  let ?cfg = "raw\<lparr>CfgLogging := Logging_SetDefaults (CfgLogging raw),
      CfgRTEGenerator := Generator_SetDefaults z (CfgRTEGenerator raw)\<rparr>"
  have "finish_config z raw = Inr cfg \<longleftrightarrow> cfg = ?cfg \<and> RTE_Validate (CfgRTE ?cfg) = None \<and>
      Generator_Validate (CfgRTEGenerator ?cfg) = None \<and> Logging_Validate (CfgLogging ?cfg) = None"
    by (auto simp: finish_config_def Let_def split: option.splits)
  moreover have "Generator_Validate (CfgRTEGenerator ?cfg) = None \<longleftrightarrow> generator_ok (CfgRTEGenerator ?cfg)"
    using Generator_SetDefaults_sel [of z "CfgRTEGenerator raw"] by (auto simp: Generator_Validate_None generator_ok_def)
  moreover have "LogPath (CfgLogging ?cfg) \<noteq> []" by (simp add: Logging_SetDefaults_def Let_def)
  ultimately show ?thesis unfolding RTE_Validate_None Logging_Validate_None by blast
qed

text \<open>
  C34. What \<open>Load\<close> accepts, and what it returns. It returns a configuration if and only if the file has a
  known format and can be read, the RTE connector has what its mode needs (an address; or the address of
  the API, both credentials, the address of the token and a positive poll interval), the generator, with
  its defaults, has positive and ordered intervals and durations, an ordered range of powers (of either
  sign), a signal type and a known mode, and the log has a known backend. The configuration is then the one
  that was read, with the defaults of the log and of the generator where nothing is set, and every other
  section, the metrics and Sentry included, as it was read.
\<close>

theorem load_config_valid:
  "Load read localName path = Inr cfg \<longleftrightarrow>
     (\<exists>fmt raw. (ToLower (Ext path), fmt) \<in> {(''.yaml'', YAML), (''.yml'', YAML), (''.json'', JSON)} \<and>
        read fmt path = Inr raw \<and>
        rte_ok (CfgRTE cfg) \<and> generator_ok (CfgRTEGenerator cfg) \<and> Backend (CfgLogging cfg) \<in> {''jsonl'', ''sqlite''} \<and>
        logging_from (CfgLogging raw) (CfgLogging cfg) \<and>
        generator_from localName (CfgRTEGenerator raw) (CfgRTEGenerator cfg) \<and>
        CfgMQTT cfg = CfgMQTT raw \<and> CfgDispatch cfg = CfgDispatch raw \<and> CfgMetrics cfg = CfgMetrics raw \<and>
        CfgRTE cfg = CfgRTE raw \<and> CfgSentry cfg = CfgSentry raw \<and> CfgTelemetry cfg = CfgTelemetry raw)"
proof -
  have fin: "finish_config localName raw = Inr cfg \<longleftrightarrow>
      rte_ok (CfgRTE cfg) \<and> generator_ok (CfgRTEGenerator cfg) \<and> Backend (CfgLogging cfg) \<in> {''jsonl'', ''sqlite''} \<and>
      logging_from (CfgLogging raw) (CfgLogging cfg) \<and> generator_from localName (CfgRTEGenerator raw) (CfgRTEGenerator cfg) \<and>
      CfgMQTT cfg = CfgMQTT raw \<and> CfgDispatch cfg = CfgDispatch raw \<and> CfgMetrics cfg = CfgMetrics raw \<and>
      CfgRTE cfg = CfgRTE raw \<and> CfgSentry cfg = CfgSentry raw \<and> CfgTelemetry cfg = CfgTelemetry raw" for raw
    unfolding finish_config_iff Logging_SetDefaults_iff [symmetric] Generator_SetDefaults_iff [symmetric]
    by (auto intro!: AppConfig.equality)
  have fmt: "config_format_of path = Some fmt \<longleftrightarrow>
      (ToLower (Ext path), fmt) \<in> {(''.yaml'', YAML), (''.yml'', YAML), (''.json'', JSON)}" for fmt
    by (auto simp: config_format_of_def Let_def)
  have "Load read localName path = Inr cfg \<longleftrightarrow>
      (\<exists>fmt raw. config_format_of path = Some fmt \<and> read fmt path = Inr raw \<and> finish_config localName raw = Inr cfg)"
    by (auto simp: Load_def split: option.split sum.split)
  then show ?thesis unfolding fmt fin .
qed

definition test_generator :: "real RTEGeneratorConfig" where
  "test_generator = \<lparr>Enabled = True, GenMode = [], HTTPEndpoint = [], Scenario = [], MinIntervalSeconds = 0,
     MaxIntervalSeconds = 0, MinDurationSeconds = 0, MaxDurationSeconds = 0, MinPowerKW = 0, MaxPowerKW = 0,
     SignalTypes = [], JitterPct = 0, Seed = 1, TimeZone = []\<rparr>"

definition test_config :: "real AppConfig" where
  "test_config = \<lparr>CfgMQTT = \<lparr>Broker = ''tcp://localhost:1883'', MqttClientID = ''cli'', Username = [], Password = [],
       AckTopic = ''vehicle/+/ack'', UseTLS = False, ClientCert = [], ClientKey = [], CABundle = [], AuthMethod = [],
       QoS = Map.empty, LWTTopic = [], LWTPayload = [], LWTQoS = 0, LWTRetain = False, MaxRetries = 0, BackoffMS = 0\<rparr>,
     CfgDispatch = \<lparr>AckTimeoutSeconds = 3, CfgLPFirst = None, CfgSegments = Map.empty, CfgEnableSoCConstraints = False,
       CfgMinSoC = 0, CfgSafeDischargeFloor = 0\<rparr>,
     CfgMetrics = \<lparr>PrometheusEnabled = False, PrometheusPort = [], InfluxEnabled = False, InfluxURL = [],
       InfluxToken = [], InfluxOrg = [], InfluxBucket = [], EmissionFactor = 0\<rparr>,
     CfgLogging = \<lparr>Backend = [], LogPath = [], MaxSizeMB = 0, MaxBackups = 0, MaxAgeDays = 0\<rparr>,
     CfgRTE = \<lparr>RteMode = ''mock'', RteClient = \<lparr>APIURL = [], ClientID = [], ClientSecret = [], TokenURL = [],
       PollIntervalSeconds = 60\<rparr>, MockAddress = '':9090''\<rparr>,
     CfgRTEGenerator = test_generator,
     CfgSentry = \<lparr>DSN = [], Environment = [], TracesSampleRate = 0, Release = []\<rparr>,
     CfgTelemetry = \<lparr>TelEnabled = False, TelMode = [], IntervalSeconds = 0, RequestTopic = [], ResponsePrefix = [],
       StatePrefix = [], TimeoutSeconds = 0\<rparr>\<rparr>"

lemma test_load:
  "Load (\<lambda>_ _. Inr test_config) ''UTC'' ''config.YML'' =
     Inr (test_config\<lparr>CfgLogging := Logging_SetDefaults (CfgLogging test_config),
                      CfgRTEGenerator := Generator_SetDefaults ''UTC'' test_generator\<rparr>)"
proof -
  have "config_format_of ''config.YML'' = Some YAML" by code_simp
  moreover have "Generator_Validate (Generator_SetDefaults ''UTC'' test_generator) = None"
    by (simp add: Generator_Validate_None) (simp add: Generator_SetDefaults_def test_generator_def)
  ultimately show ?thesis
    by (simp add: Load_def finish_config_def test_config_def RTE_Validate_def Logging_Validate_def
        Logging_SetDefaults_def)
qed

end
