(* ===== verification/Event_Bus.thy ===== *)
theory Event_Bus
  imports V2G_Prelude "HOL-Library.Sublist"
begin

text \<open>
  The publish/subscribe buses \<open>Bus\<close> (\<open>internal/eventbus/eventbus.go\<close>) and \<open>TypedBus\<close>
  (\<open>internal/eventbus/typed.go\<close>). A Go channel is an address of a heap of channels, each with
  its buffer and closed flag; sending on a closed channel and closing it twice panic, which is
  \<^term>\<open>None\<close>. Each method holds the mutex of its bus, so it is one step. What the clients of a
  bus rely on is the locale \<open>event_bus\<close>, interpreted for both buses.
\<close>

subsection \<open>Channels\<close>

record 'e channel =
  buf :: "'e list"
  chClosed :: bool

type_synonym 'e channels = "nat \<rightharpoonup> 'e channel"

text \<open>\<open>make(chan Event, 8)\<close>\<close>

definition chanCap :: nat where "chanCap = 8"

text \<open>\<open>select { case ch <- e: default: }\<close>: send if there is room, else drop.\<close>

definition trySend :: "nat \<Rightarrow> 'e \<Rightarrow> 'e channels \<Rightarrow> 'e channels option" where
  "trySend ch e h =
     (case h ch of
        None \<Rightarrow> Some h
      | Some c \<Rightarrow>
          if chClosed c then None
          else if length (buf c) < chanCap then Some (h(ch \<mapsto> c\<lparr>buf := buf c @ [e]\<rparr>))
          else Some h)"

definition closeChan :: "nat \<Rightarrow> 'e channels \<Rightarrow> 'e channels option" where
  "closeChan ch h =
     (case h ch of
        None \<Rightarrow> None
      | Some c \<Rightarrow> if chClosed c then None else Some (h(ch \<mapsto> c\<lparr>chClosed := True\<rparr>)))"

subsection \<open>Bus (internal/eventbus/eventbus.go)\<close>

text \<open>\<open>chans\<close> and \<open>fresh\<close> are the heap of channels and the next free address.\<close>

record 'e Bus =
  subs :: "nat list"
  closed :: bool
  chans :: "'e channels"
  fresh :: nat

definition Bus_New :: "'e Bus" where
  "Bus_New = \<lparr>subs = [], closed = False, chans = Map.empty, fresh = 0\<rparr>"

fun publish_loop :: "nat list \<Rightarrow> 'e \<Rightarrow> 'e channels \<Rightarrow> 'e channels option" where
  "publish_loop [] e h = Some h"
| "publish_loop (ch # chs) e h =
     (case trySend ch e h of None \<Rightarrow> None | Some h' \<Rightarrow> publish_loop chs e h')"

fun close_loop :: "nat list \<Rightarrow> 'e channels \<Rightarrow> 'e channels option" where
  "close_loop [] h = Some h"
| "close_loop (ch # chs) h =
     (case closeChan ch h of None \<Rightarrow> None | Some h' \<Rightarrow> close_loop chs h')"

definition Bus_Publish :: "'e \<Rightarrow> 'e Bus \<Rightarrow> 'e Bus option" where
  "Bus_Publish e b =
     (if closed b then Some b
      else map_option (\<lambda>h. b\<lparr>chans := h\<rparr>) (publish_loop (subs b) e (chans b)))"

definition Bus_Subscribe :: "'e Bus \<Rightarrow> nat \<times> 'e Bus" where
  "Bus_Subscribe b =
     (let ch = fresh b;
          b' = b\<lparr>chans := (chans b)(ch \<mapsto> \<lparr>buf = [], chClosed = closed b\<rparr>), fresh := ch + 1\<rparr>
      in if closed b then (ch, b') else (ch, b'\<lparr>subs := subs b @ [ch]\<rparr>))"

definition Bus_Unsubscribe :: "nat \<Rightarrow> 'e Bus \<Rightarrow> 'e Bus option" where
  "Bus_Unsubscribe sub b =
     (if sub \<in> set (subs b)
      then (let b' = b\<lparr>subs := remove1 sub (subs b)\<rparr> in
            if closed b then Some b'
            else map_option (\<lambda>h. b'\<lparr>chans := h\<rparr>) (closeChan sub (chans b)))
      else Some b)"

definition Bus_Close :: "'e Bus \<Rightarrow> 'e Bus option" where
  "Bus_Close b =
     (if closed b then Some b
      else map_option (\<lambda>h. b\<lparr>closed := True, chans := h, subs := []\<rparr>) (close_loop (subs b) (chans b)))"

subsection \<open>TypedBus (internal/eventbus/typed.go)\<close>

text \<open>The event type \<open>T\<close> is the type variable; the code repeats that of \<open>Bus\<close>.\<close>

definition NewTyped :: "'t Bus" where
  "NewTyped = \<lparr>subs = [], closed = False, chans = Map.empty, fresh = 0\<rparr>"

definition TypedBus_Publish :: "'t \<Rightarrow> 't Bus \<Rightarrow> 't Bus option" where
  "TypedBus_Publish e b =
     (if closed b then Some b
      else case publish_loop (subs b) e (chans b) of
             None \<Rightarrow> None
           | Some h \<Rightarrow> Some (b\<lparr>chans := h\<rparr>))"

definition TypedBus_Subscribe :: "'t Bus \<Rightarrow> nat \<times> 't Bus" where
  "TypedBus_Subscribe b =
     (let ch = fresh b;
          b' = b\<lparr>chans := (chans b)(ch \<mapsto> \<lparr>buf = [], chClosed = closed b\<rparr>), fresh := ch + 1\<rparr>
      in (ch, if closed b then b' else b'\<lparr>subs := subs b @ [ch]\<rparr>))"

definition TypedBus_Unsubscribe :: "nat \<Rightarrow> 't Bus \<Rightarrow> 't Bus option" where
  "TypedBus_Unsubscribe sub b =
     (if sub \<notin> set (subs b) then Some b
      else if closed b then Some (b\<lparr>subs := remove1 sub (subs b)\<rparr>)
      else case closeChan sub (chans b) of
             None \<Rightarrow> None
           | Some h \<Rightarrow> Some (b\<lparr>subs := remove1 sub (subs b), chans := h\<rparr>))"

definition TypedBus_Close :: "'t Bus \<Rightarrow> 't Bus option" where
  "TypedBus_Close b =
     (if closed b then Some b
      else case close_loop (subs b) (chans b) of
             None \<Rightarrow> None
           | Some h \<Rightarrow> Some (b\<lparr>closed := True, chans := h, subs := []\<rparr>))"

subsection \<open>Runs of a bus and its subscribers\<close>

text \<open>
  A run interleaves the methods of the bus with receive operations of the subscribers in any
  order. \<open>got ch\<close> is what has been received from channel \<open>ch\<close>; a receive from an empty buffer
  delivers nothing.
\<close>

datatype 'e bus_op = Pub 'e | Sub | Unsub nat | Cls | Recv nat

definition receive :: "nat \<Rightarrow> 'e Bus \<Rightarrow> 'e list \<times> 'e Bus" where
  "receive ch b =
     (case chans b ch of
        None \<Rightarrow> ([], b)
      | Some c \<Rightarrow> (case buf c of
                     [] \<Rightarrow> ([], b)
                   | e # es \<Rightarrow> ([e], b\<lparr>chans := (chans b)(ch \<mapsto> c\<lparr>buf := es\<rparr>)\<rparr>)))"

fun bus_run ::
  "('e \<Rightarrow> 'e Bus \<Rightarrow> 'e Bus option) \<Rightarrow> ('e Bus \<Rightarrow> nat \<times> 'e Bus) \<Rightarrow> (nat \<Rightarrow> 'e Bus \<Rightarrow> 'e Bus option)
    \<Rightarrow> ('e Bus \<Rightarrow> 'e Bus option) \<Rightarrow> 'e bus_op list \<Rightarrow> 'e Bus \<Rightarrow> (nat \<Rightarrow> 'e list)
    \<Rightarrow> ('e Bus \<times> (nat \<Rightarrow> 'e list)) option" where
  "bus_run p s u c [] b got = Some (b, got)"
| "bus_run p s u c (Pub e # ops) b got =
     (case p e b of None \<Rightarrow> None | Some b' \<Rightarrow> bus_run p s u c ops b' got)"
| "bus_run p s u c (Sub # ops) b got = bus_run p s u c ops (snd (s b)) got"
| "bus_run p s u c (Unsub ch # ops) b got =
     (case u ch b of None \<Rightarrow> None | Some b' \<Rightarrow> bus_run p s u c ops b' got)"
| "bus_run p s u c (Cls # ops) b got =
     (case c b of None \<Rightarrow> None | Some b' \<Rightarrow> bus_run p s u c ops b' got)"
| "bus_run p s u c (Recv ch # ops) b got =
     (case receive ch b of (es, b') \<Rightarrow> bus_run p s u c ops b' (got(ch := got ch @ es)))"

fun published :: "'e bus_op list \<Rightarrow> 'e list" where
  "published [] = []"
| "published (Pub e # ops) = e # published ops"
| "published (_ # ops) = published ops"

text \<open>What is waiting in a channel.\<close>

definition pending :: "'e Bus \<Rightarrow> nat \<Rightarrow> 'e list" where
  "pending b ch = (case chans b ch of None \<Rightarrow> [] | Some c \<Rightarrow> buf c)"

definition bus_inv :: "'e Bus \<Rightarrow> bool" where
  "bus_inv b \<longleftrightarrow>
     distinct (subs b) \<and>
     (\<forall>ch\<in>set (subs b). \<exists>c. chans b ch = Some c \<and> \<not> chClosed c) \<and>
     (\<forall>ch c. chans b ch = Some c \<longrightarrow> ch < fresh b \<and> length (buf c) \<le> chanCap) \<and>
     (closed b \<longrightarrow> subs b = [])"

lemma receive_split:
  "fst (receive ch b) @ pending (snd (receive ch b)) ch = pending b ch"
  "x \<noteq> ch \<Longrightarrow> pending (snd (receive ch b)) x = pending b x"
  by (auto simp: receive_def pending_def split: option.split list.split)

lemma receive_frame [simp]:
  "subs (snd (receive ch b)) = subs b" "closed (snd (receive ch b)) = closed b"
  "fresh (snd (receive ch b)) = fresh b"
  by (auto simp: receive_def split: option.split list.split)

lemma receive_inv: "bus_inv b \<Longrightarrow> bus_inv (snd (receive ch b))"
  by (auto simp: bus_inv_def receive_def split: option.split list.split)
    (metis Suc_leD length_Cons)+

subsection \<open>The contract of a bus\<close>

locale event_bus =
  fixes publish :: "'e \<Rightarrow> 'e Bus \<Rightarrow> 'e Bus option"
    and subscribe :: "'e Bus \<Rightarrow> nat \<times> 'e Bus"
    and unsubscribe :: "nat \<Rightarrow> 'e Bus \<Rightarrow> 'e Bus option"
    and close :: "'e Bus \<Rightarrow> 'e Bus option"
  assumes publish_ok: "bus_inv b \<Longrightarrow> \<exists>b'. publish e b = Some b' \<and> bus_inv b' \<and>
      subs b' = subs b \<and> closed b' = closed b \<and> fresh b' = fresh b \<and>
      (\<forall>ch. pending b' ch =
         (if ch \<in> set (subs b) \<and> \<not> closed b \<and> length (pending b ch) < chanCap
          then pending b ch @ [e] else pending b ch))"
    and subscribe_ok: "bus_inv b \<Longrightarrow> bus_inv (snd (subscribe b)) \<and>
      fst (subscribe b) = fresh b \<and> fresh (snd (subscribe b)) = fresh b + 1 \<and>
      (\<forall>ch. pending (snd (subscribe b)) ch = (if ch = fresh b then [] else pending b ch)) \<and>
      subs (snd (subscribe b)) = (if closed b then subs b else subs b @ [fresh b])"
    and unsubscribe_ok: "bus_inv b \<Longrightarrow> \<exists>b'. unsubscribe ch b = Some b' \<and> bus_inv b' \<and>
      subs b' = remove1 ch (subs b) \<and> fresh b' = fresh b \<and> (\<forall>x. pending b' x = pending b x)"
    and close_ok: "bus_inv b \<Longrightarrow> \<exists>b'. close b = Some b' \<and> bus_inv b' \<and>
      subs b' = [] \<and> closed b' \<and> fresh b' = fresh b \<and> (\<forall>x. pending b' x = pending b x)"
begin

abbreviation run :: "'e bus_op list \<Rightarrow> 'e Bus \<Rightarrow> (nat \<Rightarrow> 'e list) \<Rightarrow> ('e Bus \<times> (nat \<Rightarrow> 'e list)) option" where
  "run \<equiv> bus_run publish subscribe unsubscribe close"

lemma run_Cons: "run (x # ops) b got = (case run [x] b got of None \<Rightarrow> None | Some (b1, got1) \<Rightarrow> run ops b1 got1)"
  by (cases x) (simp_all add: case_prod_unfold split: option.split)

text \<open>One operation: it never panics, keeps the invariant and what is received and pending, and appends what it publishes or not.\<close>

lemma step_ok:
  assumes "bus_inv b"
  obtains b1 got1 where "run [x] b got = Some (b1, got1)" "bus_inv b1" "fresh b \<le> fresh b1"
    "\<And>ch. ch < fresh b \<Longrightarrow> \<exists>xs. got1 ch @ pending b1 ch = got ch @ pending b ch @ xs \<and> subseq xs (published [x])"
proof (cases x)
  case (Pub e)
  obtain b1 where b1: "publish e b = Some b1" "bus_inv b1" "fresh b1 = fresh b"
    "\<forall>ch. pending b1 ch = pending b ch @ [e] \<or> pending b1 ch = pending b ch"
    using publish_ok [OF assms, of e] by auto
  have "\<exists>xs. pending b1 ch = pending b ch @ xs \<and> subseq xs [e]" for ch
    using b1(4) [rule_format, of ch] by (metis append_Nil2 list_emb_Nil subseq_order.order_refl)
  with b1 Pub show ?thesis by (intro that [of b1 got]) auto
next
  case Sub
  then show ?thesis using subscribe_ok [OF assms] by (intro that [of "snd (subscribe b)" got]) auto
next
  case (Unsub c)
  obtain b1 where "unsubscribe c b = Some b1" "bus_inv b1" "fresh b1 = fresh b" "\<forall>x. pending b1 x = pending b x"
    using unsubscribe_ok [OF assms, of c] by auto
  with Unsub show ?thesis by (intro that [of b1 got]) auto
next
  case Cls
  obtain b1 where "close b = Some b1" "bus_inv b1" "fresh b1 = fresh b" "\<forall>x. pending b1 x = pending b x"
    using close_ok [OF assms] by auto
  with Cls show ?thesis by (intro that [of b1 got]) auto
next
  case (Recv c)
  have "(got(c := got c @ fst (receive c b))) ch @ pending (snd (receive c b)) ch = got ch @ pending b ch" for ch
    using receive_split(1) [of c b] receive_split(2) [of ch c b] by (cases "ch = c") auto
  with Recv show ?thesis
    using receive_inv [OF assms] by (intro that [of "snd (receive c b)" "got(c := got c @ fst (receive c b))"]) (auto simp: case_prod_unfold)
qed

text \<open>No run panics, and the invariant holds throughout.\<close>

lemma run_total: "bus_inv b \<Longrightarrow> \<exists>b' got'. run ops b got = Some (b', got') \<and> bus_inv b'"
proof (induction ops arbitrary: b got)
  case (Cons x ops)
  obtain b1 got1 where "run [x] b got = Some (b1, got1)" "bus_inv b1" by (rule step_ok [OF Cons.prems, of x got])
  with Cons.IH [of b1 got1] show ?case by (simp add: run_Cons [of x ops])
qed simp

text \<open>
  What a subscriber has received and still has to receive grows by a subsequence of the events
  published, in their order: nothing is duplicated, reordered or made up.
\<close>

lemma published_Cons: "published (x # ops) = published [x] @ published ops"
  by (cases x) simp_all

lemma run_fifo:
  assumes "bus_inv b" "ch < fresh b" "run ops b got = Some (b', got')"
  shows "\<exists>xs. got' ch @ pending b' ch = got ch @ pending b ch @ xs \<and> subseq xs (published ops)"
  using assms
proof (induction ops arbitrary: b got)
  case (Cons x ops)
  obtain b1 got1 xs where b1: "run [x] b got = Some (b1, got1)" "bus_inv b1" "fresh b \<le> fresh b1"
    and xs: "got1 ch @ pending b1 ch = got ch @ pending b ch @ xs" "subseq xs (published [x])"
    using step_ok [OF Cons.prems(1), of x got] Cons.prems(2) by metis
  obtain ys where ys: "got' ch @ pending b' ch = got1 ch @ pending b1 ch @ ys" "subseq ys (published ops)"
    using Cons.IH [OF b1(2), of got1] Cons.prems(2,3) b1 by (auto simp: run_Cons [of x ops])
  then have "got' ch @ pending b' ch = got ch @ pending b ch @ (xs @ ys)" using xs(1) by (metis append.assoc)
  moreover have "subseq (xs @ ys) (published (x # ops))"
    unfolding published_Cons [of x ops] using xs(2) ys(2) by (rule list_emb_append_mono)
  ultimately show ?case by blast
qed simp

text \<open>A subscriber with room for everything published while it stays subscribed misses nothing.\<close>

lemma step_lossless:
  assumes "bus_inv b" "ch \<in> set (subs b)" "x \<noteq> Cls" "x \<noteq> Unsub ch" "length (pending b ch) + length (published [x]) \<le> chanCap"
    and "run [x] b got = Some (b1, got1)"
  shows "ch \<in> set (subs b1) \<and> got1 ch @ pending b1 ch = got ch @ pending b ch @ published [x] \<and>
    length (pending b1 ch) \<le> length (pending b ch) + length (published [x])"
proof -
  have open_ch: "ch < fresh b" "\<not> closed b" using assms(1,2) by (auto simp: bus_inv_def)
  show ?thesis
  proof (cases x)
    case (Pub e)
    then show ?thesis using publish_ok [OF assms(1), of e] assms open_ch by auto
  next
    case Sub
    then show ?thesis using subscribe_ok [OF assms(1)] assms(2,6) open_ch by auto
  next
    case (Unsub c)
    then have "ch \<in> set (remove1 c (subs b))" using assms(2,4) by (auto simp: in_set_remove1)
    with Unsub show ?thesis using unsubscribe_ok [OF assms(1), of c] assms(6) by auto
  next
    case (Recv c)
    then show ?thesis
      using receive_split(1) [of c b] receive_split(2) [of ch c b] assms(2,6)
      by (cases "ch = c") (auto simp: case_prod_unfold dest: arg_cong [of _ _ length])
  qed (use assms in simp)
qed

lemma run_lossless:
  assumes "bus_inv b" "ch \<in> set (subs b)" "Cls \<notin> set ops" "Unsub ch \<notin> set ops"
    "length (pending b ch) + length (published ops) \<le> chanCap" "run ops b got = Some (b', got')"
  shows "got' ch @ pending b' ch = got ch @ pending b ch @ published ops"
  using assms
proof (induction ops arbitrary: b got)
  case (Cons x ops)
  obtain b1 got1 where b1: "run [x] b got = Some (b1, got1)" "bus_inv b1" by (rule step_ok [OF Cons.prems(1), of x got])
  have step: "ch \<in> set (subs b1)" "got1 ch @ pending b1 ch = got ch @ pending b ch @ published [x]"
    "length (pending b1 ch) \<le> length (pending b ch) + length (published [x])"
    using step_lossless [OF Cons.prems(1,2) _ _ _ b1(1)] Cons.prems(3-5) unfolding published_Cons [of x ops] by auto
  have "got' ch @ pending b' ch = got1 ch @ pending b1 ch @ published ops"
    by (rule Cons.IH [OF b1(2) step(1)])
      (use Cons.prems(3-6) step(3) b1(1) in \<open>auto simp: published_Cons [of x ops] run_Cons [of x ops]\<close>)
  then show ?case unfolding published_Cons [of x ops] using step(2) by (metis append.assoc)
qed simp

end

subsection \<open>Both buses keep the contract\<close>

lemma publish_loop_ok:
  assumes "distinct chs" "\<forall>ch\<in>set chs. \<exists>c. h ch = Some c \<and> \<not> chClosed c"
  shows "\<exists>h'. publish_loop chs e h = Some h' \<and>
    (\<forall>ch. h' ch = (if ch \<in> set chs \<and> length (buf (the (h ch))) < chanCap
                   then Some ((the (h ch))\<lparr>buf := buf (the (h ch)) @ [e]\<rparr>) else h ch))"
  using assms
proof (induction chs arbitrary: h)
  case (Cons ch chs)
  obtain c where c: "h ch = Some c" "\<not> chClosed c" using Cons.prems(2) by auto
  define h1 where "h1 = (if length (buf c) < chanCap then h(ch \<mapsto> c\<lparr>buf := buf c @ [e]\<rparr>) else h)"
  have h1: "trySend ch e h = Some h1"
    "\<forall>x. h1 x = (if x = ch \<and> length (buf c) < chanCap then Some (c\<lparr>buf := buf c @ [e]\<rparr>) else h x)"
    using c by (simp_all add: trySend_def h1_def)
  have "\<forall>x\<in>set chs. \<exists>c. h1 x = Some c \<and> \<not> chClosed c"
    using Cons.prems h1(2) by auto
  then obtain h' where h': "publish_loop chs e h1 = Some h'"
    "\<forall>x. h' x = (if x \<in> set chs \<and> length (buf (the (h1 x))) < chanCap
                   then Some ((the (h1 x))\<lparr>buf := buf (the (h1 x)) @ [e]\<rparr>) else h1 x)"
    using Cons.IH [of h1] Cons.prems(1) by auto
  have "h' x = (if x \<in> set (ch # chs) \<and> length (buf (the (h x))) < chanCap
                   then Some ((the (h x))\<lparr>buf := buf (the (h x)) @ [e]\<rparr>) else h x)" for x
    using h'(2) h1(2) c(1) Cons.prems(1) by (cases "x = ch") auto
  with h'(1) h1(1) show ?case by auto
qed simp

lemma close_loop_ok:
  assumes "distinct chs" "\<forall>ch\<in>set chs. \<exists>c. h ch = Some c \<and> \<not> chClosed c"
  shows "\<exists>h'. close_loop chs h = Some h' \<and>
    (\<forall>ch. h' ch = (if ch \<in> set chs then Some ((the (h ch))\<lparr>chClosed := True\<rparr>) else h ch))"
  using assms
proof (induction chs arbitrary: h)
  case (Cons ch chs)
  obtain c where c: "h ch = Some c" "\<not> chClosed c" using Cons.prems(2) by auto
  define h1 where "h1 = h(ch \<mapsto> c\<lparr>chClosed := True\<rparr>)"
  have s1: "closeChan ch h = Some h1" using c by (simp add: closeChan_def h1_def)
  have "\<forall>x\<in>set chs. \<exists>c. h1 x = Some c \<and> \<not> chClosed c"
    using Cons.prems by (auto simp: h1_def)
  then obtain h' where h': "close_loop chs h1 = Some h'"
    "\<forall>x. h' x = (if x \<in> set chs then Some ((the (h1 x))\<lparr>chClosed := True\<rparr>) else h1 x)"
    using Cons.IH [of h1] Cons.prems(1) by auto
  have "h' x = (if x \<in> set (ch # chs) then Some ((the (h x))\<lparr>chClosed := True\<rparr>) else h x)" for x
    using h'(2) c(1) Cons.prems(1) by (cases "x = ch") (auto simp: h1_def)
  with h'(1) s1 show ?case by auto
qed simp

lemma bus_invD:
  assumes "bus_inv b"
  shows "distinct (subs b)" "\<forall>ch\<in>set (subs b). \<exists>c. chans b ch = Some c \<and> \<not> chClosed c"
    "chans b ch = Some c \<Longrightarrow> ch < fresh b \<and> length (buf c) \<le> chanCap"
    "closed b \<Longrightarrow> subs b = []"
  using assms by (auto simp: bus_inv_def)

lemma Bus_Publish_ok:
  assumes inv: "bus_inv b"
  shows "\<exists>b'. Bus_Publish e b = Some b' \<and> bus_inv b' \<and> subs b' = subs b \<and> closed b' = closed b \<and>
      fresh b' = fresh b \<and>
      (\<forall>ch. pending b' ch =
         (if ch \<in> set (subs b) \<and> \<not> closed b \<and> length (pending b ch) < chanCap
          then pending b ch @ [e] else pending b ch))"
proof (cases "closed b")
  case False
  note invD = bus_invD [OF inv]
  obtain h' where h': "publish_loop (subs b) e (chans b) = Some h'"
    and upd: "\<And>ch. h' ch = (if ch \<in> set (subs b) \<and> length (buf (the (chans b ch))) < chanCap
       then Some ((the (chans b ch))\<lparr>buf := buf (the (chans b ch)) @ [e]\<rparr>) else chans b ch)"
    using publish_loop_ok [OF invD(1,2), of e] by blast
  have pend: "pending (b\<lparr>chans := h'\<rparr>) ch =
       (if ch \<in> set (subs b) \<and> length (pending b ch) < chanCap then pending b ch @ [e] else pending b ch)" for ch
    using invD(2) by (auto simp: pending_def upd)
  have "bus_inv (b\<lparr>chans := h'\<rparr>)"
    unfolding bus_inv_def
  proof (intro conjI ballI allI impI)
    fix ch assume ch: "ch \<in> set (subs (b\<lparr>chans := h'\<rparr>))"
    then obtain c where "chans b ch = Some c" "\<not> chClosed c" using invD(2) by auto
    then show "\<exists>c. chans (b\<lparr>chans := h'\<rparr>) ch = Some c \<and> \<not> chClosed c" by (simp add: upd)
  next
    fix ch c assume c: "chans (b\<lparr>chans := h'\<rparr>) ch = Some c"
    then obtain c0 where c0: "chans b ch = Some c0"
      using invD(2) by (auto simp: upd split: if_splits)
    with c invD(3) [OF c0]
    show "ch < fresh (b\<lparr>chans := h'\<rparr>)" and "length (buf c) \<le> chanCap"
      by (auto simp: upd split: if_splits)
  qed (use invD False in simp_all)
  with False h' pend show ?thesis by (simp add: Bus_Publish_def)
qed (use inv in \<open>simp add: Bus_Publish_def\<close>)

lemma Bus_Subscribe_ok:
  assumes inv: "bus_inv b"
  shows "bus_inv (snd (Bus_Subscribe b)) \<and> fst (Bus_Subscribe b) = fresh b \<and>
      fresh (snd (Bus_Subscribe b)) = fresh b + 1 \<and>
      (\<forall>ch. pending (snd (Bus_Subscribe b)) ch = (if ch = fresh b then [] else pending b ch)) \<and>
      subs (snd (Bus_Subscribe b)) = (if closed b then subs b else subs b @ [fresh b])"
proof -
  note invD = bus_invD [OF inv]
  have new: "fresh b \<notin> set (subs b)" using invD(2,3) by fastforce
  have lt: "\<And>ch c. chans b ch = Some c \<Longrightarrow> ch < Suc (fresh b) \<and> length (buf c) \<le> chanCap"
    using invD(3) less_SucI by blast
  have "bus_inv (snd (Bus_Subscribe b))"
    using invD(1,2,4) new lt by (auto simp: Bus_Subscribe_def bus_inv_def Let_def)
  then show ?thesis by (auto simp: Bus_Subscribe_def pending_def Let_def)
qed

lemma Bus_Unsubscribe_ok:
  assumes inv: "bus_inv b"
  shows "\<exists>b'. Bus_Unsubscribe ch b = Some b' \<and> bus_inv b' \<and> subs b' = remove1 ch (subs b) \<and>
      fresh b' = fresh b \<and> (\<forall>x. pending b' x = pending b x)"
proof (cases "ch \<in> set (subs b)")
  case True
  note invD = bus_invD [OF inv]
  obtain c where c: "chans b ch = Some c" "\<not> chClosed c" using True invD(2) by blast
  define b' where "b' = b\<lparr>subs := remove1 ch (subs b), chans := (chans b)(ch \<mapsto> c\<lparr>chClosed := True\<rparr>)\<rparr>"
  have run: "Bus_Unsubscribe ch b = Some b'"
    using True c invD(4) by (auto simp: Bus_Unsubscribe_def closeChan_def b'_def Let_def)
  have "bus_inv b'"
    using invD c by (auto simp: bus_inv_def b'_def)
  with run c show ?thesis by (auto simp: b'_def pending_def)
next
  case False
  with inv show ?thesis by (auto simp: Bus_Unsubscribe_def remove1_idem)
qed

lemma Bus_Close_ok:
  assumes inv: "bus_inv b"
  shows "\<exists>b'. Bus_Close b = Some b' \<and> bus_inv b' \<and> subs b' = [] \<and> closed b' \<and>
      fresh b' = fresh b \<and> (\<forall>x. pending b' x = pending b x)"
proof (cases "closed b")
  case False
  note invD = bus_invD [OF inv]
  obtain h' where h': "close_loop (subs b) (chans b) = Some h'"
    and upd: "\<And>ch. h' ch = (if ch \<in> set (subs b) then Some ((the (chans b ch))\<lparr>chClosed := True\<rparr>) else chans b ch)"
    using close_loop_ok [OF invD(1,2)] by blast
  have pend: "pending (b\<lparr>closed := True, chans := h', subs := []\<rparr>) x = pending b x" for x
    using invD(2) by (auto simp: pending_def upd)
  have "ch < fresh b \<and> length (buf c) \<le> chanCap" if c: "h' ch = Some c" for ch c
  proof -
    obtain c0 where c0: "chans b ch = Some c0" "buf c = buf c0"
      using invD(2) c by (auto simp: upd split: if_splits)
    with invD(3) [OF c0(1)] show ?thesis by simp
  qed
  then have "bus_inv (b\<lparr>closed := True, chans := h', subs := []\<rparr>)" by (auto simp: bus_inv_def)
  with False h' pend show ?thesis by (simp add: Bus_Close_def)
qed (use inv bus_invD(4) in \<open>auto simp: Bus_Close_def\<close>)

interpretation bus: event_bus Bus_Publish Bus_Subscribe Bus_Unsubscribe Bus_Close
  by unfold_locales (fact Bus_Publish_ok Bus_Subscribe_ok Bus_Unsubscribe_ok Bus_Close_ok)+

lemma typed_eq:
  "TypedBus_Publish = Bus_Publish" "TypedBus_Subscribe = Bus_Subscribe"
  "TypedBus_Unsubscribe = Bus_Unsubscribe" "TypedBus_Close = Bus_Close"
  by (auto simp: fun_eq_iff TypedBus_Publish_def Bus_Publish_def TypedBus_Subscribe_def Bus_Subscribe_def
      TypedBus_Unsubscribe_def Bus_Unsubscribe_def TypedBus_Close_def Bus_Close_def Let_def
      split: option.split)

interpretation typed: event_bus TypedBus_Publish TypedBus_Subscribe TypedBus_Unsubscribe TypedBus_Close
  unfolding typed_eq by (rule bus.event_bus_axioms)

lemma Bus_New_inv: "bus_inv Bus_New" and NewTyped_inv: "bus_inv NewTyped"
  by (simp_all add: bus_inv_def Bus_New_def NewTyped_def)

text \<open>
  C20. No sequence of publish, subscribe, unsubscribe, close and receive operations on a bus makes
  it panic: no send on a closed channel, no channel closed twice, and no buffer beyond 8 events.
\<close>

theorem bus_never_panics:
  "\<exists>b got. bus_run Bus_Publish Bus_Subscribe Bus_Unsubscribe Bus_Close ops Bus_New (\<lambda>_. []) = Some (b, got) \<and>
     (\<forall>ch. length (pending b ch) \<le> 8)"
proof -
  obtain b got where run: "bus_run Bus_Publish Bus_Subscribe Bus_Unsubscribe Bus_Close ops Bus_New (\<lambda>_. []) = Some (b, got)"
    and inv: "bus_inv b"
    using bus.run_total [OF Bus_New_inv] by metis
  have "length (pending b ch) \<le> 8" for ch
    using inv by (auto simp: bus_inv_def pending_def chanCap_def split: option.split)
  with run show ?thesis by blast
qed

text \<open>
  C21. Events reach a subscriber of a typed bus in the order of publication, each at most once:
  what it has received and still has in its channel is a subsequence of the events published
  after it subscribed; and when no more than 8 of them are published before it unsubscribes or
  the bus closes, it is all of them.
\<close>

theorem typed_bus_delivery:
  assumes "bus_run TypedBus_Publish TypedBus_Subscribe TypedBus_Unsubscribe TypedBus_Close before NewTyped (\<lambda>_. [])
      = Some (b0, got0)" "\<not> closed b0"
    and "TypedBus_Subscribe b0 = (ch, b)"
    and "bus_run TypedBus_Publish TypedBus_Subscribe TypedBus_Unsubscribe TypedBus_Close ops b (\<lambda>_. [])
      = Some (b', got)"
  shows "subseq (got ch @ pending b' ch) (published ops) \<and>
    (Cls \<notin> set ops \<and> Unsub ch \<notin> set ops \<and> length (published ops) \<le> 8 \<longrightarrow>
       got ch @ pending b' ch = published ops)"
proof -
  have inv0: "bus_inv b0" using typed.run_total [OF NewTyped_inv, of before "\<lambda>_. []"] assms(1) by auto
  note sub = typed.subscribe_ok [OF inv0]
  have b: "bus_inv b" "ch < fresh b" "ch \<in> set (subs b)" "pending b ch = []"
    using sub assms(2,3) by auto
  obtain xs where "got ch @ pending b' ch = xs" "subseq xs (published ops)"
    using typed.run_fifo [OF b(1,2) assms(4)] b(4) by auto
  moreover have "got ch @ pending b' ch = published ops"
    if "Cls \<notin> set ops" "Unsub ch \<notin> set ops" "length (published ops) \<le> 8"
    using typed.run_lossless [OF b(1,3) that(1,2) _ assms(4)] that(3) b(4) by (simp add: chanCap_def)
  ultimately show ?thesis by blast
qed

theorem typed_bus_delivery_witness:
  "\<exists>b' got. bus_run TypedBus_Publish TypedBus_Subscribe TypedBus_Unsubscribe TypedBus_Close
      [Pub ''x'', Recv 0, Pub ''y''] (snd (TypedBus_Subscribe NewTyped)) (\<lambda>_. []) = Some (b', got) \<and>
    got 0 @ pending b' 0 = [''x'', ''y'']"
proof -
  have "bus_inv (snd (TypedBus_Subscribe NewTyped :: nat \<times> string Bus))"
    by (rule conjunct1 [OF typed.subscribe_ok [OF NewTyped_inv]])
  then obtain b' got where run: "bus_run TypedBus_Publish TypedBus_Subscribe TypedBus_Unsubscribe TypedBus_Close
      [Pub ''x'', Recv 0, Pub ''y''] (snd (TypedBus_Subscribe NewTyped)) (\<lambda>_. []) = Some (b', got)"
    using typed.run_total by blast
  have "TypedBus_Subscribe NewTyped = (0, snd (TypedBus_Subscribe NewTyped :: nat \<times> string Bus))"
    by (simp add: TypedBus_Subscribe_def NewTyped_def Let_def)
  from typed_bus_delivery [of "[]" NewTyped "\<lambda>_. []", OF _ _ this run] run
  show ?thesis by (simp add: NewTyped_def) 
qed

end
