(* ===== verification/Eco_KPI.thy ===== *)
theory Eco_KPI
  imports Core_Model
begin

text \<open>
  Ecological KPIs: the record and its ratios (\<open>core/metrics/eco/types.go\<close>), the two stores
  (\<open>core/metrics/eco/memory.go\<close> and \<open>infra/kpi/sqlite.go\<close>), the sink that feeds a store from
  dispatch results (\<open>infra/metrics/eco.go\<close>) and the job that feeds it from history
  (\<open>jobs/ecokpi/backfill.go\<close>). The contract of \<open>eco.Store\<close> is the locale \<open>eco_store\<close>; both
  stores interpret it. The database holds the table of the schema as a list of rows, and the
  two statements do what their SQL says; a database error is an argument.
\<close>

subsection \<open>Records (core/metrics/eco/types.go, store.go)\<close>

record 'n Record =
  RecVehicleID :: string
  RecDate :: Time
  InjectedKWh :: 'n
  ConsumedKWh :: 'n

definition CO2Avoided :: "'n::times Record \<Rightarrow> 'n \<Rightarrow> 'n" where
  "CO2Avoided r factor = InjectedKWh r * factor"

definition EnergyRatio :: "'n::{zero,inverse,ord} Record \<Rightarrow> 'n" where
  "EnergyRatio r =
     (if feq (ConsumedKWh r) 0
      then (if feq (InjectedKWh r) 0 then 0 else InjectedKWh r)
      else InjectedKWh r / ConsumedKWh r)"

definition Day :: "Time \<Rightarrow> Time" where
  "Day t = utcMidnight t"

subsection \<open>MemoryStore (core/metrics/eco/memory.go)\<close>

type_synonym 'n eco_memory = "string \<rightharpoonup> (Time \<rightharpoonup> 'n Record)"

definition Memory_New :: "'n eco_memory" where
  "Memory_New = Map.empty"

definition Memory_Add :: "'n::{zero,plus} Record \<Rightarrow> 'n eco_memory \<Rightarrow> 'n eco_memory" where
  "Memory_Add r s =
     (let m = getd Map.empty s (RecVehicleID r);
          d = Day (RecDate r);
          rec = (case m d of
                   None \<Rightarrow> \<lparr>RecVehicleID = RecVehicleID r, RecDate = d, InjectedKWh = 0, ConsumedKWh = 0\<rparr>
                 | Some x \<Rightarrow> x);
          rec' = rec\<lparr>InjectedKWh := InjectedKWh rec + InjectedKWh r,
                     ConsumedKWh := ConsumedKWh rec + ConsumedKWh r\<rparr>
      in s(RecVehicleID r \<mapsto> m(d \<mapsto> rec')))"

text \<open>\<open>days\<close> is the order in which the map of a vehicle is ranged over, \<open>sortf\<close> is \<open>sort.Slice\<close>.\<close>

definition Memory_Query ::
  "((Time \<rightharpoonup> 'n Record) \<Rightarrow> Time list) \<Rightarrow> ('n Record list \<Rightarrow> 'n Record list) \<Rightarrow> string \<Rightarrow> Time \<Rightarrow> Time
    \<Rightarrow> 'n eco_memory \<Rightarrow> 'n Record list" where
  "Memory_Query days sortf vehicleID start end s =
     (let start' = Day start; end' = Day end;
          m = getd Map.empty s vehicleID in
      sortf (map (\<lambda>d. the (m d))
               (filter (\<lambda>d. \<not> (timeBefore d start' \<or> timeAfter d end')) (days m))))"

subsection \<open>SQLiteStore (infra/kpi/sqlite.go)\<close>

record 'n eco_row =
  row_vehicle :: string
  row_day :: int
  row_injected :: 'n
  row_consumed :: 'n

definition Sqlite_New :: "'n eco_row list" where
  "Sqlite_New = []"

text \<open>\<open>INSERT \<dots> ON CONFLICT(vehicle_id, day) DO UPDATE\<close>\<close>

fun upsert :: "'n::plus eco_row \<Rightarrow> 'n eco_row list \<Rightarrow> 'n eco_row list" where
  "upsert r [] = [r]"
| "upsert r (x # xs) =
     (if row_vehicle x = row_vehicle r \<and> row_day x = row_day r
      then x\<lparr>row_injected := row_injected x + row_injected r,
             row_consumed := row_consumed x + row_consumed r\<rparr> # xs
      else x # upsert r xs)"

definition Sqlite_Add ::
  "go_error option \<Rightarrow> 'n::plus Record \<Rightarrow> 'n eco_row list \<Rightarrow> 'n eco_row list \<times> go_error option" where
  "Sqlite_Add dbErr r db =
     (case dbErr of
        Some e \<Rightarrow> (db, Some e)
      | None \<Rightarrow>
          (upsert \<lparr>row_vehicle = RecVehicleID r, row_day = timeUnix (Day (RecDate r)),
                   row_injected = InjectedKWh r, row_consumed = ConsumedKWh r\<rparr> db, None))"

text \<open>\<open>SELECT \<dots> WHERE vehicle_id = ? AND day >= ? AND day <= ? ORDER BY day\<close> and the scan loop.\<close>

definition Sqlite_Query ::
  "go_error option \<Rightarrow> string \<Rightarrow> Time \<Rightarrow> Time \<Rightarrow> 'n eco_row list \<Rightarrow> go_error + 'n Record list" where
  "Sqlite_Query dbErr vehicleID start end db =
     (case dbErr of
        Some e \<Rightarrow> Inl e
      | None \<Rightarrow>
          Inr (map (\<lambda>x. \<lparr>RecVehicleID = row_vehicle x, RecDate = ofUnix 0 (row_day x),
                         InjectedKWh = row_injected x, ConsumedKWh = row_consumed x\<rparr>)
                 (sort_key row_day
                    (filter (\<lambda>x. row_vehicle x = vehicleID \<and> timeUnix (Day start) \<le> row_day x \<and>
                                 row_day x \<le> timeUnix (Day end)) db))))"

subsection \<open>The sink and the backfill job\<close>

text \<open>\<open>core/metrics.DispatchResult\<close>, the per-vehicle result a sink receives.\<close>

record 'n MetricsResult =
  mr_Signal :: "'n FlexibilitySignal"
  mr_StartTime :: Time
  mr_EndTime :: Time
  mr_VehicleID :: string
  mr_PowerKW :: 'n
  mr_Score :: 'n
  mr_MarketPrice :: 'n
  mr_Acknowledged :: bool
  mr_DispatchTime :: Time

text \<open>The record of lines 42 to 48: energy injected or consumed.\<close>

definition eco_record :: "string \<Rightarrow> Time \<Rightarrow> 'n \<Rightarrow> Duration \<Rightarrow> 'n::{zero,one,plus,uminus,times,inverse,ord} Record" where
  "eco_record vid t p d =
     (let kwh = p * Hours d;
          rec = \<lparr>RecVehicleID = vid, RecDate = t, InjectedKWh = 0, ConsumedKWh = 0\<rparr>
      in if 0 \<le> p then rec\<lparr>InjectedKWh := kwh\<rparr> else rec\<lparr>ConsumedKWh := - kwh\<rparr>)"

text \<open>
  \<open>EcoSink.RecordDispatchResult\<close> over any store: \<open>gauges\<close> are the three Prometheus vectors, by
  vehicle and day.
\<close>

type_synonym 'n eco_gauges = "(string \<times> Time) \<rightharpoonup> 'n \<times> 'n \<times> 'n"

fun EcoSink_RecordDispatchResult ::
  "('n Record \<Rightarrow> 's \<Rightarrow> 's \<times> go_error option) \<Rightarrow> (string \<Rightarrow> Time \<Rightarrow> Time \<Rightarrow> 's \<Rightarrow> go_error + 'n Record list)
    \<Rightarrow> 'n::{zero,one,plus,uminus,times,inverse,ord} \<Rightarrow> 'n MetricsResult list \<Rightarrow> 's \<Rightarrow> 'n eco_gauges
    \<Rightarrow> 's \<times> 'n eco_gauges \<times> go_error option" where
  "EcoSink_RecordDispatchResult add query factor [] s g = (s, g, None)"
| "EcoSink_RecordDispatchResult add query factor (r # rs) s g =
     (let rec = eco_record (mr_VehicleID r) (mr_StartTime r) (mr_PowerKW r)
                  (timeSub (mr_EndTime r) (mr_StartTime r)) in
      case add rec s of
        (s1, Some e) \<Rightarrow> (s1, g, Some e)
      | (s1, None) \<Rightarrow>
          (let day = Day (RecDate rec) in
           case query (mr_VehicleID r) day day s1 of
             Inl e \<Rightarrow> (s1, g, Some e)
           | Inr records \<Rightarrow>
               (let g1 = (case records of
                            [] \<Rightarrow> g
                          | rr # _ \<Rightarrow> g((mr_VehicleID r, day) \<mapsto>
                                        (InjectedKWh rr, EnergyRatio rr, CO2Avoided rr factor)))
                in EcoSink_RecordDispatchResult add query factor rs s1 g1)))"

text \<open>
  \<open>Backfill\<close> (\<open>jobs/ecokpi/backfill.go\<close>): the history as the signal and the assignments of each
  dispatch, the latter in the order the map is ranged over.
\<close>

fun backfill_assignments ::
  "('n Record \<Rightarrow> 's \<Rightarrow> 's \<times> go_error option) \<Rightarrow> 'n::{zero,one,plus,uminus,times,inverse,ord} FlexibilitySignal
    \<Rightarrow> (string \<times> 'n) list \<Rightarrow> 's \<Rightarrow> 's \<times> go_error option" where
  "backfill_assignments add sig [] s = (s, None)"
| "backfill_assignments add sig ((vid, p) # xs) s =
     (case add (eco_record vid (Day (Timestamp sig)) p (SigDuration sig)) s of
        (s1, Some e) \<Rightarrow> (s1, Some e)
      | (s1, None) \<Rightarrow> backfill_assignments add sig xs s1)"

fun Backfill ::
  "('n Record \<Rightarrow> 's \<Rightarrow> 's \<times> go_error option)
    \<Rightarrow> ('n::{zero,one,plus,uminus,times,inverse,ord} FlexibilitySignal \<times> (string \<times> 'n) list) list
    \<Rightarrow> 's \<Rightarrow> 's \<times> go_error option" where
  "Backfill add [] s = (s, None)"
| "Backfill add ((sig, asn) # hs) s =
     (case backfill_assignments add sig asn s of
        (s1, Some e) \<Rightarrow> (s1, Some e)
      | (s1, None) \<Rightarrow> Backfill add hs s1)"

subsection \<open>The contract of a store\<close>

text \<open>
  What a store accumulates, by vehicle and day: injected and consumed energy. \<open>kpi_add\<close> is the
  specification of \<open>Add\<close>.
\<close>

type_synonym kpi = "string \<Rightarrow> int \<Rightarrow> (real \<times> real) option"

definition kpi_add :: "real Record \<Rightarrow> kpi \<Rightarrow> kpi" where
  "kpi_add r k = (\<lambda>v d. if v = RecVehicleID r \<and> d = inst (Day (RecDate r))
     then (case k v d of
             None \<Rightarrow> Some (InjectedKWh r, ConsumedKWh r)
           | Some (i, c) \<Rightarrow> Some (i + InjectedKWh r, c + ConsumedKWh r))
     else k v d)"

definition kpi_record :: "string \<Rightarrow> int \<Rightarrow> real \<times> real \<Rightarrow> real Record" where
  "kpi_record v d x = \<lparr>RecVehicleID = v, RecDate = \<lparr>inst = d, zone = 0\<rparr>, InjectedKWh = fst x, ConsumedKWh = snd x\<rparr>"

definition by_date :: "real Record list \<Rightarrow> bool" where
  "by_date rs \<longleftrightarrow> sorted_wrt (\<lambda>x y. inst (RecDate x) < inst (RecDate y)) rs"

lemma by_date_unique:
  assumes "by_date xs" "by_date ys" "set xs = set ys"
  shows "xs = ys"
proof -
  let ?f = "\<lambda>r. inst (RecDate r)"
  have s: "sorted_wrt (<) (map ?f xs)" "sorted_wrt (<) (map ?f ys)"
    using assms(1,2) by (simp_all add: by_date_def sorted_wrt_map)
  have inj: "inj_on ?f (set xs)"
    using s(1) by (metis distinct_map strict_sorted_iff)
  have "map ?f xs = map ?f ys"
    using s assms(3) by (intro strict_sorted_equal) auto
  with inj assms(3) show ?thesis by (metis Un_absorb map_inj_on)
qed

text \<open>The injected energy of a vehicle over a range of days.\<close>

definition kpi_days :: "kpi \<Rightarrow> string \<Rightarrow> int \<Rightarrow> int \<Rightarrow> int set" where
  "kpi_days k v a b = {d. k v d \<noteq> None \<and> a \<le> d \<and> d \<le> b}"

definition kpi_injected :: "kpi \<Rightarrow> string \<Rightarrow> int \<Rightarrow> int \<Rightarrow> real" where
  "kpi_injected k v a b = (\<Sum>d\<in>kpi_days k v a b. fst (the (k v d)))"

definition counts_for :: "string \<Rightarrow> int \<Rightarrow> int \<Rightarrow> real Record \<Rightarrow> bool" where
  "counts_for v a b r \<longleftrightarrow> RecVehicleID r = v \<and> a \<le> inst (Day (RecDate r)) \<and> inst (Day (RecDate r)) \<le> b"

lemma kpi_injected_add:
  assumes "finite (kpi_days k v a b)"
  shows "kpi_injected (kpi_add r k) v a b = kpi_injected k v a b + (if counts_for v a b r then InjectedKWh r else 0)"
proof (cases "counts_for v a b r")
  case False
  then have same: "kpi_add r k v d = k v d" if "a \<le> d" "d \<le> b" for d
    using that by (auto simp: kpi_add_def counts_for_def)
  then have "kpi_days (kpi_add r k) v a b = kpi_days k v a b" by (auto simp: kpi_days_def)
  with False same show ?thesis by (simp add: kpi_injected_def kpi_days_def)
next
  case True
  define d0 where "d0 = inst (Day (RecDate r))"
  have other: "kpi_add r k v d = k v d" if "d \<noteq> d0" for d using that by (simp add: kpi_add_def d0_def)
  have days: "kpi_days (kpi_add r k) v a b = insert d0 (kpi_days k v a b - {d0})"
    using True by (auto simp: kpi_days_def kpi_add_def counts_for_def d0_def split: option.splits)
  have "kpi_injected (kpi_add r k) v a b =
      fst (the (kpi_add r k v d0)) + (\<Sum>d\<in>kpi_days k v a b - {d0}. fst (the (k v d)))"
    unfolding kpi_injected_def days using assms other by (subst sum.insert) simp_all
  moreover have "fst (the (kpi_add r k v d0)) = (if d0 \<in> kpi_days k v a b then fst (the (k v d0)) else 0) + InjectedKWh r"
    using True by (auto simp: kpi_days_def kpi_add_def counts_for_def d0_def split: option.split)
  moreover have "kpi_injected k v a b = (if d0 \<in> kpi_days k v a b then fst (the (k v d0)) else 0) +
      (\<Sum>d\<in>kpi_days k v a b - {d0}. fst (the (k v d)))"
    unfolding kpi_injected_def using assms by (simp add: sum.remove)
  ultimately show ?thesis using True by simp
qed

locale eco_store =
  fixes add :: "real Record \<Rightarrow> 's \<Rightarrow> 's"
    and query :: "string \<Rightarrow> Time \<Rightarrow> Time \<Rightarrow> 's \<Rightarrow> real Record list"
    and kpi :: "'s \<Rightarrow> kpi"
    and ok :: "'s \<Rightarrow> bool"
  assumes add_ok: "ok s \<Longrightarrow> ok (add r s)"
    and add_kpi: "ok s \<Longrightarrow> kpi (add r s) = kpi_add r (kpi s)"
    and query_set: "ok s \<Longrightarrow> set (query v a b s) =
      {kpi_record v d x | d x. kpi s v d = Some x \<and> inst (Day a) \<le> d \<and> d \<le> inst (Day b)}"
    and query_sorted: "ok s \<Longrightarrow> by_date (query v a b s)"
begin

definition add_all :: "real Record list \<Rightarrow> 's \<Rightarrow> 's" where
  "add_all rs s = foldl (\<lambda>s r. add r s) s rs"

lemma add_all_ok: "ok s \<Longrightarrow> ok (add_all rs s) \<and> kpi (add_all rs s) = foldl (\<lambda>k r. kpi_add r k) (kpi s) rs"
  unfolding add_all_def by (induction rs arbitrary: s) (auto simp: add_ok add_kpi)

text \<open>A query of one day returns its record, if there is one.\<close>

lemma query_day:
  assumes "ok s"
  shows "query v day day s = (case kpi s v (inst (Day day)) of None \<Rightarrow> [] | Some x \<Rightarrow> [kpi_record v (inst (Day day)) x])"
proof (cases "kpi s v (inst (Day day))")
  case None
  then have "set (query v day day s) = {}" using query_set [OF assms] by auto
  with None show ?thesis by simp
next
  case (Some x)
  have "set (query v day day s) = set [kpi_record v (inst (Day day)) x]"
  proof (intro equalityI subsetI)
    fix r assume "r \<in> set (query v day day s)"
    then show "r \<in> set [kpi_record v (inst (Day day)) x]" using query_set [OF assms, of v day day] Some by auto
  next
    fix r assume "r \<in> set [kpi_record v (inst (Day day)) x]"
    then have "r = kpi_record v (inst (Day day)) x" by simp
    then show "r \<in> set (query v day day s)" unfolding query_set [OF assms, of v day day] using Some by blast
  qed
  with query_sorted [OF assms] have "query v day day s = [kpi_record v (inst (Day day)) x]"
    by (intro by_date_unique) (auto simp: by_date_def)
  with Some show ?thesis by simp
qed

text \<open>A query adds up to the injected energy that the store holds for its range of days.\<close>

lemma query_injected:
  assumes "ok s"
  shows "finite (kpi_days (kpi s) v (inst (Day a)) (inst (Day b)))"
    "(\<Sum>r\<leftarrow>query v a b s. InjectedKWh r) = kpi_injected (kpi s) v (inst (Day a)) (inst (Day b))"
proof -
  let ?D = "kpi_days (kpi s) v (inst (Day a)) (inst (Day b))" and ?rec = "\<lambda>d. kpi_record v d (the (kpi s v d))"
  have q: "set (query v a b s) = ?rec ` ?D"
    unfolding query_set [OF assms] kpi_days_def by force
  have inj: "inj_on ?rec ?D" by (rule inj_onI) (simp add: kpi_record_def)
  show "finite ?D" using inj q by (metis List.finite_set finite_imageD)
  have "sorted_wrt (<) (map (\<lambda>r. inst (RecDate r)) (query v a b s))"
    using query_sorted [OF assms] by (simp add: by_date_def sorted_wrt_map)
  then have "distinct (query v a b s)" by (simp add: strict_sorted_iff distinct_map)
  then have "(\<Sum>r\<leftarrow>query v a b s. InjectedKWh r) = sum InjectedKWh (?rec ` ?D)"
    unfolding q [symmetric] by (simp add: sum_list_distinct_conv_sum_set)
  also have "\<dots> = kpi_injected (kpi s) v (inst (Day a)) (inst (Day b))"
    using inj by (simp add: sum.reindex kpi_injected_def kpi_record_def)
  finally show "(\<Sum>r\<leftarrow>query v a b s. InjectedKWh r) = kpi_injected (kpi s) v (inst (Day a)) (inst (Day b))" .
qed

lemma query_add_all:
  assumes "ok s"
  shows "(\<Sum>r\<leftarrow>query v a b (add_all rs s). InjectedKWh r) = (\<Sum>r\<leftarrow>query v a b s. InjectedKWh r) +
    (\<Sum>r\<leftarrow>filter (counts_for v (inst (Day a)) (inst (Day b))) rs. InjectedKWh r)"
  using assms
proof (induction rs arbitrary: s)
  case (Cons r rs)
  have "add_all (r # rs) s = add_all rs (add r s)" by (simp add: add_all_def)
  moreover have "(\<Sum>x\<leftarrow>query v a b (add r s). InjectedKWh x) = (\<Sum>x\<leftarrow>query v a b s. InjectedKWh x) +
      (if counts_for v (inst (Day a)) (inst (Day b)) r then InjectedKWh r else 0)"
    using kpi_injected_add [OF query_injected(1) [OF Cons.prems, of v a b], of r]
    by (simp add: query_injected(2) add_ok add_kpi Cons.prems)
  ultimately show ?case using Cons.IH [OF add_ok [OF Cons.prems]] by simp
qed (simp add: add_all_def)

end

text \<open>Two stores that hold the same KPIs answer every query alike.\<close>

lemma stores_agree:
  assumes "eco_store add1 query1 kpi1 ok1" "eco_store add2 query2 kpi2 ok2"
    and "ok1 s1" "ok2 s2" "kpi1 s1 = kpi2 s2"
  shows "query1 v a b s1 = query2 v a b s2"
  by (rule by_date_unique)
    (simp_all add: eco_store.query_sorted [OF assms(1,3)] eco_store.query_sorted [OF assms(2,4)]
      eco_store.query_set [OF assms(1,3)] eco_store.query_set [OF assms(2,4)] assms(5))

subsection \<open>The memory store keeps the contract\<close>

text \<open>What the Go runtime promises of a range loop and of \<open>sort.Slice\<close> on dates.\<close>

locale range_and_sort =
  fixes days :: "(Time \<rightharpoonup> real Record) \<Rightarrow> Time list"
    and sortf :: "real Record list \<Rightarrow> real Record list"
  assumes days_range: "finite (dom m) \<Longrightarrow> ranges (days m) m"
    and sortf_perm: "mset (sortf rs) = mset rs"
    and sortf_sorted: "sorted (map (\<lambda>r. inst (RecDate r)) (sortf rs))"
begin

lemma sortf_by_date:
  assumes "distinct (map (\<lambda>r. inst (RecDate r)) rs)"
  shows "by_date (sortf rs)" "set (sortf rs) = set rs"
proof -
  let ?f = "\<lambda>r. inst (RecDate r)"
  have "mset (map ?f (sortf rs)) = mset (map ?f rs)" using sortf_perm by simp
  then have "distinct (map ?f (sortf rs))" using assms by (metis mset_eq_imp_distinct_iff)
  then have "sorted_wrt (<) (map ?f (sortf rs))" using sortf_sorted by (simp add: strict_sorted_iff)
  then show "by_date (sortf rs)" by (simp add: by_date_def sorted_wrt_map)
  show "set (sortf rs) = set rs" by (metis set_mset_mset sortf_perm)
qed

end

definition memory_ok :: "real eco_memory \<Rightarrow> bool" where
  "memory_ok s \<longleftrightarrow> (\<forall>v m. s v = Some m \<longrightarrow> finite (dom m) \<and>
     (\<forall>d r. m d = Some r \<longrightarrow> RecVehicleID r = v \<and> RecDate r = d \<and> zone d = 0))"

definition memory_kpi :: "real eco_memory \<Rightarrow> kpi" where
  "memory_kpi s v d = (case getd Map.empty s v \<lparr>inst = d, zone = 0\<rparr> of
     None \<Rightarrow> None | Some r \<Rightarrow> Some (InjectedKWh r, ConsumedKWh r))"

lemma Day_zone [simp]: "zone (Day t) = 0" "\<lparr>inst = inst (Day t), zone = 0\<rparr> = Day t" "Day (Day t) = Day t"
  by (simp_all add: Day_def utcMidnight_def duration_units)

lemma time_eqI: "zone t = 0 \<Longrightarrow> \<lparr>inst = inst t, zone = 0\<rparr> = t"
  by (rule Time.equality) simp_all

lemma memory_okD:
  assumes "memory_ok s" "getd Map.empty s v d = Some r"
  shows "RecVehicleID r = v" "RecDate r = d" "zone d = 0"
  using assms by (auto simp: memory_ok_def getd_def split: option.splits)

lemma memory_finite: "memory_ok s \<Longrightarrow> finite (dom (getd Map.empty s v))"
  by (auto simp: memory_ok_def getd_def split: option.splits)

lemma Memory_Add_ok: "memory_ok s \<Longrightarrow> memory_ok (Memory_Add r s)"
proof -
  assume ok: "memory_ok s"
  let ?m = "getd Map.empty s (RecVehicleID r)"
  have "finite (dom ?m)" by (rule memory_finite [OF ok])
  then show ?thesis
    using ok memory_okD [OF ok]
    by (auto simp: memory_ok_def Memory_Add_def Let_def split: option.split)
qed

lemma Memory_Add_kpi: "memory_ok s \<Longrightarrow> memory_kpi (Memory_Add r s) = kpi_add r (memory_kpi s)"
proof (intro ext)
  fix v d
  assume ok: "memory_ok s"
  show "memory_kpi (Memory_Add r s) v d = kpi_add r (memory_kpi s) v d"
  proof (cases "v = RecVehicleID r \<and> d = inst (Day (RecDate r))")
    case True
    then show ?thesis by (auto simp: memory_kpi_def Memory_Add_def kpi_add_def Let_def split: option.split)
  next
    case False
    have "v = RecVehicleID r \<Longrightarrow> \<lparr>inst = d, zone = 0\<rparr> \<noteq> Day (RecDate r)"
      using False by (metis Time.select_convs(1))
    with False show ?thesis by (auto simp: memory_kpi_def Memory_Add_def kpi_add_def Let_def)
  qed
qed

context range_and_sort
begin

lemma memory_day:
  assumes "memory_ok s" "d \<in> dom (getd Map.empty s v)"
  shows "RecDate (the (getd Map.empty s v d)) = d \<and> zone d = 0 \<and> RecVehicleID (the (getd Map.empty s v d)) = v"
  using assms(2) memory_okD [OF assms(1)] by fastforce

lemma memory_record:
  assumes "memory_ok s" "d \<in> dom (getd Map.empty s v)"
  defines "r \<equiv> the (getd Map.empty s v d)"
  shows "r = kpi_record v (inst d) (InjectedKWh r, ConsumedKWh r)" "memory_kpi s v (inst d) = Some (InjectedKWh r, ConsumedKWh r)"
proof -
  note at = memory_day [OF assms(1,2)]
  show "r = kpi_record v (inst d) (InjectedKWh r, ConsumedKWh r)"
    using at unfolding r_def by (intro Record.equality) (auto simp: kpi_record_def time_eqI)
  have "\<lparr>inst = inst d, zone = 0\<rparr> = d" using at time_eqI by blast
  then show "memory_kpi s v (inst d) = Some (InjectedKWh r, ConsumedKWh r)"
    using assms(2) unfolding r_def by (auto simp: memory_kpi_def)
qed

text \<open>The records of the days between two days, as the abstract store has them.\<close>

lemma memory_records_between:
  assumes "memory_ok s"
  shows "(\<lambda>d. the (getd Map.empty s v d)) ` {d \<in> dom (getd Map.empty s v). \<not> (timeBefore d (Day a) \<or> timeAfter d (Day b))} =
    {kpi_record v d x | d x. memory_kpi s v d = Some x \<and> inst (Day a) \<le> d \<and> d \<le> inst (Day b)}" (is "?L = ?R")
proof (intro equalityI subsetI)
  fix r assume "r \<in> ?L"
  then obtain d where d: "d \<in> dom (getd Map.empty s v)" "r = the (getd Map.empty s v d)" "inst (Day a) \<le> inst d" "inst d \<le> inst (Day b)"
    by (fastforce simp: timeBefore_def timeAfter_def)
  with memory_record [OF assms d(1)] show "r \<in> ?R" by blast
next
  fix r assume "r \<in> ?R"
  then obtain d x where r: "r = kpi_record v d x" "memory_kpi s v d = Some x" "inst (Day a) \<le> d" "d \<le> inst (Day b)" by blast
  let ?d = "\<lparr>inst = d, zone = 0\<rparr>"
  have d: "?d \<in> dom (getd Map.empty s v)" using r(2) by (auto simp: memory_kpi_def split: option.splits)
  with memory_record [OF assms d] r show "r \<in> ?L"
    by (auto simp: timeBefore_def timeAfter_def intro!: image_eqI [of _ _ ?d])
qed

lemma memory_query_set:
  assumes ok: "memory_ok s"
  shows "by_date (Memory_Query days sortf v a b s)"
    and "set (Memory_Query days sortf v a b s) =
      {kpi_record v d x | d x. memory_kpi s v d = Some x \<and> inst (Day a) \<le> d \<and> d \<le> inst (Day b)}"
proof -
  let ?m = "getd Map.empty s v"
  let ?P = "\<lambda>d. \<not> (timeBefore d (Day a) \<or> timeAfter d (Day b))"
  let ?rs = "map (\<lambda>d. the (?m d)) (filter ?P (days ?m))"
  have rg: "distinct (days ?m)" "set (days ?m) = dom ?m"
    using days_range [OF memory_finite [OF ok]] by (auto simp: ranges_def)
  note at = memory_day [OF ok, of _ v]
  have "map (\<lambda>r. inst (RecDate r)) ?rs = map inst (filter ?P (days ?m))"
    using at rg(2) by (auto simp: comp_def)
  moreover have "inj_on inst (set (days ?m))"
    using at rg(2) by (intro inj_onI) (metis time_eqI)
  then have "distinct (map inst (filter ?P (days ?m)))"
    using rg(1) by (simp add: distinct_map inj_on_def)
  ultimately have d: "distinct (map (\<lambda>r. inst (RecDate r)) ?rs)" by (simp only:)
  have q: "Memory_Query days sortf v a b s = sortf ?rs" by (simp add: Memory_Query_def Let_def)
  show "by_date (Memory_Query days sortf v a b s)" unfolding q by (rule sortf_by_date(1) [OF d])
  have "set ?rs = {kpi_record v d x | d x. memory_kpi s v d = Some x \<and> inst (Day a) \<le> d \<and> d \<le> inst (Day b)}"
    unfolding memory_records_between [OF ok, symmetric] using rg(2) by auto
  then show "set (Memory_Query days sortf v a b s) =
      {kpi_record v d x | d x. memory_kpi s v d = Some x \<and> inst (Day a) \<le> d \<and> d \<le> inst (Day b)}"
    unfolding q sortf_by_date(2) [OF d] .
qed

end

sublocale range_and_sort \<subseteq> memory: eco_store Memory_Add "Memory_Query days sortf" memory_kpi memory_ok
  by unfold_locales (auto simp: Memory_Add_ok Memory_Add_kpi memory_query_set)

context range_and_sort
begin

lemma axioms_memory: "eco_store Memory_Add (Memory_Query days sortf) memory_kpi memory_ok"
  by (rule memory.eco_store_axioms)

end

interpretation any_order: range_and_sort "\<lambda>m. SOME ks. ranges ks m" "sort_key (\<lambda>r. inst (RecDate r))"
  by unfold_locales (auto intro: someI_ex ranges_exists)

subsection \<open>The SQLite store keeps the contract\<close>

definition sqlite_ok :: "real eco_row list \<Rightarrow> bool" where
  "sqlite_ok db \<longleftrightarrow> distinct (map (\<lambda>x. (row_vehicle x, row_day x)) db) \<and>
     list_all (\<lambda>x. \<exists>t. row_day x = timeUnix (Day t)) db"

text \<open>The day as an instant against the seconds of the table.\<close>

definition sqlite_kpi :: "real eco_row list \<Rightarrow> kpi" where
  "sqlite_kpi db v d =
     map_option (\<lambda>x. (row_injected x, row_consumed x))
       (find (\<lambda>x. row_vehicle x = v \<and> inst (ofUnix 0 (row_day x)) = d) db)"

lemma ofUnix_Day [simp]: "ofUnix 0 (timeUnix (Day t)) = Day t"
proof -
  have "Second dvd dayNanos" by (simp add: duration_units)
  then have "inst (Day t) div Second * Second = inst (Day t)"
    by (simp add: Day_def utcMidnight_def dvd_div_mult_self)
  then show ?thesis by (simp add: ofUnix_def timeUnix_def Day_def utcMidnight_def)
qed

lemma inst_ofUnix_inj: "inst (ofUnix 0 a) = inst (ofUnix 0 b) \<longleftrightarrow> a = b"
  by (simp add: ofUnix_def Second_def)

lemma upsert_keys:
  "set (map (\<lambda>x. (row_vehicle x, row_day x)) (upsert r db)) =
   insert (row_vehicle r, row_day r) (set (map (\<lambda>x. (row_vehicle x, row_day x)) db))"
  by (induction db) auto

lemma upsert_distinct:
  "distinct (map (\<lambda>x. (row_vehicle x, row_day x)) db) \<Longrightarrow>
   distinct (map (\<lambda>x. (row_vehicle x, row_day x)) (upsert r db))"
proof (induction db)
  case (Cons x xs)
  then show ?case using upsert_keys [of r xs] by auto
qed simp

lemma upsert_days:
  "list_all (\<lambda>x. P (row_day x)) db \<Longrightarrow> P (row_day r) \<Longrightarrow> list_all (\<lambda>x. P (row_day x)) (upsert r db)"
  by (induction db) auto

lemma upsert_find:
  "find (\<lambda>x. row_vehicle x = v \<and> inst (ofUnix 0 (row_day x)) = d) (upsert r db) =
    (if v = row_vehicle r \<and> d = inst (ofUnix 0 (row_day r))
     then Some (case find (\<lambda>x. row_vehicle x = v \<and> inst (ofUnix 0 (row_day x)) = d) db of
                  None \<Rightarrow> r
                | Some x \<Rightarrow> x\<lparr>row_injected := row_injected x + row_injected r,
                               row_consumed := row_consumed x + row_consumed r\<rparr>)
     else find (\<lambda>x. row_vehicle x = v \<and> inst (ofUnix 0 (row_day x)) = d) db)"
  by (induction db) (auto simp: inst_ofUnix_inj)

abbreviation sqlite_add :: "real Record \<Rightarrow> real eco_row list \<Rightarrow> real eco_row list" where
  "sqlite_add r db \<equiv> fst (Sqlite_Add None r db)"

abbreviation sqlite_query :: "string \<Rightarrow> Time \<Rightarrow> Time \<Rightarrow> real eco_row list \<Rightarrow> real Record list" where
  "sqlite_query v a b db \<equiv> projr (Sqlite_Query None v a b db)"

lemma sqlite_add_ok: "sqlite_ok db \<Longrightarrow> sqlite_ok (sqlite_add r db)"
  by (auto simp: sqlite_ok_def Sqlite_Add_def intro!: upsert_distinct upsert_days)

lemma sqlite_add_kpi: "sqlite_kpi (sqlite_add r db) = kpi_add r (sqlite_kpi db)"
  by (intro ext) (auto simp: sqlite_kpi_def Sqlite_Add_def upsert_find kpi_add_def split: option.split)

definition row_record :: "real eco_row \<Rightarrow> real Record" where
  "row_record x = \<lparr>RecVehicleID = row_vehicle x, RecDate = ofUnix 0 (row_day x),
     InjectedKWh = row_injected x, ConsumedKWh = row_consumed x\<rparr>"

lemma sqlite_kpi_mem:
  assumes "sqlite_ok db"
  shows "sqlite_kpi db v d = Some y \<longleftrightarrow>
    (\<exists>x\<in>set db. row_vehicle x = v \<and> inst (ofUnix 0 (row_day x)) = d \<and> y = (row_injected x, row_consumed x))"
proof -
  have "distinct (map (\<lambda>x. (row_vehicle x, row_day x)) db)" using assms by (simp add: sqlite_ok_def)
  then show ?thesis
  proof (induction db)
    case (Cons z zs)
    show ?case
    proof (cases "row_vehicle z = v \<and> inst (ofUnix 0 (row_day z)) = d")
      case True
      have "\<not> (row_vehicle x = v \<and> inst (ofUnix 0 (row_day x)) = d)" if "x \<in> set zs" for x
        using Cons.prems True that by (auto simp: inst_ofUnix_inj image_iff)
      with True show ?thesis by (auto simp: sqlite_kpi_def)
    next
      case False
      then have "sqlite_kpi (z # zs) v d = sqlite_kpi zs v d" by (auto simp: sqlite_kpi_def)
      with False Cons show ?thesis by auto
    qed
  qed (simp add: sqlite_kpi_def)
qed

lemma sqlite_query_eq:
  "sqlite_query v a b db = map row_record (sort_key row_day
     (filter (\<lambda>x. row_vehicle x = v \<and> timeUnix (Day a) \<le> row_day x \<and> row_day x \<le> timeUnix (Day b)) db))"
  by (simp add: Sqlite_Query_def row_record_def [abs_def])

lemma sqlite_query_sorted:
  assumes "sqlite_ok db"
  shows "by_date (sqlite_query v a b db)"
proof -
  let ?xs = "filter (\<lambda>x. row_vehicle x = v \<and> timeUnix (Day a) \<le> row_day x \<and> row_day x \<le> timeUnix (Day b)) db"
  have "distinct (map (\<lambda>x. (row_vehicle x, row_day x)) ?xs)"
    using assms by (simp add: sqlite_ok_def distinct_map_filter)
  then have "inj_on (\<lambda>x. (row_vehicle x, row_day x)) (set ?xs)" "distinct ?xs"
    by (auto simp: distinct_map)
  then have "distinct (map row_day ?xs)" by (auto simp: distinct_map inj_on_def)
  moreover have "mset (map row_day (sort_key row_day ?xs)) = mset (map row_day ?xs)" by simp
  note mset_eq_imp_distinct_iff [OF this]
  ultimately have "distinct (map row_day (sort_key row_day ?xs))" by (simp only:)
  then have "sorted_wrt (<) (map row_day (sort_key row_day ?xs))" by (simp add: strict_sorted_iff)
  then have srt: "sorted_wrt (\<lambda>x y. row_day x < row_day y) (sort_key row_day ?xs)"
    by (simp only: sorted_wrt_map)
  show ?thesis
    unfolding sqlite_query_eq by_date_def sorted_wrt_map
    by (rule sorted_wrt_mono_rel [OF _ srt]) (simp add: row_record_def ofUnix_def Second_def)
qed

lemma Day_le_unix: "inst (Day a) \<le> inst (ofUnix 0 u) \<longleftrightarrow> timeUnix (Day a) \<le> u"
  "inst (ofUnix 0 u) \<le> inst (Day a) \<longleftrightarrow> u \<le> timeUnix (Day a)"
proof -
  have d: "inst (Day a) = (timeUnix (Day a) + 62135596800) * Second"
    using arg_cong [OF ofUnix_Day [of a], of inst] by (simp only: ofUnix_def Time.select_convs)
  show "inst (Day a) \<le> inst (ofUnix 0 u) \<longleftrightarrow> timeUnix (Day a) \<le> u"
    "inst (ofUnix 0 u) \<le> inst (Day a) \<longleftrightarrow> u \<le> timeUnix (Day a)"
    unfolding d by (simp_all add: ofUnix_def Second_def)
qed

lemma sqlite_query_set:
  assumes "sqlite_ok db"
  shows "set (sqlite_query v a b db) =
    {kpi_record v d x | d x. sqlite_kpi db v d = Some x \<and> inst (Day a) \<le> d \<and> d \<le> inst (Day b)}"
proof -
  have rec: "row_record x = kpi_record (row_vehicle x) (inst (ofUnix 0 (row_day x))) (row_injected x, row_consumed x)" for x
    by (simp add: row_record_def kpi_record_def ofUnix_def)
  show ?thesis
    unfolding sqlite_query_eq sqlite_kpi_mem [OF assms]
    by (force simp: rec Day_le_unix)
qed

interpretation sqlite: eco_store sqlite_add sqlite_query sqlite_kpi sqlite_ok
  by unfold_locales (simp_all only: sqlite_add_ok sqlite_add_kpi sqlite_query_set sqlite_query_sorted)

text \<open>
  The two KPI stores are interchangeable: after the same additions they answer every query with
  the same records in the same order, whatever order the runtime ranges over the map in and however
  \<open>sort.Slice\<close> breaks ties.
\<close>

theorem eco_stores_agree:
  assumes "range_and_sort days sortf"
  shows "Memory_Query days sortf v a b (foldl (\<lambda>s r. Memory_Add r s) Memory_New rs) =
    projr (Sqlite_Query None v a b (foldl (\<lambda>s r. fst (Sqlite_Add None r s)) Sqlite_New rs))"
proof -
  note mem = range_and_sort.axioms_memory [OF assms]
  have m0: "memory_ok Memory_New" "memory_kpi Memory_New = (\<lambda>v d. None)"
    by (auto simp: memory_ok_def Memory_New_def memory_kpi_def fun_eq_iff)
  have q0: "sqlite_ok Sqlite_New" "sqlite_kpi Sqlite_New = (\<lambda>v d. None)"
    by (auto simp: sqlite_ok_def Sqlite_New_def sqlite_kpi_def fun_eq_iff)
  note ma = eco_store.add_all_ok [OF mem, OF m0(1), of rs, unfolded eco_store.add_all_def [OF mem]]
  note qa = sqlite.add_all_ok [OF q0(1), of rs, unfolded sqlite.add_all_def]
  show ?thesis
    by (rule stores_agree [OF mem sqlite.eco_store_axioms])
      (use ma qa m0(2) q0(2) in simp_all)
qed

theorem eco_stores_agree_witness:
  "Memory_Query (\<lambda>m. SOME ks. ranges ks m) (sort_key (\<lambda>r. inst (RecDate r))) ''v'' timeZero timeZero
     (foldl (\<lambda>s r. Memory_Add r s) Memory_New
        [\<lparr>RecVehicleID = ''v'', RecDate = timeZero, InjectedKWh = 2 :: real, ConsumedKWh = 0\<rparr>,
         \<lparr>RecVehicleID = ''v'', RecDate = timeAdd timeZero Hour, InjectedKWh = 1, ConsumedKWh = 0\<rparr>]) =
   projr (Sqlite_Query None ''v'' timeZero timeZero
     (foldl (\<lambda>s r. fst (Sqlite_Add None r s)) Sqlite_New
        [\<lparr>RecVehicleID = ''v'', RecDate = timeZero, InjectedKWh = 2 :: real, ConsumedKWh = 0\<rparr>,
         \<lparr>RecVehicleID = ''v'', RecDate = timeAdd timeZero Hour, InjectedKWh = 1, ConsumedKWh = 0\<rparr>]))"
  by (rule eco_stores_agree [OF any_order.range_and_sort_axioms])

subsection \<open>Live recording and backfill\<close>

text \<open>The results the dispatch manager hands to its sink for one dispatch (\<open>recordMetrics\<close>).\<close>

definition live_results :: "real FlexibilitySignal \<times> (string \<times> real) list \<Rightarrow> real MetricsResult list" where
  "live_results h = (case h of (sig, asn) \<Rightarrow>
     map (\<lambda>(vid, p). \<lparr>mr_Signal = sig, mr_StartTime = Timestamp sig,
            mr_EndTime = timeAdd (Timestamp sig) (SigDuration sig), mr_VehicleID = vid, mr_PowerKW = p,
            mr_Score = 0, mr_MarketPrice = 0, mr_Acknowledged = True, mr_DispatchTime = Timestamp sig\<rparr>) asn)"

abbreviation mem_add :: "real Record \<Rightarrow> real eco_memory \<Rightarrow> real eco_memory \<times> go_error option" where
  "mem_add r s \<equiv> (Memory_Add r s, None)"

lemma Memory_Add_Day: "Memory_Add (eco_record vid (Day t) p d) s = Memory_Add (eco_record vid t p d) s"
proof -
  have cong: "Memory_Add r s = Memory_Add r' s"
    if "RecVehicleID r = RecVehicleID r'" "Day (RecDate r) = Day (RecDate r')"
      "InjectedKWh r = InjectedKWh r'" "ConsumedKWh r = ConsumedKWh r'" for r r' :: "'a Record"
    unfolding Memory_Add_def that ..
  show ?thesis by (rule cong) (simp_all add: eco_record_def Let_def)
qed

lemma timeSub_timeAdd: "int64 d \<Longrightarrow> timeSub (timeAdd t d) t = d"
  by (auto simp: timeSub_def timeAdd_def int64_def)

lemma EcoSink_append:
  assumes "\<And>v a b s. \<exists>rs. query v a b s = Inr rs"
  shows "\<exists>g'. EcoSink_RecordDispatchResult mem_add query f (xs @ ys) s g =
    EcoSink_RecordDispatchResult mem_add query f ys (fst (EcoSink_RecordDispatchResult mem_add query f xs s g)) g' \<and>
    snd (snd (EcoSink_RecordDispatchResult mem_add query f xs s g)) = None"
proof (induction xs arbitrary: s g)
  case (Cons x xs)
  let ?s = "Memory_Add (eco_record (mr_VehicleID x) (mr_StartTime x) (mr_PowerKW x)
      (timeSub (mr_EndTime x) (mr_StartTime x))) s"
  obtain rs where "query (mr_VehicleID x) (Day (RecDate (eco_record (mr_VehicleID x) (mr_StartTime x) (mr_PowerKW x)
      (timeSub (mr_EndTime x) (mr_StartTime x))))) (Day (RecDate (eco_record (mr_VehicleID x) (mr_StartTime x) (mr_PowerKW x)
      (timeSub (mr_EndTime x) (mr_StartTime x))))) ?s = Inr rs" using assms by blast
  with Cons.IH show ?case by (simp add: Let_def)
qed auto

lemma live_one:
  assumes "\<And>v a b s. \<exists>rs. query v a b s = Inr rs" "int64 (SigDuration sig)"
  shows "fst (EcoSink_RecordDispatchResult mem_add query f (live_results (sig, asn)) s g) =
    fst (backfill_assignments mem_add sig asn s) \<and> snd (backfill_assignments mem_add sig asn s) = None"
proof (induction asn arbitrary: s g)
  case (Cons x asn)
  obtain vid p where x: "x = (vid, p)" by fastforce
  let ?r = "eco_record vid (Timestamp sig) p (SigDuration sig)"
  obtain rs where q: "query vid (Day (RecDate ?r)) (Day (RecDate ?r)) (Memory_Add ?r s) = Inr rs"
    using assms(1) by blast
  have "fst (EcoSink_RecordDispatchResult mem_add query f (live_results (sig, x # asn)) s g) =
      fst (EcoSink_RecordDispatchResult mem_add query f (live_results (sig, asn)) (Memory_Add ?r s)
        (case rs of [] \<Rightarrow> g | rr # _ \<Rightarrow> g((vid, Day (RecDate ?r)) \<mapsto> (InjectedKWh rr, EnergyRatio rr, CO2Avoided rr f))))"
    using q by (cases rs) (simp_all add: live_results_def x Let_def timeSub_timeAdd [OF assms(2)])
  with Cons.IH x show ?case by (simp add: Memory_Add_Day)
qed (simp add: live_results_def)



end
