(* ===== verification/Vehicle_Status.thy ===== *)
theory Vehicle_Status
  imports Core_Model "HOL-Library.List_Lexorder" "HOL-Library.Char_ord"
begin

text \<open>
  The vehicle status store, \<open>core/vehiclestatus/store.go\<close>. Its mutex makes every method one step.
  \<open>List\<close> ranges over a Go map and sorts: the order of iteration and \<open>sort.Slice\<close> are arguments.
  Go compares strings by bytes, as the lexicographic order of the library does.
\<close>

subsection \<open>Data\<close>

record TimeWindow =
  TwStart :: Time
  TwEnd :: Time

record 'n LastDispatch =
  LdSignalType :: string
  LdTargetPower :: 'n
  LdVehiclesSelected :: "string list"
  LdTimestamp :: Time

record 'n Status =
  StVehicleID :: string
  StFleetID :: string
  StSite :: string
  StCluster :: string
  CurrentStatus :: string
  ForecastedPluginWindow :: TimeWindow
  ForecastedSoC :: "string \<rightharpoonup> 'n"
  NextDispatchWindow :: TimeWindow
  LastDispatchDecision :: "'n LastDispatch"

record Filter =
  FFleetID :: string
  FSite :: string
  FCluster :: string

definition zeroWindow :: TimeWindow where
  "zeroWindow = \<lparr>TwStart = timeZero, TwEnd = timeZero\<rparr>"

definition zeroStatus :: "'n::zero Status" where
  "zeroStatus = \<lparr>StVehicleID = [], StFleetID = [], StSite = [], StCluster = [], CurrentStatus = [],
     ForecastedPluginWindow = zeroWindow, ForecastedSoC = Map.empty, NextDispatchWindow = zeroWindow,
     LastDispatchDecision = \<lparr>LdSignalType = [], LdTargetPower = 0, LdVehiclesSelected = [], LdTimestamp = timeZero\<rparr>\<rparr>"

subsection \<open>Operations\<close>

type_synonym 'n status_store = "string \<rightharpoonup> 'n Status"

definition Status_NewMemoryStore :: "'n status_store" where
  "Status_NewMemoryStore = Map.empty"

definition Status_Set :: "'n Status \<Rightarrow> 'n status_store \<Rightarrow> 'n status_store" where
  "Status_Set st s = s(StVehicleID st \<mapsto> st)"

definition RecordDispatch :: "string \<Rightarrow> 'n LastDispatch \<Rightarrow> 'n::zero status_store \<Rightarrow> 'n status_store" where
  "RecordDispatch i dec s =
     (let st = getd zeroStatus s i;
          st1 = (if StVehicleID st = [] then st\<lparr>StVehicleID := i\<rparr> else st);
          st2 = st1\<lparr>LastDispatchDecision := dec, CurrentStatus := ''dispatched''\<rparr>
      in s(i \<mapsto> st2))"

definition filter_match :: "Filter \<Rightarrow> 'n Status \<Rightarrow> bool" where
  "filter_match f st \<longleftrightarrow>
     \<not> (FFleetID f \<noteq> [] \<and> StFleetID st \<noteq> FFleetID f) \<and>
     \<not> (FSite f \<noteq> [] \<and> StSite st \<noteq> FSite f) \<and>
     \<not> (FCluster f \<noteq> [] \<and> StCluster st \<noteq> FCluster f)"

definition Status_List ::
  "string list \<Rightarrow> ('n Status list \<Rightarrow> 'n Status list) \<Rightarrow> Filter \<Rightarrow> 'n status_store \<Rightarrow> 'n Status list" where
  "Status_List ks sortf f s = sortf (filter (filter_match f) (map (\<lambda>k. the (s k)) ks))"

subsection \<open>Runs\<close>

datatype 'n status_op = OpSet "'n Status" | OpRecord string "'n LastDispatch"

fun status_exec :: "'n::zero status_op \<Rightarrow> 'n status_store \<Rightarrow> 'n status_store" where
  "status_exec (OpSet st) s = Status_Set st s"
| "status_exec (OpRecord i dec) s = RecordDispatch i dec s"

definition status_run :: "'n::zero status_op list \<Rightarrow> 'n status_store" where
  "status_run ops = foldl (\<lambda>s op. status_exec op s) Status_NewMemoryStore ops"

text \<open>Every status is filed under its own vehicle.\<close>

definition status_inv :: "'n status_store \<Rightarrow> bool" where
  "status_inv s \<longleftrightarrow> finite (dom s) \<and> (\<forall>k st. s k = Some st \<longrightarrow> StVehicleID st = k)"

lemma status_inv_put: "status_inv s \<Longrightarrow> StVehicleID st = k \<Longrightarrow> status_inv (s(k \<mapsto> st))"
  by (simp add: status_inv_def)

lemma RecordDispatch_inv:
  assumes "status_inv s"
  shows "status_inv (RecordDispatch i dec s)"
proof -
  let ?st = "getd zeroStatus s i"
  have id: "StVehicleID ?st \<noteq> [] \<Longrightarrow> StVehicleID ?st = i"
    using assms by (cases "s i") (simp_all add: status_inv_def getd_def zeroStatus_def)
  define st1 where "st1 = (if StVehicleID ?st = [] then ?st\<lparr>StVehicleID := i\<rparr> else ?st)"
  have "StVehicleID st1 = i" using id by (cases "StVehicleID ?st = []") (simp_all add: st1_def)
  then have "StVehicleID (st1\<lparr>LastDispatchDecision := dec, CurrentStatus := ''dispatched''\<rparr>) = i" by simp
  then show ?thesis unfolding RecordDispatch_def Let_def st1_def by (rule status_inv_put [OF assms])
qed

lemma status_exec_inv: "status_inv s \<Longrightarrow> status_inv (status_exec op s)"
  by (cases op) (simp_all add: RecordDispatch_inv Status_Set_def status_inv_put)

lemma status_run_inv: "status_inv (status_run ops)"
proof -
  have run: "status_inv s \<Longrightarrow> status_inv (foldl (\<lambda>s op. status_exec op s) s ops)" for s
    by (induction ops arbitrary: s) (auto simp: status_exec_inv)
  show ?thesis unfolding status_run_def
    by (rule run) (simp add: status_inv_def Status_NewMemoryStore_def)
qed

text \<open>What \<open>List\<close> returns on a store that was filled by any sequence of operations.\<close>

lemma Status_List_matching:
  fixes ops :: "real status_op list"
  assumes "ranges ks (status_run ops)"
    and "\<And>xs. mset (sortf xs) = mset xs" "\<And>xs. sorted (map StVehicleID (sortf xs))"
  shows "sorted_wrt (<) (map StVehicleID (Status_List ks sortf f (status_run ops))) \<and>
    set (Status_List ks sortf f (status_run ops)) =
      {st. status_run ops (StVehicleID st) = Some st \<and> filter_match f st}"
proof -
  let ?s = "status_run ops"
  let ?xs = "filter (filter_match f) (map (\<lambda>k. the (?s k)) ks)"
  have inv: "?s k = Some st \<Longrightarrow> StVehicleID st = k" for k st
    using status_run_inv [of ops] by (simp add: status_inv_def)
  have ks: "distinct ks" "set ks = dom ?s" using assms(1) by (auto simp: ranges_def)
  have at: "StVehicleID (the (?s k)) = k" if "k \<in> set ks" for k using that ks(2) inv by auto
  have "map StVehicleID (map (\<lambda>k. the (?s k)) ks) = ks"
    using at by (simp add: comp_def map_idI)
  then have "distinct (map StVehicleID (map (\<lambda>k. the (?s k)) ks))" using ks(1) by (simp only:)
  then have "distinct (map StVehicleID ?xs)" by (rule distinct_map_filter)
  moreover have "mset (map StVehicleID (sortf ?xs)) = mset (map StVehicleID ?xs)" using assms(2) by simp
  note mset_eq_imp_distinct_iff [OF this]
  ultimately have "distinct (map StVehicleID (sortf ?xs))" by (simp only:)
  then have "sorted_wrt (<) (map StVehicleID (sortf ?xs))" using assms(3) by (simp add: strict_sorted_iff)
  moreover have "set (sortf ?xs) = set ?xs" by (metis assms(2) set_mset_mset)
  moreover have "set ?xs = {st. ?s (StVehicleID st) = Some st \<and> filter_match f st}"
  proof (intro equalityI subsetI)
    fix st assume "st \<in> set ?xs"
    then obtain k where k: "k \<in> dom ?s" "st = the (?s k)" "filter_match f st" using ks(2) by auto
    then have "?s k = Some st" by auto
    with inv k(3) show "st \<in> {st. ?s (StVehicleID st) = Some st \<and> filter_match f st}" by auto
  next
    fix st assume st: "st \<in> {st. ?s (StVehicleID st) = Some st \<and> filter_match f st}"
    then have "StVehicleID st \<in> set ks" "the (?s (StVehicleID st)) = st" using ks(2) by auto
    with st show "st \<in> set ?xs" by (auto intro: image_eqI [of _ _ "StVehicleID st"])
  qed
  ultimately show ?thesis by (simp add: Status_List_def)
qed

text \<open>
  Whatever statuses were set and dispatches recorded, \<open>List\<close> returns exactly the statuses that
  match the filter, one per vehicle, in strictly increasing order of the vehicle ID; the result is
  the same for every order of iteration over the map and every sorting that \<open>sort.Slice\<close> may do.
\<close>

theorem status_list_sorted_matching:
  fixes ops :: "real status_op list"
  assumes "ranges ks (status_run ops)"
    and "\<And>xs. mset (sortf xs) = mset xs" "\<And>xs. sorted (map StVehicleID (sortf xs))"
  shows "sorted_wrt (<) (map StVehicleID (Status_List ks sortf f (status_run ops))) \<and>
    set (Status_List ks sortf f (status_run ops)) =
      {st. status_run ops (StVehicleID st) = Some st \<and> filter_match f st}"
  using assms by (rule Status_List_matching)

theorem status_list_sorted_matching_witness:
  "set (Status_List [''b''] (\<lambda>xs. sort_key StVehicleID xs) \<lparr>FFleetID = [], FSite = [], FCluster = []\<rparr>
      (status_run [OpSet (zeroStatus\<lparr>StVehicleID := ''b''\<rparr> :: real Status)])) =
    {st. status_run [OpSet (zeroStatus\<lparr>StVehicleID := ''b''\<rparr> :: real Status)] (StVehicleID st) = Some st \<and>
      filter_match \<lparr>FFleetID = [], FSite = [], FCluster = []\<rparr> st}"
proof -
  have "ranges [''b''] (status_run [OpSet (zeroStatus\<lparr>StVehicleID := ''b''\<rparr> :: real Status)])"
    by (auto simp: ranges_def status_run_def Status_Set_def Status_NewMemoryStore_def)
  from status_list_sorted_matching [OF this, of "\<lambda>xs. sort_key StVehicleID xs"] show ?thesis by simp
qed

end
