(* ===== verification/Log_Store.thy ===== *)
theory Log_Store
  imports Core_Model
begin

text \<open>
  The dispatch log stores of \<open>core/dispatch/logging\<close> (\<open>store.go\<close>, \<open>jsonl.go\<close>, \<open>jsonl_rotating.go\<close>,
  \<open>sqlite.go\<close>) and the HTTP handler that queries them (\<open>api/dispatch/logs.go\<close>). The JSON codec of
  a record is an argument (\<open>encode\<close>, \<open>decode\<close>), as are the outcomes of file and database calls. A
  file is its list of lines; \<open>bufio.Scanner\<close> of the standard library stops at a line of 64 KiB or
  more. The lumberjack writer behind the rotating store is an argument, too.
\<close>

subsection \<open>Records and queries (store.go)\<close>

record 'n LogResult =
  lr_Assignments :: "string \<rightharpoonup> 'n"
  lr_FallbackAssignments :: "string \<rightharpoonup> 'n"
  lr_Errors :: "string \<rightharpoonup> string"
  lr_Acknowledged :: "string \<rightharpoonup> bool"
  lr_Signal :: "'n FlexibilitySignal"
  lr_MarketPrice :: 'n
  lr_Scores :: "string \<rightharpoonup> 'n"

record 'n LogRecord =
  LogTimestamp :: Time
  LogSignal :: "'n FlexibilitySignal"
  TargetPower :: 'n
  VehiclesSelected :: "string list"
  Response :: "'n LogResult"

record LogQuery =
  QStart :: Time
  QEnd :: Time
  QVehicleID :: string
  QSignalType :: SignalType

text \<open>\<open>LogQuery{}\<close>: the zero value of a signal type is \<open>SignalFCR\<close>.\<close>

definition zeroLogQuery :: LogQuery where
  "zeroLogQuery = \<lparr>QStart = timeZero, QEnd = timeZero, QVehicleID = [], QSignalType = SignalFCR\<rparr>"

definition recordMatchesVehicle :: "'n LogRecord \<Rightarrow> string \<Rightarrow> bool" where
  "recordMatchesVehicle r i \<longleftrightarrow>
     i = [] \<or> i \<in> set (VehiclesSelected r) \<or> lr_Assignments (Response r) i \<noteq> None \<or>
     lr_FallbackAssignments (Response r) i \<noteq> None"

subsection \<open>The scanner\<close>

definition maxToken :: nat where "maxToken = 65536"

text \<open>The lines \<open>Scan\<close> yields, and whether it stopped with \<open>bufio.ErrTooLong\<close>.\<close>

fun scan_lines :: "string list \<Rightarrow> string list \<times> bool" where
  "scan_lines [] = ([], False)"
| "scan_lines (l # ls) =
     (if maxToken \<le> length l then ([], True)
      else case scan_lines ls of (rest, tooLong) \<Rightarrow> (l # rest, tooLong))"

subsection \<open>JSONLStore (jsonl.go)\<close>

text \<open>The guards of the loop body, lines 74 to 85, on a decoded record.\<close>

definition jsonl_match :: "LogQuery \<Rightarrow> 'n LogRecord \<Rightarrow> bool" where
  "jsonl_match q r \<longleftrightarrow>
     \<not> (\<not> IsZero (QStart q) \<and> timeBefore (LogTimestamp r) (QStart q)) \<and>
     \<not> (\<not> IsZero (QEnd q) \<and> timeAfter (LogTimestamp r) (QEnd q)) \<and>
     \<not> (QSignalType q \<noteq> SignalFCR \<and> SigType (LogSignal r) \<noteq> QSignalType q) \<and>
     recordMatchesVehicle r (QVehicleID q)"

fun jsonl_loop :: "(string \<Rightarrow> 'n LogRecord option) \<Rightarrow> LogQuery \<Rightarrow> string list \<Rightarrow> 'n LogRecord list" where
  "jsonl_loop decode q [] = []"
| "jsonl_loop decode q (l # ls) =
     (case decode l of
        None \<Rightarrow> jsonl_loop decode q ls
      | Some r \<Rightarrow> if jsonl_match q r then r # jsonl_loop decode q ls else jsonl_loop decode q ls)"

text \<open>\<open>NewJSONLStore\<close> creates the file when it is missing (\<^term>\<open>None\<close>).\<close>

definition NewJSONLStore :: "go_error option \<Rightarrow> string list option \<Rightarrow> go_error + string list option" where
  "NewJSONLStore openErr file =
     (case openErr of
        Some e \<Rightarrow> Inl e
      | None \<Rightarrow> Inr (Some (case file of None \<Rightarrow> [] | Some ls \<Rightarrow> ls)))"

text \<open>\<open>Append\<close> opens without creating, so a missing file is an error.\<close>

definition JSONL_Append ::
  "('n LogRecord \<Rightarrow> go_error + string) \<Rightarrow> go_error option \<Rightarrow> 'n LogRecord \<Rightarrow> string list option
    \<Rightarrow> string list option \<times> go_error option" where
  "JSONL_Append encode openErr rec file =
     (case openErr of
        Some e \<Rightarrow> (file, Some e)
      | None \<Rightarrow>
          (case file of
             None \<Rightarrow> (file, Some (Errorf ''no such file or directory''))
           | Some ls \<Rightarrow>
               (case encode rec of
                  Inl e \<Rightarrow> (file, Some e)
                | Inr l \<Rightarrow> (Some (ls @ [l]), None))))"

definition JSONL_Query ::
  "(string \<Rightarrow> 'n LogRecord option) \<Rightarrow> go_error option \<Rightarrow> LogQuery \<Rightarrow> string list option
    \<Rightarrow> go_error + 'n LogRecord list" where
  "JSONL_Query decode openErr q file =
     (case openErr of
        Some e \<Rightarrow> Inl e
      | None \<Rightarrow>
          (case file of
             None \<Rightarrow> Inl (Errorf ''no such file or directory'')
           | Some ls \<Rightarrow>
               (case scan_lines ls of
                  (scanned, True) \<Rightarrow> Inl (Errorf ''bufio.Scanner: token too long'')
                | (scanned, False) \<Rightarrow> Inr (jsonl_loop decode q scanned))))"

subsection \<open>RotatingJSONLStore (jsonl_rotating.go)\<close>

text \<open>\<open>write\<close> is lumberjack's writer on the state of the log files.\<close>

definition Rotating_Append ::
  "('n LogRecord \<Rightarrow> go_error + string) \<Rightarrow> (string \<Rightarrow> 's \<Rightarrow> 's \<times> go_error option) \<Rightarrow> 'n LogRecord \<Rightarrow> 's
    \<Rightarrow> 's \<times> go_error option" where
  "Rotating_Append encode write rec st =
     (case encode rec of Inl e \<Rightarrow> (st, Some e) | Inr l \<Rightarrow> write l st)"

text \<open>
  \<open>files\<close>: what \<open>filepath.Glob\<close> finds, in its order; \<^term>\<open>None\<close> is a file that cannot be opened. The
  error of the scanner is not looked at.
\<close>

definition Rotating_Query ::
  "(string \<Rightarrow> 'n LogRecord option) \<Rightarrow> LogQuery \<Rightarrow> go_error + string list option list
    \<Rightarrow> go_error + 'n LogRecord list" where
  "Rotating_Query decode q glob =
     (case glob of
        Inl e \<Rightarrow> Inl e
      | Inr files \<Rightarrow>
          Inr (concat (map (\<lambda>f. case f of
                                   None \<Rightarrow> []
                                 | Some ls \<Rightarrow> jsonl_loop decode q (fst (scan_lines ls))) files)))"

subsection \<open>SQLiteStore (sqlite.go)\<close>

record log_row =
  row_ts :: int
  row_signal :: string
  row_record :: string

definition SQLite_Append ::
  "('n LogRecord \<Rightarrow> go_error + string) \<Rightarrow> go_error option \<Rightarrow> 'n LogRecord \<Rightarrow> log_row list
    \<Rightarrow> log_row list \<times> go_error option" where
  "SQLite_Append encode dbErr rec db =
     (case encode rec of
        Inl e \<Rightarrow> (db, Some e)
      | Inr b \<Rightarrow>
          (case dbErr of
             Some e \<Rightarrow> (db, Some e)
           | None \<Rightarrow>
               (db @ [\<lparr>row_ts = timeUnix (LogTimestamp rec),
                       row_signal = SignalType_String (SigType (LogSignal rec)), row_record = b\<rparr>], None)))"

text \<open>The \<open>WHERE\<close> clause built in lines 53 to 66.\<close>

definition sqlite_where :: "LogQuery \<Rightarrow> log_row \<Rightarrow> bool" where
  "sqlite_where q x \<longleftrightarrow>
     (\<not> IsZero (QStart q) \<longrightarrow> timeUnix (QStart q) \<le> row_ts x) \<and>
     (\<not> IsZero (QEnd q) \<longrightarrow> row_ts x \<le> timeUnix (QEnd q)) \<and>
     (QSignalType q \<noteq> SignalFCR \<longrightarrow> row_signal x = SignalType_String (QSignalType q))"

fun sqlite_loop ::
  "(string \<Rightarrow> 'n LogRecord option) \<Rightarrow> string \<Rightarrow> log_row list \<Rightarrow> go_error + 'n LogRecord list" where
  "sqlite_loop decode i [] = Inr []"
| "sqlite_loop decode i (x # xs) =
     (case decode (row_record x) of
        None \<Rightarrow> Inl (Errorf ''unmarshal record'')
      | Some r \<Rightarrow>
          (case sqlite_loop decode i xs of
             Inl e \<Rightarrow> Inl e
           | Inr rs \<Rightarrow> Inr (if recordMatchesVehicle r i then r # rs else rs)))"

text \<open>\<open>orderBy\<close> is the ordering the database does for \<open>ORDER BY ts\<close>.\<close>

definition SQLite_Query ::
  "(log_row list \<Rightarrow> log_row list) \<Rightarrow> (string \<Rightarrow> 'n LogRecord option) \<Rightarrow> go_error option \<Rightarrow> LogQuery
    \<Rightarrow> log_row list \<Rightarrow> go_error + 'n LogRecord list" where
  "SQLite_Query orderBy decode dbErr q db =
     (case dbErr of
        Some e \<Rightarrow> Inl e
      | None \<Rightarrow> sqlite_loop decode (QVehicleID q) (orderBy (filter (sqlite_where q) db)))"

subsection \<open>The HTTP handler (api/dispatch/logs.go)\<close>

definition signalTypeFromString :: "string \<Rightarrow> SignalType \<times> bool" where
  "signalTypeFromString s =
     (if s = ''FCR'' then (SignalFCR, True)
      else if s = ''aFRR'' then (SignalAFRR, True)
      else if s = ''MA'' then (SignalMA, True)
      else if s = ''NEBEF'' then (SignalNEBEF, True)
      else if s = ''EcoWatt'' then (SignalEcoWatt, True)
      else (SignalFCR, False))"

text \<open>The query parameters of a request; an absent one is the empty string.\<close>

record log_request =
  req_auth :: string
  req_start :: string
  req_end :: string
  req_vehicle :: string
  req_signal :: string

datatype 'n log_reply = Unauthorized | InternalError go_error | OkRecords "'n LogRecord list"

text \<open>\<open>parseTime\<close> is \<open>time.Parse\<close> with the RFC 3339 layout.\<close>

definition requestQuery :: "(string \<Rightarrow> Time option) \<Rightarrow> log_request \<Rightarrow> LogQuery" where
  "requestQuery parseTime r =
     (let q0 = zeroLogQuery;
          q1 = (if req_start r \<noteq> [] then (case parseTime (req_start r) of None \<Rightarrow> q0 | Some t \<Rightarrow> q0\<lparr>QStart := t\<rparr>) else q0);
          q2 = (if req_end r \<noteq> [] then (case parseTime (req_end r) of None \<Rightarrow> q1 | Some t \<Rightarrow> q1\<lparr>QEnd := t\<rparr>) else q1);
          q3 = q2\<lparr>QVehicleID := req_vehicle r\<rparr>
      in if req_signal r \<noteq> []
         then (case signalTypeFromString (req_signal r) of (v, ok) \<Rightarrow> if ok then q3\<lparr>QSignalType := v\<rparr> else q3)
         else q3)"

definition NewLogHandler ::
  "(string \<Rightarrow> Time option) \<Rightarrow> (LogQuery \<Rightarrow> go_error + 'n LogRecord list) \<Rightarrow> string \<Rightarrow> log_request \<Rightarrow> 'n log_reply" where
  "NewLogHandler parseTime query token r =
     (if token \<noteq> [] \<and> req_auth r \<noteq> ''Bearer '' @ token then Unauthorized
      else case query (requestQuery parseTime r) of
             Inl e \<Rightarrow> InternalError e
           | Inr records \<Rightarrow> OkRecords records)"

subsection \<open>What a query means\<close>

definition in_window :: "LogQuery \<Rightarrow> 'n LogRecord \<Rightarrow> bool" where
  "in_window q r \<longleftrightarrow>
     (inst (QStart q) = 0 \<or> inst (QStart q) \<le> inst (LogTimestamp r)) \<and>
     (inst (QEnd q) = 0 \<or> inst (LogTimestamp r) \<le> inst (QEnd q)) \<and>
     (QVehicleID q = [] \<or> QVehicleID q \<in> set (VehiclesSelected r) \<union> dom (lr_Assignments (Response r)) \<union>
        dom (lr_FallbackAssignments (Response r)))"

text \<open>
  What the stores select. The signal type of a query is not optional, and its zero value, \<open>SignalFCR\<close>, is
  taken for no type.
\<close>

definition in_query :: "LogQuery \<Rightarrow> 'n LogRecord \<Rightarrow> bool" where
  "in_query q r \<longleftrightarrow> in_window q r \<and> (QSignalType q \<noteq> SignalFCR \<longrightarrow> SigType (LogSignal r) = QSignalType q)"

lemma jsonl_match_iff: "jsonl_match q r \<longleftrightarrow> in_query q r"
  by (auto simp: jsonl_match_def in_query_def in_window_def IsZero_def timeBefore_def timeAfter_def recordMatchesVehicle_def)

lemma scan_short: "(\<And>l. l \<in> set ls \<Longrightarrow> length l < maxToken) \<Longrightarrow> scan_lines ls = (ls, False)"
  by (induction ls) (auto simp: not_le)

text \<open>A store filled by a sequence of appends that meet no error of the file or the database.\<close>

definition jsonl_log :: "('n LogRecord \<Rightarrow> go_error + string) \<Rightarrow> 'n LogRecord list \<Rightarrow> string list option" where
  "jsonl_log encode rs = foldl (\<lambda>f r. fst (JSONL_Append encode None r f)) (Some []) rs"

definition sqlite_log :: "('n LogRecord \<Rightarrow> go_error + string) \<Rightarrow> 'n LogRecord list \<Rightarrow> log_row list" where
  "sqlite_log encode rs = foldl (\<lambda>db r. fst (SQLite_Append encode None r db)) [] rs"

text \<open>What the stores rely on: the records can be written, on lines the scanner can read, and read back.\<close>

definition codec_ok ::
  "('n LogRecord \<Rightarrow> go_error + string) \<Rightarrow> (string \<Rightarrow> 'n LogRecord option) \<Rightarrow> 'n LogRecord list \<Rightarrow> bool" where
  "codec_ok encode decode rs \<longleftrightarrow>
     (\<forall>r\<in>set rs. \<exists>l. encode r = Inr l \<and> decode l = Some r \<and> length l < maxToken)"

abbreviation line :: "('n LogRecord \<Rightarrow> go_error + string) \<Rightarrow> 'n LogRecord \<Rightarrow> string" where
  "line encode r \<equiv> projr (encode r)"

lemma codec_okD:
  assumes "codec_ok encode decode rs" "r \<in> set rs"
  shows "encode r = Inr (line encode r)" "decode (line encode r) = Some r" "length (line encode r) < maxToken"
  using assms by (fastforce simp: codec_ok_def)+

lemma jsonl_log_lines:
  assumes "codec_ok encode decode rs"
  shows "jsonl_log encode rs = Some (map (line encode) rs)"
proof -
  have "foldl (\<lambda>f r. fst (JSONL_Append encode None r f)) (Some ls) xs = Some (ls @ map (line encode) xs)"
    if "set xs \<subseteq> set rs" for xs ls
    using that
  proof (induction xs arbitrary: ls)
    case (Cons x xs)
    then have "encode x = Inr (line encode x)" using codec_okD(1) [OF assms, of x] by simp
    then have "fst (JSONL_Append encode None x (Some ls)) = Some (ls @ [line encode x])"
      by (cases "encode x") (simp_all add: JSONL_Append_def)
    with Cons show ?case by simp
  qed simp
  from this [of rs "[]"] show ?thesis by (simp add: jsonl_log_def)
qed

lemma jsonl_loop_lines:
  assumes "codec_ok encode decode rs"
  shows "jsonl_loop decode q (map (line encode) rs) = filter (in_query q) rs"
  using assms
proof (induction rs)
  case (Cons r rs)
  then have "codec_ok encode decode rs" by (simp add: codec_ok_def)
  with Cons codec_okD(2) [OF Cons.prems, of r] show ?case by (simp add: jsonl_match_iff)
qed simp

lemma jsonl_query_log:
  assumes "codec_ok encode decode rs"
  shows "JSONL_Query decode None q (jsonl_log encode rs) = Inr (filter (in_query q) rs)"
proof -
  have "scan_lines (map (line encode) rs) = (map (line encode) rs, False)"
    by (rule scan_short) (use codec_okD(3) [OF assms] in auto)
  then show ?thesis
    by (simp add: JSONL_Query_def jsonl_log_lines [OF assms] jsonl_loop_lines [OF assms])
qed

text \<open>
  C24. What is appended to a JSONL log is what a query reads back: if the records can be encoded, in
  lines of less than 64 KiB, and decoding inverts encoding on them, a query on a log filled from
  empty returns, unaltered and in the order of appending, exactly the records in its time range and
  of its vehicle that have its signal type. The type FCR is the exception: a query for it returns the
  records of every type.
\<close>

theorem jsonl_roundtrip:
  assumes "codec_ok encode decode rs"
  shows "(QSignalType q \<noteq> SignalFCR \<longrightarrow> JSONL_Query decode None q (jsonl_log encode rs) =
      Inr (filter (\<lambda>r. in_window q r \<and> SigType (LogSignal r) = QSignalType q) rs)) \<and>
    (QSignalType q = SignalFCR \<longrightarrow> JSONL_Query decode None q (jsonl_log encode rs) = Inr (filter (in_window q) rs))"
  using jsonl_query_log [OF assms, of q] by (auto simp: in_query_def [abs_def])

definition log_test :: "real LogRecord" where
  "log_test =
     (let s = \<lparr>SigType = SignalMA, PowerKW = 5, SigDuration = 0, Timestamp = ofUnix 0 10\<rparr> in
      \<lparr>LogTimestamp = ofUnix 0 10, LogSignal = s, TargetPower = 5, VehiclesSelected = [''v1''],
       Response = \<lparr>lr_Assignments = [''v1'' \<mapsto> 5], lr_FallbackAssignments = Map.empty, lr_Errors = Map.empty,
         lr_Acknowledged = [''v1'' \<mapsto> True], lr_Signal = s, lr_MarketPrice = 0, lr_Scores = Map.empty\<rparr>\<rparr>)"

theorem jsonl_roundtrip_witness:
  "JSONL_Query (\<lambda>_. Some log_test) None (zeroLogQuery\<lparr>QVehicleID := ''v1''\<rparr>) (jsonl_log (\<lambda>_. Inr ''r1'') [log_test]) =
     Inr [log_test] \<and>
   JSONL_Query (\<lambda>_. Some log_test) None (zeroLogQuery\<lparr>QSignalType := SignalAFRR\<rparr>) (jsonl_log (\<lambda>_. Inr ''r1'') [log_test]) =
     Inr []"
proof -
  have c: "codec_ok (\<lambda>_. Inr ''r1'') (\<lambda>_. Some log_test) [log_test]" by (simp add: codec_ok_def maxToken_def)
  from jsonl_roundtrip [OF c, of "zeroLogQuery\<lparr>QVehicleID := ''v1''\<rparr>"]
    jsonl_roundtrip [OF c, of "zeroLogQuery\<lparr>QSignalType := SignalAFRR\<rparr>"] show ?thesis
    by (simp add: in_window_def zeroLogQuery_def timeZero_def log_test_def Let_def)
qed

subsection \<open>The database store\<close>

definition row_of :: "('n LogRecord \<Rightarrow> go_error + string) \<Rightarrow> 'n LogRecord \<Rightarrow> log_row" where
  "row_of encode r =
     \<lparr>row_ts = timeUnix (LogTimestamp r), row_signal = SignalType_String (SigType (LogSignal r)),
      row_record = line encode r\<rparr>"

lemma row_of_sel [simp]:
  "row_ts (row_of encode r) = timeUnix (LogTimestamp r)"
  "row_signal (row_of encode r) = SignalType_String (SigType (LogSignal r))"
  "row_record (row_of encode r) = line encode r"
  by (simp_all add: row_of_def)

lemma sqlite_log_rows:
  assumes "codec_ok encode decode rs"
  shows "sqlite_log encode rs = map (row_of encode) rs"
proof -
  have "foldl (\<lambda>db r. fst (SQLite_Append encode None r db)) db xs = db @ map (row_of encode) xs"
    if "set xs \<subseteq> set rs" for xs db
    using that
  proof (induction xs arbitrary: db)
    case (Cons x xs)
    then have "encode x = Inr (line encode x)" using codec_okD(1) [OF assms, of x] by simp
    then have "fst (SQLite_Append encode None x db) = db @ [row_of encode x]"
      by (cases "encode x") (simp_all add: SQLite_Append_def row_of_def)
    with Cons show ?case by simp
  qed simp
  from this [of rs "[]"] show ?thesis by (simp add: sqlite_log_def)
qed

lemma sqlite_loop_ok:
  assumes "\<And>x. x \<in> set xs \<Longrightarrow> decode (row_record x) = Some (g x)"
  shows "sqlite_loop decode i xs = Inr (filter (\<lambda>r. recordMatchesVehicle r i) (map g xs))"
  using assms by (induction xs) auto

text \<open>Whole seconds and the signal types the source names: there the clause agrees with the query.\<close>

definition whole_seconds :: "Time \<Rightarrow> bool" where
  "whole_seconds t \<longleftrightarrow> inst t mod Second = 0"

fun named_signal :: "SignalType \<Rightarrow> bool" where
  "named_signal (SignalOther n) \<longleftrightarrow> False"
| "named_signal _ \<longleftrightarrow> True"

lemma timeUnix_le_iff:
  assumes "whole_seconds t" "whole_seconds u"
  shows "timeUnix t \<le> timeUnix u \<longleftrightarrow> inst t \<le> inst u"
proof -
  obtain a b where "inst t = Second * a" "inst u = Second * b"
    using assms by (auto simp: whole_seconds_def mod_eq_0_iff_dvd dvd_def)
  then show ?thesis by (simp add: timeUnix_def Second_def)
qed

lemma SignalType_String_named:
  "named_signal a \<Longrightarrow> SignalType_String b = SignalType_String a \<longleftrightarrow> b = a"
  by (cases a; cases b) simp_all

lemma sqlite_where_row:
  assumes "whole_seconds (LogTimestamp r)" "whole_seconds (QStart q)" "whole_seconds (QEnd q)"
    and "named_signal (QSignalType q)"
  shows "sqlite_where q (row_of encode r) \<and> recordMatchesVehicle r (QVehicleID q) \<longleftrightarrow> in_query q r"
  using assms
  by (auto simp: sqlite_where_def in_query_def in_window_def IsZero_def timeUnix_le_iff SignalType_String_named
      recordMatchesVehicle_def)

text \<open>
  C25. The SQLite log answers like the JSONL log, up to the order of the records: for records and
  bounds at whole seconds and a signal type the source names, both return the same records for
  every query, and the database returns them by increasing time.
\<close>

theorem log_stores_agree:
  assumes "codec_ok encode decode rs"
    and "\<And>xs. mset (orderBy xs) = mset xs" "\<And>xs. sorted (map row_ts (orderBy xs))"
    and "\<And>r. r \<in> set rs \<Longrightarrow> whole_seconds (LogTimestamp r)"
    and "whole_seconds (QStart q)" "whole_seconds (QEnd q)" "named_signal (QSignalType q)"
  shows "\<exists>xs ys. JSONL_Query decode None q (jsonl_log encode rs) = Inr xs \<and>
    SQLite_Query orderBy decode None q (sqlite_log encode rs) = Inr ys \<and> mset ys = mset xs \<and>
    sorted (map (\<lambda>r. timeUnix (LogTimestamp r)) ys)"
proof -
  define g where "g = (\<lambda>x::log_row. the (decode (row_record x)))"
  let ?rows = "map (row_of encode) rs"
  let ?sel = "orderBy (filter (sqlite_where q) ?rows)"
  have g: "g (row_of encode r) = r" "decode (row_record (row_of encode r)) = Some r" if "r \<in> set rs" for r
    using codec_okD(2) [OF assms(1) that] by (auto simp: g_def)
  have sel: "mset ?sel = mset (filter (sqlite_where q) ?rows)" by (rule assms(2))
  then have "set ?sel = set (filter (sqlite_where q) ?rows)" by (metis set_mset_mset)
  then have mem: "\<exists>r\<in>set rs. x = row_of encode r" if "x \<in> set ?sel" for x using that by auto
  have dec: "decode (row_record x) = Some (g x)" "row_ts x = timeUnix (LogTimestamp (g x))" if "x \<in> set ?sel" for x
    using mem [OF that] g by auto
  let ?ys = "filter (\<lambda>r. recordMatchesVehicle r (QVehicleID q)) (map g ?sel)"
  have run: "SQLite_Query orderBy decode None q (sqlite_log encode rs) = Inr ?ys"
    by (simp add: SQLite_Query_def sqlite_log_rows [OF assms(1)] sqlite_loop_ok [of ?sel decode g, OF dec(1)])
  have "map (\<lambda>r. timeUnix (LogTimestamp r)) (map g ?sel) = map row_ts ?sel" using dec(2) by simp
  then have "sorted (map (\<lambda>r. timeUnix (LogTimestamp r)) (map g ?sel))" using assms(3) by (simp only:)
  then have srt: "sorted (map (\<lambda>r. timeUnix (LogTimestamp r)) ?ys)" by (rule sorted_filter)
  have "mset (map g ?sel) = mset (map g (filter (sqlite_where q) ?rows))" using sel by simp
  then have "mset ?ys = mset (filter (\<lambda>r. recordMatchesVehicle r (QVehicleID q)) (map g (filter (sqlite_where q) ?rows)))"
    by simp
  also have "map g (filter (sqlite_where q) ?rows) = filter (\<lambda>r. sqlite_where q (row_of encode r)) rs"
    by (simp add: filter_map comp_def) (rule map_idI, use g(1) in simp)
  also have "filter (\<lambda>r. recordMatchesVehicle r (QVehicleID q)) (filter (\<lambda>r. sqlite_where q (row_of encode r)) rs) =
      filter (in_query q) rs"
    using sqlite_where_row [OF assms(4) assms(5-7), of _ encode] by (auto simp: conj_commute intro!: filter_cong)
  finally show ?thesis using run srt jsonl_query_log [OF assms(1)] by blast
qed

theorem log_stores_agree_witness:
  "\<exists>xs ys. JSONL_Query (\<lambda>_. Some log_test) None zeroLogQuery (jsonl_log (\<lambda>_. Inr ''r1'') [log_test]) = Inr xs \<and>
    SQLite_Query (sort_key row_ts) (\<lambda>_. Some log_test) None zeroLogQuery (sqlite_log (\<lambda>_. Inr ''r1'') [log_test]) = Inr ys \<and>
    mset ys = mset xs \<and> sorted (map (\<lambda>r. timeUnix (LogTimestamp r)) ys)"
proof -
  have "codec_ok (\<lambda>_. Inr ''r1'') (\<lambda>_. Some log_test) [log_test]" by (simp add: codec_ok_def maxToken_def)
  from log_stores_agree [OF this, of "sort_key row_ts" zeroLogQuery] show ?thesis
    by (simp add: zeroLogQuery_def timeZero_def log_test_def Let_def whole_seconds_def ofUnix_def Second_def)
qed

text \<open>
  Asking the log handler for the signal type FCR is asking for every type: FCR is the zero value
  of the type, which the stores read as no filter. The request with \<open>signal_type=FCR\<close> gets the
  reply of the same request without it, whatever the store.
\<close>

theorem log_handler_fcr_unfiltered:
  "NewLogHandler parseTime query token (r\<lparr>req_signal := ''FCR''\<rparr>) =
   NewLogHandler parseTime query token (r\<lparr>req_signal := []\<rparr>)"
  by (auto simp: NewLogHandler_def requestQuery_def Let_def signalTypeFromString_def zeroLogQuery_def
      split: option.split)

end
