(* ===== verification/Ack_Tuner.thy ===== *)
theory Ack_Tuner
  imports Smart_Dispatcher
begin

text \<open>
  The result of a dispatch (\<open>core/dispatch/types.go\<close>) and the tuner that learns from a history of
  results (\<open>core/dispatch/ack_tuner.go\<close>, \<open>tuner.go\<close>). The tuner holds a pointer to the dispatcher
  it tunes: \<open>Tune\<close> takes the dispatcher behind the pointer and returns it updated. The mutex makes
  the update one step. \<open>ids\<close> is the order in which the assignments of a result are ranged over.
\<close>

subsection \<open>Data\<close>

text \<open>A nil map is the empty map: every use of these maps in the source reads them the same way.\<close>

record 'n DispatchResult =
  Assignments :: "string \<rightharpoonup> 'n"
  FallbackAssignments :: "string \<rightharpoonup> 'n"
  Errors :: "string \<rightharpoonup> go_error"
  Acknowledged :: "string \<rightharpoonup> bool"
  ResSignal :: "'n FlexibilitySignal"
  ResMarketPrice :: 'n
  ResScores :: "string \<rightharpoonup> 'n"

record 'n AckBasedTuner =
  IncreaseStep :: 'n
  DecreaseStep :: 'n
  MaxWeight :: 'n
  MinWeight :: 'n
  Threshold :: 'n

definition DefaultAckThreshold :: "'n::{zero,one,plus,inverse}" where
  "DefaultAckThreshold = lit 9 10"

subsection \<open>Construction\<close>

text \<open>\<^term>\<open>None\<close> is the nil pointer; \<open>nilDispatcher\<close> says that the dispatcher given is nil.\<close>

definition NewAckBasedTunerWithConfig ::
  "bool \<Rightarrow> 'n::{zero,ord} \<Rightarrow> 'n \<Rightarrow> 'n \<Rightarrow> 'n \<Rightarrow> 'n \<Rightarrow> 'n AckBasedTuner option" where
  "NewAckBasedTunerWithConfig nilDispatcher increaseStep decreaseStep maxWeight minWeight threshold =
     (if nilDispatcher \<or> increaseStep \<le> 0 \<or> decreaseStep \<le> 0 \<or> maxWeight < minWeight then None
      else Some \<lparr>IncreaseStep = increaseStep, DecreaseStep = decreaseStep, MaxWeight = maxWeight,
                 MinWeight = minWeight, Threshold = threshold\<rparr>)"

definition NewAckBasedTuner :: "bool \<Rightarrow> 'n::{zero,one,plus,inverse,ord} AckBasedTuner option" where
  "NewAckBasedTuner nilDispatcher =
     NewAckBasedTunerWithConfig nilDispatcher (lit 5 100) (lit 5 100) 1 0 DefaultAckThreshold"

subsection \<open>Tuning\<close>

text \<open>The body of the inner loop, lines 60 to 66, on the counters \<open>total\<close>, \<open>success\<close>, \<open>timeouts\<close>.\<close>

definition tune_count ::
  "'n::{one,plus} DispatchResult \<Rightarrow> 'n \<times> 'n \<times> int \<Rightarrow> string \<Rightarrow> 'n \<times> 'n \<times> int" where
  "tune_count h acc i =
     (case acc of (tot, success, timeouts) \<Rightarrow>
        (tot + 1,
         if getd False (Acknowledged h) i then success + 1 else success,
         case Errors h i of
           None \<Rightarrow> timeouts
         | Some e \<Rightarrow> if errorsIs e ErrAckTimeout then timeouts + 1 else timeouts))"

definition tune_counts ::
  "('n::{zero,one,plus} DispatchResult \<Rightarrow> string list) \<Rightarrow> 'n DispatchResult list \<Rightarrow> 'n \<times> 'n \<times> int" where
  "tune_counts ids history =
     foldl (\<lambda>acc h. foldl (tune_count h) acc (ids h)) (0, 0, 0) history"

text \<open>The update under the lock, lines 83 to 91.\<close>

definition clampWeight :: "'n::ord AckBasedTuner \<Rightarrow> 'n \<Rightarrow> 'n" where
  "clampWeight t w =
     (let w1 = (if MaxWeight t < w then MaxWeight t else w) in if w1 < MinWeight t then MinWeight t else w1)"

definition Tune ::
  "('n DispatchResult \<Rightarrow> string list) \<Rightarrow> 'n AckBasedTuner option \<Rightarrow> 'n DispatchResult list
    \<Rightarrow> 'n::{zero,one,plus,uminus,inverse,ord} SmartDispatcher \<Rightarrow> 'n SmartDispatcher" where
  "Tune ids tuner history d =
     (case tuner of
        None \<Rightarrow> d
      | Some t \<Rightarrow>
          if history = [] then d
          else (case tune_counts ids history of (tot, success, timeouts) \<Rightarrow>
                  if feq tot 0 then d
                  else let rate = success / tot;
                           delta = (if Threshold t \<le> rate then IncreaseStep t
                                    else if 0 < timeouts then - DecreaseStep t
                                    else 0) in
                       if feq delta 0 then d
                       else d\<lparr>AvailabilityWeight := clampWeight t (AvailabilityWeight d + delta)\<rparr>))"

text \<open>\<open>NoopTuner\<close> (\<open>core/dispatch/tuner.go\<close>).\<close>

definition NoopTuner_Tune :: "'n DispatchResult list \<Rightarrow> 'n SmartDispatcher \<Rightarrow> 'n SmartDispatcher" where
  "NoopTuner_Tune history d = d"

subsection \<open>The counters\<close>

text \<open>The orders of a history: position in the history and vehicle.\<close>

definition orders :: "'n DispatchResult list \<Rightarrow> (nat \<times> string) set" where
  "orders history = {(k, i). k < length history \<and> i \<in> dom (Assignments (history ! k))}"

definition acked_orders :: "'n DispatchResult list \<Rightarrow> (nat \<times> string) set" where
  "acked_orders history = {(k, i) \<in> orders history. getd False (Acknowledged (history ! k)) i}"

definition timed_out_orders :: "'n DispatchResult list \<Rightarrow> (nat \<times> string) set" where
  "timed_out_orders history =
     {(k, i) \<in> orders history. \<exists>e. Errors (history ! k) i = Some e \<and> errorsIs e ErrAckTimeout}"

definition timed_out :: "'n DispatchResult \<Rightarrow> string \<Rightarrow> bool" where
  "timed_out h i \<longleftrightarrow> (\<exists>e. Errors h i = Some e \<and> errorsIs e ErrAckTimeout)"

lemma tune_count_fold:
  fixes h :: "real DispatchResult"
  shows "foldl (tune_count h) (t, s, n) is =
    (t + real (length is), s + real (length (filter (getd False (Acknowledged h)) is)),
     n + int (length (filter (timed_out h) is)))"
  by (induction "is" arbitrary: t s n)
    (auto simp: tune_count_def timed_out_def split: option.split)

lemma tune_counts_fold:
  fixes history :: "real DispatchResult list"
  shows "foldl (\<lambda>acc h. foldl (tune_count h) acc (ids h)) (t, s, n) history =
    (t + real (\<Sum>h\<leftarrow>history. length (ids h)),
     s + real (\<Sum>h\<leftarrow>history. length (filter (getd False (Acknowledged h)) (ids h))),
     n + int (\<Sum>h\<leftarrow>history. length (filter (timed_out h) (ids h))))"
  by (induction history arbitrary: t s n) (simp_all add: tune_count_fold)

text \<open>A sum of counts over the history is the size of the set of orders counted.\<close>

lemma sum_orders:
  assumes "\<And>h. h \<in> set history \<Longrightarrow> ranges (ids h) (Assignments h)"
  shows "(\<Sum>h\<leftarrow>history. length (filter (P h) (ids h))) = card {(k, i) \<in> orders history. P (history ! k) i}"
    and "finite {(k, i) \<in> orders history. P (history ! k) i}"
proof -
  let ?S = "\<lambda>k. {i \<in> dom (Assignments (history ! k)). P (history ! k) i}"
  have r: "ranges (ids (history ! k)) (Assignments (history ! k))" if "k < length history" for k
    using that assms by simp
  have cnt: "length (filter (P (history ! k)) (ids (history ! k))) = card (?S k) \<and> finite (?S k)"
    if "k < length history" for k
  proof -
    have eq: "?S k = set (filter (P (history ! k)) (ids (history ! k)))"
      using r [OF that] by (auto simp: ranges_def)
    have "distinct (filter (P (history ! k)) (ids (history ! k)))"
      using r [OF that] by (simp add: ranges_def)
    then show ?thesis unfolding eq by (simp only: distinct_card finite_set simp_thms)
  qed
  have sig: "{(k, i) \<in> orders history. P (history ! k) i} = Sigma {..<length history} ?S"
    by (auto simp: orders_def)
  show "finite {(k, i) \<in> orders history. P (history ! k) i}"
    unfolding sig using cnt by (intro finite_SigmaI) auto
  have "(\<Sum>h\<leftarrow>history. length (filter (P h) (ids h))) =
      (\<Sum>k<length history. length (filter (P (history ! k)) (ids (history ! k))))"
    by (simp add: sum_list_sum_nth atLeast0LessThan)
  also have "\<dots> = (\<Sum>k<length history. card (?S k))" using cnt by (intro sum.cong) auto
  also have "\<dots> = card (Sigma {..<length history} ?S)" using cnt by (subst card_SigmaI) auto
  finally show "(\<Sum>h\<leftarrow>history. length (filter (P h) (ids h))) = card {(k, i) \<in> orders history. P (history ! k) i}"
    by (simp only: sig)
qed

lemma tune_counts_card:
  fixes history :: "real DispatchResult list"
  assumes "\<And>h. h \<in> set history \<Longrightarrow> ranges (ids h) (Assignments h)"
  shows "tune_counts ids history =
    (real (card (orders history)), real (card (acked_orders history)), int (card (timed_out_orders history)))"
    and "finite (orders history)" "finite (acked_orders history)" "finite (timed_out_orders history)"
proof -
  note s = sum_orders [of history ids, OF assms]
  have o: "orders history = {(k, i) \<in> orders history. True}" by auto
  have t: "timed_out_orders history = {(k, i) \<in> orders history. timed_out (history ! k) i}"
    by (auto simp: timed_out_orders_def timed_out_def)
  have len: "(\<Sum>h\<leftarrow>history. length (ids h)) = card (orders history)"
    using s(1) [of "\<lambda>_ _. True"] o by simp
  have ack: "(\<Sum>h\<leftarrow>history. length (filter (getd False (Acknowledged h)) (ids h))) = card (acked_orders history)"
    unfolding acked_orders_def by (rule s(1) [of "\<lambda>h. getd False (Acknowledged h)"])
  have tmo: "(\<Sum>h\<leftarrow>history. length (filter (timed_out h) (ids h))) = card (timed_out_orders history)"
    unfolding t by (rule s(1) [of timed_out])
  show "tune_counts ids history =
    (real (card (orders history)), real (card (acked_orders history)), int (card (timed_out_orders history)))"
    unfolding tune_counts_def tune_counts_fold len ack tmo by simp
  show "finite (orders history)" "finite (timed_out_orders history)" "finite (acked_orders history)"
    using s(2) [of "\<lambda>_ _. True"] s(2) [of timed_out] s(2) [of "\<lambda>h. getd False (Acknowledged h)"] o t
    by (simp_all add: acked_orders_def)
qed

subsection \<open>The tuning law\<close>

lemma clampWeight_real: "clampWeight t (w::real) = max (MinWeight t) (min (MaxWeight t) w)"
  by (auto simp: clampWeight_def Let_def)

text \<open>
  C39. A tuner that its constructor accepts moves the availability weight by one rule: when at least
  the share \<open>Threshold\<close> of all orders of the history was acknowledged it raises the weight by its
  step; otherwise, if some order timed out, it lowers it; else it leaves it alone. A weight that is
  moved is clamped to the configured range, nothing else of the dispatcher changes, and neither
  the order of the history's maps nor an empty history matters.
\<close>

theorem tuner_law:
  fixes history :: "real DispatchResult list"
  assumes "NewAckBasedTunerWithConfig False inc dec mx mn th = Some t"
    and "\<And>h. h \<in> set history \<Longrightarrow> ranges (ids h) (Assignments h)"
  shows "Tune ids (Some t) history d =
    d\<lparr>AvailabilityWeight :=
        (if orders history = {} then AvailabilityWeight d
         else if th * real (card (orders history)) \<le> real (card (acked_orders history))
         then max mn (min mx (AvailabilityWeight d + inc))
         else if timed_out_orders history \<noteq> {} then max mn (min mx (AvailabilityWeight d - dec))
         else AvailabilityWeight d)\<rparr> \<and>
    0 < inc \<and> 0 < dec \<and> mn \<le> mx"
proof -
  have t: "0 < inc" "0 < dec" "mn \<le> mx" "t = \<lparr>IncreaseStep = inc, DecreaseStep = dec, MaxWeight = mx,
      MinWeight = mn, Threshold = th\<rparr>"
    using assms(1) by (auto simp: NewAckBasedTunerWithConfig_def split: if_splits)
  note c = tune_counts_card [of history ids, OF assms(2)]
  have none: "history = [] \<Longrightarrow> orders history = {}" by (simp add: orders_def)
  show ?thesis
  proof (cases "orders history = {}")
    case True
    then show ?thesis using c(1) t by (simp add: Tune_def)
  next
    case False
    then have pos: "0 < card (orders history)" using c(2) by (simp add: card_gt_0_iff)
    have rate: "th \<le> real (card (acked_orders history)) / real (card (orders history)) \<longleftrightarrow>
        th * real (card (orders history)) \<le> real (card (acked_orders history))"
      using pos by (simp add: pos_le_divide_eq)
    have tmo: "0 < int (card (timed_out_orders history)) \<longleftrightarrow> timed_out_orders history \<noteq> {}"
      using c(4) by (simp add: card_gt_0_iff)
    from False none have "history \<noteq> []" by blast
    with False pos rate tmo t c(1) show ?thesis
      by (simp add: Tune_def Let_def clampWeight_real)
  qed
qed

definition tuner_test :: "real DispatchResult list" where
  "tuner_test = [\<lparr>Assignments = [''v1'' \<mapsto> 5], FallbackAssignments = Map.empty, Errors = Map.empty,
     Acknowledged = [''v1'' \<mapsto> True],
     ResSignal = \<lparr>SigType = SignalFCR, PowerKW = 5, SigDuration = 0, Timestamp = timeZero\<rparr>,
     ResMarketPrice = 0, ResScores = Map.empty\<rparr>]"

theorem tuner_law_witness:
  "AvailabilityWeight (Tune (\<lambda>_. [''v1'']) (NewAckBasedTuner False) tuner_test (NewSmartDispatcher :: real SmartDispatcher)) =
     3/20"
proof -
  have new: "NewAckBasedTunerWithConfig False (1/20) (1/20) 1 0 (9/10) =
      Some \<lparr>IncreaseStep = 1/20, DecreaseStep = 1/20, MaxWeight = 1, MinWeight = 0, Threshold = 9/10 :: real\<rparr>"
    by (simp add: NewAckBasedTunerWithConfig_def)
  then have def: "NewAckBasedTuner False =
      Some \<lparr>IncreaseStep = 1/20, DecreaseStep = 1/20, MaxWeight = 1, MinWeight = 0, Threshold = 9/10 :: real\<rparr>"
    by (simp add: NewAckBasedTuner_def DefaultAckThreshold_def)
  have o: "orders tuner_test = {(0, ''v1'')}" "acked_orders tuner_test = {(0, ''v1'')}"
    by (auto simp: orders_def acked_orders_def tuner_test_def getd_def split: if_splits)
  have rg: "\<And>h. h \<in> set tuner_test \<Longrightarrow> ranges [''v1''] (Assignments h)"
    by (simp add: tuner_test_def ranges_def)
  show ?thesis
    unfolding def using tuner_law [OF new, of tuner_test "\<lambda>_. [''v1'']" NewSmartDispatcher, OF rg]
    by (simp add: o NewSmartDispatcher_def)
qed

end
