(* ===== verification/Dispatch_Manager.thy ===== *)
theory Dispatch_Manager
  imports Equal_Dispatcher Fallback Segmented_Dispatcher Event_Bus Eco_KPI Vehicle_Status Log_Store Ack_Tuner
begin

text \<open>
  \<open>DispatchManager\<close> (\<open>core/dispatch/manager.go\<close>): the component that runs a dispatch from the
  signal to the tuned dispatcher, over the dispatchers, fallbacks, bus, stores and tuner of the
  other theories. The state of the manager holds the state of the components it owns; what a
  dispatch gets from outside is a record \<open>dispatch_env\<close>: the clock, the result of a discovery, the
  outcomes of the publisher, the LP solver, and the orders that the Go runtime is free to choose.

  One goroutine runs per assignment. Its publication, its update under the mutex and its metric are
  three atomic actions, and the schedule of all actions is part of the environment. Loggers are
  present and their output is left out, as is the error reporting to Sentry. \<^term>\<open>None\<close> stands for a
  panic or a call that never returns.
\<close>

subsection \<open>State\<close>

text \<open>An \<open>*LPDispatcher\<close> given to the manager is the one in \<open>lpDispatcher\<close>, so it has no state here.\<close>

datatype 'n dispatcher_impl =
    EqualImpl
  | SmartImpl "'n SmartDispatcher"
  | LPImpl
  | SegmentedImpl "string \<rightharpoonup> 'n SegmentConfig"

datatype 'n fallback_impl =
    NoopImpl
  | BalancedImpl "'n fallback_vehicles"
  | ProbabilisticImpl "'n fallback_vehicles"

text \<open>An acknowledgment tuner is bound to the dispatcher of the manager.\<close>

datatype 'n tuner_impl = NoTuner | NoopTunerImpl | AckTunerImpl "'n AckBasedTuner option"

record 'n prediction =
  PredictAvailability :: "string \<Rightarrow> Time \<Rightarrow> 'n"
  ForecastSoC :: "string \<Rightarrow> Duration \<Rightarrow> 'n list"

datatype 'n event =
    SignalEvent "'n FlexibilitySignal"
  | StrategyEvent SignalType string "go_error option"
  | AckEvent string string SignalType bool "go_error option" Duration

record 'n OrderEvent =
  oe_OrderID :: string
  oe_VehicleID :: string
  oe_Signal :: SignalType
  oe_PowerKW :: 'n
  oe_Score :: 'n
  oe_MarketPrice :: 'n
  oe_Accepted :: bool
  oe_Time :: Time

record DispatchLatency =
  dl_VehicleID :: string
  dl_Signal :: SignalType
  dl_Acknowledged :: bool
  dl_Latency :: Duration

text \<open>A metrics sink: the recorder interfaces it implements, and what it has recorded.\<close>

datatype 'n metric =
    FleetSize nat
  | VehicleAvailabilities "(string \<times> 'n \<times> Time) list"
  | DispatchOrder "'n OrderEvent"
  | DispatchResults "'n MetricsResult list"
  | DispatchLatencies "DispatchLatency list"

record 'n sink =
  isFleetSizeRecorder :: bool
  isAvailabilityRecorder :: bool
  isLatencyRecorder :: bool
  isOrderRecorder :: bool
  recorded :: "'n metric list"

text \<open>The Prometheus collectors of \<open>core/dispatch/metrics.go\<close>, by the label \<open>signal_type\<close>.\<close>

record 'n collectors =
  mqttSuccess :: nat
  mqttFailure :: nat
  vehiclesDispatched :: "string \<Rightarrow> nat"
  latencySeconds :: "(string \<times> 'n) list"
  ackRate :: "string \<rightharpoonup> 'n"

record 'n DispatchManager =
  mgr_filter :: "'n Vehicle list \<Rightarrow> 'n FlexibilitySignal \<Rightarrow> 'n Vehicle list"
  mgr_dispatcher :: "'n dispatcher_impl"
  lpDispatcher :: "'n SmartDispatcher option"
  lpFirst :: "SignalType \<rightharpoonup> bool"
  mgr_fallback :: "'n fallback_impl"
  hasDiscovery :: bool
  ackTimeout :: Duration
  mgr_metrics :: "'n sink option"
  mgr_bus :: "'n event Bus option"
  mgr_tuner :: "'n tuner_impl"
  mgr_prediction :: "'n prediction option"
  mgr_store :: "'n LogRecord list option"
  storeClosed :: bool
  mgr_statusStore :: "'n status_store option"
  mgr_history :: "'n DispatchResult list"
  mgr_collectors :: "'n collectors"

datatype action = ActSend string | ActUpdate string | ActRecord string

text \<open>
  \<open>envSend\<close> and \<open>envAck\<close> are the publisher's \<open>SendOrder\<close> and \<open>WaitForAck\<close>. The lists of strings
  are the orders in which maps are ranged over: \<open>envCurrent\<close> in the fallback, \<open>envResults\<close> in
  \<open>recordMetrics\<close>, \<open>envSelected\<close> and \<open>envRecorded\<close> for the status store, \<open>envHistory\<close> in the tuner,
  \<open>envWeights\<close> and \<open>envSegments\<close> in the segmented dispatcher.
\<close>

record 'n dispatch_env =
  envNow :: Time
  envDiscover :: "go_error + 'n Vehicle list"
  envExp :: "'n \<Rightarrow> 'n"
  envSolve :: "'n list \<Rightarrow> 'n list \<Rightarrow> 'n \<Rightarrow> go_error + 'n list"
  envSend :: "string \<Rightarrow> 'n \<Rightarrow> go_error + string"
  envAck :: "string \<Rightarrow> Duration \<Rightarrow> bool \<times> go_error option"
  envLatency :: "string \<Rightarrow> Duration"
  envErrorText :: "go_error \<Rightarrow> string"
  envSchedule :: "action list"
  envCurrent :: "string list"
  envResults :: "string list"
  envSelected :: "string list"
  envRecorded :: "string list"
  envHistory :: "'n DispatchResult \<Rightarrow> string list"
  envWeights :: "(string \<rightharpoonup> 'n) \<Rightarrow> string list"
  envSegments :: "string list"

subsection \<open>Construction and configuration\<close>

text \<open>
  \<open>NewDispatchManager\<close>: a \<^term>\<open>None\<close> among the first four arguments is nil. A dispatcher is given by
  its implementation and, for an \<open>*LPDispatcher\<close>, its state \<open>lp\<close>.
\<close>

definition NewDispatchManager ::
  "('n Vehicle list \<Rightarrow> 'n FlexibilitySignal \<Rightarrow> 'n Vehicle list) option \<Rightarrow> 'n dispatcher_impl option
    \<Rightarrow> 'n SmartDispatcher \<Rightarrow> 'n fallback_impl option \<Rightarrow> bool \<Rightarrow> Duration \<Rightarrow> 'n sink option
    \<Rightarrow> 'n event Bus option \<Rightarrow> bool \<Rightarrow> 'n tuner_impl \<Rightarrow> 'n prediction option \<Rightarrow> 'n collectors
    \<Rightarrow> go_error + 'n DispatchManager" where
  "NewDispatchManager flt disp lp fb hasPublisher timeout snk bus disc tuner pred prom =
     (case (flt, disp, fb, hasPublisher) of
        (Some f, Some d, Some b, True) \<Rightarrow>
          Inr \<lparr>mgr_filter = f, mgr_dispatcher = d,
               lpDispatcher = (case d of LPImpl \<Rightarrow> Some lp | SmartImpl sd \<Rightarrow> Some sd | _ \<Rightarrow> None),
               lpFirst = Map.empty, mgr_fallback = b, hasDiscovery = disc,
               ackTimeout = (if timeout \<le> 0 then 5 * Second else timeout), mgr_metrics = snk,
               mgr_bus = bus, mgr_tuner = tuner, mgr_prediction = pred, mgr_store = None,
               storeClosed = False, mgr_statusStore = None, mgr_history = [], mgr_collectors = prom\<rparr>
      | _ \<Rightarrow> Inl (Errorf ''dispatch: nil parameter provided to NewDispatchManager''))"

definition SetLPFirst :: "(SignalType \<rightharpoonup> bool) option \<Rightarrow> 'n DispatchManager \<Rightarrow> 'n DispatchManager" where
  "SetLPFirst cfg m = (case cfg of None \<Rightarrow> m | Some c \<Rightarrow> m\<lparr>lpFirst := c\<rparr>)"

definition SetLogStore :: "'n LogRecord list option \<Rightarrow> 'n DispatchManager \<Rightarrow> 'n DispatchManager" where
  "SetLogStore st m = m\<lparr>mgr_store := st\<rparr>"

definition SetStatusStore :: "'n status_store option \<Rightarrow> 'n DispatchManager \<Rightarrow> 'n DispatchManager" where
  "SetStatusStore st m = m\<lparr>mgr_statusStore := st\<rparr>"

subsection \<open>Bus and metrics\<close>

definition publish_on :: "'n event Bus option \<Rightarrow> 'n event \<Rightarrow> 'n event Bus option option" where
  "publish_on bus e = (case bus of None \<Rightarrow> Some None | Some b \<Rightarrow> map_option Some (Bus_Publish e b))"

definition publish_event :: "'n event \<Rightarrow> 'n DispatchManager \<Rightarrow> 'n DispatchManager option" where
  "publish_event e m = map_option (\<lambda>b. m\<lparr>mgr_bus := b\<rparr>) (publish_on (mgr_bus m) e)"

definition record_on :: "('n sink \<Rightarrow> bool) \<Rightarrow> 'n metric \<Rightarrow> 'n sink option \<Rightarrow> 'n sink option" where
  "record_on can x snk = map_option (\<lambda>s. if can s then s\<lparr>recorded := recorded s @ [x]\<rparr> else s) snk"

subsection \<open>Choosing the strategy\<close>

text \<open>\<open>m.dispatcher.Dispatch(v, s)\<close>\<close>

definition run_dispatcher ::
  "'n dispatch_env \<Rightarrow> 'n::{zero,one,plus,minus,uminus,times,inverse,ord} DispatchManager \<Rightarrow> 'n Vehicle list
    \<Rightarrow> 'n FlexibilitySignal \<Rightarrow> ('n DispatchManager \<times> (string \<rightharpoonup> 'n)) option" where
  "run_dispatcher env m vs s =
     (case mgr_dispatcher m of
        EqualImpl \<Rightarrow> Some (m, EqualDispatcher_Dispatch vs s)
      | SmartImpl d \<Rightarrow>
          map_option (\<lambda>(d', asn). (m\<lparr>mgr_dispatcher := SmartImpl d'\<rparr>, asn))
            (SmartDispatcher_Dispatch (envExp env) d vs s)
      | LPImpl \<Rightarrow>
          (case lpDispatcher m of
             None \<Rightarrow> None
           | Some d \<Rightarrow>
               map_option (\<lambda>(d', asn). (m\<lparr>lpDispatcher := Some d'\<rparr>, asn))
                 (LPDispatcher_Dispatch (envSolve env) (envExp env) d vs s))
      | SegmentedImpl cfg \<Rightarrow>
          map_option (Pair m)
            (Segmented_Dispatch (envSolve env) (envExp env) (envWeights env) (envSegments env) cfg vs s))"

text \<open>The dispatcher whose assignments are used: the LP dispatcher, or the one of the manager.\<close>

datatype used = UsedLP | UsedMain

definition dispatchStrategy ::
  "'n dispatch_env \<Rightarrow> 'n::{zero,one,plus,minus,uminus,times,inverse,ord} DispatchManager \<Rightarrow> 'n Vehicle list
    \<Rightarrow> 'n FlexibilitySignal \<Rightarrow> ('n DispatchManager \<times> (string \<rightharpoonup> 'n) \<times> used) option" where
  "dispatchStrategy env m vs s =
     (case (getd False (lpFirst m) (SigType s), lpDispatcher m) of
        (True, Some d) \<Rightarrow>
          (case publish_event (StrategyEvent (SigType s) ''lp_attempt'' None) m of
             None \<Rightarrow> None
           | Some m1 \<Rightarrow>
               (case DispatchStrict (envSolve env) (envExp env) d vs s of
                  (d', StrictPanic) \<Rightarrow> None
                | (d', StrictOk asn) \<Rightarrow> Some (m1\<lparr>lpDispatcher := Some d'\<rparr>, asn, UsedLP)
                | (d', StrictErr asn err) \<Rightarrow>
                    (case publish_event (StrategyEvent (SigType s) ''lp_failure'' (Some err))
                            (m1\<lparr>lpDispatcher := Some d'\<rparr>) of
                       None \<Rightarrow> None
                     | Some m2 \<Rightarrow>
                         (case run_dispatcher env m2 vs s of
                            None \<Rightarrow> None
                          | Some (m3, asn) \<Rightarrow>
                              map_option (\<lambda>m4. (m4, asn, UsedMain))
                                (publish_event (StrategyEvent (SigType s) ''smart_fallback'' None) m3)))))
      | _ \<Rightarrow> map_option (\<lambda>(m1, asn). (m1, asn, UsedMain)) (run_dispatcher env m vs s))"

text \<open>\<open>used.(ScoringDispatcher)\<close> and \<open>used.(MarketPriceProvider)\<close>: the smart state behind, if any.\<close>

definition smart_state :: "'n DispatchManager \<Rightarrow> used \<Rightarrow> 'n SmartDispatcher option" where
  "smart_state m u =
     (case u of
        UsedLP \<Rightarrow> lpDispatcher m
      | UsedMain \<Rightarrow>
          (case mgr_dispatcher m of
             EqualImpl \<Rightarrow> None
           | SmartImpl d \<Rightarrow> Some d
           | LPImpl \<Rightarrow> lpDispatcher m
           | SegmentedImpl cfg \<Rightarrow> None))"

subsection \<open>Sending the orders\<close>

text \<open>\<open>sendAndWait\<close>: order identifier, acknowledgment, latency and error, with the counters.\<close>

definition order_outcome ::
  "'n dispatch_env \<Rightarrow> Duration \<Rightarrow> string \<Rightarrow> 'n \<Rightarrow> string \<times> bool \<times> Duration \<times> go_error option" where
  "order_outcome env timeout i p =
     (case envSend env i p of
        Inl e \<Rightarrow> ([], False, envLatency env i, Some e)
      | Inr cmdID \<Rightarrow> (case envAck env cmdID timeout of (ack, err) \<Rightarrow> (cmdID, ack, envLatency env i, err)))"

definition sendAndWait ::
  "'n dispatch_env \<Rightarrow> Duration \<Rightarrow> string \<Rightarrow> 'n \<Rightarrow> 'n collectors
    \<Rightarrow> (string \<times> bool \<times> Duration \<times> go_error option) \<times> 'n collectors" where
  "sendAndWait env timeout i p c =
     (order_outcome env timeout i p,
      case envSend env i p of
        Inl e \<Rightarrow> c\<lparr>mqttFailure := mqttFailure c + 1\<rparr>
      | Inr cmdID \<Rightarrow> c\<lparr>mqttSuccess := mqttSuccess c + 1\<rparr>)"

text \<open>What the goroutines share.\<close>

record 'n shared =
  sh_errors :: "string \<rightharpoonup> go_error"
  sh_acks :: "string \<rightharpoonup> bool"
  sh_lat :: "DispatchLatency list"
  sh_ackCount :: nat
  sh_bus :: "'n event Bus option"
  sh_metrics :: "'n sink option"
  sh_collectors :: "'n collectors"

text \<open>The closure \<open>update\<close>, lines 331 to 361.\<close>

definition update_result ::
  "SignalType \<Rightarrow> bool \<Rightarrow> string \<Rightarrow> string \<times> bool \<times> Duration \<times> go_error option
    \<Rightarrow> 'n::{zero,one,plus,uminus,inverse} shared \<Rightarrow> 'n shared option" where
  "update_result t recordLatency i out sh =
     (case out of (orderID, ack, dur, err) \<Rightarrow>
        let acked = (err = None \<and> ack);
            c = sh_collectors sh;
            label = SignalType_String t;
            sh1 = sh\<lparr>sh_errors := (case err of None \<Rightarrow> sh_errors sh | Some e \<Rightarrow> (sh_errors sh)(i \<mapsto> e)),
                     sh_acks := (sh_acks sh)(i \<mapsto> acked),
                     sh_collectors := c\<lparr>vehiclesDispatched := (vehiclesDispatched c)(label := vehiclesDispatched c label + 1),
                                        latencySeconds := latencySeconds c @ [(label, Seconds dur)]\<rparr>\<rparr>
        in case publish_on (sh_bus sh1) (AckEvent orderID i t acked err dur) of
             None \<Rightarrow> None
           | Some bus \<Rightarrow>
               Some (sh1\<lparr>sh_bus := bus,
                         sh_lat := (if recordLatency
                                    then sh_lat sh1 @ [\<lparr>dl_VehicleID = i, dl_Signal = t, dl_Acknowledged = acked, dl_Latency = dur\<rparr>]
                                    else sh_lat sh1),
                         sh_ackCount := (if acked then sh_ackCount sh1 + 1 else sh_ackCount sh1)\<rparr>))"

text \<open>\<open>RecordDispatchOrder\<close>, lines 376 to 387; \<open>res.MarketPrice\<close> is read from the result so far.\<close>

definition order_event ::
  "'n dispatch_env \<Rightarrow> SignalType \<Rightarrow> 'n::zero DispatchResult \<Rightarrow> string \<Rightarrow> 'n
    \<Rightarrow> string \<times> bool \<times> Duration \<times> go_error option \<Rightarrow> 'n OrderEvent" where
  "order_event env t res i p out =
     (case out of (orderID, ack, dur, err) \<Rightarrow>
        \<lparr>oe_OrderID = orderID, oe_VehicleID = i, oe_Signal = t, oe_PowerKW = p,
         oe_Score = getd 0 (ResScores res) i, oe_MarketPrice = ResMarketPrice res,
         oe_Accepted = (err = None \<and> ack), oe_Time = envNow env\<rparr>)"

fun run_action ::
  "'n dispatch_env \<Rightarrow> Duration \<Rightarrow> SignalType \<Rightarrow> bool \<Rightarrow> 'n::{zero,one,plus,uminus,inverse} DispatchResult
    \<Rightarrow> action \<Rightarrow> 'n shared \<Rightarrow> 'n shared option" where
  "run_action env timeout t recordLatency res (ActSend i) sh =
     Some (sh\<lparr>sh_collectors :=
       snd (sendAndWait env timeout i (getd 0 (Assignments res) i) (sh_collectors sh))\<rparr>)"
| "run_action env timeout t recordLatency res (ActUpdate i) sh =
     update_result t recordLatency i (order_outcome env timeout i (getd 0 (Assignments res) i)) sh"
| "run_action env timeout t recordLatency res (ActRecord i) sh =
     (let p = getd 0 (Assignments res) i in
      Some (sh\<lparr>sh_metrics := record_on isOrderRecorder
        (DispatchOrder (order_event env t res i p (order_outcome env timeout i p))) (sh_metrics sh)\<rparr>))"

fun run_actions ::
  "'n dispatch_env \<Rightarrow> Duration \<Rightarrow> SignalType \<Rightarrow> bool \<Rightarrow> 'n::{zero,one,plus,uminus,inverse} DispatchResult
    \<Rightarrow> action list \<Rightarrow> 'n shared \<Rightarrow> 'n shared option" where
  "run_actions env timeout t recordLatency res [] sh = Some sh"
| "run_actions env timeout t recordLatency res (a # as) sh =
     (case run_action env timeout t recordLatency res a sh of
        None \<Rightarrow> None
      | Some sh' \<Rightarrow> run_actions env timeout t recordLatency res as sh')"

definition canRecordLatency :: "'n DispatchManager \<Rightarrow> bool" where
  "canRecordLatency m = (case mgr_metrics m of None \<Rightarrow> False | Some s \<Rightarrow> isLatencyRecorder s)"

definition dispatchAssignments ::
  "'n dispatch_env \<Rightarrow> 'n::{zero,one,plus,uminus,inverse} DispatchResult \<Rightarrow> 'n FlexibilitySignal \<Rightarrow> bool
    \<Rightarrow> 'n DispatchManager \<Rightarrow> ('n DispatchResult \<times> DispatchLatency list \<times> 'n DispatchManager) option" where
  "dispatchAssignments env res s recordLatency m =
     (case run_actions env (ackTimeout m) (SigType s) recordLatency res (envSchedule env)
             \<lparr>sh_errors = Errors res, sh_acks = Acknowledged res, sh_lat = [], sh_ackCount = 0,
              sh_bus = mgr_bus m, sh_metrics = mgr_metrics m, sh_collectors = mgr_collectors m\<rparr> of
        None \<Rightarrow> None
      | Some sh \<Rightarrow>
          let tot = card (dom (Assignments res));
              c = sh_collectors sh;
              c' = (if 0 < tot
                    then c\<lparr>ackRate := (ackRate c)(SignalType_String (SigType s) \<mapsto> num (sh_ackCount sh) / num tot)\<rparr>
                    else c)
          in Some (res\<lparr>Errors := sh_errors sh, Acknowledged := sh_acks sh\<rparr>, sh_lat sh,
                   m\<lparr>mgr_bus := sh_bus sh, mgr_metrics := sh_metrics sh, mgr_collectors := c'\<rparr>))"

fun unacknowledged :: "'n Vehicle list \<Rightarrow> (string \<rightharpoonup> bool) \<Rightarrow> 'n Vehicle list" where
  "unacknowledged [] acks = []"
| "unacknowledged (v # vs) acks =
     (if \<not> getd False acks (ID v) then v # unacknowledged vs acks else unacknowledged vs acks)"

text \<open>\<open>ids\<close> is the order in which the assignments are ranged over.\<close>

definition metrics_results :: "string list \<Rightarrow> 'n::zero DispatchResult \<Rightarrow> 'n MetricsResult list" where
  "metrics_results ids res =
     map (\<lambda>vid. \<lparr>mr_Signal = ResSignal res, mr_StartTime = Timestamp (ResSignal res),
                 mr_EndTime = timeAdd (Timestamp (ResSignal res)) (SigDuration (ResSignal res)),
                 mr_VehicleID = vid, mr_PowerKW = getd 0 (Assignments res) vid,
                 mr_Score = getd 0 (ResScores res) vid, mr_MarketPrice = ResMarketPrice res,
                 mr_Acknowledged = getd False (Acknowledged res) vid,
                 mr_DispatchTime = Timestamp (ResSignal res)\<rparr>) ids"

definition recordMetrics ::
  "string list \<Rightarrow> 'n::zero DispatchResult \<Rightarrow> DispatchLatency list \<Rightarrow> bool \<Rightarrow> 'n DispatchManager \<Rightarrow> 'n DispatchManager" where
  "recordMetrics ids res lat hasLatency m =
     (let snk = record_on (\<lambda>_. True) (DispatchResults (metrics_results ids res)) (mgr_metrics m)
      in m\<lparr>mgr_metrics := (if hasLatency then record_on isLatencyRecorder (DispatchLatencies lat) snk else snk)\<rparr>)"

subsection \<open>Dispatch\<close>

text \<open>Discovery, lines 191 to 205.\<close>

definition discover_fleet ::
  "'n dispatch_env \<Rightarrow> 'n DispatchManager \<Rightarrow> 'n Vehicle list \<Rightarrow> 'n Vehicle list \<times> 'n DispatchManager" where
  "discover_fleet env m vs =
     (if vs = [] \<and> hasDiscovery m
      then (case envDiscover env of
              Inl e \<Rightarrow> (vs, m)
            | Inr found \<Rightarrow>
                (found, m\<lparr>mgr_metrics := record_on isFleetSizeRecorder (FleetSize (length found)) (mgr_metrics m)\<rparr>))
      else (vs, m))"

text \<open>Prediction, lines 207 to 229.\<close>

definition predict_vehicle ::
  "'n prediction \<Rightarrow> 'n FlexibilitySignal \<Rightarrow> Duration \<Rightarrow> 'n Vehicle \<Rightarrow> 'n Vehicle" where
  "predict_vehicle pr s horizon v =
     (let v1 = v\<lparr>AvailabilityProb := PredictAvailability pr (ID v) (timeAdd (Timestamp s) horizon)\<rparr>;
          fc = ForecastSoC pr (ID v) horizon
      in if fc \<noteq> [] then v1\<lparr>SoC := last fc\<rparr> else v1)"

definition predict_fleet ::
  "'n dispatch_env \<Rightarrow> 'n DispatchManager \<Rightarrow> 'n FlexibilitySignal \<Rightarrow> 'n Vehicle list
    \<Rightarrow> 'n Vehicle list \<times> 'n DispatchManager" where
  "predict_fleet env m s vs =
     (case mgr_prediction m of
        None \<Rightarrow> (vs, m)
      | Some pr \<Rightarrow>
          let horizon = (if SigDuration s \<le> 0 then Hour else SigDuration s);
              vs' = map (predict_vehicle pr s horizon) vs;
              avrecs = map (\<lambda>v. (ID v, AvailabilityProb v, envNow env)) vs'
          in (vs', if avrecs \<noteq> []
                   then m\<lparr>mgr_metrics := record_on isAvailabilityRecorder (VehicleAvailabilities avrecs) (mgr_metrics m)\<rparr>
                   else m))"

definition Fallback_SetVehicles :: "'n Vehicle list \<Rightarrow> 'n fallback_impl \<Rightarrow> 'n fallback_impl" where
  "Fallback_SetVehicles vs fb =
     (case fb of
        NoopImpl \<Rightarrow> NoopImpl
      | BalancedImpl b \<Rightarrow> BalancedImpl (Balanced_SetVehicles b vs)
      | ProbabilisticImpl b \<Rightarrow> ProbabilisticImpl (Probabilistic_SetVehicles b vs))"

definition Fallback_Reallocate ::
  "string list \<Rightarrow> 'n::{zero,one,plus,minus,uminus,times,inverse,ord} fallback_impl \<Rightarrow> 'n Vehicle list
    \<Rightarrow> (string \<rightharpoonup> 'n) \<Rightarrow> 'n FlexibilitySignal \<Rightarrow> (string \<rightharpoonup> 'n) option" where
  "Fallback_Reallocate ids fb failed current s =
     (case fb of
        NoopImpl \<Rightarrow> Some (NoopFallback_Reallocate failed current s)
      | BalancedImpl b \<Rightarrow> Balanced_Reallocate b ids failed current s
      | ProbabilisticImpl b \<Rightarrow> Probabilistic_Reallocate b ids failed current s)"

text \<open>The log record, lines 273 to 299.\<close>

definition log_record ::
  "'n dispatch_env \<Rightarrow> 'n FlexibilitySignal \<Rightarrow> 'n Vehicle list \<Rightarrow> 'n DispatchResult \<Rightarrow> 'n LogRecord" where
  "log_record env s vs res =
     \<lparr>LogTimestamp = envNow env, LogSignal = s, TargetPower = PowerKW s, VehiclesSelected = map ID vs,
      Response = \<lparr>lr_Assignments = Assignments res, lr_FallbackAssignments = FallbackAssignments res,
        lr_Errors = map_option (envErrorText env) \<circ> Errors res, lr_Acknowledged = Acknowledged res,
        lr_Signal = ResSignal res, lr_MarketPrice = ResMarketPrice res, lr_Scores = ResScores res\<rparr>\<rparr>"

text \<open>The status store, lines 300 to 313.\<close>

definition record_statuses ::
  "'n dispatch_env \<Rightarrow> 'n::zero FlexibilitySignal \<Rightarrow> 'n status_store \<Rightarrow> 'n status_store" where
  "record_statuses env s st =
     (let dec = \<lparr>LdSignalType = SignalType_String (SigType s), LdTargetPower = PowerKW s,
                 LdVehiclesSelected = envSelected env, LdTimestamp = Timestamp s\<rparr>
      in foldl (\<lambda>st i. RecordDispatch i dec st) st (envRecorded env))"

definition tune_dispatcher ::
  "'n dispatch_env \<Rightarrow> 'n DispatchResult list \<Rightarrow> 'n::{zero,one,plus,uminus,inverse,ord} DispatchManager \<Rightarrow> 'n DispatchManager" where
  "tune_dispatcher env hist m =
     (case mgr_tuner m of
        NoTuner \<Rightarrow> m
      | NoopTunerImpl \<Rightarrow> m
      | AckTunerImpl t \<Rightarrow>
          (case mgr_dispatcher m of
             SmartImpl d \<Rightarrow> m\<lparr>mgr_dispatcher := SmartImpl (Tune (envHistory env) t hist d)\<rparr>
           | LPImpl \<Rightarrow> m\<lparr>lpDispatcher := map_option (Tune (envHistory env) t hist) (lpDispatcher m)\<rparr>
           | _ \<Rightarrow> m))"

text \<open>The result before the orders are sent, lines 239 to 253: the market price is not yet set.\<close>

definition new_result ::
  "(string \<rightharpoonup> 'n) \<Rightarrow> 'n::zero SmartDispatcher option \<Rightarrow> 'n DispatchResult" where
  "new_result asn sd =
     \<lparr>Assignments = asn, FallbackAssignments = Map.empty, Errors = Map.empty, Acknowledged = Map.empty,
      ResSignal = \<lparr>SigType = SignalFCR, PowerKW = 0, SigDuration = 0, Timestamp = timeZero\<rparr>,
      ResMarketPrice = 0,
      ResScores = (case sd of None \<Rightarrow> Map.empty | Some d \<Rightarrow> GetScores d)\<rparr>"

text \<open>From the assignments to the end of the fallback, lines 258 to 267.\<close>

definition finish_result ::
  "'n dispatch_env \<Rightarrow> 'n::{zero,one,plus,minus,uminus,times,inverse,ord} FlexibilitySignal \<Rightarrow> 'n Vehicle list
    \<Rightarrow> 'n SmartDispatcher option \<Rightarrow> 'n fallback_impl \<Rightarrow> 'n DispatchResult \<Rightarrow> 'n DispatchResult option" where
  "finish_result env s vs sd fb res =
     (let failed = unacknowledged vs (Acknowledged res);
          price = (case sd of None \<Rightarrow> ResMarketPrice res | Some d \<Rightarrow> GetMarketPrice d) in
      if failed \<noteq> []
      then map_option (\<lambda>r. res\<lparr>FallbackAssignments := r, ResSignal := s, ResMarketPrice := price\<rparr>)
             (Fallback_Reallocate (envCurrent env) fb failed (Assignments res) s)
      else Some (res\<lparr>ResSignal := s, ResMarketPrice := price\<rparr>))"

text \<open>What follows the result, lines 268 to 316: metrics, history, stores and tuning.\<close>

definition commit_result ::
  "'n dispatch_env \<Rightarrow> 'n::{zero,one,plus,uminus,inverse,ord} FlexibilitySignal \<Rightarrow> 'n Vehicle list
    \<Rightarrow> DispatchLatency list \<Rightarrow> bool \<Rightarrow> 'n DispatchResult \<Rightarrow> 'n DispatchManager \<Rightarrow> 'n DispatchManager" where
  "commit_result env s vs lat hasLatency res m =
     (let m1 = recordMetrics (envResults env) res lat hasLatency m;
          hist = mgr_history m1 @ [res];
          m2 = m1\<lparr>mgr_history := hist,
                  mgr_store := map_option (\<lambda>st. st @ [log_record env s vs res]) (mgr_store m1),
                  mgr_statusStore := map_option (record_statuses env s) (mgr_statusStore m1)\<rparr>
      in tune_dispatcher env hist m2)"

definition Manager_Dispatch ::
  "'n dispatch_env \<Rightarrow> 'n::{zero,one,plus,minus,uminus,times,inverse,ord} DispatchManager \<Rightarrow> 'n FlexibilitySignal
    \<Rightarrow> 'n Vehicle list \<Rightarrow> ('n DispatchResult \<times> 'n DispatchManager) option" where
  "Manager_Dispatch env m s vehicles =
     (case discover_fleet env m vehicles of (fleet, m1) \<Rightarrow>
      case predict_fleet env m1 s (mgr_filter m1 fleet s) of (vs, m2) \<Rightarrow>
      case publish_event (SignalEvent s) (m2\<lparr>mgr_fallback := Fallback_SetVehicles vs (mgr_fallback m2)\<rparr>) of
        None \<Rightarrow> None
      | Some m3 \<Rightarrow>
      case dispatchStrategy env m3 vs s of
        None \<Rightarrow> None
      | Some (m4, asn, used) \<Rightarrow>
      let sd = smart_state m4 used; hasLatency = canRecordLatency m4 in
      case dispatchAssignments env (new_result asn sd) s hasLatency m4 of
        None \<Rightarrow> None
      | Some (res, lat, m5) \<Rightarrow>
      case finish_result env s vs sd (mgr_fallback m5) res of
        None \<Rightarrow> None
      | Some res' \<Rightarrow> Some (res', commit_result env s vs lat hasLatency res' m5))"

subsection \<open>Run and Close\<close>

text \<open>
  \<open>Run\<close>: the choices of its \<open>select\<close>, a signal received (the zero signal once the channel is
  closed) with the environment of its dispatch, or the end of the context.
\<close>

datatype 'n select_case = Received "'n FlexibilitySignal" "'n dispatch_env" | CtxDone

fun Manager_Run ::
  "'n select_case list \<Rightarrow> 'n::{zero,one,plus,minus,uminus,times,inverse,ord} DispatchManager \<Rightarrow> 'n DispatchManager option" where
  "Manager_Run [] m = Some m"
| "Manager_Run (CtxDone # cs) m = Some m"
| "Manager_Run (Received s env # cs) m =
     (case Manager_Dispatch env m s [] of None \<Rightarrow> None | Some (res, m') \<Rightarrow> Manager_Run cs m')"

text \<open>\<open>Close\<close>: \<open>discErr\<close> is the error of closing the discovery.\<close>

definition Manager_Close ::
  "go_error option \<Rightarrow> 'n DispatchManager \<Rightarrow> ('n DispatchManager \<times> go_error option) option" where
  "Manager_Close discErr m =
     (case (hasDiscovery m, discErr) of
        (True, Some e) \<Rightarrow> Some (m, Some e)
      | _ \<Rightarrow>
          (case (case mgr_bus m of None \<Rightarrow> Some None | Some b \<Rightarrow> map_option Some (Bus_Close b)) of
             None \<Rightarrow> None
           | Some bus \<Rightarrow>
               Some (m\<lparr>mgr_bus := bus, storeClosed := (mgr_store m \<noteq> None \<or> storeClosed m)\<rparr>, None)))"

subsection \<open>The bus of the manager\<close>

definition bus_ok :: "'n event Bus option \<Rightarrow> bool" where
  "bus_ok bus \<longleftrightarrow> (case bus of None \<Rightarrow> True | Some b \<Rightarrow> bus_inv b)"

lemma publish_on_ok:
  assumes "bus_ok bus"
  obtains bus' where "publish_on bus e = Some bus'" "bus_ok bus'"
proof (cases bus)
  case None
  then show ?thesis using that by (simp add: publish_on_def bus_ok_def)
next
  case (Some b)
  then have "bus_inv b" using assms by (simp add: bus_ok_def)
  from bus.publish_ok [OF this, of e] obtain b' where "Bus_Publish e b = Some b'" "bus_inv b'" by blast
  then show ?thesis using that [of "Some b'"] Some by (simp add: publish_on_def bus_ok_def)
qed

lemma publish_on_keeps: "bus_ok bus \<Longrightarrow> publish_on bus e = Some bus' \<Longrightarrow> bus_ok bus'"
  by (metis publish_on_ok option.inject)

lemma publish_event_ok:
  assumes "bus_ok (mgr_bus m)"
  obtains b where "publish_event e m = Some (m\<lparr>mgr_bus := b\<rparr>)" "bus_ok b"
proof -
  obtain b where "publish_on (mgr_bus m) e = Some b" "bus_ok b" by (rule publish_on_ok [OF assms])
  then show ?thesis using that [of b] by (simp add: publish_event_def)
qed

lemma publish_event_frame: "publish_event e m = Some m' \<Longrightarrow> \<exists>b. m' = m\<lparr>mgr_bus := b\<rparr>"
  by (auto simp: publish_event_def)

lemma publish_event_keeps: "bus_ok (mgr_bus m) \<Longrightarrow> publish_event e m = Some m' \<Longrightarrow> bus_ok (mgr_bus m')"
  by (auto simp: publish_event_def dest: publish_on_keeps)

subsection \<open>Frames of the steps\<close>

text \<open>The fields that choosing a strategy leaves alone.\<close>

definition same_frame :: "'n DispatchManager \<Rightarrow> 'n DispatchManager \<Rightarrow> bool" where
  "same_frame m m' \<longleftrightarrow> (\<exists>b d l. m' = m\<lparr>mgr_bus := b, mgr_dispatcher := d, lpDispatcher := l\<rparr>)"

lemma same_frame_upd [simp]:
  "same_frame m m"
  "same_frame m (m\<lparr>mgr_bus := b\<rparr>)" "same_frame m (m\<lparr>mgr_dispatcher := d\<rparr>)" "same_frame m (m\<lparr>lpDispatcher := l\<rparr>)"
proof -
  show "same_frame m m" unfolding same_frame_def
    by (intro exI [of _ "mgr_bus m"] exI [of _ "mgr_dispatcher m"] exI [of _ "lpDispatcher m"]) simp
  show "same_frame m (m\<lparr>mgr_bus := b\<rparr>)" unfolding same_frame_def
    by (intro exI [of _ b] exI [of _ "mgr_dispatcher m"] exI [of _ "lpDispatcher m"]) simp
  show "same_frame m (m\<lparr>mgr_dispatcher := d\<rparr>)" unfolding same_frame_def
    by (intro exI [of _ "mgr_bus m"] exI [of _ d] exI [of _ "lpDispatcher m"]) simp
  show "same_frame m (m\<lparr>lpDispatcher := l\<rparr>)" unfolding same_frame_def
    by (intro exI [of _ "mgr_bus m"] exI [of _ "mgr_dispatcher m"] exI [of _ l]) simp
qed

lemma same_frame_trans: "same_frame m m' \<Longrightarrow> same_frame m' m'' \<Longrightarrow> same_frame m m''"
  unfolding same_frame_def by (elim exE, simp) blast

lemma same_frame_sel:
  assumes "same_frame m m'"
  shows "ackTimeout m' = ackTimeout m" "mgr_history m' = mgr_history m" "mgr_metrics m' = mgr_metrics m"
    and "mgr_store m' = mgr_store m" "mgr_statusStore m' = mgr_statusStore m" "mgr_fallback m' = mgr_fallback m"
    and "mgr_tuner m' = mgr_tuner m" "mgr_collectors m' = mgr_collectors m"
  using assms by (auto simp: same_frame_def)

lemma run_dispatcher_frame:
  assumes "run_dispatcher env m vs s = Some (m', asn)"
  shows "same_frame m m' \<and> mgr_bus m' = mgr_bus m"
  using assms
  by (auto simp: run_dispatcher_def split: dispatcher_impl.splits option.splits)

lemma publish_event_same: "publish_event e m = Some m' \<Longrightarrow> same_frame m m'"
  using publish_event_frame same_frame_upd(2) by metis

lemma dispatchStrategy_frame:
  assumes "dispatchStrategy env m vs s = Some (m', asn, u)"
  shows "same_frame m m' \<and> (bus_ok (mgr_bus m) \<longrightarrow> bus_ok (mgr_bus m'))"
proof (cases "getd False (lpFirst m) (SigType s) \<and> lpDispatcher m \<noteq> None")
  case False
  then have "\<exists>m1 asn. run_dispatcher env m vs s = Some (m1, asn) \<and> m' = m1"
    using assms by (auto simp: dispatchStrategy_def split: bool.splits option.splits)
  then show ?thesis using run_dispatcher_frame by fastforce
next
  case True
  then obtain d where d: "getd False (lpFirst m) (SigType s) = True" "lpDispatcher m = Some d" by blast
  obtain m1 where m1: "publish_event (StrategyEvent (SigType s) ''lp_attempt'' None) m = Some m1"
    using assms d by (auto simp: dispatchStrategy_def split: option.splits)
  note f1 = publish_event_same [OF m1] and k1 = publish_event_keeps [OF _ m1]
  obtain d' r where r: "DispatchStrict (envSolve env) (envExp env) d vs s = (d', r)" by fastforce
  let ?m2 = "m1\<lparr>lpDispatcher := Some d'\<rparr>"
  have f2: "same_frame m ?m2" using same_frame_trans [OF f1 same_frame_upd(4)] .
  show ?thesis
  proof (cases r)
    case StrictPanic
    with assms d m1 r show ?thesis by (simp add: dispatchStrategy_def)
  next
    case (StrictOk a)
    with assms d m1 r have "m' = ?m2" by (simp add: dispatchStrategy_def)
    with f2 k1 show ?thesis by simp
  next
    case (StrictErr a err)
    with assms d m1 r obtain m2 m3 asn' where
      m2: "publish_event (StrategyEvent (SigType s) ''lp_failure'' (Some err)) ?m2 = Some m2"
      and m3: "run_dispatcher env m2 vs s = Some (m3, asn')"
      and m4: "publish_event (StrategyEvent (SigType s) ''smart_fallback'' None) m3 = Some m'"
      by (auto simp: dispatchStrategy_def split: option.splits)
    have "same_frame m m'"
      using f2 publish_event_same [OF m2] run_dispatcher_frame [OF m3] publish_event_same [OF m4]
      by (meson same_frame_trans)
    moreover have "bus_ok (mgr_bus m')" if "bus_ok (mgr_bus m)"
      using that k1 publish_event_keeps [OF _ m2] run_dispatcher_frame [OF m3] publish_event_keeps [OF _ m4]
      by simp
    ultimately show ?thesis by blast
  qed
qed

subsection \<open>Interleavings of the goroutines\<close>

text \<open>A schedule of the goroutines of a set of orders: every action once, each goroutine in its order.\<close>

definition valid_schedule :: "string set \<Rightarrow> action list \<Rightarrow> bool" where
  "valid_schedule D as \<longleftrightarrow>
     distinct as \<and> set as = ActSend ` D \<union> ActUpdate ` D \<union> ActRecord ` D \<and>
     (\<forall>i\<in>D. subseq [ActSend i, ActUpdate i, ActRecord i] as)"

lemma valid_schedule_mset: "valid_schedule D as \<Longrightarrow> valid_schedule D bs \<Longrightarrow> mset as = mset bs"
  by (simp add: valid_schedule_def flip: set_eq_iff_mset_eq_distinct)

lemma valid_schedule_update: "valid_schedule D as \<Longrightarrow> ActUpdate i \<in> set as \<longleftrightarrow> i \<in> D"
  by (auto simp: valid_schedule_def)

abbreviation power_of :: "'n::zero DispatchResult \<Rightarrow> string \<Rightarrow> 'n" where
  "power_of res i \<equiv> getd 0 (Assignments res) i"

definition order_err :: "'n dispatch_env \<Rightarrow> Duration \<Rightarrow> 'n::zero DispatchResult \<Rightarrow> string \<Rightarrow> go_error option" where
  "order_err env timeout res i = snd (snd (snd (order_outcome env timeout i (power_of res i))))"

definition order_acked :: "'n dispatch_env \<Rightarrow> Duration \<Rightarrow> 'n::zero DispatchResult \<Rightarrow> string \<Rightarrow> bool" where
  "order_acked env timeout res i \<longleftrightarrow>
     order_err env timeout res i = None \<and> fst (snd (order_outcome env timeout i (power_of res i)))"

lemma order_acked_iff:
  "order_acked env timeout res i \<longleftrightarrow>
     (\<exists>c. envSend env i (power_of res i) = Inr c \<and> envAck env c timeout = (True, None))"
  by (auto simp: order_acked_def order_err_def order_outcome_def split: sum.split prod.split)

lemma order_err_eq:
  "order_err env timeout res i =
     (case envSend env i (power_of res i) of Inl e \<Rightarrow> Some e | Inr c \<Rightarrow> snd (envAck env c timeout))"
  by (auto simp: order_err_def order_outcome_def split: sum.split prod.split)

text \<open>What an action counts.\<close>

fun counts_ack :: "'n dispatch_env \<Rightarrow> Duration \<Rightarrow> 'n::zero DispatchResult \<Rightarrow> action \<Rightarrow> bool" where
  "counts_ack env timeout res (ActUpdate i) \<longleftrightarrow> order_acked env timeout res i"
| "counts_ack env timeout res a \<longleftrightarrow> False"

fun counts_send :: "'n dispatch_env \<Rightarrow> bool \<Rightarrow> 'n::zero DispatchResult \<Rightarrow> action \<Rightarrow> bool" where
  "counts_send env ok res (ActSend i) \<longleftrightarrow> isl (envSend env i (power_of res i)) \<noteq> ok"
| "counts_send env ok res a \<longleftrightarrow> False"

text \<open>One action: the maps, the counters, and the metrics it adds.\<close>

lemma run_action_effect:
  assumes "run_action env T t rl res a sh = Some sh'"
  shows "sh_acks sh' j = (if a = ActUpdate j then Some (order_acked env T res j) else sh_acks sh j)"
    and "sh_errors sh' j = (if a = ActUpdate j \<and> order_err env T res j \<noteq> None then order_err env T res j else sh_errors sh j)"
    and "sh_ackCount sh' = sh_ackCount sh + (if counts_ack env T res a then 1 else 0)"
    and "mqttSuccess (sh_collectors sh') = mqttSuccess (sh_collectors sh) + (if counts_send env True res a then 1 else 0)"
    and "mqttFailure (sh_collectors sh') = mqttFailure (sh_collectors sh) + (if counts_send env False res a then 1 else 0)"
    and "ackRate (sh_collectors sh') = ackRate (sh_collectors sh)"
    and "sh_metrics sh' = sh_metrics sh \<or>
      (\<exists>e. sh_metrics sh' = record_on isOrderRecorder (DispatchOrder e) (sh_metrics sh) \<and> oe_MarketPrice e = ResMarketPrice res)"
    and "bus_ok (sh_bus sh) \<Longrightarrow> bus_ok (sh_bus sh')"
proof -
  have "(\<forall>j. sh_acks sh' j = (if a = ActUpdate j then Some (order_acked env T res j) else sh_acks sh j) \<and>
      sh_errors sh' j = (if a = ActUpdate j \<and> order_err env T res j \<noteq> None then order_err env T res j else sh_errors sh j)) \<and>
    sh_ackCount sh' = sh_ackCount sh + (if counts_ack env T res a then 1 else 0) \<and>
    mqttSuccess (sh_collectors sh') = mqttSuccess (sh_collectors sh) + (if counts_send env True res a then 1 else 0) \<and>
    mqttFailure (sh_collectors sh') = mqttFailure (sh_collectors sh) + (if counts_send env False res a then 1 else 0) \<and>
    ackRate (sh_collectors sh') = ackRate (sh_collectors sh) \<and>
    (sh_metrics sh' = sh_metrics sh \<or>
      (\<exists>e. sh_metrics sh' = record_on isOrderRecorder (DispatchOrder e) (sh_metrics sh) \<and> oe_MarketPrice e = ResMarketPrice res)) \<and>
    (bus_ok (sh_bus sh) \<longrightarrow> bus_ok (sh_bus sh'))"
  proof (cases a)
    case (ActSend i)
    then show ?thesis using assms by (auto simp: sendAndWait_def split: sum.splits)
  next
    case (ActUpdate i)
    then show ?thesis using assms
      by (auto simp: update_result_def Let_def order_acked_def order_err_def publish_on_keeps
          split: option.splits prod.splits)
  next
    case (ActRecord i)
    then show ?thesis using assms
      by (auto simp: Let_def order_event_def split: prod.splits)
  qed
  then show "sh_acks sh' j = (if a = ActUpdate j then Some (order_acked env T res j) else sh_acks sh j)"
    and "sh_errors sh' j = (if a = ActUpdate j \<and> order_err env T res j \<noteq> None then order_err env T res j else sh_errors sh j)"
    and "sh_ackCount sh' = sh_ackCount sh + (if counts_ack env T res a then 1 else 0)"
    and "mqttSuccess (sh_collectors sh') = mqttSuccess (sh_collectors sh) + (if counts_send env True res a then 1 else 0)"
    and "mqttFailure (sh_collectors sh') = mqttFailure (sh_collectors sh) + (if counts_send env False res a then 1 else 0)"
    and "ackRate (sh_collectors sh') = ackRate (sh_collectors sh)"
    and "sh_metrics sh' = sh_metrics sh \<or>
      (\<exists>e. sh_metrics sh' = record_on isOrderRecorder (DispatchOrder e) (sh_metrics sh) \<and> oe_MarketPrice e = ResMarketPrice res)"
    and "bus_ok (sh_bus sh) \<Longrightarrow> bus_ok (sh_bus sh')" by blast+
qed

lemma run_actions_effect:
  assumes "run_actions env T t rl res as sh = Some sh'"
  shows "(\<forall>j. sh_acks sh' j = (if ActUpdate j \<in> set as then Some (order_acked env T res j) else sh_acks sh j) \<and>
      sh_errors sh' j = (if ActUpdate j \<in> set as \<and> order_err env T res j \<noteq> None then order_err env T res j else sh_errors sh j)) \<and>
    sh_ackCount sh' = sh_ackCount sh + length (filter (counts_ack env T res) as) \<and>
    mqttSuccess (sh_collectors sh') = mqttSuccess (sh_collectors sh) + length (filter (counts_send env True res) as) \<and>
    mqttFailure (sh_collectors sh') = mqttFailure (sh_collectors sh) + length (filter (counts_send env False res) as) \<and>
    ackRate (sh_collectors sh') = ackRate (sh_collectors sh)"
  using assms
proof (induction as arbitrary: sh)
  case (Cons a as)
  then obtain sh1 where sh1: "run_action env T t rl res a sh = Some sh1" "run_actions env T t rl res as sh1 = Some sh'"
    by (auto split: option.splits)
  from Cons.IH [OF sh1(2)] show ?case
    by (auto simp: run_action_effect(1-6) [OF sh1(1)])
qed simp

lemma run_actions_returns:
  "bus_ok (sh_bus sh) \<Longrightarrow> \<exists>sh'. run_actions env T t rl res as sh = Some sh' \<and> bus_ok (sh_bus sh')"
proof (induction as arbitrary: sh)
  case (Cons a as)
  have "\<exists>sh1. run_action env T t rl res a sh = Some sh1"
  proof (cases a)
    case (ActUpdate i)
    obtain orderID ack dur err where out: "order_outcome env T i (power_of res i) = (orderID, ack, dur, err)"
      by (metis prod_cases4)
    obtain b where "publish_on (sh_bus sh) (AckEvent orderID i t (err = None \<and> ack) err dur) = Some b"
      using publish_on_ok [OF Cons.prems] by blast
    then show ?thesis by (simp add: ActUpdate out update_result_def Let_def)
  qed (simp_all add: Let_def)
  then obtain sh1 where "run_action env T t rl res a sh = Some sh1" by blast
  with Cons.IH [OF run_action_effect(8) [OF this Cons.prems]] show ?case by simp
qed simp

subsection \<open>The stages of a dispatch\<close>

lemma discover_fleet_frame: "discover_fleet env m vs = (fleet, m1) \<Longrightarrow> \<exists>x. m1 = m\<lparr>mgr_metrics := x\<rparr>"
proof -
  assume "discover_fleet env m vs = (fleet, m1)"
  then have "m1 = m \<or> (\<exists>x. m1 = m\<lparr>mgr_metrics := x\<rparr>)"
    by (auto simp: discover_fleet_def split: if_splits sum.splits)
  then show ?thesis by (elim disjE) (auto intro: exI [of _ "mgr_metrics m"])
qed

lemma predict_fleet_frame: "predict_fleet env m s vs = (vs', m1) \<Longrightarrow> \<exists>x. m1 = m\<lparr>mgr_metrics := x\<rparr>"
proof -
  assume "predict_fleet env m s vs = (vs', m1)"
  then have "m1 = m \<or> (\<exists>x. m1 = m\<lparr>mgr_metrics := x\<rparr>)"
    by (auto simp: predict_fleet_def Let_def split: if_splits option.splits)
  then show ?thesis by (elim disjE) (auto intro: exI [of _ "mgr_metrics m"])
qed

text \<open>The fleet a dispatch works on, and the manager once it is known.\<close>

definition prepared ::
  "'n dispatch_env \<Rightarrow> 'n DispatchManager \<Rightarrow> 'n FlexibilitySignal \<Rightarrow> 'n Vehicle list
    \<Rightarrow> 'n Vehicle list \<times> 'n DispatchManager" where
  "prepared env m s vehicles =
     (let (fleet, m1) = discover_fleet env m vehicles;
          (vs, m2) = predict_fleet env m1 s (mgr_filter m1 fleet s)
      in (vs, m2\<lparr>mgr_fallback := Fallback_SetVehicles vs (mgr_fallback m2)\<rparr>))"

lemma prepared_frame:
  assumes "prepared env m s vehicles = (vs, m2)"
  shows "\<exists>x. m2 = m\<lparr>mgr_metrics := x, mgr_fallback := Fallback_SetVehicles vs (mgr_fallback m)\<rparr>"
proof -
  obtain fleet m1 where d: "discover_fleet env m vehicles = (fleet, m1)" by fastforce
  obtain v2 m3 where p: "predict_fleet env m1 s (mgr_filter m1 fleet s) = (v2, m3)" by fastforce
  obtain x y where "m1 = m\<lparr>mgr_metrics := x\<rparr>" "m3 = m1\<lparr>mgr_metrics := y\<rparr>"
    using discover_fleet_frame [OF d] predict_fleet_frame [OF p] by blast
  moreover have "vs = v2" "m2 = m3\<lparr>mgr_fallback := Fallback_SetVehicles vs (mgr_fallback m3)\<rparr>"
    using assms d p by (auto simp: prepared_def)
  ultimately show ?thesis by (intro exI [of _ y]) simp
qed

lemma Manager_Dispatch_eq:
  "Manager_Dispatch env m s vehicles =
     (case prepared env m s vehicles of (vs, m2) \<Rightarrow>
      case publish_event (SignalEvent s) m2 of
        None \<Rightarrow> None
      | Some m3 \<Rightarrow>
      case dispatchStrategy env m3 vs s of
        None \<Rightarrow> None
      | Some (m4, asn, used) \<Rightarrow>
      let sd = smart_state m4 used; hasLatency = canRecordLatency m4 in
      case dispatchAssignments env (new_result asn sd) s hasLatency m4 of
        None \<Rightarrow> None
      | Some (res, lat, m5) \<Rightarrow>
      case finish_result env s vs sd (mgr_fallback m5) res of
        None \<Rightarrow> None
      | Some res' \<Rightarrow> Some (res', commit_result env s vs lat hasLatency res' m5))"
proof -
  obtain fleet m1 where d: "discover_fleet env m vehicles = (fleet, m1)" by fastforce
  obtain vs m2 where p: "predict_fleet env m1 s (mgr_filter m1 fleet s) = (vs, m2)" by fastforce
  show ?thesis unfolding Manager_Dispatch_def prepared_def d prod.case Let_def p by (rule refl)
qed

lemma Manager_DispatchE:
  assumes "Manager_Dispatch env m s vehicles = Some (res, m')"
  obtains vs m2 m3 m4 asn u r0 lat m5 where
    "prepared env m s vehicles = (vs, m2)" "publish_event (SignalEvent s) m2 = Some m3"
    "dispatchStrategy env m3 vs s = Some (m4, asn, u)"
    "dispatchAssignments env (new_result asn (smart_state m4 u)) s (canRecordLatency m4) m4 = Some (r0, lat, m5)"
    "finish_result env s vs (smart_state m4 u) (mgr_fallback m5) r0 = Some res"
    "m' = commit_result env s vs lat (canRecordLatency m4) res m5"
  using assms
  by (auto simp: Manager_Dispatch_eq Let_def split: prod.splits option.splits)

text \<open>The orders: what the result and the manager are after all goroutines are done.\<close>

definition sent_result ::
  "'n dispatch_env \<Rightarrow> Duration \<Rightarrow> string set \<Rightarrow> 'n::zero DispatchResult \<Rightarrow> 'n DispatchResult" where
  "sent_result env T D r =
     r\<lparr>Errors := (\<lambda>i. if i \<in> D then order_err env T r i else None),
       Acknowledged := (\<lambda>i. if i \<in> D then Some (order_acked env T r i) else None)\<rparr>"

lemma dispatchAssignments_effect:
  fixes r :: "'n::{zero,one,plus,uminus,inverse} DispatchResult"
  assumes "dispatchAssignments env r s rl m = Some (r', lat, m')"
    and "valid_schedule D (envSchedule env)" "Errors r = Map.empty" "Acknowledged r = Map.empty"
  shows "r' = sent_result env (ackTimeout m) D r"
    and "\<exists>b x c. m' = m\<lparr>mgr_bus := b, mgr_metrics := x, mgr_collectors := c\<rparr>"
proof -
  let ?sh = "\<lparr>sh_errors = Errors r, sh_acks = Acknowledged r, sh_lat = [], sh_ackCount = 0,
    sh_bus = mgr_bus m, sh_metrics = mgr_metrics m, sh_collectors = mgr_collectors m\<rparr>"
  obtain sh where sh: "run_actions env (ackTimeout m) (SigType s) rl r (envSchedule env) ?sh = Some sh"
    and r': "r' = r\<lparr>Errors := sh_errors sh, Acknowledged := sh_acks sh\<rparr>"
    and m': "\<exists>b x c. m' = m\<lparr>mgr_bus := b, mgr_metrics := x, mgr_collectors := c\<rparr>"
    using assms(1) by (auto simp: dispatchAssignments_def Let_def split: option.splits)
  note eff = run_actions_effect [OF sh, THEN conjunct1, rule_format]
  have "sh_acks sh = (\<lambda>i. if i \<in> D then Some (order_acked env (ackTimeout m) r i) else None)"
    using eff assms(4) valid_schedule_update [OF assms(2)] by (intro ext) simp
  moreover have "sh_errors sh = (\<lambda>i. if i \<in> D then order_err env (ackTimeout m) r i else None)"
    using eff assms(3) valid_schedule_update [OF assms(2)] by (intro ext) simp
  ultimately show "r' = sent_result env (ackTimeout m) D r" by (simp add: r' sent_result_def)
  show "\<exists>b x c. m' = m\<lparr>mgr_bus := b, mgr_metrics := x, mgr_collectors := c\<rparr>" by (rule m')
qed

lemma new_result_sel [simp]:
  "Assignments (new_result asn sd) = asn" "Errors (new_result asn sd) = Map.empty"
  "Acknowledged (new_result asn sd) = Map.empty" "ResMarketPrice (new_result asn sd) = 0"
  "FallbackAssignments (new_result asn sd) = Map.empty"
  by (simp_all add: new_result_def)

lemma finish_result_frame:
  assumes "finish_result env s vs sd fb r = Some res"
  shows "Assignments res = Assignments r" "Errors res = Errors r" "Acknowledged res = Acknowledged r"
    and "ResSignal res = s" "ResScores res = ResScores r"
    and "ResMarketPrice res = (case sd of None \<Rightarrow> ResMarketPrice r | Some d \<Rightarrow> MarketPrice d)"
  using assms by (auto simp: finish_result_def Let_def GetMarketPrice_def split: if_splits option.split)

lemma tune_dispatcher_frame:
  "same_frame m (tune_dispatcher env h m)" "mgr_bus (tune_dispatcher env h m) = mgr_bus m"
  by (simp_all add: tune_dispatcher_def split: tuner_impl.split dispatcher_impl.split)

lemma commit_result_sel:
  "mgr_history (commit_result env s vs lat hl res m) = mgr_history m @ [res]"
  "mgr_store (commit_result env s vs lat hl res m) = map_option (\<lambda>st. st @ [log_record env s vs res]) (mgr_store m)"
  "mgr_statusStore (commit_result env s vs lat hl res m) = map_option (record_statuses env s) (mgr_statusStore m)"
  "mgr_bus (commit_result env s vs lat hl res m) = mgr_bus m"
  "mgr_collectors (commit_result env s vs lat hl res m) = mgr_collectors m"
  by (simp_all add: commit_result_def Let_def recordMetrics_def
      same_frame_sel [OF tune_dispatcher_frame(1)] tune_dispatcher_frame(2))

lemma unacknowledged_eq: "unacknowledged vs acks = filter (\<lambda>v. \<not> getd False acks (ID v)) vs"
  by (induction vs) auto

text \<open>Everything up to the orders, for the manager of the start.\<close>

lemma Manager_Dispatch_result:
  assumes "Manager_Dispatch env m s vehicles = Some (res, m')"
    and "valid_schedule (dom (Assignments res)) (envSchedule env)"
  obtains vs m3 m4 u r0 where
    "prepared env m s vehicles = (vs, m3\<lparr>mgr_bus := mgr_bus m\<rparr>)"
    "dispatchStrategy env m3 vs s = Some (m4, Assignments res, u)"
    "r0 = sent_result env (ackTimeout m) (dom (Assignments res)) (new_result (Assignments res) (smart_state m4 u))"
    "finish_result env s vs (smart_state m4 u) (Fallback_SetVehicles vs (mgr_fallback m)) r0 = Some res"
    "mgr_history m' = mgr_history m @ [res]"
  using assms(1)
proof (rule Manager_DispatchE)
  fix vs m2 m3 m4 asn u r0 lat m5
  assume p: "prepared env m s vehicles = (vs, m2)" and pub: "publish_event (SignalEvent s) m2 = Some m3"
    and st: "dispatchStrategy env m3 vs s = Some (m4, asn, u)"
    and da: "dispatchAssignments env (new_result asn (smart_state m4 u)) s (canRecordLatency m4) m4 = Some (r0, lat, m5)"
    and fin: "finish_result env s vs (smart_state m4 u) (mgr_fallback m5) r0 = Some res"
    and m': "m' = commit_result env s vs lat (canRecordLatency m4) res m5"
  obtain x where m2: "m2 = m\<lparr>mgr_metrics := x, mgr_fallback := Fallback_SetVehicles vs (mgr_fallback m)\<rparr>"
    using prepared_frame [OF p] by blast
  obtain b where m3: "m3 = m2\<lparr>mgr_bus := b\<rparr>" using publish_event_frame [OF pub] by blast
  have "Assignments r0 = asn"
    using da by (auto simp: dispatchAssignments_def Let_def split: option.splits)
  then have asn: "asn = Assignments res" using finish_result_frame(1) [OF fin] by simp
  note f = same_frame_sel [OF conjunct1 [OF dispatchStrategy_frame [OF st]]]
  have T: "ackTimeout m4 = ackTimeout m" "mgr_history m4 = mgr_history m"
    "mgr_fallback m4 = Fallback_SetVehicles vs (mgr_fallback m)"
    using f m2 m3 by simp_all
  note e = dispatchAssignments_effect [OF da assms(2) new_result_sel(2,3)]
  have fb: "mgr_fallback m5 = mgr_fallback m4" "mgr_history m5 = mgr_history m4" using e(2) by auto
  show thesis
  proof (rule that)
    show "prepared env m s vehicles = (vs, m3\<lparr>mgr_bus := mgr_bus m\<rparr>)" using p m2 m3 by simp
    show "dispatchStrategy env m3 vs s = Some (m4, Assignments res, u)" using st asn by simp
    show "r0 = sent_result env (ackTimeout m) (dom (Assignments res)) (new_result (Assignments res) (smart_state m4 u))"
      using e(1) T asn by simp
    show "finish_result env s vs (smart_state m4 u) (Fallback_SetVehicles vs (mgr_fallback m)) r0 = Some res"
      using fin fb T by simp
    show "mgr_history m' = mgr_history m @ [res]" using m' fb T by (simp add: commit_result_sel)
  qed
qed

subsection \<open>What a dispatch returns\<close>

text \<open>
  C5. Every vehicle with an assignment is sent its order, and the result tells the truth about it: it is
  acknowledged exactly when the publisher accepted the order and the acknowledgment came without
  an error, its error is the one of the publication or of the wait, and no other vehicle appears.
  The vehicles left unacknowledged are handed to the fallback strategy, if there are any, and the
  result is appended to the history. This holds for every interleaving of the goroutines and for
  every number type, binary64 included.
\<close>

theorem manager_dispatch_result:
  assumes "Manager_Dispatch env m s vehicles = Some (res, m')"
    and "valid_schedule (dom (Assignments res)) (envSchedule env)"
  shows "dom (Acknowledged res) = dom (Assignments res) \<and> dom (Errors res) \<subseteq> dom (Assignments res) \<and>
    (\<forall>i p. Assignments res i = Some p \<longrightarrow>
       (Acknowledged res i = Some True \<longleftrightarrow>
          (\<exists>c. envSend env i p = Inr c \<and> envAck env c (ackTimeout m) = (True, None))) \<and>
       Errors res i = (case envSend env i p of Inl e \<Rightarrow> Some e | Inr c \<Rightarrow> snd (envAck env c (ackTimeout m)))) \<and>
    (let vs = fst (prepared env m s vehicles);
         failed = filter (\<lambda>v. Acknowledged res (ID v) \<noteq> Some True) vs in
     if failed = [] then FallbackAssignments res = Map.empty
     else Fallback_Reallocate (envCurrent env) (Fallback_SetVehicles vs (mgr_fallback m)) failed (Assignments res) s =
            Some (FallbackAssignments res)) \<and>
    ResSignal res = s \<and> mgr_history m' = mgr_history m @ [res]"
  using assms
proof (rule Manager_Dispatch_result)
  fix vs m3 m4 u r0
  assume p: "prepared env m s vehicles = (vs, m3\<lparr>mgr_bus := mgr_bus m\<rparr>)"
    and r0: "r0 = sent_result env (ackTimeout m) (dom (Assignments res)) (new_result (Assignments res) (smart_state m4 u))"
    and fin: "finish_result env s vs (smart_state m4 u) (Fallback_SetVehicles vs (mgr_fallback m)) r0 = Some res"
    and hist: "mgr_history m' = mgr_history m @ [res]"
  note f = finish_result_frame [OF fin]
  have ack: "Acknowledged res i = (if i \<in> dom (Assignments res)
      then Some (order_acked env (ackTimeout m) (new_result (Assignments res) (smart_state m4 u)) i) else None)" for i
    using f(3) r0 by (simp add: sent_result_def)
  have err: "Errors res i = (if i \<in> dom (Assignments res)
      then order_err env (ackTimeout m) (new_result (Assignments res) (smart_state m4 u)) i else None)" for i
    using f(2) r0 by (simp add: sent_result_def)
  have doms: "dom (Acknowledged res) = dom (Assignments res)" "dom (Errors res) \<subseteq> dom (Assignments res)"
    using ack err by (auto split: if_splits)
  have outcome: "(Acknowledged res i = Some True \<longleftrightarrow>
        (\<exists>c. envSend env i p = Inr c \<and> envAck env c (ackTimeout m) = (True, None))) \<and>
      Errors res i = (case envSend env i p of Inl e \<Rightarrow> Some e | Inr c \<Rightarrow> snd (envAck env c (ackTimeout m)))"
    if "Assignments res i = Some p" for i p
    using that ack [of i] err [of i] by (simp add: order_acked_iff order_err_eq getd_def domI)
  have "unacknowledged vs (Acknowledged r0) = filter (\<lambda>v. Acknowledged res (ID v) \<noteq> Some True) vs"
    unfolding unacknowledged_eq f(3) [symmetric]
    by (intro filter_cong) (auto simp: getd_def split: option.split)
  moreover have "Assignments r0 = Assignments res" "FallbackAssignments r0 = Map.empty"
    by (simp_all add: r0 sent_result_def)
  ultimately have fb: "let failed = filter (\<lambda>v. Acknowledged res (ID v) \<noteq> Some True) vs in
     if failed = [] then FallbackAssignments res = Map.empty
     else Fallback_Reallocate (envCurrent env) (Fallback_SetVehicles vs (mgr_fallback m)) failed (Assignments res) s =
            Some (FallbackAssignments res)"
    using fin by (auto simp: finish_result_def Let_def split: if_splits)
  show ?thesis
    unfolding p fst_conv Let_def using doms outcome fb [unfolded Let_def] hist f(4) by blast
qed

subsection \<open>Independence of the schedule\<close>

lemma env_sel:
  "envNow (env\<lparr>envSchedule := as\<rparr>) = envNow env" "envDiscover (env\<lparr>envSchedule := as\<rparr>) = envDiscover env"
  "envExp (env\<lparr>envSchedule := as\<rparr>) = envExp env" "envSolve (env\<lparr>envSchedule := as\<rparr>) = envSolve env"
  "envSend (env\<lparr>envSchedule := as\<rparr>) = envSend env" "envAck (env\<lparr>envSchedule := as\<rparr>) = envAck env"
  "envErrorText (env\<lparr>envSchedule := as\<rparr>) = envErrorText env" "envCurrent (env\<lparr>envSchedule := as\<rparr>) = envCurrent env"
  "envResults (env\<lparr>envSchedule := as\<rparr>) = envResults env" "envSelected (env\<lparr>envSchedule := as\<rparr>) = envSelected env"
  "envRecorded (env\<lparr>envSchedule := as\<rparr>) = envRecorded env" "envHistory (env\<lparr>envSchedule := as\<rparr>) = envHistory env"
  "envWeights (env\<lparr>envSchedule := as\<rparr>) = envWeights env" "envSegments (env\<lparr>envSchedule := as\<rparr>) = envSegments env"
  "envLatency (env\<lparr>envSchedule := as\<rparr>) = envLatency env"
  by simp_all

lemma schedule_irrelevant [simp]:
  "prepared (env\<lparr>envSchedule := as\<rparr>) m s vehicles = prepared env m s vehicles"
  "dispatchStrategy (env\<lparr>envSchedule := as\<rparr>) m vs s = dispatchStrategy env m vs s"
  "finish_result (env\<lparr>envSchedule := as\<rparr>) s vs sd fb r = finish_result env s vs sd fb r"
  "commit_result (env\<lparr>envSchedule := as\<rparr>) s vs lat hl r m = commit_result env s vs lat hl r m"
  unfolding prepared_def discover_fleet_def predict_fleet_def dispatchStrategy_def run_dispatcher_def
    finish_result_def commit_result_def log_record_def record_statuses_def
    tune_dispatcher_def env_sel
  by (rule refl)+

lemma schedule_irrelevant_orders [simp]:
  "order_err (env\<lparr>envSchedule := as\<rparr>) T r i = order_err env T r i"
  "order_acked (env\<lparr>envSchedule := as\<rparr>) T r i = order_acked env T r i"
  unfolding order_err_eq order_acked_iff env_sel by (rule refl)+

lemma schedule_irrelevant_counts [simp]:
  "counts_ack (env\<lparr>envSchedule := as\<rparr>) T r = counts_ack env T r"
  "counts_send (env\<lparr>envSchedule := as\<rparr>) ok r = counts_send env ok r"
  "sent_result (env\<lparr>envSchedule := as\<rparr>) T D r = sent_result env T D r"
proof -
  have "counts_ack (env\<lparr>envSchedule := as\<rparr>) T r a = counts_ack env T r a"
    "counts_send (env\<lparr>envSchedule := as\<rparr>) ok r a = counts_send env ok r a" for a
    by (cases a; simp)+
  then show "counts_ack (env\<lparr>envSchedule := as\<rparr>) T r = counts_ack env T r"
    "counts_send (env\<lparr>envSchedule := as\<rparr>) ok r = counts_send env ok r" by (simp_all add: fun_eq_iff)
  show "sent_result (env\<lparr>envSchedule := as\<rparr>) T D r = sent_result env T D r"
    unfolding sent_result_def schedule_irrelevant_orders by (rule refl)
qed

lemma dispatchAssignments_collectors:
  assumes "dispatchAssignments env r s rl m = Some (r', lat, m')"
  shows "mqttSuccess (mgr_collectors m') = mqttSuccess (mgr_collectors m) + length (filter (counts_send env True r) (envSchedule env))"
    and "mqttFailure (mgr_collectors m') = mqttFailure (mgr_collectors m) + length (filter (counts_send env False r) (envSchedule env))"
    and "ackRate (mgr_collectors m') = (if dom (Assignments r) = {} \<or> infinite (dom (Assignments r)) then ackRate (mgr_collectors m)
      else (ackRate (mgr_collectors m))(SignalType_String (SigType s) \<mapsto>
        num (length (filter (counts_ack env (ackTimeout m) r) (envSchedule env))) / num (card (dom (Assignments r)))))"
proof -
  let ?sh = "\<lparr>sh_errors = Errors r, sh_acks = Acknowledged r, sh_lat = [], sh_ackCount = 0,
    sh_bus = mgr_bus m, sh_metrics = mgr_metrics m, sh_collectors = mgr_collectors m\<rparr>"
  obtain sh where sh: "run_actions env (ackTimeout m) (SigType s) rl r (envSchedule env) ?sh = Some sh"
    and m': "mgr_collectors m' = (if 0 < card (dom (Assignments r))
      then (sh_collectors sh)\<lparr>ackRate := (ackRate (sh_collectors sh))(SignalType_String (SigType s) \<mapsto>
             num (sh_ackCount sh) / num (card (dom (Assignments r))))\<rparr> else sh_collectors sh)"
    using assms by (auto simp: dispatchAssignments_def Let_def split: option.splits if_splits)
  from run_actions_effect [OF sh] m' show "mqttSuccess (mgr_collectors m') = mqttSuccess (mgr_collectors m) + length (filter (counts_send env True r) (envSchedule env))"
    and "mqttFailure (mgr_collectors m') = mqttFailure (mgr_collectors m) + length (filter (counts_send env False r) (envSchedule env))"
    and "ackRate (mgr_collectors m') = (if dom (Assignments r) = {} \<or> infinite (dom (Assignments r)) then ackRate (mgr_collectors m)
      else (ackRate (mgr_collectors m))(SignalType_String (SigType s) \<mapsto>
        num (length (filter (counts_ack env (ackTimeout m) r) (envSchedule env))) / num (card (dom (Assignments r)))))"
    by (simp_all add: card_gt_0_iff)
qed

lemma dispatchAssignments_returns:
  assumes "bus_ok (mgr_bus m)"
  shows "\<exists>r' lat m'. dispatchAssignments env r s rl m = Some (r', lat, m')"
proof -
  let ?sh = "\<lparr>sh_errors = Errors r, sh_acks = Acknowledged r, sh_lat = [], sh_ackCount = 0,
    sh_bus = mgr_bus m, sh_metrics = mgr_metrics m, sh_collectors = mgr_collectors m\<rparr>"
  have "bus_ok (sh_bus ?sh)" using assms by simp
  from run_actions_returns [OF this, of env "ackTimeout m" "SigType s" rl r "envSchedule env"]
  show ?thesis by (auto simp: dispatchAssignments_def Let_def)
qed

text \<open>The bus is in order when the orders are sent.\<close>

lemma bus_before_orders:
  assumes "bus_ok (mgr_bus m)" "prepared env m s vehicles = (vs, m2)"
    and "publish_event (SignalEvent s) m2 = Some m3" "dispatchStrategy env m3 vs s = Some (m4, asn, u)"
  shows "bus_ok (mgr_bus m4)"
proof -
  have "mgr_bus m2 = mgr_bus m" using prepared_frame [OF assms(2)] by auto
  then have "bus_ok (mgr_bus m3)" using publish_event_keeps [OF _ assms(3)] assms(1) by simp
  then show ?thesis using dispatchStrategy_frame [OF assms(4)] by blast
qed

lemma commit_result_dispatchers:
  assumes "m' = m\<lparr>mgr_bus := b, mgr_metrics := x, mgr_collectors := c\<rparr>"
  shows "mgr_dispatcher (commit_result env s vs lat' hl res m') = mgr_dispatcher (commit_result env s vs lat hl res m)"
    and "lpDispatcher (commit_result env s vs lat' hl res m') = lpDispatcher (commit_result env s vs lat hl res m)"
  by (simp_all add: assms commit_result_def Let_def recordMetrics_def tune_dispatcher_def
      split: tuner_impl.split dispatcher_impl.split)

lemma filter_length_mset: "mset as = mset bs \<Longrightarrow> length (filter P as) = length (filter P bs)"
  by (metis mset_filter size_mset)

text \<open>Two schedules of the same orders: the result agrees, and so do all counters.\<close>

lemma dispatchAssignments_schedule:
  assumes "dispatchAssignments (env\<lparr>envSchedule := as\<rparr>) r s rl m = Some (r1, lat1, m1)"
    and "dispatchAssignments (env\<lparr>envSchedule := bs\<rparr>) r s rl m = Some (r2, lat2, m2)"
    and "valid_schedule D as" "valid_schedule D bs" "Errors r = Map.empty" "Acknowledged r = Map.empty"
  shows "r2 = r1" and "\<exists>b x c. m2 = m1\<lparr>mgr_bus := b, mgr_metrics := x, mgr_collectors := c\<rparr>"
    and "mqttSuccess (mgr_collectors m2) = mqttSuccess (mgr_collectors m1)"
    and "mqttFailure (mgr_collectors m2) = mqttFailure (mgr_collectors m1)"
    and "ackRate (mgr_collectors m2) = ackRate (mgr_collectors m1)"
proof -
  note e1 = dispatchAssignments_effect [OF assms(1), of D] and e2 = dispatchAssignments_effect [OF assms(2), of D]
  show "r2 = r1" using e1(1) e2(1) assms(3-6) by simp
  show "\<exists>b x c. m2 = m1\<lparr>mgr_bus := b, mgr_metrics := x, mgr_collectors := c\<rparr>"
    using e1(2) e2(2) assms(3-6) by fastforce
  note len = filter_length_mset [OF valid_schedule_mset [OF assms(4,3)]]
  show "mqttSuccess (mgr_collectors m2) = mqttSuccess (mgr_collectors m1)"
    "mqttFailure (mgr_collectors m2) = mqttFailure (mgr_collectors m1)"
    "ackRate (mgr_collectors m2) = ackRate (mgr_collectors m1)"
    unfolding dispatchAssignments_collectors [OF assms(1)] dispatchAssignments_collectors [OF assms(2)]
    by (simp_all add: len)
qed

text \<open>
  C6. The goroutines that send the orders run in parallel, but the dispatch does not depend on how they
  are interleaved: for any two schedules of the same orders it returns the same result, leaves the
  same history, stores, dispatcher weights and counters of the publications, and if one returns, so does the other.
\<close>

theorem dispatch_interleaving_independent:
  assumes "Manager_Dispatch (env\<lparr>envSchedule := as\<rparr>) m s vehicles = Some (res, m1)" "bus_ok (mgr_bus m)"
    and "valid_schedule (dom (Assignments res)) as" "valid_schedule (dom (Assignments res)) bs"
  shows "\<exists>m2. Manager_Dispatch (env\<lparr>envSchedule := bs\<rparr>) m s vehicles = Some (res, m2) \<and>
    mgr_history m2 = mgr_history m1 \<and> mgr_store m2 = mgr_store m1 \<and> mgr_statusStore m2 = mgr_statusStore m1 \<and>
    mgr_dispatcher m2 = mgr_dispatcher m1 \<and> lpDispatcher m2 = lpDispatcher m1 \<and>
    mqttSuccess (mgr_collectors m2) = mqttSuccess (mgr_collectors m1) \<and>
    mqttFailure (mgr_collectors m2) = mqttFailure (mgr_collectors m1) \<and>
    ackRate (mgr_collectors m2) = ackRate (mgr_collectors m1)"
  using assms(1)
proof (rule Manager_DispatchE, unfold schedule_irrelevant)
  fix vs m2 m3 m4 asn u r0 lat m5
  assume p: "prepared env m s vehicles = (vs, m2)" and pub: "publish_event (SignalEvent s) m2 = Some m3"
    and st: "dispatchStrategy env m3 vs s = Some (m4, asn, u)"
  let ?sd = "smart_state m4 u" and ?hl = "canRecordLatency m4"
  assume da: "dispatchAssignments (env\<lparr>envSchedule := as\<rparr>) (new_result asn ?sd) s ?hl m4 = Some (r0, lat, m5)"
    and fin: "finish_result env s vs ?sd (mgr_fallback m5) r0 = Some res"
    and m1: "m1 = commit_result env s vs lat ?hl res m5"
  obtain r0' lat' m5' where
    da': "dispatchAssignments (env\<lparr>envSchedule := bs\<rparr>) (new_result asn ?sd) s ?hl m4 = Some (r0', lat', m5')"
    using dispatchAssignments_returns [OF bus_before_orders [OF assms(2) p pub st]] by blast
  note same = dispatchAssignments_schedule [OF da da' assms(3,4) new_result_sel(2,3)]
  obtain b x c where m5': "m5' = m5\<lparr>mgr_bus := b, mgr_metrics := x, mgr_collectors := c\<rparr>" using same(2) by blast
  have fin': "finish_result env s vs ?sd (mgr_fallback m5') r0' = Some res"
    using fin unfolding same(1) m5' by simp
  have run: "Manager_Dispatch (env\<lparr>envSchedule := bs\<rparr>) m s vehicles =
      Some (res, commit_result env s vs lat' ?hl res m5')"
    unfolding Manager_Dispatch_eq schedule_irrelevant p pub st da' Let_def option.case prod.case fin'
    by (rule refl)
  show ?thesis
    using run commit_result_dispatchers [OF m5'] same(3-5) m5'
    by (intro exI [of _ "commit_result env s vs lat' ?hl res m5'"]) (simp add: m1 commit_result_sel)
qed

subsection \<open>A small run\<close>

definition mgr_env :: "real dispatch_env" where
  "mgr_env = \<lparr>envNow = timeZero, envDiscover = Inr [], envExp = exp, envSolve = (\<lambda>_ _ _. Inl ErrInfeasible),
     envSend = (\<lambda>i p. Inr (''cmd-'' @ i)), envAck = (\<lambda>c d. (True, None)), envLatency = (\<lambda>i. Millisecond),
     envErrorText = (\<lambda>e. []), 
     envSchedule = [ActSend ''v1'', ActSend ''v2'', ActUpdate ''v1'', ActUpdate ''v2'', ActRecord ''v1'', ActRecord ''v2''],
     envCurrent = [''v1'', ''v2''], envResults = [''v1'', ''v2''], envSelected = [''v1'', ''v2''],
     envRecorded = [''v1'', ''v2''],
     envHistory = (\<lambda>h. [''v1'', ''v2'']), envWeights = (\<lambda>w. []), envSegments = []\<rparr>"

definition mgr_sink :: "real sink" where
  "mgr_sink = \<lparr>isFleetSizeRecorder = True, isAvailabilityRecorder = True, isLatencyRecorder = True,
     isOrderRecorder = True, recorded = []\<rparr>"

definition mgr_test :: "real DispatchManager" where
  "mgr_test = projr (NewDispatchManager (Some SimpleVehicleFilter_Filter) (Some EqualImpl) NewSmartDispatcher
     (Some NoopImpl) True 0 (Some mgr_sink) None False NoTuner None
     \<lparr>mqttSuccess = 0, mqttFailure = 0, vehiclesDispatched = (\<lambda>_. 0), latencySeconds = [], ackRate = Map.empty\<rparr>)"

definition mgr_signal :: "real FlexibilitySignal" where
  "mgr_signal = \<lparr>SigType = SignalMA, PowerKW = 10, SigDuration = Hour, Timestamp = timeZero\<rparr>"

definition mgr_fleet :: "real Vehicle list" where
  "mgr_fleet = [zeroVehicle\<lparr>ID := ''v1'', Available := True, MaxPower := 7\<rparr>,
     zeroVehicle\<lparr>ID := ''v2'', Available := True, MaxPower := 7\<rparr>]"

abbreviation mgr_asn :: "string \<rightharpoonup> real" where
  "mgr_asn \<equiv> [''v1'' \<mapsto> 5, ''v2'' \<mapsto> 5]"

lemma mgr_schedule: "valid_schedule {''v1'', ''v2''} (envSchedule mgr_env)"
  by (simp add: valid_schedule_def mgr_env_def insert_commute)

lemma mgr_test_sel [simp]:
  "mgr_filter mgr_test = SimpleVehicleFilter_Filter" "mgr_dispatcher mgr_test = EqualImpl" "lpFirst mgr_test = Map.empty"
  "mgr_fallback mgr_test = NoopImpl" "hasDiscovery mgr_test = False" "mgr_metrics mgr_test = Some mgr_sink"
  "mgr_bus mgr_test = None" "mgr_prediction mgr_test = None" "ackTimeout mgr_test = 5 * Second"
  by (simp_all add: mgr_test_def NewDispatchManager_def)

lemma mgr_prepared: "prepared mgr_env mgr_test mgr_signal mgr_fleet = (mgr_fleet, mgr_test)"
  by (simp add: prepared_def discover_fleet_def predict_fleet_def SimpleVehicleFilter_eq_filter filter_accepts_def
      mgr_signal_def mgr_fleet_def Fallback_SetVehicles_def)

lemma mgr_strategy:
  "publish_event (SignalEvent mgr_signal) mgr_test = Some mgr_test"
  "dispatchStrategy mgr_env mgr_test mgr_fleet mgr_signal = Some (mgr_test, mgr_asn, UsedMain)"
proof -
  have "EqualDispatcher_Dispatch mgr_fleet mgr_signal = mgr_asn"
    by (simp add: EqualDispatcher_Dispatch_def mgr_fleet_def mgr_signal_def equal_loop.simps Let_def)
  then show "dispatchStrategy mgr_env mgr_test mgr_fleet mgr_signal = Some (mgr_test, mgr_asn, UsedMain)"
    by (simp add: dispatchStrategy_def run_dispatcher_def getd_def)
  show "publish_event (SignalEvent mgr_signal) mgr_test = Some mgr_test"
    by (simp add: publish_event_def publish_on_def)
qed

lemma mgr_orders:
  "\<exists>lat m5 snk e. dispatchAssignments mgr_env (new_result mgr_asn None) mgr_signal True mgr_test =
      Some (sent_result mgr_env (5 * Second) {''v1'', ''v2''} (new_result mgr_asn None), lat, m5) \<and>
     mgr_metrics m5 = Some snk \<and> DispatchOrder e \<in> set (recorded snk) \<and> oe_PowerKW e = 5 \<and>
     mgr_fallback m5 = NoopImpl"
proof -
  obtain r lat m5 where da: "dispatchAssignments mgr_env (new_result mgr_asn None) mgr_signal True mgr_test = Some (r, lat, m5)"
    using dispatchAssignments_returns [of mgr_test mgr_env "new_result mgr_asn None" mgr_signal True]
    by (auto simp: bus_ok_def)
  have "\<exists>snk e. mgr_metrics m5 = Some snk \<and> DispatchOrder e \<in> set (recorded snk) \<and> oe_PowerKW e = 5"
    using da by (auto simp: dispatchAssignments_def mgr_env_def Let_def update_result_def publish_on_def
        order_outcome_def record_on_def mgr_sink_def order_event_def getd_def conj_disj_distribR ex_disj_distrib)
  with dispatchAssignments_effect [OF da mgr_schedule] da show ?thesis by fastforce
qed

lemma mgr_run:
  obtains res m' where "Manager_Dispatch mgr_env mgr_test mgr_signal mgr_fleet = Some (res, m')"
    "Assignments res = mgr_asn"
    "\<exists>snk e. mgr_metrics m' = Some snk \<and> DispatchOrder e \<in> set (recorded snk) \<and> oe_PowerKW e = 5"
proof -
  let ?r = "sent_result mgr_env (5 * Second) {''v1'', ''v2''} (new_result mgr_asn None)"
  obtain lat m5 snk e where da: "dispatchAssignments mgr_env (new_result mgr_asn None) mgr_signal True mgr_test =
      Some (?r, lat, m5)"
    and m5: "mgr_metrics m5 = Some snk" "DispatchOrder e \<in> set (recorded snk)" "oe_PowerKW e = 5" "mgr_fallback m5 = NoopImpl"
    using mgr_orders by blast
  have sd: "smart_state mgr_test UsedMain = None" "canRecordLatency mgr_test"
    by (simp_all add: smart_state_def canRecordLatency_def mgr_sink_def)
  have "\<exists>res. finish_result mgr_env mgr_signal mgr_fleet None NoopImpl ?r = Some res"
    by (simp add: finish_result_def Let_def Fallback_Reallocate_def)
  then obtain res where fin: "finish_result mgr_env mgr_signal mgr_fleet None NoopImpl ?r = Some res" ..
  have "Manager_Dispatch mgr_env mgr_test mgr_signal mgr_fleet =
      Some (res, commit_result mgr_env mgr_signal mgr_fleet lat True res m5)"
    by (simp add: Manager_Dispatch_eq mgr_prepared mgr_strategy sd da fin m5 Let_def)
  moreover have "Assignments res = mgr_asn"
    using finish_result_frame(1) [OF fin] by (simp add: sent_result_def)
  moreover have "\<exists>snk e. mgr_metrics (commit_result mgr_env mgr_signal mgr_fleet lat True res m5) = Some snk \<and>
      DispatchOrder e \<in> set (recorded snk) \<and> oe_PowerKW e = 5"
    using m5 by (auto simp: commit_result_def Let_def recordMetrics_def record_on_def
        same_frame_sel [OF tune_dispatcher_frame(1)])
  ultimately show ?thesis using that by blast
qed

lemma mgr_asn_dom: "dom mgr_asn = {''v1'', ''v2''}"
  by auto

theorem manager_dispatch_result_witness:
  "\<exists>res :: real DispatchResult. dom (Acknowledged res) = {''v1'', ''v2''} \<and> Acknowledged res ''v1'' = Some True \<and> Errors res ''v1'' = None"
proof (rule mgr_run)
  fix res m'
  assume run: "Manager_Dispatch mgr_env mgr_test mgr_signal mgr_fleet = Some (res, m')"
    and asn: "Assignments res = mgr_asn"
  have "valid_schedule (dom (Assignments res)) (envSchedule mgr_env)" unfolding asn mgr_asn_dom by (rule mgr_schedule)
  note r = manager_dispatch_result [OF run this]
  have d: "dom (Acknowledged res) = {''v1'', ''v2''}" using conjunct1 [OF r] unfolding asn mgr_asn_dom .
  have "Assignments res ''v1'' = Some 5" by (simp add: asn)
  note o = r [THEN conjunct2, THEN conjunct2, THEN conjunct1, rule_format, OF this]
  have send: "envSend mgr_env ''v1'' 5 = Inr ''cmd-v1''" "\<And>c d. envAck mgr_env c d = (True, None)"
    by (simp_all add: mgr_env_def)
  from o have "Acknowledged res ''v1'' = Some True \<and> Errors res ''v1'' = None" unfolding send by simp
  with d show ?thesis by (intro exI [of _ res]) simp
qed

theorem dispatch_interleaving_independent_witness:
  "\<exists>res m2. Manager_Dispatch (mgr_env\<lparr>envSchedule := [ActSend ''v2'', ActUpdate ''v2'', ActSend ''v1'', ActRecord ''v2'',
       ActUpdate ''v1'', ActRecord ''v1'']\<rparr>) mgr_test mgr_signal mgr_fleet = Some (res, m2) \<and>
     Assignments res = [''v1'' \<mapsto> 5, ''v2'' \<mapsto> 5]"
proof (rule mgr_run)
  let ?bs = "[ActSend ''v2'', ActUpdate ''v2'', ActSend ''v1'', ActRecord ''v2'', ActUpdate ''v1'', ActRecord ''v1'']"
  fix res m'
  assume "Manager_Dispatch mgr_env mgr_test mgr_signal mgr_fleet = Some (res, m')"
    and asn: "Assignments res = mgr_asn"
  then have run: "Manager_Dispatch (mgr_env\<lparr>envSchedule := envSchedule mgr_env\<rparr>) mgr_test mgr_signal mgr_fleet = Some (res, m')"
    by simp
  have as: "valid_schedule (dom (Assignments res)) (envSchedule mgr_env)" unfolding asn mgr_asn_dom by (rule mgr_schedule)
  have bs: "valid_schedule (dom (Assignments res)) ?bs"
    unfolding asn mgr_asn_dom by (auto simp: valid_schedule_def)
  have "bus_ok (mgr_bus mgr_test)" by (simp add: bus_ok_def)
  from dispatch_interleaving_independent [OF run this as bs] asn show ?thesis by blast
qed

end
