(* ===== verification/Manager_Correctness.thy ===== *)
theory Manager_Correctness
  imports Dispatch_Manager
begin

text \<open>
  Properties of the dispatch manager that rest on the components it runs: that a dispatch and a whole
  run of the manager return, that orders keep to the limits of the vehicles, how an LP failure
  falls back, and what the order metrics carry.
\<close>

subsection \<open>State of the dispatchers\<close>

lemma SmartDispatcher_Dispatch_state:
  assumes "SmartDispatcher_Dispatch expf d vs s = Some (d', asn)"
  shows "\<exists>x. d' = d\<lparr>scores := x\<rparr>"
proof -
  have "d' = d \<or> (\<exists>x. d' = d\<lparr>scores := x\<rparr>)"
    using assms by (auto simp: SmartDispatcher_Dispatch_def Let_def split: if_splits)
  then show ?thesis by (elim disjE) (auto intro: exI [of _ "scores d"])
qed

lemma LPDispatcher_Dispatch_state:
  assumes "LPDispatcher_Dispatch lpSolve expf d vs s = Some (d', asn)"
  shows "\<exists>x. d' = d\<lparr>scores := x\<rparr>"
proof -
  have "fst (DispatchStrict lpSolve expf d vs s) = d'"
    using assms by (auto simp: LPDispatcher_Dispatch_def split: prod.splits strict_result.splits)
  with DispatchStrict_state [of lpSolve expf d vs s] show ?thesis by simp
qed

lemma Tune_rounds [simp]: "MaxRounds (Tune ids t h d) = MaxRounds d"
  by (simp add: Tune_def Let_def split: option.split prod.split)

subsection \<open>A dispatch returns\<close>

text \<open>
  A manager whose dispatchers have a round limit and whose fallback is \<open>NoopFallback\<close>, the strategy
  the service configures (\<open>app/service.go\<close>), with its bus in order.
\<close>

definition mgr_live :: "'n DispatchManager \<Rightarrow> bool" where
  "mgr_live m \<longleftrightarrow> bus_ok (mgr_bus m) \<and> mgr_fallback m = NoopImpl \<and>
     (\<forall>d. lpDispatcher m = Some d \<longrightarrow> MaxRounds d \<noteq> 0) \<and>
     (\<forall>d. mgr_dispatcher m = SmartImpl d \<longrightarrow> MaxRounds d \<noteq> 0) \<and>
     (mgr_dispatcher m = LPImpl \<longrightarrow> lpDispatcher m \<noteq> None)"

text \<open>The solver answers an error or a vector with an entry for every candidate.\<close>

definition solver_ok :: "'n dispatch_env \<Rightarrow> bool" where
  "solver_ok env \<longleftrightarrow> (\<forall>scs caps t sol. envSolve env scs caps t = Inr sol \<longrightarrow> length caps \<le> length sol)"

lemma solver_okD: "solver_ok env \<Longrightarrow> envSolve env scs caps t = Inr sol \<Longrightarrow> length caps \<le> length sol"
  by (simp add: solver_ok_def)

lemma run_dispatcher_live:
  fixes m :: "real DispatchManager"
  assumes "mgr_live m" "solver_ok env"
  shows "\<exists>m' asn. run_dispatcher env m vs s = Some (m', asn) \<and> mgr_live m'"
proof (cases "mgr_dispatcher m")
  case EqualImpl
  then show ?thesis using assms(1) by (simp add: run_dispatcher_def)
next
  case (SmartImpl d)
  then have "MaxRounds d \<noteq> 0" using assms(1) by (simp add: mgr_live_def)
  then obtain d' asn where run: "SmartDispatcher_Dispatch (envExp env) d vs s = Some (d', asn)"
    using smart_dispatch_defined by blast
  then have "MaxRounds d' = MaxRounds d" using SmartDispatcher_Dispatch_state by fastforce
  with run SmartImpl assms(1) show ?thesis by (simp add: run_dispatcher_def mgr_live_def)
next
  case LPImpl
  then obtain d where d: "lpDispatcher m = Some d" "MaxRounds d \<noteq> 0" using assms(1) by (auto simp: mgr_live_def)
  then obtain d' asn where run: "LPDispatcher_Dispatch (envSolve env) (envExp env) d vs s = Some (d', asn)"
    using lp_dispatch_defined [of d "envSolve env"] solver_okD [OF assms(2)] by blast
  then have "MaxRounds d' = MaxRounds d" using LPDispatcher_Dispatch_state by fastforce
  with run LPImpl d assms(1) show ?thesis by (simp add: run_dispatcher_def mgr_live_def)
next
  case (SegmentedImpl cfg)
  have "dispatchSegment (envSolve env) (envExp env) (envWeights env) vs' s' cfg' \<noteq> None" for vs' s' cfg'
    by (rule dispatchSegment_returns) (rule solver_okD [OF assms(2)])
  then have "Segmented_Dispatch (envSolve env) (envExp env) (envWeights env) (envSegments env) cfg vs s \<noteq> None"
    unfolding Segmented_Dispatch_def Let_def by (simp add: segment_loop_None del: not_None_eq)
  then show ?thesis using SegmentedImpl assms(1) by (auto simp: run_dispatcher_def)
qed

lemma publish_event_live:
  assumes "mgr_live m"
  obtains m' where "publish_event e m = Some m'" "mgr_live m'"
proof -
  obtain b where "publish_event e m = Some (m\<lparr>mgr_bus := b\<rparr>)" "bus_ok b"
    using publish_event_ok assms by (auto simp: mgr_live_def)
  with that [of "m\<lparr>mgr_bus := b\<rparr>"] assms show ?thesis by (simp add: mgr_live_def)
qed

lemma dispatchStrategy_live:
  fixes m :: "real DispatchManager"
  assumes "mgr_live m" "solver_ok env"
  shows "\<exists>m' asn u. dispatchStrategy env m vs s = Some (m', asn, u) \<and> mgr_live m'"
proof (cases "getd False (lpFirst m) (SigType s) \<and> lpDispatcher m \<noteq> None")
  case False
  with run_dispatcher_live [OF assms, of vs s] show ?thesis
    by (auto simp: dispatchStrategy_def split: bool.split option.split)
next
  case True
  then obtain d where d: "getd False (lpFirst m) (SigType s) = True" "lpDispatcher m = Some d" by blast
  obtain m1 where m1: "publish_event (StrategyEvent (SigType s) ''lp_attempt'' None) m = Some m1" "mgr_live m1"
    by (rule publish_event_live [OF assms(1)])
  obtain d' r where r: "DispatchStrict (envSolve env) (envExp env) d vs s = (d', r)" by fastforce
  obtain x where "d' = d\<lparr>scores := x\<rparr>" using DispatchStrict_state [of "envSolve env" "envExp env" d vs s] r by auto
  then have "MaxRounds d' \<noteq> 0" using d(2) assms(1) by (simp add: mgr_live_def)
  then have l2: "mgr_live (m1\<lparr>lpDispatcher := Some d'\<rparr>)"
    using m1(2) by (simp add: mgr_live_def)
  show ?thesis
  proof (cases r)
    case StrictPanic
    have "snd (DispatchStrict (envSolve env) (envExp env) d vs s) \<noteq> StrictPanic"
      by (rule strict_no_panic) (rule solver_okD [OF assms(2)])
    with StrictPanic r show ?thesis by simp
  next
    case (StrictOk a)
    then show ?thesis using d m1 r l2 by (simp add: dispatchStrategy_def)
  next
    case (StrictErr a err)
    obtain m2 where m2: "publish_event (StrategyEvent (SigType s) ''lp_failure'' (Some err)) (m1\<lparr>lpDispatcher := Some d'\<rparr>) = Some m2"
      "mgr_live m2" by (rule publish_event_live [OF l2])
    obtain m3 asn where m3: "run_dispatcher env m2 vs s = Some (m3, asn)" "mgr_live m3"
      using run_dispatcher_live [OF m2(2) assms(2), of vs s] by blast
    obtain m4 where "publish_event (StrategyEvent (SigType s) ''smart_fallback'' None) m3 = Some m4" "mgr_live m4"
      by (rule publish_event_live [OF m3(2)])
    with StrictErr d m1 r m2 m3 show ?thesis by (simp add: dispatchStrategy_def)
  qed
qed

lemma dispatchAssignments_live:
  assumes "mgr_live m"
  shows "\<exists>r' lat m'. dispatchAssignments env r s rl m = Some (r', lat, m') \<and> mgr_live m'"
proof -
  let ?sh = "\<lparr>sh_errors = Errors r, sh_acks = Acknowledged r, sh_lat = [], sh_ackCount = 0,
    sh_bus = mgr_bus m, sh_metrics = mgr_metrics m, sh_collectors = mgr_collectors m\<rparr>"
  have "bus_ok (sh_bus ?sh)" using assms by (simp add: mgr_live_def)
  from run_actions_returns [OF this, of env "ackTimeout m" "SigType s" rl r "envSchedule env"]
  show ?thesis using assms by (auto simp: dispatchAssignments_def Let_def mgr_live_def)
qed

lemma commit_result_live:
  assumes "mgr_live m"
  shows "mgr_live (commit_result env s vs lat hl res m)"
  using assms
  by (auto simp: commit_result_def Let_def recordMetrics_def tune_dispatcher_def mgr_live_def
      split: tuner_impl.split dispatcher_impl.splits option.splits)

lemma Manager_Dispatch_live:
  fixes m :: "real DispatchManager"
  assumes "mgr_live m" "solver_ok env"
  shows "\<exists>res m'. Manager_Dispatch env m s vehicles = Some (res, m') \<and> mgr_live m'"
proof -
  obtain vs m2 where p: "prepared env m s vehicles = (vs, m2)" by fastforce
  have "mgr_live m2"
    using prepared_frame [OF p] assms(1) by (auto simp: mgr_live_def Fallback_SetVehicles_def)
  then obtain m3 where m3: "publish_event (SignalEvent s) m2 = Some m3" "mgr_live m3" by (rule publish_event_live)
  obtain m4 asn u where m4: "dispatchStrategy env m3 vs s = Some (m4, asn, u)" "mgr_live m4"
    using dispatchStrategy_live [OF m3(2) assms(2)] by blast
  obtain r0 lat m5 where m5: "dispatchAssignments env (new_result asn (smart_state m4 u)) s (canRecordLatency m4) m4 = Some (r0, lat, m5)"
    "mgr_live m5" using dispatchAssignments_live [OF m4(2)] by blast
  have "mgr_fallback m5 = NoopImpl" using m5(2) by (simp add: mgr_live_def)
  then have "\<exists>res. finish_result env s vs (smart_state m4 u) (mgr_fallback m5) r0 = Some res"
    by (simp add: finish_result_def Let_def Fallback_Reallocate_def)
  then obtain res where "finish_result env s vs (smart_state m4 u) (mgr_fallback m5) r0 = Some res" ..
  with p m3 m4 m5 commit_result_live [OF m5(2)] show ?thesis
    by (simp add: Manager_Dispatch_eq Let_def)
qed

text \<open>
  C3. The manager never hangs or panics on its own account: with round limits on its dispatchers, the
  no-op fallback that the service configures and a solver that answers within its contract, every
  dispatch returns and \<open>Run\<close> handles any sequence of signals, whatever the fleet, the outcomes of
  the orders and the order in which goroutines and maps are scheduled.
\<close>

theorem manager_run_returns:
  fixes m :: "real DispatchManager"
  assumes "mgr_live m" "\<And>sg env. Received sg env \<in> set cs \<Longrightarrow> solver_ok env"
  shows "\<exists>m'. Manager_Run cs m = Some m' \<and> mgr_live m'"
  using assms
proof (induction cs arbitrary: m)
  case (Cons c cs)
  show ?case
  proof (cases c)
    case (Received sg env)
    then have "solver_ok env" by (intro Cons.prems(2) [of sg]) simp
    then obtain res m1 where "Manager_Dispatch env m sg [] = Some (res, m1)" "mgr_live m1"
      using Manager_Dispatch_live [OF Cons.prems(1)] by blast
    moreover have "\<exists>m'. Manager_Run cs m1 = Some m' \<and> mgr_live m'" if "mgr_live m1"
      by (rule Cons.IH [OF that]) (use Cons.prems(2) in auto)
    ultimately show ?thesis using Received by simp
  next
    case CtxDone
    then show ?thesis using Cons.prems(1) by simp
  qed
qed simp

theorem manager_run_returns_witness:
  "\<exists>m'. Manager_Run [Received mgr_signal mgr_env, Received mgr_signal mgr_env, CtxDone] mgr_test = Some m' \<and> mgr_live m'"
  by (rule manager_run_returns)
    (auto simp: mgr_live_def bus_ok_def solver_ok_def mgr_env_def mgr_test_def NewDispatchManager_def)

subsection \<open>Limits of the orders\<close>

text \<open>What the scoring dispatchers promise of an assignment for the vehicles \<open>vs\<close>.\<close>

definition within_limits :: "real FlexibilitySignal \<Rightarrow> real Vehicle list \<Rightarrow> (string \<rightharpoonup> real) \<Rightarrow> bool" where
  "within_limits s vs asn \<longleftrightarrow>
     (\<forall>i p. asn i = Some p \<longrightarrow> p \<noteq> 0 \<longrightarrow> 0 \<le> request_sign s * p \<and> \<bar>total_kw asn\<bar> \<le> \<bar>PowerKW s\<bar> + 1/1000 \<and>
        (\<exists>v\<in>set vs. ID v = i \<and> \<bar>p\<bar> \<le> MaxPower v))"

fun scoring :: "'n dispatcher_impl \<Rightarrow> bool" where
  "scoring (SmartImpl d) \<longleftrightarrow> True"
| "scoring LPImpl \<longleftrightarrow> True"
| "scoring _ \<longleftrightarrow> False"

lemma run_dispatcher_within:
  fixes m :: "real DispatchManager"
  assumes "run_dispatcher env m vs s = Some (m', asn)" "scoring (mgr_dispatcher m)" "distinct (map ID vs)"
  shows "within_limits s vs asn"
proof (cases "mgr_dispatcher m")
  case (SmartImpl d)
  then obtain d' where run: "SmartDispatcher_Dispatch (envExp env) d vs s = Some (d', asn)"
    using assms(1) by (auto simp: run_dispatcher_def)
  show ?thesis
    unfolding within_limits_def
    using smart_dispatch_total [OF run assms(3)] smart_dispatch_capacity(1) [OF run assms(3)]
      smart_dispatch_within [OF run assms(3)] by fastforce
next
  case LPImpl
  then obtain d d' where run: "LPDispatcher_Dispatch (envSolve env) (envExp env) d vs s = Some (d', asn)"
    using assms(1) by (auto simp: run_dispatcher_def split: option.splits)
  show ?thesis unfolding within_limits_def using lp_dispatch_within [OF run assms(3)] by blast
qed (use assms(2) in simp_all)

lemma strict_ok_within:
  fixes s :: "real FlexibilitySignal"
  assumes "DispatchStrict lpSolve expf d vs s = (d', StrictOk asn)" "distinct (map ID vs)"
  shows "within_limits s vs asn"
proof -
  have "LPDispatcher_Dispatch lpSolve expf d vs s = Some (d', asn)"
    using assms(1) by (simp add: LPDispatcher_Dispatch_def)
  then show ?thesis unfolding within_limits_def using lp_dispatch_within assms(2) by blast
qed

lemma dispatchStrategy_within:
  fixes m :: "real DispatchManager"
  assumes "dispatchStrategy env m vs s = Some (m', asn, u)" "scoring (mgr_dispatcher m)" "distinct (map ID vs)"
  shows "within_limits s vs asn"
proof (cases "getd False (lpFirst m) (SigType s) \<and> lpDispatcher m \<noteq> None")
  case False
  then obtain m1 where "run_dispatcher env m vs s = Some (m1, asn)"
    using assms(1) by (auto simp: dispatchStrategy_def split: bool.splits option.splits)
  then show ?thesis using assms(2,3) by (rule run_dispatcher_within)
next
  case True
  then obtain d where d: "getd False (lpFirst m) (SigType s) = True" "lpDispatcher m = Some d" by blast
  obtain m1 where m1: "publish_event (StrategyEvent (SigType s) ''lp_attempt'' None) m = Some m1"
    using assms(1) d by (auto simp: dispatchStrategy_def split: option.splits)
  obtain d' r where r: "DispatchStrict (envSolve env) (envExp env) d vs s = (d', r)" by fastforce
  show ?thesis
  proof (cases r)
    case StrictPanic
    with assms(1) d m1 r show ?thesis by (simp add: dispatchStrategy_def)
  next
    case (StrictOk a)
    with assms(1) d m1 r have "a = asn" by (simp add: dispatchStrategy_def)
    with StrictOk r assms(3) show ?thesis by (metis strict_ok_within)
  next
    case (StrictErr a err)
    with assms(1) d m1 r obtain m2 m3 where
      m2: "publish_event (StrategyEvent (SigType s) ''lp_failure'' (Some err)) (m1\<lparr>lpDispatcher := Some d'\<rparr>) = Some m2"
      and m3: "run_dispatcher env m2 vs s = Some (m3, asn)"
      by (auto simp: dispatchStrategy_def split: option.splits)
    have "mgr_dispatcher m2 = mgr_dispatcher m"
      using publish_event_frame [OF m1] publish_event_frame [OF m2] by auto
    with assms(2) run_dispatcher_within [OF m3 _ assms(3)] show ?thesis by simp
  qed
qed

text \<open>A prediction changes neither identity nor power of a vehicle.\<close>

lemma predict_fleet_map:
  assumes "predict_fleet env m s vs = (vs', m')"
  shows "map (\<lambda>v. (ID v, MaxPower v)) vs' = map (\<lambda>v. (ID v, MaxPower v)) vs"
  using assms
  by (auto simp: predict_fleet_def predict_vehicle_def Let_def split: option.splits)

text \<open>
  C4. With a scoring dispatcher, in whatever order LP and smart strategies are tried, every order
  that is sent goes to a vehicle of the fleet that is available and qualifies for the signal, in the
  direction of the signal, and asks for no more than the vehicle's maximum power; together the
  orders ask for no more than the signal, up to the watt that the LP strategy tolerates.
\<close>

theorem manager_orders_within_limits:
  fixes m :: "real DispatchManager"
  assumes "Manager_Dispatch env m s vehicles = Some (res, m')"
    and "mgr_filter m = SimpleVehicleFilter_Filter" "scoring (mgr_dispatcher m)"
    and "distinct (map ID (fst (discover_fleet env m vehicles)))"
    and "Assignments res i = Some p" "p \<noteq> 0"
  shows "\<exists>v\<in>set (fst (discover_fleet env m vehicles)). ID v = i \<and> \<bar>p\<bar> \<le> MaxPower v \<and> Available v \<and>
    (SigType s = SignalFCR \<longrightarrow> IsV2G v \<and> 3/5 \<le> SoC v) \<and> (SigType s = SignalNEBEF \<longrightarrow> CanReduceCharge v) \<and>
    0 \<le> request_sign s * p \<and> \<bar>total_kw (Assignments res)\<bar> \<le> \<bar>PowerKW s\<bar> + 1/1000"
  using assms(1)
proof (rule Manager_DispatchE)
  fix vs m2 m3 m4 asn u r0 lat m5
  assume p: "prepared env m s vehicles = (vs, m2)" and pub: "publish_event (SignalEvent s) m2 = Some m3"
    and st: "dispatchStrategy env m3 vs s = Some (m4, asn, u)"
    and da: "dispatchAssignments env (new_result asn (smart_state m4 u)) s (canRecordLatency m4) m4 = Some (r0, lat, m5)"
    and fin: "finish_result env s vs (smart_state m4 u) (mgr_fallback m5) r0 = Some res"
  obtain fleet m1 where d: "discover_fleet env m vehicles = (fleet, m1)" by fastforce
  have flt: "mgr_filter m1 = SimpleVehicleFilter_Filter" using discover_fleet_frame [OF d] assms(2) by auto
  let ?f = "filter (filter_accepts s) fleet"
  have "fst (predict_fleet env m1 s ?f) = vs"
    using p d flt by (auto simp: prepared_def Let_def SimpleVehicleFilter_eq_filter split: prod.splits)
  then obtain m1' where pr: "predict_fleet env m1 s ?f = (vs, m1')" by (metis prod.collapse)
  note vs = predict_fleet_map [OF pr]
  have ids: "map ID vs = map ID ?f" using arg_cong [OF vs, of "map fst"] by (simp add: comp_def)
  have dist: "distinct (map ID vs)" unfolding ids using assms(4) d by (simp add: distinct_map_filter)
  obtain x b where "m3 = m\<lparr>mgr_metrics := x, mgr_fallback := Fallback_SetVehicles vs (mgr_fallback m), mgr_bus := b\<rparr>"
    using prepared_frame [OF p] publish_event_frame [OF pub] by auto
  then have "scoring (mgr_dispatcher m3)" using assms(3) by simp
  note lim = dispatchStrategy_within [OF st this dist]
  have "Assignments r0 = asn" using da by (auto simp: dispatchAssignments_def Let_def split: option.splits)
  then have asn: "asn = Assignments res" using finish_result_frame(1) [OF fin] by simp
  obtain w where w: "w \<in> set vs" "ID w = i" "\<bar>p\<bar> \<le> MaxPower w" "0 \<le> request_sign s * p"
    "\<bar>total_kw (Assignments res)\<bar> \<le> \<bar>PowerKW s\<bar> + 1/1000"
    using lim assms(5,6) unfolding within_limits_def asn by blast
  have "(ID w, MaxPower w) \<in> set (map (\<lambda>v. (ID v, MaxPower v)) ?f)" unfolding vs [symmetric] using w(1) by auto
  then obtain v where "v \<in> set fleet" "filter_accepts s v" "ID v = ID w" "MaxPower v = MaxPower w" by auto
  with w d show ?thesis by (intro bexI [of _ v]) (auto simp: filter_accepts_def)
qed

text \<open>The assignments of the result are those of the strategy.\<close>

lemma Manager_Dispatch_assignments:
  assumes "Manager_Dispatch env m s vehicles = Some (res, m')" "prepared env m s vehicles = (vs, m2)"
    and "publish_event (SignalEvent s) m2 = Some m3" "dispatchStrategy env m3 vs s = Some (m4, asn, u)"
  shows "Assignments res = asn"
  using assms(1)
proof (rule Manager_DispatchE)
  fix vs' m2' m3' m4' asn' u' r0 lat m5
  assume "prepared env m s vehicles = (vs', m2')" "publish_event (SignalEvent s) m2' = Some m3'"
    "dispatchStrategy env m3' vs' s = Some (m4', asn', u')"
    and da: "dispatchAssignments env (new_result asn' (smart_state m4' u')) s (canRecordLatency m4') m4' = Some (r0, lat, m5)"
    and fin: "finish_result env s vs' (smart_state m4' u') (mgr_fallback m5) r0 = Some res"
  then have "asn' = asn" using assms(2-4) by simp
  moreover have "Assignments r0 = asn'" using da by (auto simp: dispatchAssignments_def Let_def split: option.splits)
  ultimately show ?thesis using finish_result_frame(1) [OF fin] by simp
qed

definition mgr_smart :: "real DispatchManager" where
  "mgr_smart = mgr_test\<lparr>mgr_dispatcher := SmartImpl NewSmartDispatcher, lpDispatcher := Some NewSmartDispatcher\<rparr>"

definition smart_fleet :: "real Vehicle list" where
  "smart_fleet = [smart_test_vehicle]"

lemma mgr_smart_sel [simp]:
  "mgr_filter mgr_smart = SimpleVehicleFilter_Filter" "mgr_dispatcher mgr_smart = SmartImpl NewSmartDispatcher"
  "lpFirst mgr_smart = Map.empty" "mgr_fallback mgr_smart = NoopImpl" "hasDiscovery mgr_smart = False"
  "mgr_bus mgr_smart = None" "mgr_prediction mgr_smart = None" "lpDispatcher mgr_smart = Some NewSmartDispatcher"
  by (simp_all add: mgr_smart_def)

lemma mgr_smart_live: "mgr_live mgr_smart" "solver_ok mgr_env"
  by (auto simp: mgr_live_def bus_ok_def solver_ok_def mgr_env_def NewSmartDispatcher_def)

lemma mgr_smart_run:
  obtains res m' where "Manager_Dispatch mgr_env mgr_smart smart_test_signal smart_fleet = Some (res, m')"
    "Assignments res = [''v1'' \<mapsto> - 10]"
proof -
  obtain res m' where run: "Manager_Dispatch mgr_env mgr_smart smart_test_signal smart_fleet = Some (res, m')"
    using Manager_Dispatch_live [OF mgr_smart_live] by blast
  obtain d' where d': "SmartDispatcher_Dispatch exp NewSmartDispatcher [smart_test_vehicle] smart_test_signal =
      Some (d', [''v1'' \<mapsto> - 10])" using smart_test_dispatch by blast
  have acc: "filter_accepts smart_test_signal smart_test_vehicle"
    by (simp add: filter_accepts_def smart_test_signal_def smart_test_vehicle_def)
  have p: "prepared mgr_env mgr_smart smart_test_signal smart_fleet = (smart_fleet, mgr_smart)"
    using acc by (simp add: prepared_def discover_fleet_def predict_fleet_def SimpleVehicleFilter_eq_filter
        Fallback_SetVehicles_def smart_fleet_def)
  have pub: "publish_event (SignalEvent smart_test_signal) mgr_smart = Some mgr_smart"
    by (simp add: publish_event_def publish_on_def)
  have "dispatchStrategy mgr_env mgr_smart smart_fleet smart_test_signal =
      Some (mgr_smart\<lparr>mgr_dispatcher := SmartImpl d'\<rparr>, [''v1'' \<mapsto> - 10], UsedMain)"
    using d' by (simp add: dispatchStrategy_def run_dispatcher_def getd_def smart_fleet_def mgr_env_def)
  from Manager_Dispatch_assignments [OF run p pub this] run show ?thesis by (rule that [rotated])
qed

theorem manager_orders_within_limits_witness:
  "\<exists>v\<in>set smart_fleet. ID v = ''v1'' \<and> \<bar>- 10\<bar> \<le> MaxPower v \<and> Available v"
proof (rule mgr_smart_run)
  fix res m'
  assume run: "Manager_Dispatch mgr_env mgr_smart smart_test_signal smart_fleet = Some (res, m')"
    and asn: "Assignments res = [''v1'' \<mapsto> - 10]"
  have d: "discover_fleet mgr_env mgr_smart smart_fleet = (smart_fleet, mgr_smart)" by (simp add: discover_fleet_def)
  from manager_orders_within_limits [OF run, of "''v1''" "- 10"] show ?thesis
    unfolding d by (auto simp: asn smart_fleet_def)
qed

subsection \<open>Order metrics\<close>

definition order_events :: "'n sink option \<Rightarrow> 'n OrderEvent set" where
  "order_events snk = (case snk of None \<Rightarrow> {} | Some k \<Rightarrow> {e. DispatchOrder e \<in> set (recorded k)})"

lemma order_events_record [simp]:
  "order_events (record_on can (FleetSize n) snk) = order_events snk"
  "order_events (record_on can (VehicleAvailabilities a) snk) = order_events snk"
  "order_events (record_on can (DispatchResults r) snk) = order_events snk"
  "order_events (record_on can (DispatchLatencies l) snk) = order_events snk"
  by (auto simp: order_events_def record_on_def split: option.split)

lemma order_events_order: "order_events (record_on can (DispatchOrder e) snk) \<subseteq> insert e (order_events snk)"
  by (auto simp: order_events_def record_on_def split: option.splits if_splits)

lemma run_actions_orders:
  assumes "run_actions env T t rl res as sh = Some sh'" "e \<in> order_events (sh_metrics sh')"
  shows "e \<in> order_events (sh_metrics sh) \<or> oe_MarketPrice e = ResMarketPrice res"
  using assms
proof (induction as arbitrary: sh)
  case (Cons a as)
  then obtain sh1 where sh1: "run_action env T t rl res a sh = Some sh1" "run_actions env T t rl res as sh1 = Some sh'"
    by (auto split: option.splits)
  from Cons.IH [OF sh1(2) Cons.prems(2)] run_action_effect(7) [OF sh1(1)] show ?case
    using order_events_order by fastforce
qed simp

lemma prepared_orders:
  assumes "prepared env m s vehicles = (vs, m2)"
  shows "order_events (mgr_metrics m2) = order_events (mgr_metrics m)"
proof -
  obtain fleet m1 where d: "discover_fleet env m vehicles = (fleet, m1)" by fastforce
  obtain v2 m3 where p: "predict_fleet env m1 s (mgr_filter m1 fleet s) = (v2, m3)" by fastforce
  have "order_events (mgr_metrics m1) = order_events (mgr_metrics m)"
    using d by (auto simp: discover_fleet_def split: if_splits sum.splits)
  moreover have "order_events (mgr_metrics m3) = order_events (mgr_metrics m1)"
    using p by (auto simp: predict_fleet_def Let_def split: if_splits option.splits)
  moreover have "mgr_metrics m2 = mgr_metrics m3" using assms d p by (auto simp: prepared_def)
  ultimately show ?thesis by simp
qed

text \<open>
  The order metrics never carry the market price: the manager sets it in the result only after all
  orders are sent, so every order event that a dispatch records has price zero, whatever the price
  of the dispatcher.
\<close>

theorem order_events_without_price:
  assumes "Manager_Dispatch env m s vehicles = Some (res, m')"
    and "e \<in> order_events (mgr_metrics m')" "e \<notin> order_events (mgr_metrics m)"
  shows "oe_MarketPrice e = 0"
  using assms(1)
proof (rule Manager_DispatchE)
  fix vs m2 m3 m4 asn u r0 lat m5
  assume p: "prepared env m s vehicles = (vs, m2)" and pub: "publish_event (SignalEvent s) m2 = Some m3"
    and st: "dispatchStrategy env m3 vs s = Some (m4, asn, u)"
    and da: "dispatchAssignments env (new_result asn (smart_state m4 u)) s (canRecordLatency m4) m4 = Some (r0, lat, m5)"
    and m': "m' = commit_result env s vs lat (canRecordLatency m4) res m5"
  have "mgr_metrics m3 = mgr_metrics m2" using publish_event_frame [OF pub] by auto
  then have m4: "order_events (mgr_metrics m4) = order_events (mgr_metrics m)"
    using same_frame_sel(3) dispatchStrategy_frame [OF st] prepared_orders [OF p] by metis
  have m5: "order_events (mgr_metrics m') = order_events (mgr_metrics m5)"
    by (simp add: m' commit_result_def Let_def same_frame_sel(3) [OF tune_dispatcher_frame(1)] recordMetrics_def)
  obtain sh where sh: "run_actions env (ackTimeout m4) (SigType s) (canRecordLatency m4) (new_result asn (smart_state m4 u))
      (envSchedule env) \<lparr>sh_errors = Map.empty, sh_acks = Map.empty, sh_lat = [], sh_ackCount = 0,
        sh_bus = mgr_bus m4, sh_metrics = mgr_metrics m4, sh_collectors = mgr_collectors m4\<rparr> = Some sh"
    and "mgr_metrics m5 = sh_metrics sh"
    using da by (auto simp: dispatchAssignments_def Let_def split: option.splits)
  then show ?thesis using run_actions_orders [OF sh, of e] assms(2,3) m4 m5 by simp
qed

theorem order_events_without_price_witness:
  "\<exists>(m' :: real DispatchManager) e. e \<in> order_events (mgr_metrics m') \<and> oe_PowerKW e = 5 \<and> oe_MarketPrice e = 0"
proof (rule mgr_run)
  fix res m'
  assume run: "Manager_Dispatch mgr_env mgr_test mgr_signal mgr_fleet = Some (res, m')"
    and "\<exists>snk e. mgr_metrics m' = Some snk \<and> DispatchOrder e \<in> set (recorded snk) \<and> oe_PowerKW e = 5"
  then obtain e where e: "mgr_metrics m' \<noteq> None" "e \<in> order_events (mgr_metrics m')" "oe_PowerKW e = 5"
    by (auto simp: order_events_def)
  have "e \<notin> order_events (mgr_metrics mgr_test)" by (simp add: order_events_def mgr_sink_def)
  from order_events_without_price [OF run e(2) this] e show ?thesis by blast
qed

subsection \<open>Falling back from the LP strategy\<close>

lemma publish_event_pending:
  assumes "mgr_bus m = Some b" "bus_inv b" "\<not> closed b" "ch \<in> set (subs b)" "length (pending b ch) < chanCap"
  obtains b' where "publish_event e m = Some (m\<lparr>mgr_bus := Some b'\<rparr>)" "bus_inv b'" "\<not> closed b'" "ch \<in> set (subs b')"
    "pending b' ch = pending b ch @ [e]"
proof -
  obtain b' where "Bus_Publish e b = Some b'" "bus_inv b'" "subs b' = subs b" "closed b' = closed b"
    "pending b' ch = pending b ch @ [e]"
    using bus.publish_ok [OF assms(2), of e] assms(3-5) by auto
  with that [of b'] assms show ?thesis by (simp add: publish_event_def publish_on_def)
qed

text \<open>
  When the LP strategy is tried first and fails, the assignments are exactly those of the smart
  dispatcher, the state of both dispatchers is kept, and a subscriber of the bus with room for
  three events sees the attempt, the failure with its error and the fallback, in this order.
\<close>

theorem lp_failure_falls_back:
  fixes m :: "real DispatchManager"
  assumes "lpFirst m (SigType s) = Some True" "lpDispatcher m = Some d" "mgr_dispatcher m = SmartImpl sd"
    and "DispatchStrict (envSolve env) (envExp env) d vs s = (d', StrictErr a err)"
    and "SmartDispatcher_Dispatch (envExp env) sd vs s = Some (sd', asn)"
    and "mgr_bus m = Some b" "bus_inv b" "\<not> closed b" "ch \<in> set (subs b)" "length (pending b ch) + 3 \<le> 8"
  shows "\<exists>m' b'. dispatchStrategy env m vs s = Some (m', asn, UsedMain) \<and>
    mgr_dispatcher m' = SmartImpl sd' \<and> lpDispatcher m' = Some d' \<and> mgr_bus m' = Some b' \<and>
    pending b' ch = pending b ch @ [StrategyEvent (SigType s) ''lp_attempt'' None,
      StrategyEvent (SigType s) ''lp_failure'' (Some err), StrategyEvent (SigType s) ''smart_fallback'' None]"
proof -
  obtain b1 where b1: "publish_event (StrategyEvent (SigType s) ''lp_attempt'' None) m = Some (m\<lparr>mgr_bus := Some b1\<rparr>)"
    "bus_inv b1" "\<not> closed b1" "ch \<in> set (subs b1)"
    "pending b1 ch = pending b ch @ [StrategyEvent (SigType s) ''lp_attempt'' None]"
    by (rule publish_event_pending [OF assms(6-9)]) (use assms(10) in \<open>simp_all add: chanCap_def\<close>)
  let ?m1 = "m\<lparr>mgr_bus := Some b1, lpDispatcher := Some d'\<rparr>"
  have m1: "mgr_bus ?m1 = Some b1" by simp
  obtain b2 where b2: "publish_event (StrategyEvent (SigType s) ''lp_failure'' (Some err)) ?m1 = Some (?m1\<lparr>mgr_bus := Some b2\<rparr>)"
    "bus_inv b2" "\<not> closed b2" "ch \<in> set (subs b2)"
    "pending b2 ch = pending b1 ch @ [StrategyEvent (SigType s) ''lp_failure'' (Some err)]"
    by (rule publish_event_pending [OF m1 b1(2-4)]) (use assms(10) b1(5) in \<open>simp_all add: chanCap_def\<close>)
  let ?m2 = "m\<lparr>mgr_bus := Some b2, lpDispatcher := Some d', mgr_dispatcher := SmartImpl sd'\<rparr>"
  have run: "run_dispatcher env (?m1\<lparr>mgr_bus := Some b2\<rparr>) vs s = Some (?m2, asn)"
    using assms(3,5) by (simp add: run_dispatcher_def)
  have m2: "mgr_bus ?m2 = Some b2" by simp
  obtain b3 where b3: "publish_event (StrategyEvent (SigType s) ''smart_fallback'' None) ?m2 = Some (?m2\<lparr>mgr_bus := Some b3\<rparr>)"
    "pending b3 ch = pending b2 ch @ [StrategyEvent (SigType s) ''smart_fallback'' None]"
    by (rule publish_event_pending [OF m2 b2(2-4)]) (use assms(10) b1(5) b2(5) in \<open>simp_all add: chanCap_def\<close>)
  have "dispatchStrategy env m vs s = Some (?m2\<lparr>mgr_bus := Some b3\<rparr>, asn, UsedMain)"
    using assms(1,2,4) b1(1) b2(1) b3(1) run by (simp add: dispatchStrategy_def getd_def)
  with b1(5) b2(5) b3(2) show ?thesis by simp
qed

lemma smart_lp_fails:
  "\<exists>d'. DispatchStrict (envSolve mgr_env) (envExp mgr_env) NewSmartDispatcher smart_fleet smart_test_signal =
     (d', StrictErr Map.empty ErrInfeasible)"
proof -
  have "snd (DispatchStrict (envSolve mgr_env) (envExp mgr_env) NewSmartDispatcher smart_fleet smart_test_signal) =
      StrictErr Map.empty ErrInfeasible"
    using lp_test_cands
    unfolding DispatchStrict_unfold NewLPDispatcher_def smart_fleet_def mgr_env_def
    by (simp add: smart_test_signal_def)
  then show ?thesis by (metis prod.collapse)
qed

theorem lp_failure_falls_back_witness:
  "\<exists>m' b'. dispatchStrategy mgr_env (mgr_smart\<lparr>lpFirst := [SignalAFRR \<mapsto> True], mgr_bus := Some (snd (Bus_Subscribe Bus_New))\<rparr>)
      smart_fleet smart_test_signal = Some (m', [''v1'' \<mapsto> - 10], UsedMain) \<and> mgr_bus m' = Some b' \<and>
     pending b' 0 = [StrategyEvent SignalAFRR ''lp_attempt'' None,
       StrategyEvent SignalAFRR ''lp_failure'' (Some ErrInfeasible), StrategyEvent SignalAFRR ''smart_fallback'' None]"
proof -
  let ?m = "mgr_smart\<lparr>lpFirst := [SignalAFRR \<mapsto> True], mgr_bus := Some (snd (Bus_Subscribe Bus_New))\<rparr>"
  obtain d' where d': "DispatchStrict (envSolve mgr_env) (envExp mgr_env) NewSmartDispatcher smart_fleet smart_test_signal =
     (d', StrictErr Map.empty ErrInfeasible)" using smart_lp_fails by blast
  obtain sd' where "SmartDispatcher_Dispatch exp NewSmartDispatcher [smart_test_vehicle] smart_test_signal =
      Some (sd', [''v1'' \<mapsto> - 10])" using smart_test_dispatch by blast
  then have sd': "SmartDispatcher_Dispatch (envExp mgr_env) NewSmartDispatcher smart_fleet smart_test_signal =
      Some (sd', [''v1'' \<mapsto> - 10])" by (simp add: mgr_env_def smart_fleet_def)
  have t: "SigType smart_test_signal = SignalAFRR" by (simp add: smart_test_signal_def)
  let ?b = "snd (Bus_Subscribe Bus_New) :: real event Bus"
  have inv: "bus_inv ?b" by (rule conjunct1 [OF bus.subscribe_ok [OF Bus_New_inv]])
  have b: "\<not> closed ?b" "0 \<in> set (subs ?b)" "pending ?b 0 = []"
    by (simp_all add: Bus_Subscribe_def Bus_New_def pending_def)
  show ?thesis
    using lp_failure_falls_back [of ?m smart_test_signal NewSmartDispatcher NewSmartDispatcher mgr_env smart_fleet d'
        Map.empty ErrInfeasible sd' "[''v1'' \<mapsto> - 10]" ?b 0] d' sd' inv b
    by (simp add: t) blast
qed

end
