(* ===== verification/Rte_Signals.thy ===== *)
theory Rte_Signals
  imports Configuration Manager_Correctness
begin

text \<open>
  Where signals come from, package \<open>rte\<close>: the payload of the grid operator and its conversion, the
  mock server that accepts payloads over HTTP, the choice of a connector, and the generator of
  synthetic signals. Server and generator drive the dispatch manager, whose state they thread
  through. The JSON decoder, the random numbers and the clock are arguments.
\<close>

subsection \<open>The payload (rte/model.go)\<close>

record 'n RteSignal =
  RsSignalType :: string
  RsStartTime :: Time
  RsEndTime :: Time
  RsPower :: 'n
  RsMeta :: "string \<rightharpoonup> string"

definition toSignalType :: "'n RteSignal \<Rightarrow> go_error + SignalType" where
  "toSignalType s =
     (let t = RsSignalType s in
      if t = ''FCR'' then Inr SignalFCR
      else if t = ''aFRR'' \<or> t = ''aFRR_UP'' \<or> t = ''aFRR_DOWN'' then Inr SignalAFRR
      else if t = ''MA'' then Inr SignalMA
      else if t = ''NEBEF'' \<or> t = ''DELESTAGE'' then Inr SignalNEBEF
      else Inl (Errorf (''unknown signal type: '' @ t)))"

definition RteSignal_Validate :: "'n::{zero,ord} RteSignal \<Rightarrow> go_error option" where
  "RteSignal_Validate s =
     (case toSignalType s of
        Inl e \<Rightarrow> Some e
      | Inr _ \<Rightarrow>
          if IsZero (RsStartTime s) \<or> IsZero (RsEndTime s)
          then Some (Errorf ''start_time and end_time required'')
          else if \<not> timeAfter (RsEndTime s) (RsStartTime s)
          then Some (Errorf ''end_time must be after start_time'')
          else if feq (RsPower s) 0 then Some (Errorf ''power must be non-zero'')
          else None)"

definition ToFlexibility :: "'n RteSignal \<Rightarrow> go_error + 'n FlexibilitySignal" where
  "ToFlexibility s =
     (case toSignalType s of
        Inl e \<Rightarrow> Inl e
      | Inr st \<Rightarrow> Inr \<lparr>SigType = st, PowerKW = RsPower s,
          SigDuration = timeSub (RsEndTime s) (RsStartTime s), Timestamp = RsStartTime s\<rparr>)"

subsection \<open>The mock server (rte/server_mock.go)\<close>

record rte_server =
  srv_total :: "string \<Rightarrow> nat"
  srv_failed :: nat

type_synonym http_reply = "nat \<times> string"

text \<open>\<open>handleSignal\<close>: \<open>body\<close> is what the decoder makes of the request.\<close>

definition handleSignal ::
  "'n dispatch_env \<Rightarrow> string \<Rightarrow> go_error + 'n RteSignal \<Rightarrow> rte_server
    \<Rightarrow> 'n::{zero,one,plus,minus,uminus,times,inverse,ord} DispatchManager
    \<Rightarrow> (http_reply \<times> rte_server \<times> 'n DispatchManager) option" where
  "handleSignal env meth body srv m =
     (let reject = (\<lambda>text. Some ((400, text), srv\<lparr>srv_failed := srv_failed srv + 1\<rparr>, m)) in
      if meth \<noteq> ''POST'' then Some ((405, ''method not allowed''), srv, m)
      else case body of
        Inl e \<Rightarrow> reject ''bad request''
      | Inr sig \<Rightarrow>
          (case RteSignal_Validate sig of
             Some e \<Rightarrow> reject (envErrorText env e)
           | None \<Rightarrow>
               (case ToFlexibility sig of
                  Inl e \<Rightarrow> reject (envErrorText env e)
                | Inr fs \<Rightarrow>
                    (case Manager_Dispatch env m fs [] of
                       None \<Rightarrow> None
                     | Some (res, m') \<Rightarrow>
                         Some ((200, []),
                           srv\<lparr>srv_total := (srv_total srv)(RsSignalType sig := srv_total srv (RsSignalType sig) + 1)\<rparr>,
                           m')))))"

definition routes ::
  "'n dispatch_env \<Rightarrow> string \<Rightarrow> string \<Rightarrow> go_error + 'n RteSignal \<Rightarrow> rte_server
    \<Rightarrow> 'n::{zero,one,plus,minus,uminus,times,inverse,ord} DispatchManager
    \<Rightarrow> (http_reply \<times> rte_server \<times> 'n DispatchManager) option" where
  "routes env path meth body srv m =
     (if path = ''/rte/ping'' then Some ((200, ''pong''), srv, m)
      else if path = ''/rte/signal'' then handleSignal env meth body srv m
      else Some ((404, ''404 page not found''), srv, m))"

subsection \<open>Connectors (rte/client.go, rte/connector.go)\<close>

datatype connector = RTEClient string Duration | RTEServerMock string

definition NewRTEClient :: "RTEClientConfig \<Rightarrow> connector" where
  "NewRTEClient c =
     RTEClient (APIURL c)
       (durMul (if PollIntervalSeconds c \<le> 0 then 60 else PollIntervalSeconds c) Second)"

definition NewConnector :: "RTEConfig \<Rightarrow> connector" where
  "NewConnector c =
     (if ToLower (RteMode c) = ''mock'' then RTEServerMock (MockAddress c) else NewRTEClient (RteClient c))"

subsection \<open>The generator (rte/generator/generator.go)\<close>

text \<open>
  One round takes an interval and generates a signal: \<open>drIntn n\<close> is \<open>rand.Intn(n)\<close>, the pairs are
  the two calls of \<open>rand.Float64()\<close> of a random number, and the environment is that of the dispatch.
\<close>

record 'n gen_round =
  drInterval :: "'n \<times> 'n"
  drIntn :: "nat \<Rightarrow> nat"
  drPower :: "'n \<times> 'n"
  drDuration :: "'n \<times> 'n"
  genNow :: Time
  genEmitted :: Time
  genEnv :: "'n dispatch_env"
  genSinkErr :: "go_error option"

record 'n Generator =
  gen_cfg :: "'n RTEGeneratorConfig"
  gen_hasMgr :: bool
  gen_hasBus :: bool
  gen_hasSink :: bool
  gen_seq :: nat
  gen_recorded :: "('n FlexibilitySignal \<times> Time) list"
  signalsTotal :: "string \<Rightarrow> nat"
  powerSum :: 'n
  lastEmit :: int
  emitErrors :: nat
  intervalHist :: "Duration list"

text \<open>The jitter and the clamping that \<open>randomFloat\<close> and \<open>randomDuration\<close> share.\<close>

definition jittered ::
  "'n::{zero,one,plus,minus,uminus,times,inverse,ord} \<Rightarrow> 'n \<Rightarrow> 'n \<Rightarrow> 'n \<times> 'n \<Rightarrow> 'n \<Rightarrow> 'n" where
  "jittered jitter mn mx u width =
     (let f = (mn + fst u * width) * (1 + (snd u * num 2 - 1) * jitter);
          f1 = (if f < mn then mn else f)
      in if mx < f1 then mx else f1)"

definition randomFloat ::
  "'n::{zero,one,plus,minus,uminus,times,inverse,ord} \<Rightarrow> 'n \<Rightarrow> 'n \<Rightarrow> 'n \<times> 'n \<Rightarrow> 'n" where
  "randomFloat jitter mn mx u = (if mx \<le> mn then mn else jittered jitter mn mx u (mx - mn))"

text \<open>\<open>toInt\<close> is the conversion of a \<open>float64\<close> to an integer, which truncates.\<close>

definition randomDuration ::
  "('n \<Rightarrow> int) \<Rightarrow> 'n::{zero,one,plus,minus,uminus,times,inverse,ord} \<Rightarrow> int \<Rightarrow> int \<Rightarrow> 'n \<times> 'n \<Rightarrow> Duration" where
  "randomDuration toInt jitter mn mx u =
     (if mx \<le> mn then durMul mn Second
      else durMul (toInt (jittered jitter (fint mn) (fint mx) u (fint (wrap64 (mx - mn))))) Second)"

definition randomType :: "string list \<Rightarrow> (nat \<Rightarrow> nat) \<Rightarrow> SignalType" where
  "randomType types intn =
     (if types = [] then SignalFCR
      else let s = types ! intn (length types) in
           if s = ''FCR'' then SignalFCR
           else if s = ''aFRR_UP'' \<or> s = ''aFRR_DOWN'' \<or> s = ''aFRR'' then SignalAFRR
           else if s = ''DELESTAGE'' then SignalNEBEF
           else SignalFCR)"

definition randomInterval ::
  "('n \<Rightarrow> int) \<Rightarrow> 'n::{zero,one,plus,minus,uminus,times,inverse,ord} RTEGeneratorConfig \<Rightarrow> 'n \<times> 'n \<Rightarrow> Duration" where
  "randomInterval toInt c u = randomDuration toInt (JitterPct c) (MinIntervalSeconds c) (MaxIntervalSeconds c) u"

definition Generate ::
  "('n \<Rightarrow> int) \<Rightarrow> 'n gen_round \<Rightarrow> 'n::{zero,one,plus,minus,uminus,times,inverse,ord} Generator
    \<Rightarrow> 'n FlexibilitySignal \<times> 'n Generator" where
  "Generate toInt r g =
     (let c = gen_cfg g in
      (\<lparr>SigType = randomType (SignalTypes c) (drIntn r),
        PowerKW = randomFloat (JitterPct c) (MinPowerKW c) (MaxPowerKW c) (drPower r),
        SigDuration = randomDuration toInt (JitterPct c) (MinDurationSeconds c) (MaxDurationSeconds c) (drDuration r),
        Timestamp = genNow r\<rparr>, g\<lparr>gen_seq := gen_seq g + 1\<rparr>))"

text \<open>
  \<open>emit\<close>: the manager dispatches first, then the signal is published on the bus that the generator
  shares with the manager, then the sink records it. The counter \<open>powerSum\<close> is a Prometheus counter,
  whose \<open>Add\<close> panics on a negative value.
\<close>

definition Generator_emit ::
  "'n gen_round \<Rightarrow> 'n FlexibilitySignal \<Rightarrow> 'n::{zero,one,plus,minus,uminus,times,inverse,ord} Generator
    \<Rightarrow> 'n DispatchManager \<Rightarrow> (go_error option \<times> 'n Generator \<times> 'n DispatchManager) option" where
  "Generator_emit r sig g m =
     (case (if gen_hasMgr g then map_option snd (Manager_Dispatch (genEnv r) m sig []) else Some m) of
        None \<Rightarrow> None
      | Some m1 \<Rightarrow>
          (case (if gen_hasBus g then publish_event (SignalEvent sig) m1 else Some m1) of
             None \<Rightarrow> None
           | Some m2 \<Rightarrow>
               (case (if gen_hasSink g then genSinkErr r else None) of
                  Some e \<Rightarrow> Some (Some e, g, m2)
                | None \<Rightarrow>
                    (let label = SignalType_String (SigType sig) in
                     if PowerKW sig < 0 then None else
                     Some (None, g\<lparr>gen_recorded := (if gen_hasSink g then gen_recorded g @ [(sig, genEmitted r)] else gen_recorded g),
                                   signalsTotal := (signalsTotal g)(label := signalsTotal g label + 1),
                                   powerSum := powerSum g + PowerKW sig,
                                   lastEmit := timeUnix (genEmitted r)\<rparr>, m2)))))"

text \<open>\<open>Start\<close>: rounds until the context ends, which the last interval is cut short by.\<close>

datatype 'n gen_event = GenTick "'n gen_round" | GenDone "'n \<times> 'n"

fun Generator_Start ::
  "('n \<Rightarrow> int) \<Rightarrow> 'n gen_event list \<Rightarrow> 'n::{zero,one,plus,minus,uminus,times,inverse,ord} Generator
    \<Rightarrow> 'n DispatchManager \<Rightarrow> ('n Generator \<times> 'n DispatchManager) option" where
  "Generator_Start toInt [] g m = Some (g, m)"
| "Generator_Start toInt (GenDone u # es) g m =
     Some (g\<lparr>intervalHist := intervalHist g @ [randomInterval toInt (gen_cfg g) u]\<rparr>, m)"
| "Generator_Start toInt (GenTick r # es) g m =
     (let g1 = g\<lparr>intervalHist := intervalHist g @ [randomInterval toInt (gen_cfg g) (drInterval r)]\<rparr>;
          (sig, g2) = Generate toInt r g1
      in case Generator_emit r sig g2 m of
           None \<Rightarrow> None
         | Some (err, g3, m') \<Rightarrow>
             Generator_Start toInt es (if err \<noteq> None then g3\<lparr>emitErrors := emitErrors g3 + 1\<rparr> else g3) m')"

subsection \<open>What the server dispatches\<close>

lemma Manager_Dispatch_history:
  assumes "Manager_Dispatch env m s vehicles = Some (res, m')"
  shows "ResSignal res = s" "mgr_history m' = mgr_history m @ [res]"
proof -
  show "ResSignal res = s" using assms by (rule Manager_DispatchE) (auto dest: finish_result_frame(4))
  show "mgr_history m' = mgr_history m @ [res]"
    using assms
  proof (rule Manager_DispatchE)
    fix vs m2 m3 m4 asn u r0 lat m5
    assume p: "prepared env m s vehicles = (vs, m2)" and pub: "publish_event (SignalEvent s) m2 = Some m3"
      and st: "dispatchStrategy env m3 vs s = Some (m4, asn, u)"
      and da: "dispatchAssignments env (new_result asn (smart_state m4 u)) s (canRecordLatency m4) m4 = Some (r0, lat, m5)"
      and m': "m' = commit_result env s vs lat (canRecordLatency m4) res m5"
    have "mgr_history m2 = mgr_history m" using prepared_frame [OF p] by auto
    moreover have "mgr_history m3 = mgr_history m2" using publish_event_frame [OF pub] by auto
    moreover have "mgr_history m4 = mgr_history m3"
      using same_frame_sel [OF conjunct1 [OF dispatchStrategy_frame [OF st]]] by simp
    moreover have "mgr_history m5 = mgr_history m4"
      using da by (auto simp: dispatchAssignments_def Let_def split: option.splits)
    ultimately show ?thesis by (simp add: m' commit_result_sel)
  qed
qed

lemma toSignalType_named: "toSignalType s = Inr t \<Longrightarrow> t \<in> {SignalFCR, SignalAFRR, SignalMA, SignalNEBEF}"
  by (auto simp: toSignalType_def Let_def split: if_splits)

lemma RteSignal_Validate_None:
  "RteSignal_Validate s = None \<longleftrightarrow>
     (\<exists>t. toSignalType s = Inr t) \<and> \<not> IsZero (RsStartTime s) \<and> \<not> IsZero (RsEndTime s) \<and>
     timeAfter (RsEndTime s) (RsStartTime s) \<and> \<not> feq (RsPower s) 0"
  by (auto simp: RteSignal_Validate_def split: sum.splits)

lemma ToFlexibility_valid:
  assumes "RteSignal_Validate s = None"
  obtains fs where "ToFlexibility s = Inr fs" "toSignalType s = Inr (SigType fs)" "PowerKW fs = RsPower s"
    "Timestamp fs = RsStartTime s" "0 < SigDuration fs"
    "inst (RsEndTime s) - inst (RsStartTime s) < 2 ^ 63 \<Longrightarrow> timeAdd (RsStartTime s) (SigDuration fs) = RsStartTime s\<lparr>inst := inst (RsEndTime s)\<rparr>"
proof -
  obtain t where "toSignalType s = Inr t" using assms by (auto simp: RteSignal_Validate_None)
  moreover have "inst (RsStartTime s) < inst (RsEndTime s)"
    using assms by (simp add: RteSignal_Validate_None timeAfter_def)
  ultimately show ?thesis
    using that [of "\<lparr>SigType = t, PowerKW = RsPower s, SigDuration = timeSub (RsEndTime s) (RsStartTime s),
        Timestamp = RsStartTime s\<rparr>"]
    by (simp add: ToFlexibility_def timeSub_def timeAdd_def)
qed

text \<open>
  C31. The mock server dispatches exactly the valid payloads. A request that is not a POST is answered
  405; a body that does not decode or validate is answered 400, counted as failed and leaves the
  manager untouched. A valid payload is answered 200 after one dispatch of a signal of its type,
  power and start time, with a positive duration. The handler always answers, given a manager that can
  dispatch (\<open>mgr_live\<close>, as the manager of the service is) and a solver that keeps to its contract.
\<close>

theorem mock_server_dispatches_valid:
  fixes m :: "real DispatchManager"
  assumes "mgr_live m" "solver_ok env"
  shows "\<exists>code body srv' m'. handleSignal env meth payload srv m = Some ((code, body), srv', m') \<and> mgr_live m' \<and>
    (code = 200 \<longleftrightarrow> meth = ''POST'' \<and> (\<exists>sig. payload = Inr sig \<and> RteSignal_Validate sig = None)) \<and>
    (code \<noteq> 200 \<longrightarrow> m' = m \<and> srv_total srv' = srv_total srv \<and>
       (if meth = ''POST'' then code = 400 \<and> srv_failed srv' = srv_failed srv + 1 else code = 405 \<and> srv' = srv)) \<and>
    (code = 200 \<longrightarrow> (\<exists>sig res. payload = Inr sig \<and> mgr_history m' = mgr_history m @ [res] \<and>
       toSignalType sig = Inr (SigType (ResSignal res)) \<and> PowerKW (ResSignal res) = RsPower sig \<and>
       RsPower sig \<noteq> 0 \<and> Timestamp (ResSignal res) = RsStartTime sig \<and> 0 < SigDuration (ResSignal res) \<and>
       srv_total srv' = (srv_total srv)(RsSignalType sig := srv_total srv (RsSignalType sig) + 1) \<and>
       srv_failed srv' = srv_failed srv))"
proof (cases "meth = ''POST'' \<and> (\<exists>sig. payload = Inr sig \<and> RteSignal_Validate sig = None)")
  case True
  then obtain sig where sig: "payload = Inr sig" "RteSignal_Validate sig = None" by blast
  obtain fs where fs: "ToFlexibility sig = Inr fs" "toSignalType sig = Inr (SigType fs)" "PowerKW fs = RsPower sig"
    "Timestamp fs = RsStartTime sig" "0 < SigDuration fs" by (rule ToFlexibility_valid [OF sig(2)])
  obtain res m' where d: "Manager_Dispatch env m fs [] = Some (res, m')" "mgr_live m'"
    using Manager_Dispatch_live [OF assms] by blast
  have "handleSignal env meth payload srv m = Some ((200, []),
      srv\<lparr>srv_total := (srv_total srv)(RsSignalType sig := srv_total srv (RsSignalType sig) + 1)\<rparr>, m')"
    using True by (simp add: handleSignal_def sig fs(1) d(1))
  moreover have "RsPower sig \<noteq> 0" using sig(2) by (simp add: RteSignal_Validate_None)
  ultimately show ?thesis
    using True sig(1) fs d(2) Manager_Dispatch_history [OF d(1)] by simp
next
  case False
  then show ?thesis
    using assms(1) by (cases payload) (auto simp: handleSignal_def Let_def)
qed

definition rte_payload :: "real RteSignal" where
  "rte_payload = \<lparr>RsSignalType = ''DELESTAGE'', RsStartTime = \<lparr>inst = 100, zone = 0\<rparr>,
     RsEndTime = \<lparr>inst = 900, zone = 0\<rparr>, RsPower = 12, RsMeta = Map.empty\<rparr>"

lemma rte_payload_valid: "RteSignal_Validate rte_payload = None" "toSignalType rte_payload = Inr SignalNEBEF"
  by (simp_all add: RteSignal_Validate_def toSignalType_def rte_payload_def IsZero_def timeAfter_def)

lemma mgr_test_live: "mgr_live mgr_test" "solver_ok mgr_env"
  by (simp_all add: mgr_live_def bus_ok_def solver_ok_def mgr_env_def mgr_test_def NewDispatchManager_def)

theorem mock_server_dispatches_valid_witness:
  "\<exists>body srv' m' res. handleSignal mgr_env ''POST'' (Inr rte_payload) \<lparr>srv_total = (\<lambda>_. 0), srv_failed = 0\<rparr> mgr_test =
     Some ((200, body), srv', m') \<and>
     mgr_history m' = mgr_history mgr_test @ [res] \<and> SigType (ResSignal res) = SignalNEBEF"
  using mock_server_dispatches_valid [OF mgr_test_live, of "''POST''" "Inr rte_payload" "\<lparr>srv_total = (\<lambda>_. 0), srv_failed = 0\<rparr>"]
    rte_payload_valid by auto

subsection \<open>What the generator emits\<close>

definition truncR :: "real \<Rightarrow> int" where
  "truncR x = (if 0 \<le> x then \<lfloor>x\<rfloor> else \<lceil>x\<rceil>)"

lemma jittered_bounds:
  fixes mn mx :: real
  assumes "mn \<le> mx"
  shows "mn \<le> jittered jitter mn mx u w" "jittered jitter mn mx u w \<le> mx"
  using assms by (simp_all add: jittered_def Let_def)

lemma randomFloat_bounds:
  fixes mn mx :: real
  assumes "mn \<le> mx"
  shows "mn \<le> randomFloat jitter mn mx u" "randomFloat jitter mn mx u \<le> mx"
  using assms jittered_bounds [of mn mx] by (auto simp: randomFloat_def)

lemma randomDuration_bounds:
  assumes "0 \<le> mn" "mn \<le> mx" "mx \<le> 9223372036"
  shows "mn * Second \<le> randomDuration truncR jitter mn mx u" "randomDuration truncR jitter mn mx u \<le> mx * Second"
proof -
  define t where "t = (if mx \<le> mn then mn
    else truncR (jittered jitter (fint mn) (fint mx) u (fint (wrap64 (mx - mn)))))"
  have "mn \<le> t \<and> t \<le> mx"
  proof (cases "mx \<le> mn")
    case False
    then have "real_of_int mn \<le> jittered jitter (fint mn) (fint mx) u (fint (wrap64 (mx - mn)))"
      "jittered jitter (fint mn) (fint mx) u (fint (wrap64 (mx - mn))) \<le> real_of_int mx"
      using jittered_bounds [of "real_of_int mn" "real_of_int mx"] by auto
    with assms(1) False show ?thesis by (simp add: t_def truncR_def le_floor_iff) linarith
  qed (use assms t_def in simp)
  moreover have "randomDuration truncR jitter mn mx u = durMul t Second"
    by (simp add: randomDuration_def t_def)
  moreover have "int64 (t * Second)" using calculation(1) assms by (simp add: int64_def Second_def)
  ultimately show "mn * Second \<le> randomDuration truncR jitter mn mx u"
    "randomDuration truncR jitter mn mx u \<le> mx * Second"
    by (simp_all add: durMul_def Second_def)
qed

text \<open>The range that a configuration promises for its signals.\<close>

definition in_range :: "real RTEGeneratorConfig \<Rightarrow> real FlexibilitySignal \<Rightarrow> bool" where
  "in_range c s \<longleftrightarrow> MinPowerKW c \<le> PowerKW s \<and> PowerKW s \<le> MaxPowerKW c \<and>
     0 < SigDuration s \<and> MinDurationSeconds c * Second \<le> SigDuration s \<and>
     SigDuration s \<le> MaxDurationSeconds c * Second \<and>
     SigType s \<in> {SignalFCR, SignalAFRR, SignalNEBEF}"

lemma randomType_named: "randomType types intn \<in> {SignalFCR, SignalAFRR, SignalNEBEF}"
  by (simp add: randomType_def Let_def)

lemma Generate_in_range:
  assumes "generator_ok (gen_cfg g)" "MaxDurationSeconds (gen_cfg g) \<le> 9223372036"
  shows "in_range (gen_cfg g) (fst (Generate truncR r g))" "snd (Generate truncR r g) = g\<lparr>gen_seq := gen_seq g + 1\<rparr>"
proof -
  let ?c = "gen_cfg g"
  have c: "MinPowerKW ?c \<le> MaxPowerKW ?c" "0 \<le> MinDurationSeconds ?c" "MinDurationSeconds ?c \<le> MaxDurationSeconds ?c"
    "0 < MinDurationSeconds ?c * Second"
    using assms(1) by (simp_all add: generator_ok_def Second_def)
  show "in_range ?c (fst (Generate truncR r g))"
    unfolding in_range_def Generate_def Let_def fst_conv FlexibilitySignal.select_convs
    by (intro conjI randomFloat_bounds randomDuration_bounds randomType_named c assms(2)
        less_le_trans [OF c(4) randomDuration_bounds(1) [OF c(2,3) assms(2)]])
qed (simp add: Generate_def Let_def)

lemma Generator_emit_live:
  fixes m :: "real DispatchManager"
  assumes "mgr_live m" "solver_ok (genEnv r)" "gen_hasMgr g" "0 \<le> PowerKW sig"
  obtains err g' m' res where "Generator_emit r sig g m = Some (err, g', m')" "mgr_live m'" "gen_cfg g' = gen_cfg g"
    "gen_hasMgr g'" "gen_seq g' = gen_seq g" "mgr_history m' = mgr_history m @ [res]" "ResSignal res = sig"
proof -
  obtain res m1 where d: "Manager_Dispatch (genEnv r) m sig [] = Some (res, m1)" "mgr_live m1"
    using Manager_Dispatch_live [OF assms(1,2)] by blast
  obtain m2 where p: "(if gen_hasBus g then publish_event (SignalEvent sig) m1 else Some m1) = Some m2"
    "mgr_live m2" "mgr_history m2 = mgr_history m1"
  proof (cases "gen_hasBus g")
    case True
    obtain m2 where "publish_event (SignalEvent sig) m1 = Some m2" "mgr_live m2" by (rule publish_event_live [OF d(2)])
    with True that [of m2] publish_event_frame [of "SignalEvent sig" m1 m2] show ?thesis by auto
  next
    case False
    with that [of m1] d(2) show ?thesis by simp
  qed
  show ?thesis
    using that [of _ _ m2 res] p d Manager_Dispatch_history [OF d(1)] assms(3,4)
    by (cases "if gen_hasSink g then genSinkErr r else None") (simp_all add: Generator_emit_def Let_def)
qed

text \<open>The rounds before the context ends.\<close>

fun gen_ticks :: "'n gen_event list \<Rightarrow> nat" where
  "gen_ticks (GenTick r # es) = Suc (gen_ticks es)"
| "gen_ticks _ = 0"

text \<open>
  C30. From the configuration file to the manager: with a configuration that \<open>Load\<close> accepts, whose
  powers are not negative and whose durations fit 292 years, the generator runs through any number of rounds, whatever its random
  numbers, and hands the manager one signal per round. Every signal has a power and a duration
  within the configured ranges, despite the jitter, a positive duration and a known type. The manager is
  one that can dispatch (\<open>mgr_live\<close>, as the manager of the service is), over a solver that keeps to its contract.
\<close>

theorem rte_generator_run:
  fixes m :: "real DispatchManager"
  assumes "Load read localName path = Inr cfg" "gen_cfg g = CfgRTEGenerator cfg" "gen_hasMgr g" "mgr_live m"
    and "MaxDurationSeconds (CfgRTEGenerator cfg) \<le> 9223372036" "0 \<le> MinPowerKW (CfgRTEGenerator cfg)"
    and "\<And>r. GenTick r \<in> set es \<Longrightarrow> solver_ok (genEnv r)"
  shows "\<exists>g' m' rs. Generator_Start truncR es g m = Some (g', m') \<and> mgr_history m' = mgr_history m @ rs \<and>
    length rs = gen_ticks es \<and> gen_seq g' = gen_seq g + gen_ticks es \<and>
    (\<forall>res\<in>set rs. in_range (CfgRTEGenerator cfg) (ResSignal res))"
  using assms(2-4,7)
proof (induction es arbitrary: g m)
  case (Cons e es)
  show ?case
  proof (cases e)
    case (GenTick r)
    define g1 where "g1 = g\<lparr>intervalHist := intervalHist g @ [randomInterval truncR (gen_cfg g) (drInterval r)]\<rparr>"
    define g2 where "g2 = g1\<lparr>gen_seq := gen_seq g1 + 1\<rparr>"
    obtain sig where sig: "Generate truncR r g1 = (sig, g2)" "in_range (gen_cfg g1) sig"
      using Generate_in_range [of g1 r] Load_generator_ok [OF assms(1)] assms(5) Cons.prems(1)
      by (cases "Generate truncR r g1") (simp add: g1_def g2_def)
    obtain err g3 m' res where e: "Generator_emit r sig g2 m = Some (err, g3, m')" "mgr_live m'" "gen_cfg g3 = gen_cfg g2"
      "gen_hasMgr g3" "gen_seq g3 = gen_seq g2" "mgr_history m' = mgr_history m @ [res]" "ResSignal res = sig"
      by (rule Generator_emit_live [OF Cons.prems(3), of r g2])
        (use Cons.prems(1,2,4) GenTick sig(2) assms(6) in \<open>auto simp: g1_def g2_def in_range_def\<close>)
    define g4 where "g4 = (if err \<noteq> None then g3\<lparr>emitErrors := emitErrors g3 + 1\<rparr> else g3)"
    have "gen_cfg g4 = CfgRTEGenerator cfg" "gen_hasMgr g4" "gen_seq g4 = gen_seq g + 1"
      using e(3-5) Cons.prems(1) by (simp_all add: g4_def g2_def g1_def)
    with Cons.IH [of g4 m'] e(2) Cons.prems(4) obtain g' mm rs where
      "Generator_Start truncR es g4 m' = Some (g', mm)" "mgr_history mm = mgr_history m' @ rs"
      "length rs = gen_ticks es" "gen_seq g' = gen_seq g + 1 + gen_ticks es"
      "\<forall>res\<in>set rs. in_range (CfgRTEGenerator cfg) (ResSignal res)" by auto
    then show ?thesis
      using sig e(1,6,7) Cons.prems(1) unfolding g4_def
      by (intro exI [of _ g'] exI [of _ mm] exI [of _ "res # rs"])
        (simp add: GenTick Let_def g1_def [symmetric] g4_def, simp add: g1_def)
  qed simp
qed simp

definition gen_test :: "real Generator" where
  "gen_test = \<lparr>gen_cfg = Generator_SetDefaults ''UTC'' test_generator, gen_hasMgr = True, gen_hasBus = True,
     gen_hasSink = False, gen_seq = 0, gen_recorded = [], signalsTotal = (\<lambda>_. 0), powerSum = 0, lastEmit = 0,
     emitErrors = 0, intervalHist = []\<rparr>"

definition gen_test_round :: "real gen_round" where
  "gen_test_round = \<lparr>drInterval = (1/2, 1/2), drIntn = (\<lambda>_. 0), drPower = (1/4, 0), drDuration = (3/4, 1/2),
     genNow = timeZero, genEmitted = timeZero, genEnv = mgr_env, genSinkErr = None\<rparr>"

theorem rte_generator_run_witness:
  "\<exists>g' m' res. Generator_Start truncR [GenTick gen_test_round, GenDone (0, 0)] gen_test mgr_test = Some (g', m') \<and>
     mgr_history m' = mgr_history mgr_test @ [res] \<and> 5 \<le> PowerKW (ResSignal res) \<and> PowerKW (ResSignal res) \<le> 25"
proof -
  let ?es = "[GenTick gen_test_round, GenDone (0, 0)]"
  have c: "gen_cfg gen_test = CfgRTEGenerator (test_config\<lparr>CfgLogging := Logging_SetDefaults (CfgLogging test_config),
      CfgRTEGenerator := Generator_SetDefaults ''UTC'' test_generator\<rparr>)" "gen_hasMgr gen_test"
    by (simp_all add: gen_test_def)
  have "\<exists>g' m' rs. Generator_Start truncR ?es gen_test mgr_test = Some (g', m') \<and> mgr_history m' = mgr_history mgr_test @ rs \<and>
    length rs = gen_ticks ?es \<and> gen_seq g' = gen_seq gen_test + gen_ticks ?es \<and>
    (\<forall>res\<in>set rs. in_range (gen_cfg gen_test) (ResSignal res))"
    unfolding c(1)
    by (rule rte_generator_run [OF test_load c mgr_test_live(1)])
      (use mgr_test_live(2) in \<open>auto simp: Generator_SetDefaults_def test_generator_def gen_test_round_def\<close>)
  then obtain g' m' rs where r: "Generator_Start truncR ?es gen_test mgr_test = Some (g', m')"
    "mgr_history m' = mgr_history mgr_test @ rs" "length rs = 1" "\<forall>res\<in>set rs. in_range (gen_cfg gen_test) (ResSignal res)"
    by auto
  then obtain res where "rs = [res]" by (cases rs) auto
  with r show ?thesis
    by (intro exI [of _ g'] exI [of _ m'] exI [of _ res])
      (simp add: in_range_def gen_test_def Generator_SetDefaults_def test_generator_def)
qed

text \<open>
  Nothing in the configuration keeps the powers from being negative, a request to charge. A
  generator with a negative maximal power panics in its first round, after the manager has dispatched
  the signal, unless the sink fails: it adds the power to a counter, which cannot decrease.
\<close>

theorem generator_negative_power_panics:
  fixes m :: "real DispatchManager"
  assumes "Load read localName path = Inr cfg" "gen_cfg g = CfgRTEGenerator cfg" "MaxPowerKW (CfgRTEGenerator cfg) < 0"
    and "gen_hasSink g \<Longrightarrow> genSinkErr r = None"
  shows "Generator_Start truncR (GenTick r # es) g m = None"
proof -
  have "MinPowerKW (gen_cfg g) \<le> MaxPowerKW (gen_cfg g)"
    using Load_generator_ok [OF assms(1)] assms(2) by (simp add: generator_ok_def)
  then have "randomFloat (JitterPct (gen_cfg g)) (MinPowerKW (gen_cfg g)) (MaxPowerKW (gen_cfg g)) (drPower r) < 0"
    using randomFloat_bounds(2) assms(2,3) by (metis le_less_trans)
  with assms(4) show ?thesis
    by (auto simp: Generate_def Generator_emit_def Let_def split: option.split)
qed

definition charging_config :: "real AppConfig" where
  "charging_config = test_config\<lparr>CfgRTEGenerator := test_generator\<lparr>MinPowerKW := - 10, MaxPowerKW := - 5\<rparr>\<rparr>"

lemma charging_load: "\<exists>cfg. Load (\<lambda>_ _. Inr charging_config) ''UTC'' ''config.yml'' = Inr cfg \<and>
    CfgRTEGenerator cfg = Generator_SetDefaults ''UTC'' (CfgRTEGenerator charging_config)"
proof -
  have "config_format_of ''config.yml'' = Some YAML" by code_simp
  moreover have "Generator_Validate (Generator_SetDefaults ''UTC'' (CfgRTEGenerator charging_config)) = None"
    by (simp add: Generator_Validate_None) (simp add: Generator_SetDefaults_def test_generator_def charging_config_def)
  ultimately show ?thesis
    by (simp add: Load_def finish_config_def charging_config_def test_config_def RTE_Validate_def Logging_Validate_def
        Logging_SetDefaults_def)
qed

theorem generator_negative_power_panics_witness:
  "\<exists>cfg. Load (\<lambda>_ _. Inr charging_config) ''UTC'' ''config.yml'' = Inr cfg \<and>
     Generator_Start truncR [GenTick gen_test_round] (gen_test\<lparr>gen_cfg := CfgRTEGenerator cfg\<rparr>) mgr_test = None"
proof -
  obtain cfg where cfg: "Load (\<lambda>_ _. Inr charging_config) ''UTC'' ''config.yml'' = Inr cfg"
    "MaxPowerKW (CfgRTEGenerator cfg) < 0"
    using charging_load by (auto simp: Generator_SetDefaults_def charging_config_def test_generator_def)
  have "Generator_Start truncR [GenTick gen_test_round] (gen_test\<lparr>gen_cfg := CfgRTEGenerator cfg\<rparr>) mgr_test = None"
    by (rule generator_negative_power_panics [OF cfg(1) _ cfg(2)]) (simp_all add: gen_test_def)
  with cfg(1) show ?thesis by blast
qed

end
