(* ===== verification/Metrics_Sinks.thy ===== *)
theory Metrics_Sinks
  imports Go_Text Manager_Correctness
begin

text \<open>
  The metrics sinks of \<open>infra/metrics\<close>: the Prometheus sink, the InfluxDB sink, the sink that does
  nothing, the sink that fans out to others, and the collector that turns bus events into metrics. A
  call of a recorder method is a value of \<open>metric_call\<close>; whether a sink implements the interface
  of a method is \<open>implements\<close>, the Go type assertion. Collectors of Prometheus are counters by label;
  the InfluxDB client, \<open>math.Round\<close> and the conversion to \<open>int\<close> are fields of an environment.
\<close>

subsection \<open>Events (core/metrics/metrics.go)\<close>

record FleetDiscoveryEvent =
  fd_Pings :: int
  fd_Responses :: int
  fd_Component :: string
  fd_Time :: Time

record 'n VehicleStateEvent =
  vs_Vehicle :: "'n Vehicle"
  vs_FleetID :: string
  vs_Context :: string
  vs_Component :: string
  vs_Time :: Time

record DispatchAckEvent =
  da_OrderID :: string
  da_VehicleID :: string
  da_Signal :: SignalType
  da_Acknowledged :: bool
  da_Latency :: Duration
  da_Error :: string
  da_Time :: Time

record 'n FallbackEvent =
  fb_DispatchID :: string
  fb_VehicleID :: string
  fb_Signal :: SignalType
  fb_Reason :: string
  fb_ResidualPower :: 'n
  fb_Time :: Time

datatype 'n metric_call =
    RecordDispatchResult "'n MetricsResult list"
  | RecordFleetDiscovery FleetDiscoveryEvent
  | RecordVehicleState "'n VehicleStateEvent"
  | RecordDispatchOrder "'n OrderEvent"
  | RecordDispatchAck DispatchAckEvent
  | RecordFallback "'n FallbackEvent"
  | RecordRTESignal "'n FlexibilitySignal" Time
  | RecordDispatchLatency "DispatchLatency list"
  | RecordFleetSize nat
  | RecordVehicleAvailability "(string \<times> 'n \<times> Time) list"

subsection \<open>Prometheus (infra/metrics/prom.go)\<close>

type_synonym labels = "string \<times> string \<times> string"

record 'n PromSink =
  prom_events :: "labels \<Rightarrow> nat"
  prom_latency :: "(labels \<times> 'n) list"
  prom_fleet :: 'n

definition prom_inc :: "labels \<Rightarrow> 'n PromSink \<Rightarrow> 'n PromSink" where
  "prom_inc l s = s\<lparr>prom_events := (prom_events s)(l := prom_events s l + 1)\<rparr>"

definition prom_observe :: "labels \<Rightarrow> Duration \<Rightarrow> 'n::{zero,one,plus,uminus,inverse} PromSink \<Rightarrow> 'n PromSink" where
  "prom_observe l d s = s\<lparr>prom_latency := prom_latency s @ [(l, Seconds d)]\<rparr>"

fun Prom_RecordDispatchResult :: "'n MetricsResult list \<Rightarrow> 'n PromSink \<Rightarrow> 'n PromSink" where
  "Prom_RecordDispatchResult [] s = s"
| "Prom_RecordDispatchResult (r # rs) s =
     Prom_RecordDispatchResult rs
       (prom_inc (mr_VehicleID r, SignalType_String (SigType (mr_Signal r)), FormatBool (mr_Acknowledged r)) s)"

fun Prom_RecordDispatchLatency ::
  "DispatchLatency list \<Rightarrow> 'n::{zero,one,plus,uminus,inverse} PromSink \<Rightarrow> 'n PromSink" where
  "Prom_RecordDispatchLatency [] s = s"
| "Prom_RecordDispatchLatency (r # rs) s =
     Prom_RecordDispatchLatency rs
       (prom_observe (dl_VehicleID r, SignalType_String (dl_Signal r), FormatBool (dl_Acknowledged r)) (dl_Latency r) s)"

definition Prom_RecordFleetSize :: "nat \<Rightarrow> 'n::{zero,one,plus} PromSink \<Rightarrow> 'n PromSink" where
  "Prom_RecordFleetSize n s = s\<lparr>prom_fleet := num n\<rparr>"

definition Prom_RecordDispatchAck ::
  "DispatchAckEvent \<Rightarrow> 'n::{zero,one,plus,uminus,inverse} PromSink \<Rightarrow> 'n PromSink" where
  "Prom_RecordDispatchAck ev s =
     (let l = (da_VehicleID ev, SignalType_String (da_Signal ev), FormatBool (da_Acknowledged ev));
          s1 = prom_inc l s
      in if 0 < da_Latency ev then prom_observe l (da_Latency ev) s1 else s1)"

subsection \<open>InfluxDB (infra/metrics/influx.go)\<close>

datatype 'n field_value = FNum 'n | FInt int | FBool bool | FText string

record 'n point =
  Measurement :: string
  Tags :: "(string \<times> string) list"
  Fields :: "(string \<times> 'n field_value) list"
  PointTime :: Time

text \<open>The points written, and the number of attempts, on which the answer of the client depends.\<close>

record 'n InfluxSink =
  inf_points :: "'n point list"
  inf_attempts :: nat

record 'n metrics_env =
  mathRound :: "'n \<Rightarrow> 'n"
  toInt :: "'n \<Rightarrow> int"
  writeErr :: "nat \<Rightarrow> 'n point \<Rightarrow> go_error option"

definition round3 :: "'n metrics_env \<Rightarrow> 'n::{zero,one,plus,times,inverse} \<Rightarrow> 'n" where
  "round3 env f = mathRound env (f * num 1000) / num 1000"

definition WritePoint :: "'n metrics_env \<Rightarrow> 'n point \<Rightarrow> 'n InfluxSink \<Rightarrow> 'n InfluxSink \<times> go_error option" where
  "WritePoint env p s =
     (case writeErr env (inf_attempts s) p of
        Some e \<Rightarrow> (s\<lparr>inf_attempts := inf_attempts s + 1\<rparr>, Some e)
      | None \<Rightarrow> (s\<lparr>inf_attempts := inf_attempts s + 1, inf_points := inf_points s @ [p]\<rparr>, None))"

text \<open>The loops of \<open>RecordDispatchResult\<close> and \<open>RecordVehicleAvailability\<close>: up to the first error.\<close>

fun write_points ::
  "'n metrics_env \<Rightarrow> 'n point list \<Rightarrow> 'n InfluxSink \<Rightarrow> 'n InfluxSink \<times> go_error option" where
  "write_points env [] s = (s, None)"
| "write_points env (p # ps) s =
     (case WritePoint env p s of (s', Some e) \<Rightarrow> (s', Some e) | (s', None) \<Rightarrow> write_points env ps s')"

definition UnixNano :: "Time \<Rightarrow> int" where
  "UnixNano t = wrap64 (inst t - 62135596800 * Second)"

definition FormatInt :: "int \<Rightarrow> string" where
  "FormatInt i = (if i < 0 then CHR ''-'' # Itoa (nat (- i)) else Itoa (nat i))"

definition result_point :: "'n metrics_env \<Rightarrow> 'n::{zero,one,plus,times,inverse} MetricsResult \<Rightarrow> 'n point" where
  "result_point env r =
     \<lparr>Measurement = ''dispatch_event'',
      Tags = [(''vehicle_id'', mr_VehicleID r), (''signal_type'', SignalType_String (SigType (mr_Signal r))),
              (''acknowledged'', FormatBool (mr_Acknowledged r)),
              (''dispatch_id'', FormatInt (UnixNano (Timestamp (mr_Signal r)))),
              (''component'', ''dispatch_manager'')],
      Fields = [(''power_kw'', FNum (round3 env (mr_PowerKW r))), (''score'', FNum (round3 env (mr_Score r))),
                (''market_price'', FNum (round3 env (mr_MarketPrice r)))],
      PointTime = Timestamp (mr_Signal r)\<rparr>"

definition discovery_point :: "FleetDiscoveryEvent \<Rightarrow> 'n point" where
  "discovery_point ev =
     \<lparr>Measurement = ''fleet_discovery_event'', Tags = [(''component'', fd_Component ev)],
      Fields = [(''pings'', FInt (fd_Pings ev)), (''responses'', FInt (fd_Responses ev))], PointTime = fd_Time ev\<rparr>"

definition vehicle_status :: "'n Vehicle \<Rightarrow> string" where
  "vehicle_status v = (if Available v then (if Charging v then ''charging'' else ''idle'') else ''unavailable'')"

definition state_points :: "'n metrics_env \<Rightarrow> 'n::{zero,one,plus,times,inverse} VehicleStateEvent \<Rightarrow> 'n point list" where
  "state_points env ev =
     (let v = vs_Vehicle ev;
          fleet = (if vs_FleetID ev \<noteq> [] then [(''fleet_id'', vs_FleetID ev)] else []);
          component = (if vs_Component ev \<noteq> [] then [(''component'', vs_Component ev)] else [])
      in [\<lparr>Measurement = ''vehicle_state'',
           Tags = (''vehicle_id'', ID v) # fleet @ component @ [(''context'', vs_Context ev)],
           Fields = [(''soc'', FNum (round3 env (SoC v))), (''status'', FText (vehicle_status v)),
                     (''power_kw'', FNum (round3 env (MaxPower v)))], PointTime = vs_Time ev\<rparr>,
          \<lparr>Measurement = ''vehicle_soc_percent'', Tags = (''vehicle_id'', ID v) # fleet,
           Fields = [(''soc'', FNum (round3 env (SoC v * num 100)))], PointTime = vs_Time ev\<rparr>])"

definition order_point :: "'n metrics_env \<Rightarrow> 'n::{zero,one,plus,times,inverse} OrderEvent \<Rightarrow> 'n point" where
  "order_point env ev =
     \<lparr>Measurement = ''dispatch_order'',
      Tags = [(''vehicle_id'', oe_VehicleID ev), (''signal_type'', SignalType_String (oe_Signal ev)),
              (''order_id'', oe_OrderID ev)],
      Fields = [(''power_kw'', FNum (round3 env (oe_PowerKW ev))), (''score'', FNum (round3 env (oe_Score ev))),
                (''accepted'', FBool (oe_Accepted ev))], PointTime = oe_Time ev\<rparr>"

definition ack_point :: "'n metrics_env \<Rightarrow> DispatchAckEvent \<Rightarrow> 'n::{zero,one,plus,uminus,times,inverse} point" where
  "ack_point env ev =
     \<lparr>Measurement = ''acknowledgment'',
      Tags = [(''vehicle_id'', da_VehicleID ev), (''order_id'', da_OrderID ev)],
      Fields = [(''ack'', FBool (da_Acknowledged ev)),
                (''latency_ms'', FNum (round3 env (Seconds (da_Latency ev) * num 1000)))], PointTime = da_Time ev\<rparr>"

definition fallback_point :: "'n metrics_env \<Rightarrow> 'n::{zero,one,plus,times,inverse} FallbackEvent \<Rightarrow> 'n point" where
  "fallback_point env ev =
     \<lparr>Measurement = ''fallback_applied'',
      Tags = [(''dispatch_id'', fb_DispatchID ev), (''signal_type'', SignalType_String (fb_Signal ev)),
              (''component'', ''fallback'')] @
             (if fb_VehicleID ev \<noteq> [] then [(''vehicle_id'', fb_VehicleID ev)] else []),
      Fields = [(''power_kw'', FNum (round3 env (fb_ResidualPower ev))), (''fallback_reason'', FText (fb_Reason ev))],
      PointTime = fb_Time ev\<rparr>"

definition signal_point ::
  "'n metrics_env \<Rightarrow> 'n::{zero,one,plus,uminus,times,inverse} FlexibilitySignal \<Rightarrow> Time \<Rightarrow> 'n point" where
  "signal_point env s t =
     \<lparr>Measurement = ''signal'', Tags = [(''signal_type'', SignalType_String (SigType s))],
      Fields = [(''power_requested_kw'', FNum (round3 env (PowerKW s))),
                (''duration_s'', FInt (toInt env (Seconds (SigDuration s))))], PointTime = t\<rparr>"

definition availability_point ::
  "'n metrics_env \<Rightarrow> string \<times> 'n::{zero,one,plus,times,inverse} \<times> Time \<Rightarrow> 'n point" where
  "availability_point env r =
     (case r of (vid, p, t) \<Rightarrow>
        \<lparr>Measurement = ''vehicle_availability'', Tags = [(''vehicle_id'', vid)],
         Fields = [(''probability'', FNum (round3 env p))], PointTime = t\<rparr>)"

text \<open>The points of a call; \<open>InfluxSink\<close> has no \<open>RecordDispatchLatency\<close> and no \<open>RecordFleetSize\<close>.\<close>

fun Influx_points :: "'n metrics_env \<Rightarrow> 'n::{zero,one,plus,uminus,times,inverse} metric_call \<Rightarrow> 'n point list" where
  "Influx_points env (RecordDispatchResult rs) = map (result_point env) rs"
| "Influx_points env (RecordFleetDiscovery ev) = [discovery_point ev]"
| "Influx_points env (RecordVehicleState ev) = state_points env ev"
| "Influx_points env (RecordDispatchOrder ev) = [order_point env ev]"
| "Influx_points env (RecordDispatchAck ev) = [ack_point env ev]"
| "Influx_points env (RecordFallback ev) = [fallback_point env ev]"
| "Influx_points env (RecordRTESignal s t) = [signal_point env s t]"
| "Influx_points env (RecordVehicleAvailability av) = map (availability_point env) av"
| "Influx_points env (RecordDispatchLatency lat) = []"
| "Influx_points env (RecordFleetSize n) = []"

subsection \<open>Sinks and the fan-out (infra/metrics/multi.go)\<close>

datatype 'n metrics_sink =
    NopSink
  | Prom "'n PromSink"
  | Influx "'n InfluxSink"
  | MultiSink "'n metrics_sink list"

text \<open>The type assertions \<open>s.(\<dots>Recorder)\<close>.\<close>

fun implements :: "'n metrics_sink \<Rightarrow> 'n metric_call \<Rightarrow> bool" where
  "implements (Prom s) c \<longleftrightarrow>
     (case c of RecordDispatchResult _ \<Rightarrow> True | RecordDispatchLatency _ \<Rightarrow> True
      | RecordFleetSize _ \<Rightarrow> True | RecordDispatchAck _ \<Rightarrow> True | _ \<Rightarrow> False)"
| "implements (Influx s) c \<longleftrightarrow>
     (case c of RecordDispatchLatency _ \<Rightarrow> False | RecordFleetSize _ \<Rightarrow> False | _ \<Rightarrow> True)"
| "implements NopSink c \<longleftrightarrow> True"
| "implements (MultiSink ss) c \<longleftrightarrow> True"

definition Prom_record :: "'n::{zero,one,plus,uminus,inverse} metric_call \<Rightarrow> 'n PromSink \<Rightarrow> 'n PromSink" where
  "Prom_record c s =
     (case c of
        RecordDispatchResult rs \<Rightarrow> Prom_RecordDispatchResult rs s
      | RecordDispatchLatency lat \<Rightarrow> Prom_RecordDispatchLatency lat s
      | RecordFleetSize n \<Rightarrow> Prom_RecordFleetSize n s
      | RecordDispatchAck ev \<Rightarrow> Prom_RecordDispatchAck ev s
      | _ \<Rightarrow> s)"

text \<open>
  The ten methods of \<open>MultiSink\<close> are one loop: each sink that implements the recorder is called, and
  the first error ends the loop.
\<close>

fun sink_record ::
  "'n metrics_env \<Rightarrow> 'n metric_call \<Rightarrow> 'n::{zero,one,plus,uminus,times,inverse} metrics_sink
    \<Rightarrow> 'n metrics_sink \<times> go_error option"
and multi_record ::
  "'n metrics_env \<Rightarrow> 'n metric_call \<Rightarrow> 'n::{zero,one,plus,uminus,times,inverse} metrics_sink list
    \<Rightarrow> 'n metrics_sink list \<times> go_error option" where
  "sink_record env c NopSink = (NopSink, None)"
| "sink_record env c (Prom s) = (Prom (Prom_record c s), None)"
| "sink_record env c (Influx s) = (case write_points env (Influx_points env c) s of (s', e) \<Rightarrow> (Influx s', e))"
| "sink_record env c (MultiSink ss) = (case multi_record env c ss of (ss', e) \<Rightarrow> (MultiSink ss', e))"
| "multi_record env c [] = ([], None)"
| "multi_record env c (s # ss) =
     (if implements s c
      then (case sink_record env c s of
              (s', Some e) \<Rightarrow> (s' # ss, Some e)
            | (s', None) \<Rightarrow> (case multi_record env c ss of (ss', e) \<Rightarrow> (s' # ss', e)))
      else (case multi_record env c ss of (ss', e) \<Rightarrow> (s # ss', e)))"

text \<open>A sink as the dispatch manager sees it through its type assertions.\<close>

fun sink_view :: "'n metrics_sink \<Rightarrow> 'n sink" where
  "sink_view (Prom s) = \<lparr>isFleetSizeRecorder = True, isAvailabilityRecorder = False, isLatencyRecorder = True,
     isOrderRecorder = False, recorded = []\<rparr>"
| "sink_view (Influx s) = \<lparr>isFleetSizeRecorder = False, isAvailabilityRecorder = True, isLatencyRecorder = False,
     isOrderRecorder = True, recorded = []\<rparr>"
| "sink_view _ = \<lparr>isFleetSizeRecorder = True, isAvailabilityRecorder = True, isLatencyRecorder = True,
     isOrderRecorder = True, recorded = []\<rparr>"

lemma sink_view_implements:
  "isFleetSizeRecorder (sink_view s) = implements s (RecordFleetSize n)"
  "isAvailabilityRecorder (sink_view s) = implements s (RecordVehicleAvailability a)"
  "isLatencyRecorder (sink_view s) = implements s (RecordDispatchLatency l)"
  "isOrderRecorder (sink_view s) = implements s (RecordDispatchOrder e)"
  by (cases s; simp)+

text \<open>\<open>NewInfluxSinkWithFallback\<close>: \<open>health\<close> is the answer of the health check.\<close>

definition NewInfluxSinkWithFallback :: "go_error + string \<Rightarrow> 'n metrics_sink" where
  "NewInfluxSinkWithFallback health =
     (case health of
        Inl e \<Rightarrow> NopSink
      | Inr st \<Rightarrow> if st \<noteq> ''pass'' then NopSink else Influx \<lparr>inf_points = [], inf_attempts = 0\<rparr>)"

subsection \<open>The event collector (infra/metrics/collector.go)\<close>

text \<open>What the collector records for an event: \<open>now\<close> is the clock, \<open>text\<close> is \<open>err.Error()\<close>.\<close>

definition collect_event ::
  "(go_error \<Rightarrow> string) \<Rightarrow> Time \<Rightarrow> 'n event \<Rightarrow> 'n metric_call option" where
  "collect_event text now ev =
     (case ev of
        SignalEvent s \<Rightarrow> Some (RecordRTESignal s now)
      | AckEvent oid vid sig ack err lat \<Rightarrow>
          Some (RecordDispatchAck \<lparr>da_OrderID = oid, da_VehicleID = vid, da_Signal = sig, da_Acknowledged = ack,
            da_Latency = lat, da_Error = (case err of None \<Rightarrow> [] | Some e \<Rightarrow> text e), da_Time = now\<rparr>)
      | StrategyEvent t a e \<Rightarrow> None)"

fun collect ::
  "'n metrics_env \<Rightarrow> (go_error \<Rightarrow> string) \<Rightarrow> Time \<Rightarrow> 'n event list
    \<Rightarrow> 'n::{zero,one,plus,uminus,times,inverse} metrics_sink \<Rightarrow> 'n metrics_sink" where
  "collect env text now [] s = s"
| "collect env text now (ev # evs) s =
     collect env text now evs
       (case collect_event text now ev of
          None \<Rightarrow> s
        | Some c \<Rightarrow> if implements s c then fst (sink_record env c s) else s)"

subsection \<open>The contract of a sink\<close>

text \<open>
  Which recorder interfaces a sink implements is a matter of its type: recording does not change it.
  Whoever asserts an interface once may rely on it after any number of calls.
\<close>

definition replay :: "('s \<Rightarrow> 'c \<Rightarrow> bool) \<Rightarrow> ('c \<Rightarrow> 's \<Rightarrow> 's \<times> go_error option) \<Rightarrow> 'c list \<Rightarrow> 's \<Rightarrow> 's" where
  "replay impl call cs s = foldl (\<lambda>s c. if impl s c then fst (call c s) else s) s cs"

lemma replay_simps [simp]:
  "replay impl call [] s = s"
  "replay impl call (c # cs) s = replay impl call cs (if impl s c then fst (call c s) else s)"
  "replay impl call (cs @ ds) s = replay impl call ds (replay impl call cs s)"
  by (simp_all add: replay_def)

locale recorder =
  fixes impl :: "'s \<Rightarrow> 'c \<Rightarrow> bool" and call :: "'c \<Rightarrow> 's \<Rightarrow> 's \<times> go_error option"
  assumes impl_call: "impl (fst (call c s)) d = impl s d"
begin

lemma impl_replay: "impl (replay impl call cs s) d = impl s d"
  by (induction cs arbitrary: s) (simp_all add: impl_call)

lemma replay_filter: "replay impl call cs s = replay impl call (filter (impl s) cs) s"
proof (induction cs arbitrary: s)
  case (Cons c cs)
  have "impl (fst (call c s)) = impl s" by (simp add: impl_call fun_eq_iff)
  then show ?case using Cons [of "fst (call c s)"] Cons [of s] by simp
qed simp

end

lemma implements_record: "implements (fst (sink_record env c s)) d = implements s d"
  by (cases s) (simp_all add: case_prod_unfold)

interpretation snk: recorder implements "sink_record env" for env
  by unfold_locales (rule implements_record)

lemma collect_replay:
  "collect env text now evs s = replay implements (sink_record env) (List.map_filter (collect_event text now) evs) s"
  by (induction evs arbitrary: s) (simp_all add: List.map_filter_simps split: option.split)

subsection \<open>The fan-out\<close>

lemma multi_record_prefix:
  "multi_record env c ss = (ss', err) \<Longrightarrow>
    \<exists>k\<le>length ss. length ss' = length ss \<and>
      (\<forall>i<length ss. ss' ! i = (if i < k \<and> implements (ss ! i) c then fst (sink_record env c (ss ! i)) else ss ! i)) \<and>
      (\<forall>i<k. implements (ss ! i) c \<longrightarrow> snd (sink_record env c (ss ! i)) = (if Suc i = k then err else None)) \<and>
      (err = None \<longrightarrow> k = length ss) \<and> (err \<noteq> None \<longrightarrow> 0 < k \<and> implements (ss ! (k - 1)) c)"
proof (induction ss arbitrary: ss' err)
  case (Cons s ss)
  show ?case
  proof (cases "implements s c \<and> snd (sink_record env c s) \<noteq> None")
    case True
    then obtain s' e where "sink_record env c s = (s', Some e)" by (cases "sink_record env c s") auto
    with True Cons.prems show ?thesis by (intro exI [of _ 1]) (auto simp: nth_Cons')
  next
    case False
    define s' where "s' = (if implements s c then fst (sink_record env c s) else s)"
    obtain rs where rs: "multi_record env c ss = (rs, err)" "ss' = s' # rs"
      using False Cons.prems
      by (cases "sink_record env c s") (auto simp: s'_def split: if_splits option.splits prod.splits)
    from Cons.IH [OF rs(1)] obtain k where k: "k \<le> length ss" "length rs = length ss"
      "\<forall>i<length ss. rs ! i = (if i < k \<and> implements (ss ! i) c then fst (sink_record env c (ss ! i)) else ss ! i)"
      "\<forall>i<k. implements (ss ! i) c \<longrightarrow> snd (sink_record env c (ss ! i)) = (if Suc i = k then err else None)"
      "err = None \<longrightarrow> k = length ss" "err \<noteq> None \<longrightarrow> 0 < k \<and> implements (ss ! (k - 1)) c" by blast
    have none: "implements s c \<Longrightarrow> snd (sink_record env c s) = None" using False by blast
    have z: "k = 0 \<Longrightarrow> err = None" using k(6) by blast
    show ?thesis
      using k none z by (intro exI [of _ "Suc k"]) (auto simp: rs(2) s'_def nth_Cons')
  qed
qed simp

text \<open>
  A multi sink passes a record to its sinks in order, to each that implements the recorder, and to
  no other. It stops at the first error, which it returns: the sinks up to and including the
  failing one have recorded, those behind it are unchanged. Without an error all have recorded.
\<close>

theorem multi_sink_fanout:
  assumes "sink_record env c (MultiSink ss) = (snk', err)"
  shows "\<exists>ss' k. snk' = MultiSink ss' \<and> length ss' = length ss \<and> k \<le> length ss \<and>
    (\<forall>i<length ss. ss' ! i = (if i < k \<and> implements (ss ! i) c then fst (sink_record env c (ss ! i)) else ss ! i)) \<and>
    (\<forall>i<k. implements (ss ! i) c \<longrightarrow> snd (sink_record env c (ss ! i)) = (if Suc i = k then err else None)) \<and>
    (err = None \<longrightarrow> k = length ss) \<and> (err \<noteq> None \<longrightarrow> 0 < k \<and> implements (ss ! (k - 1)) c)"
proof -
  obtain ss' where "multi_record env c ss = (ss', err)" "snk' = MultiSink ss'"
    using assms by (auto split: prod.splits)
  with multi_record_prefix [of env c ss ss' err] show ?thesis by blast
qed

definition test_metrics_env :: "real metrics_env" where
  "test_metrics_env = \<lparr>mathRound = (\<lambda>x. of_int \<lfloor>x + 1/2\<rfloor>), toInt = floor,
     writeErr = (\<lambda>n p. if n = 0 then Some (Errorf ''timeout'') else None)\<rparr>"

definition test_prom :: "real PromSink" where
  "test_prom = \<lparr>prom_events = (\<lambda>_. 0), prom_latency = [], prom_fleet = 0\<rparr>"

theorem multi_sink_fanout_witness:
  "\<exists>a b. sink_record test_metrics_env (RecordFleetSize 7) (MultiSink [Influx \<lparr>inf_points = [], inf_attempts = 0\<rparr>, Prom test_prom])
     = (MultiSink [a, Prom b], None) \<and> a = Influx \<lparr>inf_points = [], inf_attempts = 0\<rparr> \<and> prom_fleet b = 7"
proof -
  let ?ss = "[Influx \<lparr>inf_points = [], inf_attempts = 0\<rparr>, Prom test_prom]"
  have r: "sink_record test_metrics_env (RecordFleetSize 7) (MultiSink ?ss) =
      (MultiSink [hd ?ss, Prom (Prom_RecordFleetSize 7 test_prom)], None)"
    by (simp add: Prom_record_def)
  from multi_sink_fanout [OF r] r show ?thesis
    by (simp add: Prom_RecordFleetSize_def)
qed

end
