(* ===== verification/Telemetry.thy ===== *)
theory Telemetry
  imports Configuration Metrics_Sinks
begin

text \<open>
  The telemetry manager, \<open>infra/telemetry/manager.go\<close>: pushed vehicle states, and polls whose
  responses arrive on a channel. The JSON decoder is the argument \<open>decode\<close>, from payloads to records
  with optional fields; \<open>zone\<close> is the offset of the local time zone. The goroutine of a poll and the
  MQTT callback that fills the channel interleave: their steps are the events of a poll.
\<close>

subsection \<open>State\<close>

record telemetryMessage =
  tm_VehicleID :: string
  tm_Payload :: string
  tm_Arrived :: Time

text \<open>The decoded message of \<open>process\<close>; an absent pointer is \<^term>\<open>None\<close>.\<close>

record 'n telemetry_payload =
  tp_VehicleID :: string
  tp_SoC :: 'n
  tp_Available :: "bool option"
  tp_Charging :: "bool option"
  tp_PowerKW :: 'n
  tp_TS :: "int option"

record 'n TelemetryManager =
  tel_cfg :: TelemetryConfig
  tel_hasSink :: bool
  tel_states :: "'n VehicleStateEvent list"
  respCh :: "telemetryMessage list"
  pollReq :: nat
  pollResp :: nat
  pollTimeout :: nat
  lastCollect :: "Time option"
  tel_latency :: "'n list"

definition NewTelemetryManager :: "TelemetryConfig \<Rightarrow> bool \<Rightarrow> 'n TelemetryManager" where
  "NewTelemetryManager cfg hasSink =
     \<lparr>tel_cfg = cfg, tel_hasSink = hasSink, tel_states = [], respCh = [], pollReq = 0, pollResp = 0, pollTimeout = 0,
      lastCollect = None, tel_latency = []\<rparr>"

text \<open>The client identifier of the connection; \<open>uuid\<close> is a fresh identifier.\<close>

definition telemetryClientID :: "string \<Rightarrow> string \<Rightarrow> string" where
  "telemetryClientID uuid clientID =
     (if clientID \<noteq> [] then clientID @ ''-telemetry'' else ''telemetry-'' @ uuid)"

subsection \<open>Messages\<close>

definition extractID :: "string \<Rightarrow> string" where
  "extractID topic = last (Split (CHR ''/'') topic)"

text \<open>The event that \<open>process\<close> records for a decoded payload.\<close>

definition state_event ::
  "int \<Rightarrow> Time \<Rightarrow> string \<Rightarrow> string \<Rightarrow> 'n::{zero,one,ord} telemetry_payload \<Rightarrow> 'n VehicleStateEvent" where
  "state_event tz now topic ctx msg =
     (let vid = (if tp_VehicleID msg = [] then extractID topic else tp_VehicleID msg);
          soc = (if tp_SoC msg < 0 then 0 else if 1 < tp_SoC msg then 1 else tp_SoC msg)
      in \<lparr>vs_Vehicle = zeroVehicle\<lparr>ID := vid, SoC := soc, MaxPower := tp_PowerKW msg,
            Available := (case tp_Available msg of None \<Rightarrow> False | Some b \<Rightarrow> b),
            Charging := (case tp_Charging msg of None \<Rightarrow> False | Some b \<Rightarrow> b)\<rparr>,
          vs_FleetID = [], vs_Context = ctx, vs_Component = ''telemetry'',
          vs_Time = (case tp_TS msg of None \<Rightarrow> now | Some t \<Rightarrow> ofUnix tz t)\<rparr>)"

definition process ::
  "(string \<Rightarrow> go_error + 'n telemetry_payload) \<Rightarrow> int \<Rightarrow> Time \<Rightarrow> string \<Rightarrow> string \<Rightarrow> string
    \<Rightarrow> 'n::{zero,one,ord} TelemetryManager \<Rightarrow> go_error option \<times> 'n TelemetryManager" where
  "process decode tz now payload topic ctx m =
     (case decode payload of
        Inl e \<Rightarrow> (Some e, m)
      | Inr msg \<Rightarrow>
          (None, if tel_hasSink m then m\<lparr>tel_states := tel_states m @ [state_event tz now topic ctx msg]\<rparr> else m))"

definition onPush ::
  "(string \<Rightarrow> go_error + 'n telemetry_payload) \<Rightarrow> int \<Rightarrow> Time \<Rightarrow> string \<Rightarrow> string
    \<Rightarrow> 'n::{zero,one,ord} TelemetryManager \<Rightarrow> 'n TelemetryManager" where
  "onPush decode tz now topic payload m = snd (process decode tz now payload topic ''push'' m)"

text \<open>
  \<open>onResponse\<close>. The channel buffers 100 messages; a callback that finds it full waits, and its message
  enters the buffer in turn. \<open>respCh\<close> is the buffer followed by the messages of the waiting callbacks.
\<close>

definition onResponse :: "Time \<Rightarrow> string \<Rightarrow> string \<Rightarrow> 'n TelemetryManager \<Rightarrow> 'n TelemetryManager" where
  "onResponse now topic payload m =
     m\<lparr>respCh := respCh m @ [\<lparr>tm_VehicleID = extractID topic, tm_Payload = payload, tm_Arrived = now\<rparr>]\<rparr>"

subsection \<open>Subscriptions\<close>

text \<open>The topics that \<open>Start\<close> subscribes to, and whether it polls.\<close>

definition telemetry_mode :: "TelemetryConfig \<Rightarrow> string" where
  "telemetry_mode c = (let mode = ToLower (TelMode c) in if mode = [] then ''push'' else mode)"

definition Telemetry_Start :: "TelemetryConfig \<Rightarrow> string list \<times> bool" where
  "Telemetry_Start c =
     (let mode = telemetry_mode c;
          push = (if mode = ''push'' \<or> mode = ''hybrid'' then [TrimSuffix (StatePrefix c) ''/'' @ ''/+''] else []);
          pull = mode = ''pull'' \<or> mode = ''hybrid''
      in (push @ (if pull then [TrimSuffix (ResponsePrefix c) ''/'' @ ''/+''] else []), pull))"

subsection \<open>Polling\<close>

text \<open>
  The events while a poll waits: a response arrives, the loop takes a message from the channel at
  some time, the timer fires, or the context ends. The expected vehicles are kept as a list without
  duplicates, the keys of the map.
\<close>

datatype poll_event = Arrive Time string string | Take Time | PollTimer | PollCtxDone

definition poll_take ::
  "(string \<Rightarrow> go_error + 'n telemetry_payload) \<Rightarrow> int \<Rightarrow> Time \<Rightarrow> Time \<Rightarrow> telemetryMessage \<Rightarrow> string list
    \<Rightarrow> 'n::{zero,one,plus,uminus,inverse,ord} TelemetryManager \<Rightarrow> string list \<times> 'n TelemetryManager" where
  "poll_take decode tz start now resp expected m =
     (case process decode tz now (tm_Payload resp) [] ''poll'' m of
        (Some e, m1) \<Rightarrow> (expected, m1)
      | (None, m1) \<Rightarrow>
          (filter (\<lambda>i. i \<noteq> tm_VehicleID resp) expected,
           m1\<lparr>pollResp := pollResp m1 + 1, tel_latency := tel_latency m1 @ [Seconds (timeSub now start)],
              lastCollect := Some now\<rparr>))"

fun poll_loop ::
  "(string \<Rightarrow> go_error + 'n telemetry_payload) \<Rightarrow> int \<Rightarrow> Time \<Rightarrow> poll_event list \<Rightarrow> string list
    \<Rightarrow> 'n::{zero,one,plus,uminus,inverse,ord} TelemetryManager \<Rightarrow> 'n TelemetryManager" where
  "poll_loop decode tz start [] expected m = m"
| "poll_loop decode tz start (Arrive now topic payload # es) expected m =
     poll_loop decode tz start es expected (onResponse now topic payload m)"
| "poll_loop decode tz start (Take now # es) expected m =
     (case respCh m of
        [] \<Rightarrow> poll_loop decode tz start es expected m
      | resp # rest \<Rightarrow>
          (case poll_take decode tz start now resp expected (m\<lparr>respCh := rest\<rparr>) of
             (expected', m1) \<Rightarrow> poll_loop decode tz start es expected' m1))"
| "poll_loop decode tz start (PollTimer # es) expected m = m\<lparr>pollTimeout := pollTimeout m + length expected\<rparr>"
| "poll_loop decode tz start (PollCtxDone # es) expected m = m"

text \<open>The expected vehicles: \<open>disc\<close> is \<^term>\<open>None\<close> without a discovery, else its answer.\<close>

definition expectedVehicles :: "(go_error + 'n Vehicle list) option \<Rightarrow> string list" where
  "expectedVehicles disc = (case disc of None \<Rightarrow> [] | Some (Inl e) \<Rightarrow> [] | Some (Inr vs) \<Rightarrow> remdups (map ID vs))"

definition doPoll ::
  "(string \<Rightarrow> go_error + 'n telemetry_payload) \<Rightarrow> int \<Rightarrow> Time \<Rightarrow> (go_error + 'n Vehicle list) option \<Rightarrow> poll_event list
    \<Rightarrow> 'n::{zero,one,plus,uminus,inverse,ord} TelemetryManager \<Rightarrow> 'n TelemetryManager" where
  "doPoll decode tz start disc es m =
     poll_loop decode tz start es (expectedVehicles disc) (m\<lparr>pollReq := pollReq m + 1\<rparr>)"

text \<open>
  \<open>pollLoop\<close>: one poll per tick until the context ends. A tick brings the time, the fleet that is
  discovered and the events of its poll.
\<close>

datatype 'n poll_tick = PollTick Time "(go_error + 'n Vehicle list) option" "poll_event list" | PollDone

fun pollLoop ::
  "(string \<Rightarrow> go_error + 'n telemetry_payload) \<Rightarrow> int \<Rightarrow> 'n poll_tick list
    \<Rightarrow> 'n::{zero,one,plus,uminus,inverse,ord} TelemetryManager \<Rightarrow> 'n TelemetryManager option" where
  "pollLoop decode tz [] m = None"
| "pollLoop decode tz (PollDone # ts) m = Some m"
| "pollLoop decode tz (PollTick start disc es # ts) m = pollLoop decode tz ts (doPoll decode tz start disc es m)"

subsection \<open>Accounting\<close>

text \<open>The messages that the loop takes before it ends, and how it ends.\<close>

fun taken :: "poll_event list \<Rightarrow> telemetryMessage list \<Rightarrow> (Time \<times> telemetryMessage) list" where
  "taken (Arrive now topic payload # es) q =
     taken es (q @ [\<lparr>tm_VehicleID = extractID topic, tm_Payload = payload, tm_Arrived = now\<rparr>])"
| "taken (Take now # es) [] = taken es []"
| "taken (Take now # es) (r # q) = (now, r) # taken es q"
| "taken _ q = []"

fun timed_out :: "poll_event list \<Rightarrow> bool" where
  "timed_out (PollTimer # es) \<longleftrightarrow> True"
| "timed_out (PollCtxDone # es) \<longleftrightarrow> False"
| "timed_out (_ # es) \<longleftrightarrow> timed_out es"
| "timed_out [] \<longleftrightarrow> False"

definition readable :: "(string \<Rightarrow> go_error + 'n telemetry_payload) \<Rightarrow> Time \<times> telemetryMessage \<Rightarrow> bool" where
  "readable decode r \<longleftrightarrow> (\<exists>msg. decode (tm_Payload (snd r)) = Inr msg)"

definition poll_state :: "(string \<Rightarrow> go_error + 'n telemetry_payload) \<Rightarrow> int \<Rightarrow> Time \<times> telemetryMessage
    \<Rightarrow> 'n::{zero,one,ord} VehicleStateEvent" where
  "poll_state decode tz r = state_event tz (fst r) [] ''poll'' (projr (decode (tm_Payload (snd r))))"

lemma poll_take_cases:
  "poll_take decode tz start now r expected m =
     (if readable decode (now, r)
      then (filter (\<lambda>i. i \<noteq> tm_VehicleID r) expected,
            m\<lparr>tel_states := (if tel_hasSink m then tel_states m @ [poll_state decode tz (now, r)] else tel_states m),
              pollResp := pollResp m + 1, tel_latency := tel_latency m @ [Seconds (timeSub now start)],
              lastCollect := Some now\<rparr>)
      else (expected, m))"
  by (auto simp: poll_take_def process_def readable_def poll_state_def split: sum.split)

definition answered :: "(string \<Rightarrow> go_error + 'n telemetry_payload) \<Rightarrow> poll_event list \<Rightarrow> telemetryMessage list
    \<Rightarrow> (Time \<times> telemetryMessage) list" where
  "answered decode es q = filter (readable decode) (taken es q)"

lemma poll_loop_accounting:
  "pollReq (poll_loop decode tz start es expected m) = pollReq m \<and>
   pollResp (poll_loop decode tz start es expected m) = pollResp m + length (answered decode es (respCh m)) \<and>
   pollTimeout (poll_loop decode tz start es expected m) = pollTimeout m +
     (if timed_out es
      then length (filter (\<lambda>i. i \<notin> (tm_VehicleID \<circ> snd) ` set (answered decode es (respCh m))) expected) else 0) \<and>
   tel_states (poll_loop decode tz start es expected m) = tel_states m @
     (if tel_hasSink m then map (poll_state decode tz) (answered decode es (respCh m)) else [])"
proof (induction es arbitrary: expected m)
  case (Cons e es)
  show ?case
  proof (cases e)
    case (Take now)
    show ?thesis
    proof (cases "respCh m = []")
      case True
      then show ?thesis using Cons [of expected m] by (simp add: Take answered_def)
    next
      case False
      then obtain r q where q: "respCh m = r # q" by (cases "respCh m") auto
      show ?thesis
        using Cons [of "fst (poll_take decode tz start now r expected (m\<lparr>respCh := q\<rparr>))"
            "snd (poll_take decode tz start now r expected (m\<lparr>respCh := q\<rparr>))"]
        by (cases "readable decode (now, r)")
          (simp_all add: Take q answered_def poll_take_cases conj_commute)
    qed
  qed (use Cons [of expected] in \<open>simp_all add: answered_def onResponse_def\<close>)
qed (simp add: answered_def)

text \<open>
  C28. The books of a poll balance. A poll counts one request and one response per readable message that
  it takes from the channel, whatever arrives when, and hands the states of exactly these to the
  sink, in order, with a state of charge between zero and one. If it ends by its timer it counts
  as timed out exactly the discovered vehicles without a readable message; a poll cut short by the
  context counts none. A message that was still in the channel from an earlier poll counts as well.
\<close>

theorem telemetry_poll_accounting:
  fixes m :: "real TelemetryManager"
  shows "\<exists>m'. doPoll decode tz start disc es m = m' \<and> pollReq m' = pollReq m + 1 \<and>
    pollResp m' = pollResp m + length (answered decode es (respCh m)) \<and>
    pollTimeout m' = pollTimeout m + (if timed_out es
      then card (set (expectedVehicles disc) - (tm_VehicleID \<circ> snd) ` set (answered decode es (respCh m))) else 0) \<and>
    tel_states m' = tel_states m @ (if tel_hasSink m then map (poll_state decode tz) (answered decode es (respCh m)) else []) \<and>
    (\<forall>r. 0 \<le> SoC (vs_Vehicle (poll_state decode tz r)) \<and> SoC (vs_Vehicle (poll_state decode tz r)) \<le> 1)"
proof -
  let ?A = "(tm_VehicleID \<circ> snd) ` set (answered decode es (respCh m))" and ?xs = "expectedVehicles disc"
  have "distinct (filter (\<lambda>i. i \<notin> ?A) ?xs)"
    by (simp add: expectedVehicles_def split: option.split sum.split)
  then have "length (filter (\<lambda>i. i \<notin> ?A) ?xs) = card (set ?xs - ?A)"
    by (simp only: distinct_card [symmetric] set_filter set_diff_eq)
  then show ?thesis
    using poll_loop_accounting [of decode tz start es ?xs "m\<lparr>pollReq := pollReq m + 1\<rparr>"]
    by (simp add: doPoll_def poll_state_def state_event_def Let_def)
qed

end
