(* ===== verification/Metrics_Correctness.thy ===== *)
theory Metrics_Correctness
  imports Metrics_Sinks
begin

text \<open>
  The service runs the event collector on the very sink that the manager records to
  (\<open>app/service.go\<close>). This theory follows one dispatch through both paths into the Prometheus
  counter \<open>dispatch_events_total\<close>.
\<close>

subsection \<open>Counting in the Prometheus sink\<close>

definition result_label :: "'n MetricsResult \<Rightarrow> labels" where
  "result_label r = (mr_VehicleID r, SignalType_String (SigType (mr_Signal r)), FormatBool (mr_Acknowledged r))"

fun call_count :: "labels \<Rightarrow> 'n metric_call \<Rightarrow> nat" where
  "call_count l (RecordDispatchResult rs) = length (filter (\<lambda>r. result_label r = l) rs)"
| "call_count l (RecordDispatchAck ev) =
     (if (da_VehicleID ev, SignalType_String (da_Signal ev), FormatBool (da_Acknowledged ev)) = l then 1 else 0)"
| "call_count l _ = 0"

lemma prom_inc_events: "prom_events (prom_inc l s) x = prom_events s x + (if l = x then 1 else 0)"
  by (simp add: prom_inc_def)

lemma prom_results_events:
  "prom_events (Prom_RecordDispatchResult rs s) l = prom_events s l + length (filter (\<lambda>r. result_label r = l) rs)"
  by (induction rs arbitrary: s) (simp_all add: prom_inc_events result_label_def)

lemma prom_latency_events: "prom_events (Prom_RecordDispatchLatency rs s) = prom_events s"
  by (induction rs arbitrary: s) (simp_all add: prom_observe_def)

lemma Prom_record_events: "prom_events (Prom_record c s) l = prom_events s l + call_count l c"
  by (cases c) (auto simp: Prom_record_def prom_results_events prom_latency_events Prom_RecordFleetSize_def
      Prom_RecordDispatchAck_def Let_def prom_inc_events prom_observe_def)

lemma replay_prom:
  "\<exists>s'. replay implements (sink_record env) cs (Prom s) = Prom s' \<and>
     (\<forall>l. prom_events s' l = prom_events s l + sum_list (map (call_count l) cs))"
proof (induction cs arbitrary: s)
  case (Cons c cs)
  show ?case
  proof (cases "implements (Prom s) c")
    case True
    then show ?thesis using Cons [of "Prom_record c s"] by (auto simp: Prom_record_events)
  next
    case False
    then have "call_count l c = 0" for l by (cases c) auto
    then show ?thesis using Cons [of s] False by auto
  qed
qed auto

subsection \<open>What the manager records\<close>

fun manager_call :: "'n metric \<Rightarrow> 'n metric_call" where
  "manager_call (FleetSize n) = RecordFleetSize n"
| "manager_call (VehicleAvailabilities a) = RecordVehicleAvailability a"
| "manager_call (DispatchOrder e) = RecordDispatchOrder e"
| "manager_call (DispatchResults rs) = RecordDispatchResult rs"
| "manager_call (DispatchLatencies l) = RecordDispatchLatency l"

definition metric_count :: "labels \<Rightarrow> 'n sink option \<Rightarrow> nat" where
  "metric_count l snk = (case snk of None \<Rightarrow> 0 | Some k \<Rightarrow> sum_list (map (call_count l \<circ> manager_call) (recorded k)))"

lemma metric_count_record [simp]:
  "metric_count l (record_on can (FleetSize n) snk) = metric_count l snk"
  "metric_count l (record_on can (VehicleAvailabilities a) snk) = metric_count l snk"
  "metric_count l (record_on can (DispatchOrder e) snk) = metric_count l snk"
  "metric_count l (record_on can (DispatchLatencies d) snk) = metric_count l snk"
  "metric_count l (record_on (\<lambda>_. True) (DispatchResults rs) (Some k)) =
     metric_count l (Some k) + length (filter (\<lambda>r. result_label r = l) rs)"
  by (auto simp: metric_count_def record_on_def split: option.split)

lemma record_on_None [simp]:
  "record_on can x snk = None \<longleftrightarrow> snk = None" "None = record_on can x snk \<longleftrightarrow> snk = None"
  by (auto simp: record_on_def)

lemma run_actions_metrics:
  assumes "run_actions env T t rl res as sh = Some sh'"
  shows "metric_count l (sh_metrics sh') = metric_count l (sh_metrics sh) \<and> (sh_metrics sh' = None \<longleftrightarrow> sh_metrics sh = None)"
  using assms
proof (induction as arbitrary: sh)
  case (Cons a as)
  then obtain sh1 where sh1: "run_action env T t rl res a sh = Some sh1" "run_actions env T t rl res as sh1 = Some sh'"
    by (auto split: option.splits)
  with Cons.IH [OF sh1(2)] run_action_effect(7) [OF sh1(1)] show ?case by auto
qed simp

lemma prepared_metrics:
  assumes "prepared env m s vehicles = (vs, m2)"
  shows "metric_count l (mgr_metrics m2) = metric_count l (mgr_metrics m) \<and> (mgr_metrics m2 = None \<longleftrightarrow> mgr_metrics m = None)"
proof -
  obtain fleet m1 where d: "discover_fleet env m vehicles = (fleet, m1)" by fastforce
  obtain v2 m3 where p: "predict_fleet env m1 s (mgr_filter m1 fleet s) = (v2, m3)" by fastforce
  have "metric_count l (mgr_metrics m1) = metric_count l (mgr_metrics m) \<and> (mgr_metrics m1 = None \<longleftrightarrow> mgr_metrics m = None)"
    using d by (auto simp: discover_fleet_def split: if_splits sum.splits)
  moreover have "metric_count l (mgr_metrics m3) = metric_count l (mgr_metrics m1) \<and> (mgr_metrics m3 = None \<longleftrightarrow> mgr_metrics m1 = None)"
    using p by (auto simp: predict_fleet_def Let_def split: if_splits option.splits)
  moreover have "mgr_metrics m2 = mgr_metrics m3" using assms d p by (auto simp: prepared_def)
  ultimately show ?thesis by simp
qed

lemma commit_metrics:
  assumes "mgr_metrics m \<noteq> None"
  shows "metric_count l (mgr_metrics (commit_result env s vs lat hl res m)) =
    metric_count l (mgr_metrics m) + length (filter (\<lambda>r. result_label r = l) (metrics_results (envResults env) res))"
    and "mgr_metrics (commit_result env s vs lat hl res m) \<noteq> None"
proof -
  obtain k where k: "mgr_metrics m = Some k" using assms by blast
  note sel = same_frame_sel(3) [OF tune_dispatcher_frame(1)]
  show "metric_count l (mgr_metrics (commit_result env s vs lat hl res m)) =
    metric_count l (mgr_metrics m) + length (filter (\<lambda>r. result_label r = l) (metrics_results (envResults env) res))"
    by (simp add: commit_result_def Let_def sel recordMetrics_def k)
  show "mgr_metrics (commit_result env s vs lat hl res m) \<noteq> None"
    by (simp add: commit_result_def Let_def sel recordMetrics_def k record_on_def)
qed

subsection \<open>What the collector receives\<close>

definition ack_event :: "'n dispatch_env \<Rightarrow> Duration \<Rightarrow> SignalType \<Rightarrow> 'n::zero DispatchResult \<Rightarrow> string \<Rightarrow> 'n event" where
  "ack_event env T t res i =
     (case order_outcome env T i (power_of res i) of (oid, ack, dur, err) \<Rightarrow>
        AckEvent oid i t (err = None \<and> ack) err dur)"

fun updates :: "action list \<Rightarrow> string list" where
  "updates [] = []"
| "updates (ActUpdate i # as) = i # updates as"
| "updates (_ # as) = updates as"

lemma set_updates: "i \<in> set (updates as) \<longleftrightarrow> ActUpdate i \<in> set as"
  by (induction as rule: updates.induct) auto

lemma distinct_updates: "distinct as \<Longrightarrow> distinct (updates as)"
  by (induction as rule: updates.induct) (auto simp: set_updates)

lemma run_action_bus:
  assumes "run_action env T t rl res a sh = Some sh1"
  shows "(case a of ActUpdate i \<Rightarrow> publish_on (sh_bus sh) (ack_event env T t res i) = Some (sh_bus sh1)
          | _ \<Rightarrow> sh_bus sh1 = sh_bus sh)"
  using assms
  by (cases a) (auto simp: update_result_def ack_event_def Let_def split: option.splits prod.splits)

text \<open>The channel \<open>ch\<close> of an open bus has room for \<open>n\<close> more events.\<close>

definition roomy :: "'e Bus \<Rightarrow> nat \<Rightarrow> nat \<Rightarrow> bool" where
  "roomy b ch n \<longleftrightarrow> bus_inv b \<and> \<not> closed b \<and> ch \<in> set (subs b) \<and> length (pending b ch) + n \<le> chanCap"

lemma publish_roomy:
  assumes "roomy b ch (Suc n)" "publish_on (Some b) e = Some bus"
  obtains b' where "bus = Some b'" "roomy b' ch n" "pending b' ch = pending b ch @ [e]"
proof -
  obtain b' where b': "Bus_Publish e b = Some b'" "bus_inv b'" "subs b' = subs b" "closed b' = closed b"
    "pending b' ch = pending b ch @ [e]"
    using bus.publish_ok [of b e] assms(1) by (auto simp: roomy_def)
  show ?thesis
    using that [of b'] b' assms by (simp add: publish_on_def roomy_def)
qed

lemma run_actions_pending:
  assumes "run_actions env T t rl res as sh = Some sh'" "sh_bus sh = Some b" "roomy b ch (length (updates as))"
  shows "\<exists>b'. sh_bus sh' = Some b' \<and> pending b' ch = pending b ch @ map (ack_event env T t res) (updates as)"
  using assms
proof (induction as arbitrary: sh b)
  case (Cons a as)
  then obtain sh1 where sh1: "run_action env T t rl res a sh = Some sh1" "run_actions env T t rl res as sh1 = Some sh'"
    by (auto split: option.splits)
  show ?case
  proof (cases a)
    case (ActUpdate i)
    then have "publish_on (Some b) (ack_event env T t res i) = Some (sh_bus sh1)"
      using run_action_bus [OF sh1(1)] Cons.prems(2) by simp
    then obtain b1 where "sh_bus sh1 = Some b1" "roomy b1 ch (length (updates as))"
      "pending b1 ch = pending b ch @ [ack_event env T t res i]"
      using publish_roomy Cons.prems(3) ActUpdate by (metis length_Cons updates.simps(2))
    with Cons.IH [OF sh1(2), of b1] ActUpdate show ?thesis by simp
  qed (use run_action_bus [OF sh1(1)] Cons.IH [OF sh1(2), of b] Cons.prems(2,3) in auto)
qed simp

subsection \<open>Both paths together\<close>

lemma length_filter_unique:
  assumes "distinct xs" "\<And>x. P x \<Longrightarrow> x = j"
  shows "length (filter P xs) = (if j \<in> set xs \<and> P j then 1 else 0)"
  using assms(1)
proof (induction xs)
  case (Cons x xs)
  then show ?case using assms(2) [of x] by auto
qed simp

lemma FormatBool_eq [simp]: "FormatBool a = FormatBool b \<longleftrightarrow> a = b"
  by (simp add: FormatBool_def)

lemma results_count:
  assumes "ranges ids (Assignments res)" "dom (Acknowledged res) = dom (Assignments res)"
  shows "length (filter (\<lambda>r. result_label r = (j, SignalType_String (SigType (ResSignal res)), FormatBool a))
      (metrics_results ids res)) = (if Acknowledged res j = Some a then 1 else 0)"
proof -
  let ?P = "\<lambda>i. i = j \<and> getd False (Acknowledged res) i = a"
  have "length (filter (\<lambda>r. result_label r = (j, SignalType_String (SigType (ResSignal res)), FormatBool a))
      (metrics_results ids res)) = length (filter ?P ids)"
    by (simp add: metrics_results_def filter_map o_def result_label_def)
  also have "\<dots> = (if j \<in> set ids \<and> ?P j then 1 else 0)"
    using assms(1) by (intro length_filter_unique) (auto simp: ranges_def)
  also have "\<dots> = (if Acknowledged res j = Some a then 1 else 0)"
  proof -
    have "j \<in> set ids \<longleftrightarrow> Acknowledged res j \<noteq> None" using assms by (auto simp: ranges_def)
    then show ?thesis by (auto simp: getd_def)
  qed
  finally show ?thesis .
qed

lemma acks_count:
  assumes "distinct us"
  shows "sum_list (map (call_count (j, SignalType_String t, FormatBool a))
      (List.map_filter (collect_event text now) (map (ack_event env T t res) us))) =
    (if j \<in> set us \<and> order_acked env T res j = a then 1 else 0)"
  using assms
proof (induction us)
  case (Cons i us)
  obtain oid ack dur err where o: "order_outcome env T i (power_of res i) = (oid, ack, dur, err)" by (metis prod_cases4)
  have "order_acked env T res i = (err = None \<and> ack)" using o by (auto simp: order_acked_def order_err_def)
  with Cons o show ?case
    by (auto simp: ack_event_def collect_event_def List.map_filter_simps)
qed (simp add: List.map_filter_simps)

lemma dispatchStrategy_plain_bus:
  assumes "dispatchStrategy env m vs s = Some (m', asn, u)" "\<not> getd False (lpFirst m) (SigType s)"
  shows "mgr_bus m' = mgr_bus m"
  using assms run_dispatcher_frame [of env m vs s] by (auto simp: dispatchStrategy_def)

text \<open>The events that a dispatch leaves in a channel with room for them.\<close>

lemma dispatch_pending:
  assumes "Manager_Dispatch env m s vehicles = Some (res, m')"
    and "valid_schedule (dom (Assignments res)) (envSchedule env)" "\<not> getd False (lpFirst m) (SigType s)"
    and "mgr_bus m = Some b" "roomy b ch (Suc (card (dom (Assignments res))))"
  obtains b' r us T where "mgr_bus m' = Some b'" "distinct us" "set us = dom (Assignments res)"
    "pending b' ch = pending b ch @ SignalEvent s # map (ack_event env T (SigType s) r) us"
    "Acknowledged res = (\<lambda>i. if i \<in> dom (Assignments res) then Some (order_acked env T r i) else None)"
  using assms(1)
proof (rule Manager_DispatchE)
  fix vs m2 m3 m4 asn u r0 lat m5
  let ?D = "dom (Assignments res)" and ?us = "updates (envSchedule env)" and ?t = "SigType s"
  assume p: "prepared env m s vehicles = (vs, m2)" and pub: "publish_event (SignalEvent s) m2 = Some m3"
    and st: "dispatchStrategy env m3 vs s = Some (m4, asn, u)"
    and da: "dispatchAssignments env (new_result asn (smart_state m4 u)) s (canRecordLatency m4) m4 = Some (r0, lat, m5)"
    and fin: "finish_result env s vs (smart_state m4 u) (mgr_fallback m5) r0 = Some res"
    and m': "m' = commit_result env s vs lat (canRecordLatency m4) res m5"
  let ?r = "new_result asn (smart_state m4 u)"
  have us: "distinct ?us" "set ?us = ?D"
    using assms(2) distinct_updates valid_schedule_update [OF assms(2)]
    by (auto simp: valid_schedule_def set_updates)
  have "mgr_bus m2 = Some b" using prepared_frame [OF p] assms(4) by auto
  then have "publish_on (Some b) (SignalEvent s) = Some (mgr_bus m3)" using pub by (auto simp: publish_event_def)
  then obtain b3 where b3: "mgr_bus m3 = Some b3" "roomy b3 ch (card ?D)" "pending b3 ch = pending b ch @ [SignalEvent s]"
    using publish_roomy [OF assms(5)] by metis
  have "lpFirst m3 = lpFirst m" using prepared_frame [OF p] publish_event_frame [OF pub] by auto
  then have m4: "mgr_bus m4 = Some b3" using dispatchStrategy_plain_bus [OF st] assms(3) b3(1) by simp
  obtain sh where sh: "run_actions env (ackTimeout m4) ?t (canRecordLatency m4) ?r (envSchedule env)
      \<lparr>sh_errors = Map.empty, sh_acks = Map.empty, sh_lat = [], sh_ackCount = 0,
        sh_bus = mgr_bus m4, sh_metrics = mgr_metrics m4, sh_collectors = mgr_collectors m4\<rparr> = Some sh"
    and "mgr_bus m5 = sh_bus sh"
    using da by (auto simp: dispatchAssignments_def Let_def split: option.splits)
  then obtain b' where "mgr_bus m' = Some b'"
    "pending b' ch = pending b ch @ SignalEvent s # map (ack_event env (ackTimeout m4) ?t ?r) ?us"
    using run_actions_pending [OF sh, of b3 ch] b3 m4 distinct_card [OF us(1)] us(2)
    by (auto simp: m' commit_result_sel)
  then show thesis
    using that [of b' ?us "ackTimeout m4" ?r] us finish_result_frame(3) [OF fin]
      dispatchAssignments_effect(1) [OF da assms(2) new_result_sel(2,3)] by (simp add: sent_result_def)
qed

text \<open>The metrics that a dispatch records.\<close>

lemma dispatch_metrics:
  assumes "Manager_Dispatch env m s vehicles = Some (res, m')" "mgr_metrics m \<noteq> None"
  obtains k where "mgr_metrics m' = Some k"
    "\<forall>l. metric_count l (Some k) = metric_count l (mgr_metrics m) +
       length (filter (\<lambda>r. result_label r = l) (metrics_results (envResults env) res))"
  using assms(1)
proof (rule Manager_DispatchE)
  fix vs m2 m3 m4 asn u r0 lat m5
  assume p: "prepared env m s vehicles = (vs, m2)" and pub: "publish_event (SignalEvent s) m2 = Some m3"
    and st: "dispatchStrategy env m3 vs s = Some (m4, asn, u)"
    and da: "dispatchAssignments env (new_result asn (smart_state m4 u)) s (canRecordLatency m4) m4 = Some (r0, lat, m5)"
    and m': "m' = commit_result env s vs lat (canRecordLatency m4) res m5"
  obtain sh where sh: "run_actions env (ackTimeout m4) (SigType s) (canRecordLatency m4) (new_result asn (smart_state m4 u))
      (envSchedule env) \<lparr>sh_errors = Map.empty, sh_acks = Map.empty, sh_lat = [], sh_ackCount = 0,
        sh_bus = mgr_bus m4, sh_metrics = mgr_metrics m4, sh_collectors = mgr_collectors m4\<rparr> = Some sh"
    and m5: "mgr_metrics m5 = sh_metrics sh"
    using da by (auto simp: dispatchAssignments_def Let_def split: option.splits)
  have "mgr_metrics m4 = mgr_metrics m2"
    using publish_event_frame [OF pub] same_frame_sel(3) [OF conjunct1 [OF dispatchStrategy_frame [OF st]]] by auto
  then have cnt: "metric_count l (mgr_metrics m5) = metric_count l (mgr_metrics m)" "mgr_metrics m5 \<noteq> None" for l
    using run_actions_metrics [OF sh, of l] prepared_metrics [OF p, of l] assms(2) m5 by auto
  then obtain k where "mgr_metrics m' = Some k" using commit_metrics(2) [OF cnt(2)] m' by blast
  with that [of k] commit_metrics(1) [OF cnt(2)] cnt(1) m' show thesis by metis
qed

text \<open>
  C33. With the Prometheus sink, every order is counted twice in \<open>dispatch_events_total\<close>: once by the
  manager's \<open>RecordDispatchResult\<close> and once by the event collector, which the service runs on the same
  sink. For every vehicle and outcome the counter grows by exactly two if the dispatch sent the
  vehicle an order with this outcome, and not at all otherwise, provided the channel of the
  collector has room for the events of the dispatch and the signal is not one that tries the LP strategy first.
\<close>

theorem prom_counts_orders_twice:
  assumes "Manager_Dispatch env m s vehicles = Some (res, m')"
    and "valid_schedule (dom (Assignments res)) (envSchedule env)" "ranges (envResults env) (Assignments res)"
    and "mgr_metrics m = Some (sink_view (Prom p))" "\<not> getd False (lpFirst m) (SigType s)"
    and "mgr_bus m = Some b" "roomy b ch (Suc (card (dom (Assignments res))))" "pending b ch = []"
  shows "\<exists>k b' p'. mgr_metrics m' = Some k \<and> mgr_bus m' = Some b' \<and>
    collect menv text now (pending b' ch)
      (replay implements (sink_record menv) (map manager_call (recorded k)) (Prom p)) = Prom p' \<and>
    (\<forall>i a. prom_events p' (i, SignalType_String (SigType s), FormatBool a) =
       prom_events p (i, SignalType_String (SigType s), FormatBool a) + (if Acknowledged res i = Some a then 2 else 0))"
proof -
  let ?t = "SignalType_String (SigType s)"
  obtain b' r us T where b': "mgr_bus m' = Some b'" "distinct us" "set us = dom (Assignments res)"
    "pending b' ch = pending b ch @ SignalEvent s # map (ack_event env T (SigType s) r) us"
    "Acknowledged res = (\<lambda>i. if i \<in> dom (Assignments res) then Some (order_acked env T r i) else None)"
    by (rule dispatch_pending [OF assms(1,2,5-7)])
  obtain k where k: "mgr_metrics m' = Some k"
    "\<forall>l. metric_count l (Some k) = metric_count l (mgr_metrics m) +
       length (filter (\<lambda>r. result_label r = l) (metrics_results (envResults env) res))"
    by (rule dispatch_metrics [OF assms(1)]) (simp add: assms(4))
  let ?cs = "map manager_call (recorded k) @ List.map_filter (collect_event text now) (pending b' ch)"
  obtain p' where p': "replay implements (sink_record menv) ?cs (Prom p) = Prom p'"
    "\<forall>l. prom_events p' l = prom_events p l + sum_list (map (call_count l) ?cs)" using replay_prom by blast
  have "sum_list (map (call_count (i, ?t, FormatBool a)) ?cs) = (if Acknowledged res i = Some a then 2 else 0)" for i a
  proof -
    let ?l = "(i, ?t, FormatBool a)"
    have doms: "dom (Acknowledged res) = dom (Assignments res)" by (auto simp: b'(5) split: if_splits)
    have sig: "ResSignal res = s" using assms(1) by (rule Manager_DispatchE) (auto dest: finish_result_frame(4))
    have "sum_list (map (call_count ?l) (map manager_call (recorded k))) =
        length (filter (\<lambda>r. result_label r = ?l) (metrics_results (envResults env) res))"
      using spec [OF k(2), of ?l] by (simp add: assms(4) metric_count_def)
    also have "\<dots> = (if Acknowledged res i = Some a then 1 else 0)"
      using results_count [OF assms(3) doms, of i a] by (simp only: sig)
    finally have "sum_list (map (call_count ?l) (map manager_call (recorded k))) =
        (if Acknowledged res i = Some a then 1 else 0)" .
    moreover have "sum_list (map (call_count ?l) (List.map_filter (collect_event text now) (pending b' ch))) =
        (if Acknowledged res i = Some a then 1 else 0)"
      using acks_count [OF b'(2), of i "SigType s" a "text" now env T r] b'(3)
      by (simp add: b'(4,5) assms(8) List.map_filter_simps collect_event_def)
    ultimately show ?thesis by simp
  qed
  then show ?thesis
    using k(1) b'(1) p' by (intro exI [of _ k] exI [of _ b'] exI [of _ p']) (simp add: collect_replay)
qed

abbreviation sub_bus :: "real event Bus" where
  "sub_bus \<equiv> snd (Bus_Subscribe Bus_New)"

abbreviation prom_mgr :: "real DispatchManager" where
  "prom_mgr \<equiv> mgr_test\<lparr>mgr_metrics := Some (sink_view (Prom test_prom)), mgr_bus := Some sub_bus\<rparr>"

lemma sub_bus_roomy: "roomy sub_bus 0 3" "pending sub_bus 0 = []" "bus_inv sub_bus"
proof -
  show inv: "bus_inv sub_bus" by (rule conjunct1 [OF bus.subscribe_ok [OF Bus_New_inv]])
  show "pending sub_bus 0 = []" by (simp add: Bus_Subscribe_def Bus_New_def pending_def)
  with inv show "roomy sub_bus 0 3" by (simp add: roomy_def Bus_Subscribe_def Bus_New_def chanCap_def)
qed

lemma prom_mgr_run:
  obtains res m' where "Manager_Dispatch mgr_env prom_mgr mgr_signal mgr_fleet = Some (res, m')" "Assignments res = mgr_asn"
proof -
  have live: "mgr_live prom_mgr" "solver_ok mgr_env"
    using sub_bus_roomy(3) by (simp_all add: mgr_live_def bus_ok_def solver_ok_def mgr_env_def mgr_test_def NewDispatchManager_def)
  obtain res m' where run: "Manager_Dispatch mgr_env prom_mgr mgr_signal mgr_fleet = Some (res, m')"
    using Manager_Dispatch_live [OF live] by blast
  from run have "Assignments res = mgr_asn"
  proof (rule Manager_DispatchE)
    fix vs m2 m3 m4 asn u r0 lat m5
    assume p: "prepared mgr_env prom_mgr mgr_signal mgr_fleet = (vs, m2)" and pub: "publish_event (SignalEvent mgr_signal) m2 = Some m3"
      and st: "dispatchStrategy mgr_env m3 vs mgr_signal = Some (m4, asn, u)"
      and da: "dispatchAssignments mgr_env (new_result asn (smart_state m4 u)) mgr_signal (canRecordLatency m4) m4 = Some (r0, lat, m5)"
      and fin: "finish_result mgr_env mgr_signal vs (smart_state m4 u) (mgr_fallback m5) r0 = Some res"
    have "vs = mgr_fleet" "mgr_dispatcher m2 = EqualImpl" "lpFirst m2 = Map.empty"
      using p by (auto simp: prepared_def discover_fleet_def predict_fleet_def SimpleVehicleFilter_eq_filter
          filter_accepts_def mgr_signal_def mgr_fleet_def)
    moreover obtain bb where "m3 = m2\<lparr>mgr_bus := bb\<rparr>" using publish_event_frame [OF pub] by blast
    ultimately have "asn = EqualDispatcher_Dispatch mgr_fleet mgr_signal"
      using st by (simp add: dispatchStrategy_def run_dispatcher_def getd_def)
    also have "\<dots> = mgr_asn"
      by (simp add: EqualDispatcher_Dispatch_def mgr_fleet_def mgr_signal_def equal_loop.simps Let_def)
    finally show ?thesis
      using finish_result_frame(1) [OF fin] da by (auto simp: dispatchAssignments_def Let_def split: option.splits)
  qed
  with run that show ?thesis by blast
qed

theorem prom_counts_orders_twice_witness:
  "\<exists>res m' k b' p'. Manager_Dispatch mgr_env prom_mgr mgr_signal mgr_fleet = Some (res, m') \<and>
    mgr_metrics m' = Some k \<and> mgr_bus m' = Some b' \<and>
    collect test_metrics_env (\<lambda>_. []) timeZero (pending b' 0)
      (replay implements (sink_record test_metrics_env) (map manager_call (recorded k)) (Prom test_prom)) = Prom p' \<and>
    prom_events p' (''v1'', ''MA'', ''true'') + prom_events p' (''v1'', ''MA'', ''false'') = 2"
proof (rule prom_mgr_run)
  fix res m'
  assume run: "Manager_Dispatch mgr_env prom_mgr mgr_signal mgr_fleet = Some (res, m')" and asn: "Assignments res = mgr_asn"
  have d: "dom (Assignments res) = {''v1'', ''v2''}" unfolding asn by (rule mgr_asn_dom)
  have "valid_schedule (dom (Assignments res)) (envSchedule mgr_env)" using mgr_schedule by (simp only: d)
  then obtain a where a: "Acknowledged res ''v1'' = Some a"
    using dispatch_pending [OF run, of sub_bus 0] sub_bus_roomy d by (force simp: numeral_3_eq_3 card_insert_if)
  have "\<exists>k b' p'. mgr_metrics m' = Some k \<and> mgr_bus m' = Some b' \<and>
    collect test_metrics_env (\<lambda>_. []) timeZero (pending b' 0)
      (replay implements (sink_record test_metrics_env) (map manager_call (recorded k)) (Prom test_prom)) = Prom p' \<and>
    (\<forall>i a. prom_events p' (i, SignalType_String (SigType mgr_signal), FormatBool a) =
       prom_events test_prom (i, SignalType_String (SigType mgr_signal), FormatBool a) +
       (if Acknowledged res i = Some a then 2 else 0))"
    by (rule prom_counts_orders_twice [OF run, of test_prom sub_bus])
      (use mgr_schedule sub_bus_roomy d in \<open>simp_all add: ranges_def getd_def numeral_3_eq_3 card_insert_if mgr_env_def\<close>)
  then obtain k b' p' where k: "mgr_metrics m' = Some k" "mgr_bus m' = Some b'"
    "collect test_metrics_env (\<lambda>_. []) timeZero (pending b' 0)
      (replay implements (sink_record test_metrics_env) (map manager_call (recorded k)) (Prom test_prom)) = Prom p'"
    "\<And>i a. prom_events p' (i, SignalType_String (SigType mgr_signal), FormatBool a) =
       prom_events test_prom (i, SignalType_String (SigType mgr_signal), FormatBool a) +
       (if Acknowledged res i = Some a then 2 else 0)" by blast
  have "prom_events p' (''v1'', ''MA'', ''true'') + prom_events p' (''v1'', ''MA'', ''false'') = 2"
    using k(4) [of "''v1''" True] k(4) [of "''v1''" False] a
    by (cases a) (simp_all add: FormatBool_def mgr_signal_def test_prom_def)
  with k(1-3) run show ?thesis by blast
qed

end
