(* ===== verification/Service.thy ===== *)
theory Service
  imports Rte_Signals Telemetry Metrics_Correctness
begin

text \<open>
  The service, \<open>app/service.go\<close>: how \<open>New\<close> wires the components together from a configuration, and
  the signals that reach the manager while \<open>Run\<close> is under way, from the manager's own channel, the
  HTTP server and the generator. Each dispatch is one step here; within a dispatch the goroutines
  interleave as in \<open>Dispatch_Manager\<close>. What the constructors of other packages answer (MQTT,
  Prometheus, InfluxDB, discovery, telemetry connections) is a record of outcomes.
\<close>

subsection \<open>Wiring\<close>

record service_outcomes =
  mqttOutcome :: "go_error option"
  promOutcome :: "go_error option"
  influxHealth :: "go_error + string"
  discoveryOutcome :: "go_error option"
  telemetryOutcome :: "go_error option"

record 'n Service =
  svc_manager :: "'n DispatchManager"
  svc_connector :: connector
  svc_server :: rte_server
  svc_promEnabled :: bool
  svc_promPort :: string
  svc_sink :: "'n metrics_sink option"
  svc_telemetry :: "'n TelemetryManager option"
  svc_generator :: "'n Generator option"

text \<open>The sinks of \<open>New\<close>: none, the only one, or a fan-out.\<close>

definition service_sink :: "service_outcomes \<Rightarrow> 'n::zero MetricsConfig \<Rightarrow> go_error + 'n metrics_sink option" where
  "service_sink out mc =
     (if PrometheusEnabled mc \<and> promOutcome out \<noteq> None
      then Inl (Wrapped ''prom sink'' (the (promOutcome out)))
      else let sinks = (if PrometheusEnabled mc
                        then [Prom \<lparr>prom_events = (\<lambda>_. 0), prom_latency = [], prom_fleet = 0\<rparr>] else []) @
                       (if InfluxEnabled mc then [NewInfluxSinkWithFallback (influxHealth out)] else [])
           in Inr (case sinks of [] \<Rightarrow> None | [s] \<Rightarrow> Some s | _ \<Rightarrow> Some (MultiSink sinks)))"

text \<open>\<open>sink.(RTESignalRecorder)\<close> and \<open>sink.(VehicleStateRecorder)\<close>: every sink but Prometheus.\<close>

definition records_events :: "'n metrics_sink option \<Rightarrow> bool" where
  "records_events s = (case s of None \<Rightarrow> False | Some (Prom p) \<Rightarrow> False | Some _ \<Rightarrow> True)"

definition NewGenerator :: "'n::zero RTEGeneratorConfig \<Rightarrow> bool \<Rightarrow> 'n Generator" where
  "NewGenerator cfg hasSink =
     \<lparr>gen_cfg = cfg, gen_hasMgr = True, gen_hasBus = True, gen_hasSink = hasSink, gen_seq = 0, gen_recorded = [],
      signalsTotal = (\<lambda>_. 0), powerSum = 0, lastEmit = 0, emitErrors = 0, intervalHist = []\<rparr>"

definition Service_New ::
  "service_outcomes \<Rightarrow> 'n collectors \<Rightarrow> 'n::{zero,one,plus,inverse,ord} AppConfig \<Rightarrow> go_error + 'n Service" where
  "Service_New out prom cfg =
     (case mqttOutcome out of
        Some e \<Rightarrow> Inl (Wrapped ''mqtt client'' e)
      | None \<Rightarrow>
     case service_sink out (CfgMetrics cfg) of
        Inl e \<Rightarrow> Inl e
      | Inr snk \<Rightarrow>
     case discoveryOutcome out of
        Some e \<Rightarrow> Inl (Wrapped ''fleet discovery'' e)
      | None \<Rightarrow>
     case NewDispatchManager (Some SimpleVehicleFilter_Filter) (Some EqualImpl) NewSmartDispatcher (Some NoopImpl) True
            (durMul (AckTimeoutSeconds (CfgDispatch cfg)) Second) (map_option sink_view snk) (Some Bus_New) True
            NoTuner None prom of
        Inl e \<Rightarrow> Inl (Wrapped ''dispatch manager'' e)
      | Inr m \<Rightarrow>
     if TelEnabled (CfgTelemetry cfg) \<and> telemetryOutcome out \<noteq> None
     then Inl (Wrapped ''telemetry manager'' (the (telemetryOutcome out)))
     else Inr \<lparr>svc_manager = SetLPFirst (CfgLPFirst (CfgDispatch cfg)) m,
       svc_connector = NewConnector (CfgRTE cfg),
       svc_server = \<lparr>srv_total = (\<lambda>_. 0), srv_failed = 0\<rparr>,
       svc_promEnabled = PrometheusEnabled (CfgMetrics cfg), svc_promPort = PrometheusPort (CfgMetrics cfg),
       svc_sink = snk,
       svc_telemetry = (if TelEnabled (CfgTelemetry cfg)
                        then Some (NewTelemetryManager (CfgTelemetry cfg) (records_events snk)) else None),
       svc_generator = (if Enabled (CfgRTEGenerator cfg)
                        then Some (NewGenerator (CfgRTEGenerator cfg) (records_events snk)) else None)\<rparr>)"

subsection \<open>Running\<close>

text \<open>\<open>Run\<close> first starts the event collector, which subscribes to the bus if there is a sink.\<close>

definition Service_collector :: "'n Service \<Rightarrow> 'n Service" where
  "Service_collector svc =
     (case (svc_sink svc, mgr_bus (svc_manager svc)) of
        (Some s, Some b) \<Rightarrow> svc\<lparr>svc_manager := (svc_manager svc)\<lparr>mgr_bus := Some (snd (Bus_Subscribe b))\<rparr>\<rparr>
      | _ \<Rightarrow> svc)"

datatype 'n service_event =
    SvcSignal "'n FlexibilitySignal" "'n dispatch_env"
  | SvcRequest string string "go_error + 'n RteSignal" "'n dispatch_env"
  | SvcGenerate "'n gen_round"

fun service_step ::
  "('n \<Rightarrow> int) \<Rightarrow> 'n service_event \<Rightarrow> 'n::{zero,one,plus,minus,uminus,times,inverse,ord} Service \<Rightarrow> 'n Service option" where
  "service_step trunc (SvcSignal s env) svc =
     map_option (\<lambda>(res, m). svc\<lparr>svc_manager := m\<rparr>) (Manager_Dispatch env (svc_manager svc) s [])"
| "service_step trunc (SvcRequest path meth body env) svc =
     (case svc_connector svc of
        RTEClient url d \<Rightarrow> Some svc
      | RTEServerMock addr \<Rightarrow>
          map_option (\<lambda>(reply, srv, m). svc\<lparr>svc_server := srv, svc_manager := m\<rparr>)
            (routes env path meth body (svc_server svc) (svc_manager svc)))"
| "service_step trunc (SvcGenerate r) svc =
     (case svc_generator svc of
        None \<Rightarrow> Some svc
      | Some g \<Rightarrow>
          map_option (\<lambda>(g', m). svc\<lparr>svc_generator := Some g', svc_manager := m\<rparr>)
            (Generator_Start trunc [GenTick r] g (svc_manager svc)))"

text \<open>The signal of power zero that \<open>Run\<close> sends itself at its start is the first event.\<close>

fun Service_steps ::
  "('n \<Rightarrow> int) \<Rightarrow> 'n service_event list \<Rightarrow> 'n::{zero,one,plus,minus,uminus,times,inverse,ord} Service \<Rightarrow> 'n Service option" where
  "Service_steps trunc [] svc = Some svc"
| "Service_steps trunc (e # es) svc =
     (case service_step trunc e svc of None \<Rightarrow> None | Some svc' \<Rightarrow> Service_steps trunc es svc')"

definition Service_Run ::
  "('n \<Rightarrow> int) \<Rightarrow> Time \<Rightarrow> 'n dispatch_env \<Rightarrow> 'n service_event list
    \<Rightarrow> 'n::{zero,one,plus,minus,uminus,times,inverse,ord} Service \<Rightarrow> 'n Service option" where
  "Service_Run trunc now env0 es svc =
     Service_steps trunc
       (SvcSignal \<lparr>SigType = SignalFCR, PowerKW = 0, SigDuration = 0, Timestamp = now\<rparr> env0 # es)
       (Service_collector svc)"

definition Service_Close :: "go_error option \<Rightarrow> 'n Service \<Rightarrow> (go_error option \<times> 'n Service) option" where
  "Service_Close discErr svc =
     map_option (\<lambda>(m, e). (e, svc\<lparr>svc_manager := m\<rparr>)) (Manager_Close discErr (svc_manager svc))"

subsection \<open>The manager of the service\<close>

text \<open>The strategies that the service wires in stay in place, whatever it handles.\<close>

definition wired :: "real DispatchManager \<Rightarrow> bool" where
  "wired m \<longleftrightarrow> mgr_live m \<and> mgr_filter m = SimpleVehicleFilter_Filter \<and> mgr_dispatcher m = EqualImpl \<and>
     lpDispatcher m = None \<and> hasDiscovery m \<and> mgr_prediction m = None \<and> mgr_tuner m = NoTuner"

lemma run_dispatcher_equal:
  "mgr_dispatcher m = EqualImpl \<Longrightarrow> run_dispatcher env m vs s = Some (m, EqualDispatcher_Dispatch vs s)"
  by (simp add: run_dispatcher_def)

lemma dispatchStrategy_equal:
  "mgr_dispatcher m = EqualImpl \<Longrightarrow> lpDispatcher m = None \<Longrightarrow>
    dispatchStrategy env m vs s = Some (m, EqualDispatcher_Dispatch vs s, UsedMain)"
  by (simp add: dispatchStrategy_def run_dispatcher_equal split: bool.split)

lemma Manager_Dispatch_wired:
  assumes "wired m" "solver_ok env"
  obtains res m' where "Manager_Dispatch env m s vehicles = Some (res, m')" "wired m'"
    "Assignments res = EqualDispatcher_Dispatch (filter (filter_accepts s) (fst (discover_fleet env m vehicles))) s"
proof -
  have live: "mgr_live m" using assms(1) by (simp add: wired_def)
  obtain res m' where run: "Manager_Dispatch env m s vehicles = Some (res, m')" "mgr_live m'"
    using Manager_Dispatch_live [OF live assms(2)] by blast
  from run(1) have "wired m' \<and> Assignments res =
      EqualDispatcher_Dispatch (filter (filter_accepts s) (fst (discover_fleet env m vehicles))) s"
  proof (rule Manager_DispatchE)
    fix vs m2 m3 m4 asn u r0 lat m5
    assume p: "prepared env m s vehicles = (vs, m2)" and pub: "publish_event (SignalEvent s) m2 = Some m3"
      and st: "dispatchStrategy env m3 vs s = Some (m4, asn, u)"
      and da: "dispatchAssignments env (new_result asn (smart_state m4 u)) s (canRecordLatency m4) m4 = Some (r0, lat, m5)"
      and fin: "finish_result env s vs (smart_state m4 u) (mgr_fallback m5) r0 = Some res"
      and m': "m' = commit_result env s vs lat (canRecordLatency m4) res m5"
    obtain x where m2: "m2 = m\<lparr>mgr_metrics := x, mgr_fallback := Fallback_SetVehicles vs (mgr_fallback m)\<rparr>"
      using prepared_frame [OF p] by blast
    obtain b where m3: "m3 = m2\<lparr>mgr_bus := b\<rparr>" using publish_event_frame [OF pub] by blast
    have "m4 = m3 \<and> asn = EqualDispatcher_Dispatch vs s"
      using st dispatchStrategy_equal [of m3 env vs s] assms(1) m2 m3 by (simp add: wired_def)
    moreover obtain b' x' c where "m5 = m4\<lparr>mgr_bus := b', mgr_metrics := x', mgr_collectors := c\<rparr>"
      "Assignments r0 = asn"
      using da by (auto simp: dispatchAssignments_def Let_def split: option.splits)
    moreover have "vs = filter (filter_accepts s) (fst (discover_fleet env m vehicles))"
      using p assms(1) discover_fleet_frame [of env m vehicles]
      by (auto simp: prepared_def predict_fleet_def wired_def SimpleVehicleFilter_eq_filter discover_fleet_def
          split: prod.splits sum.splits if_splits)
    ultimately show ?thesis
      using m' m2 m3 assms(1) run(2) finish_result_frame(1) [OF fin]
      by (auto simp: wired_def commit_result_def Let_def recordMetrics_def tune_dispatcher_def)
  qed
  with run(1) that show ?thesis by blast
qed

lemma publish_event_wired:
  assumes "wired m"
  obtains m' where "publish_event e m = Some m'" "wired m'"
proof -
  have "mgr_live m" using assms by (simp add: wired_def)
  then obtain m' where m': "publish_event e m = Some m'" "mgr_live m'" by (rule publish_event_live)
  moreover obtain b where "m' = m\<lparr>mgr_bus := b\<rparr>" using publish_event_frame [OF m'(1)] by blast
  ultimately show ?thesis using that assms by (auto simp: wired_def)
qed

text \<open>The solver of every dispatch keeps to its contract; the manager of the service never asks it.\<close>

fun event_ok :: "real service_event \<Rightarrow> bool" where
  "event_ok (SvcSignal s env) \<longleftrightarrow> solver_ok env"
| "event_ok (SvcRequest path meth body env) \<longleftrightarrow> solver_ok env"
| "event_ok (SvcGenerate r) \<longleftrightarrow> solver_ok (genEnv r)"

lemma handleSignal_wired:
  assumes "wired m" "solver_ok env"
  shows "\<exists>reply srv' m'. handleSignal env meth body srv m = Some (reply, srv', m') \<and> wired m'"
proof (cases "meth = ''POST'' \<and> (\<exists>sig fs. body = Inr sig \<and> RteSignal_Validate sig = None \<and> ToFlexibility sig = Inr fs)")
  case True
  then obtain sig fs where sig: "body = Inr sig" "RteSignal_Validate sig = None" "ToFlexibility sig = Inr fs" by blast
  obtain res m' where "Manager_Dispatch env m fs [] = Some (res, m')" "wired m'"
    by (rule Manager_Dispatch_wired [OF assms])
  with True sig show ?thesis by (simp add: handleSignal_def)
next
  case False
  then show ?thesis using assms(1) by (auto simp: handleSignal_def Let_def split: sum.split option.split)
qed

lemma Generator_emit_wired:
  assumes "wired m" "solver_ok (genEnv r)" "0 \<le> PowerKW sig"
  shows "\<exists>err g' m'. Generator_emit r sig g m = Some (err, g', m') \<and> wired m' \<and> gen_cfg g' = gen_cfg g"
proof -
  obtain m1 where m1: "(if gen_hasMgr g then map_option snd (Manager_Dispatch (genEnv r) m sig []) else Some m) = Some m1"
    "wired m1"
  proof (cases "gen_hasMgr g")
    case True
    obtain res m' where "Manager_Dispatch (genEnv r) m sig [] = Some (res, m')" "wired m'"
      by (rule Manager_Dispatch_wired [OF assms(1,2)])
    with that [of m'] True show ?thesis by simp
  qed (use that [of m] assms(1) in simp)
  obtain m2 where "publish_event (SignalEvent sig) m1 = Some m2" "wired m2" by (rule publish_event_wired [OF m1(2)])
  with m1 assms(3) show ?thesis by (auto simp: Generator_emit_def Let_def split: option.split)
qed

text \<open>The service is ready: its manager is wired, and its generator asks for no negative power.\<close>

definition generator_safe :: "real Generator \<Rightarrow> bool" where
  "generator_safe g \<longleftrightarrow> 0 \<le> MinPowerKW (gen_cfg g) \<and> MinPowerKW (gen_cfg g) \<le> MaxPowerKW (gen_cfg g)"

definition ready :: "real Service \<Rightarrow> bool" where
  "ready svc \<longleftrightarrow> wired (svc_manager svc) \<and> (\<forall>g. svc_generator svc = Some g \<longrightarrow> generator_safe g)"

lemma Generator_round_wired:
  assumes "wired m" "solver_ok (genEnv r)" "generator_safe g"
  shows "\<exists>g' m'. Generator_Start trunc [GenTick r] g m = Some (g', m') \<and> wired m' \<and> generator_safe g'"
proof -
  define g1 where "g1 = g\<lparr>intervalHist := intervalHist g @ [randomInterval trunc (gen_cfg g) (drInterval r)]\<rparr>"
  obtain sig g2 where gen: "Generate trunc r g1 = (sig, g2)" by fastforce
  then have sig: "0 \<le> PowerKW sig" and g2: "gen_cfg g2 = gen_cfg g"
    using assms(3) randomFloat_bounds(1) [of "MinPowerKW (gen_cfg g)" "MaxPowerKW (gen_cfg g)" "JitterPct (gen_cfg g)" "drPower r"]
    by (auto simp: Generate_def Let_def g1_def generator_safe_def)
  obtain err g3 m' where "Generator_emit r sig g2 m = Some (err, g3, m')" "wired m'" "gen_cfg g3 = gen_cfg g2"
    using Generator_emit_wired [OF assms(1,2) sig] by blast
  then show ?thesis
    using gen g2 assms(3) by (auto simp: Let_def g1_def [symmetric] generator_safe_def)
qed

lemma service_step_ready:
  assumes "ready svc" "event_ok e"
  shows "\<exists>svc'. service_step trunc e svc = Some svc' \<and> ready svc'"
proof (cases e)
  case (SvcSignal s env)
  with assms show ?thesis using Manager_Dispatch_wired [of "svc_manager svc" env s "[]"]
    by (fastforce simp: ready_def)
next
  case (SvcRequest path meth body env)
  with assms have "wired (svc_manager svc)" "solver_ok env" by (simp_all add: ready_def)
  from handleSignal_wired [OF this, of meth body "svc_server svc"] assms(1) SvcRequest show ?thesis
    by (auto simp: routes_def ready_def split: connector.split)
next
  case (SvcGenerate r)
  with assms have "wired (svc_manager svc)" "solver_ok (genEnv r)" by (simp_all add: ready_def)
  note round = Generator_round_wired [OF this]
  show ?thesis
  proof (cases "svc_generator svc")
    case (Some g)
    then have "generator_safe g" using assms(1) by (simp add: ready_def)
    from round [OF this, of trunc] Some SvcGenerate show ?thesis by (auto simp: ready_def simp del: Generator_Start.simps)
  qed (use SvcGenerate assms(1) in simp)
qed

lemma Service_steps_ready:
  "ready svc \<Longrightarrow> \<forall>e\<in>set es. event_ok e \<Longrightarrow> \<exists>svc'. Service_steps trunc es svc = Some svc' \<and> ready svc'"
proof (induction es arbitrary: svc)
  case (Cons e es)
  then obtain svc1 where "service_step trunc e svc = Some svc1" "ready svc1"
    using service_step_ready by (metis list.set_intros(1))
  with Cons.IH [of svc1] Cons.prems(2) show ?case by simp
qed simp

lemma service_manager:
  assumes "NewDispatchManager (Some SimpleVehicleFilter_Filter) (Some EqualImpl) lp (Some NoopImpl) True d snk (Some Bus_New)
      True NoTuner None prom = Inr m"
  shows "wired (SetLPFirst c m)" "wired ((SetLPFirst c m)\<lparr>mgr_bus := Some (snd (Bus_Subscribe Bus_New))\<rparr>)"
    "mgr_bus (SetLPFirst c m) = Some Bus_New"
proof -
  have "bus_ok (Some Bus_New)" "bus_ok (Some (snd (Bus_Subscribe Bus_New)))"
    using Bus_New_inv conjunct1 [OF bus.subscribe_ok [OF Bus_New_inv]] by (simp_all add: bus_ok_def)
  then show "wired (SetLPFirst c m)" "wired ((SetLPFirst c m)\<lparr>mgr_bus := Some (snd (Bus_Subscribe Bus_New))\<rparr>)"
    "mgr_bus (SetLPFirst c m) = Some Bus_New"
    using assms by (auto simp: NewDispatchManager_def SetLPFirst_def wired_def mgr_live_def split: option.split)
qed

lemma Service_New_manager:
  assumes "Service_New out prom cfg = Inr svc"
  obtains d snk m where "NewDispatchManager (Some SimpleVehicleFilter_Filter) (Some EqualImpl) NewSmartDispatcher
      (Some NoopImpl) True d snk (Some Bus_New) True NoTuner None prom = Inr m"
    "svc_manager svc = SetLPFirst (CfgLPFirst (CfgDispatch cfg)) m"
    "svc_generator svc = (if Enabled (CfgRTEGenerator cfg)
       then Some (NewGenerator (CfgRTEGenerator cfg) (records_events (svc_sink svc))) else None)"
  using assms that unfolding Service_New_def
  by (auto split: option.splits sum.splits if_splits)

lemma Service_New_ready:
  assumes "Service_New out prom cfg = Inr svc" "Load read localName path = Inr cfg" "0 \<le> MinPowerKW (CfgRTEGenerator cfg)"
  shows "ready (Service_collector svc)"
proof -
  from assms(1) obtain d snk m where m: "NewDispatchManager (Some SimpleVehicleFilter_Filter) (Some EqualImpl)
      NewSmartDispatcher (Some NoopImpl) True d snk (Some Bus_New) True NoTuner None prom = Inr m"
    and svc: "svc_manager svc = SetLPFirst (CfgLPFirst (CfgDispatch cfg)) m"
    and gen: "svc_generator svc = (if Enabled (CfgRTEGenerator cfg)
       then Some (NewGenerator (CfgRTEGenerator cfg) (records_events (svc_sink svc))) else None)"
    by (rule Service_New_manager)
  have "wired (svc_manager (Service_collector svc))"
    using service_manager [OF m] svc by (simp add: Service_collector_def split: option.split)
  moreover have "svc_generator (Service_collector svc) = svc_generator svc"
    by (simp add: Service_collector_def split: option.split)
  ultimately show ?thesis
    using gen assms(3) Load_generator_ok [OF assms(2)]
    by (auto simp: ready_def generator_safe_def NewGenerator_def generator_ok_def split: if_splits)
qed

lemma Service_Run_wired:
  assumes "Load read localName path = Inr cfg" "0 \<le> MinPowerKW (CfgRTEGenerator cfg)" "Service_New out prom cfg = Inr svc"
    and "solver_ok env0" "\<forall>e\<in>set es. event_ok e"
  obtains svc' where "Service_Run trunc now env0 es svc = Some svc'" "wired (svc_manager svc')"
  using Service_steps_ready [OF Service_New_ready [OF assms(3,1,2)]] assms(4,5)
  unfolding Service_Run_def ready_def by (metis event_ok.simps(1) list.set_cases set_ConsD)

text \<open>
  C2. The service as it is wired keeps serving. From any configuration file that \<open>Load\<close> and \<open>New\<close>
  accept, with no negative power asked of the generator, it handles
  every sequence of signals from its channel, the HTTP server and the generator, and in the state
  it has then reached, a dispatch of a non-negative power returns and delivers, exactly, the
  smaller of the request and the power of the vehicles that were discovered and accepted by the
  filter, each within its own limit; the discovered vehicles have distinct identifiers and no negative
  \<open>MaxPower\<close>. The setting \<open>lp_first\<close> makes no difference.
\<close>

theorem service_delivers:
  assumes "Load read localName path = Inr cfg" "0 \<le> MinPowerKW (CfgRTEGenerator cfg)" "Service_New out prom cfg = Inr svc"
    and "solver_ok env0" "\<forall>e\<in>set es. event_ok e"
  shows "\<exists>svc'. Service_Run truncR now env0 es svc = Some svc' \<and>
    (\<forall>env s found. solver_ok env \<longrightarrow> envDiscover env = Inr found \<longrightarrow> distinct (map ID found) \<longrightarrow>
       (\<forall>v\<in>set found. 0 \<le> MaxPower v) \<longrightarrow> 0 \<le> PowerKW s \<longrightarrow>
       (\<exists>res m'. Manager_Dispatch env (svc_manager svc') s [] = Some (res, m') \<and>
          (let fleet = filter (filter_accepts s) found in
           total_kw (Assignments res) = min (PowerKW s) (\<Sum>v\<leftarrow>fleet. MaxPower v) \<and>
           (\<forall>i p. Assignments res i = Some p \<longrightarrow> (\<exists>v\<in>set fleet. ID v = i \<and> 0 \<le> p \<and> p \<le> MaxPower v)))))"
proof -
  obtain svc' where run: "Service_Run truncR now env0 es svc = Some svc'" "wired (svc_manager svc')"
    by (rule Service_Run_wired [OF assms])
  have "\<exists>res m'. Manager_Dispatch env (svc_manager svc') s [] = Some (res, m') \<and>
      total_kw (Assignments res) = min (PowerKW s) (\<Sum>v\<leftarrow>filter (filter_accepts s) found. MaxPower v) \<and>
      (\<forall>i p. Assignments res i = Some p \<longrightarrow> (\<exists>v\<in>set (filter (filter_accepts s) found). ID v = i \<and> 0 \<le> p \<and> p \<le> MaxPower v))"
    if h: "solver_ok env" "envDiscover env = Inr found" "distinct (map ID found)" "\<forall>v\<in>set found. 0 \<le> MaxPower v"
      "0 \<le> PowerKW s" for env s found
  proof -
    let ?fleet = "filter (filter_accepts s) found" and ?A = "EqualDispatcher_Dispatch (filter (filter_accepts s) found) s"
    have disc: "fst (discover_fleet env (svc_manager svc') []) = found"
      using run(2) h(2) by (simp add: discover_fleet_def wired_def)
    obtain res m' where res: "Manager_Dispatch env (svc_manager svc') s [] = Some (res, m')" "Assignments res = ?A"
      by (rule Manager_Dispatch_wired [OF run(2) h(1), of s "[]"]) (simp add: disc)
    have dist: "distinct (map ID ?fleet)" using h(3) by (rule distinct_map_filter)
    have "total_kw ?A = min (PowerKW s) (\<Sum>v\<leftarrow>?fleet. MaxPower v)"
      using EqualDispatcher_total [OF dist, of s] h(5) by (simp add: EqualDispatcher_Dispatch_def)
    moreover have "\<exists>v\<in>set ?fleet. ID v = i \<and> 0 \<le> p \<and> p \<le> MaxPower v" if "?A i = Some p" for i p
      using EqualDispatcher_within [OF dist _ h(5) that] h(4) by simp
    ultimately show ?thesis using res by auto
  qed
  with run(1) show ?thesis unfolding Let_def by blast
qed

definition test_outcomes :: service_outcomes where
  "test_outcomes = \<lparr>mqttOutcome = None, promOutcome = None, influxHealth = Inr ''pass'', discoveryOutcome = None,
     telemetryOutcome = None\<rparr>"

abbreviation loaded_config :: "real AppConfig" where
  "loaded_config \<equiv> test_config\<lparr>CfgLogging := Logging_SetDefaults (CfgLogging test_config),
     CfgRTEGenerator := Generator_SetDefaults ''UTC'' test_generator\<rparr>"

lemma test_service: "\<exists>svc. Service_New test_outcomes prom loaded_config = Inr svc"
  by (simp add: Service_New_def service_sink_def NewDispatchManager_def test_outcomes_def test_config_def)

lemma mgr_env_solver: "solver_ok (mgr_env\<lparr>envDiscover := d\<rparr>)"
  using mgr_test_live(2) by (simp add: solver_ok_def)

definition test_collectors :: "real collectors" where
  "test_collectors = \<lparr>mqttSuccess = 0, mqttFailure = 0, vehiclesDispatched = (\<lambda>_. 0), latencySeconds = [], ackRate = Map.empty\<rparr>"

theorem service_delivers_witness:
  "\<exists>svc svc' res m'. Load (\<lambda>_ _. Inr test_config) ''UTC'' ''config.YML'' = Inr loaded_config \<and>
     Service_New test_outcomes test_collectors loaded_config = Inr svc \<and>
     Service_Run truncR timeZero mgr_env [SvcSignal mgr_signal mgr_env] svc = Some svc' \<and>
     Manager_Dispatch (mgr_env\<lparr>envDiscover := Inr mgr_fleet\<rparr>) (svc_manager svc') mgr_signal [] = Some (res, m') \<and>
     total_kw (Assignments res) = 10"
proof -
  let ?env = "mgr_env\<lparr>envDiscover := Inr mgr_fleet\<rparr>"
  obtain svc where svc: "Service_New test_outcomes test_collectors loaded_config = Inr svc" using test_service by blast
  obtain svc' where svc': "Service_Run truncR timeZero mgr_env [SvcSignal mgr_signal mgr_env] svc = Some svc'"
    and del: "\<forall>env s found. solver_ok env \<longrightarrow> envDiscover env = Inr found \<longrightarrow> distinct (map ID found) \<longrightarrow>
       (\<forall>v\<in>set found. 0 \<le> MaxPower v) \<longrightarrow> 0 \<le> PowerKW s \<longrightarrow>
       (\<exists>res m'. Manager_Dispatch env (svc_manager svc') s [] = Some (res, m') \<and>
          (let fleet = filter (filter_accepts s) found in
           total_kw (Assignments res) = min (PowerKW s) (\<Sum>v\<leftarrow>fleet. MaxPower v) \<and>
           (\<forall>i p. Assignments res i = Some p \<longrightarrow> (\<exists>v\<in>set fleet. ID v = i \<and> 0 \<le> p \<and> p \<le> MaxPower v))))"
    using service_delivers [OF test_load _ svc mgr_test_live(2), of "[SvcSignal mgr_signal mgr_env]" timeZero] mgr_test_live(2)
    by (auto simp: Generator_SetDefaults_def test_generator_def)
  have fleet: "filter (filter_accepts mgr_signal) mgr_fleet = mgr_fleet"
    by (simp add: filter_accepts_def mgr_signal_def mgr_fleet_def)
  have ok: "solver_ok ?env" "envDiscover ?env = Inr mgr_fleet" "distinct (map ID mgr_fleet)"
    "\<forall>v\<in>set mgr_fleet. 0 \<le> MaxPower v" "0 \<le> PowerKW mgr_signal"
    using mgr_env_solver by (simp_all add: mgr_fleet_def mgr_signal_def)
  obtain res m' where "Manager_Dispatch ?env (svc_manager svc') mgr_signal [] = Some (res, m')"
    "total_kw (Assignments res) = min (PowerKW mgr_signal) (\<Sum>v\<leftarrow>mgr_fleet. MaxPower v)"
    using del [THEN spec, THEN spec, THEN spec, THEN mp, THEN mp, THEN mp, THEN mp, THEN mp, OF ok]
    unfolding Let_def fleet by blast
  moreover have "min (PowerKW mgr_signal) (\<Sum>v\<leftarrow>mgr_fleet. MaxPower v) = 10"
    by (simp add: mgr_fleet_def mgr_signal_def)
  ultimately show ?thesis using test_load svc svc' by auto
qed

end
