(* ===== verification/Mqtt_Client.thy ===== *)
theory Mqtt_Client
  imports Core_Model
begin

text \<open>
  The MQTT adapter: \<open>PahoClient\<close> (\<open>infra/mqtt/client.go\<close>), \<open>MockPublisher\<close>
  (\<open>infra/mqtt/publisher.go\<close>) and fleet discovery (\<open>infra/mqtt/discovery.go\<close>). The Paho library
  and the broker are not part of the repository: the outcome of each of their calls, the order
  identifier drawn and the decoded payloads are arguments. \<open>SendOrder\<close> takes the mutex only to
  register the channel of the order, so it is split where other handlers can run in between:
  the publication attempts and the registration are separate steps.
\<close>

subsection \<open>PahoClient (infra/mqtt/client.go)\<close>

text \<open>\<open>ackChans\<close>: for each registered command the number of tokens in its channel of capacity 1.\<close>

record PahoClient =
  ackChans :: "string \<rightharpoonup> nat"
  cmdQoS :: "string \<rightharpoonup> nat"
  maxRetries :: int
  backoff :: Duration

definition NewPahoClient :: "(string \<rightharpoonup> nat) \<Rightarrow> int \<Rightarrow> int \<Rightarrow> PahoClient" where
  "NewPahoClient qos retries backoffMS =
     \<lparr>ackChans = Map.empty, cmdQoS = qos, maxRetries = retries, backoff = durMul backoffMS Millisecond\<rparr>"

text \<open>Lines 204 to 213: the quality of service of a command and the defaults of the retry policy.\<close>

definition commandQoS :: "PahoClient \<Rightarrow> nat" where
  "commandQoS p = getd 0 (cmdQoS p) ''command''"

definition retryDefaults :: "PahoClient \<Rightarrow> PahoClient" where
  "retryDefaults p =
     (let p1 = (if maxRetries p \<le> 0 then p\<lparr>maxRetries := 3\<rparr> else p)
      in if backoff p1 \<le> 0 then p1\<lparr>backoff := 100 * Millisecond\<rparr> else p1)"

text \<open>\<open>p.backoff * time.Duration(1<<attempt)\<close>: the shift and the product wrap around.\<close>

definition backoffDelay :: "Duration \<Rightarrow> nat \<Rightarrow> Duration" where
  "backoffDelay b attempt = durMul (wrap64 (2 ^ attempt)) b"

text \<open>
  The attempts, lines 214 to 225: \<open>outcome k\<close> is the error of the publication at attempt \<open>k\<close>.
  The result is the last error, the number of publications and the delays slept.
\<close>

function publish_attempts ::
  "(nat \<Rightarrow> go_error option) \<Rightarrow> int \<Rightarrow> Duration \<Rightarrow> nat \<Rightarrow> go_error option \<Rightarrow> nat \<Rightarrow> Duration list
    \<Rightarrow> go_error option \<times> nat \<times> Duration list" where
  "publish_attempts outcome retries b attempt err pubs sleeps =
     (if int attempt \<le> retries
      then (case outcome attempt of
              None \<Rightarrow> (None, pubs + 1, sleeps)
            | Some e \<Rightarrow>
                publish_attempts outcome retries b (attempt + 1) (Some e) (pubs + 1)
                  (sleeps @ [backoffDelay b attempt]))
      else (err, pubs, sleeps))"
  by pat_completeness auto
termination
  by (relation "measure (\<lambda>(out, r, b, k, e, p, s). nat (r + 1 - int k))") auto

declare publish_attempts.simps [simp del]

text \<open>The publication part of \<open>SendOrder\<close>, with the client after the defaults are set.\<close>

definition SendOrder_publish ::
  "(nat \<Rightarrow> go_error option) \<Rightarrow> PahoClient \<Rightarrow> PahoClient \<times> go_error option \<times> nat \<times> Duration list" where
  "SendOrder_publish outcome p =
     (let p' = retryDefaults p
      in (p', publish_attempts outcome (maxRetries p') (backoff p') 0 None 0 []))"

text \<open>The registration, lines 231 to 233.\<close>

definition SendOrder_register :: "string \<Rightarrow> PahoClient \<Rightarrow> PahoClient" where
  "SendOrder_register cmdID p = p\<lparr>ackChans := (ackChans p)(cmdID \<mapsto> 0)\<rparr>"

text \<open>\<open>SendOrder\<close> when nothing runs in between.\<close>

definition SendOrder ::
  "(nat \<Rightarrow> go_error option) \<Rightarrow> string \<Rightarrow> PahoClient \<Rightarrow> PahoClient \<times> (go_error + string)" where
  "SendOrder outcome cmdID p =
     (case SendOrder_publish outcome p of
        (p', None, pubs, sleeps) \<Rightarrow> (SendOrder_register cmdID p', Inr cmdID)
      | (p', Some e, pubs, sleeps) \<Rightarrow> (p', Inl e))"

text \<open>\<open>onAck\<close>: the command of the decoded message, \<^term>\<open>None\<close> when decoding fails.\<close>

definition onAck :: "string option \<Rightarrow> PahoClient \<Rightarrow> PahoClient" where
  "onAck m p =
     (case m of
        None \<Rightarrow> p
      | Some cmdID \<Rightarrow>
          (case ackChans p cmdID of
             None \<Rightarrow> p
           | Some tokens \<Rightarrow>
               if tokens < 1 then p\<lparr>ackChans := (ackChans p)(cmdID \<mapsto> tokens + 1)\<rparr> else p))"

text \<open>
  \<open>WaitForAck\<close> at the moment its \<open>select\<close> completes: \<open>timer\<close> says that the timer has fired and its
  case is taken. \<^term>\<open>None\<close>: neither case is ready, the call still blocks.
\<close>

definition WaitForAck ::
  "string \<Rightarrow> bool \<Rightarrow> PahoClient \<Rightarrow> ((bool \<times> go_error option) \<times> PahoClient) option" where
  "WaitForAck cmdID timer p =
     (case ackChans p cmdID of
        None \<Rightarrow> Some ((False, Some (Errorf ''unknown command'')), p)
      | Some tokens \<Rightarrow>
          if timer
          then Some ((False, Some (Wrapped [] ErrAckTimeout)), p\<lparr>ackChans := (ackChans p)(cmdID := None)\<rparr>)
          else if 0 < tokens
          then Some ((True, None), p\<lparr>ackChans := (ackChans p)(cmdID := None)\<rparr>)
          else None)"

subsection \<open>Interleavings\<close>

datatype mqtt_op = OpRegister string | OpAck "string option" | OpWait string bool

fun mqtt_exec :: "mqtt_op \<Rightarrow> PahoClient \<Rightarrow> PahoClient" where
  "mqtt_exec (OpRegister c) p = SendOrder_register c p"
| "mqtt_exec (OpAck m) p = onAck m p"
| "mqtt_exec (OpWait c timer) p = (case WaitForAck c timer p of None \<Rightarrow> p | Some (r, p') \<Rightarrow> p')"

definition mqtt_run :: "mqtt_op list \<Rightarrow> PahoClient \<Rightarrow> PahoClient" where
  "mqtt_run ops p = foldl (\<lambda>p op. mqtt_exec op p) p ops"

text \<open>Operations that concern the given command beyond acknowledging it.\<close>

fun touches :: "string \<Rightarrow> mqtt_op \<Rightarrow> bool" where
  "touches c (OpRegister c') \<longleftrightarrow> c = c'"
| "touches c (OpAck m) \<longleftrightarrow> False"
| "touches c (OpWait c' timer) \<longleftrightarrow> c = c'"

subsection \<open>MockPublisher (infra/mqtt/publisher.go)\<close>

record 'n MockPublisher =
  Messages :: "string \<rightharpoonup> 'n"
  FailIDs :: "string \<rightharpoonup> bool"
  AckResults :: "string \<rightharpoonup> bool"

definition NewMockPublisher :: "'n MockPublisher" where
  "NewMockPublisher = \<lparr>Messages = Map.empty, FailIDs = Map.empty, AckResults = Map.empty\<rparr>"

definition Mock_SendOrder :: "string \<Rightarrow> 'n \<Rightarrow> 'n MockPublisher \<Rightarrow> (go_error + string) \<times> 'n MockPublisher" where
  "Mock_SendOrder vehicleID powerKW m =
     (if getd False (FailIDs m) vehicleID then (Inl (Errorf ''publish failed''), m)
      else let commandID = ''cmd-'' @ vehicleID;
               m1 = m\<lparr>Messages := (Messages m)(vehicleID \<mapsto> powerKW)\<rparr>;
               m2 = m1\<lparr>AckResults := (AckResults m1)(commandID \<mapsto> \<not> getd False (FailIDs m1) vehicleID)\<rparr>
           in (Inr commandID, m2))"

definition Mock_WaitForAck :: "string \<Rightarrow> 'n MockPublisher \<Rightarrow> bool \<times> go_error option" where
  "Mock_WaitForAck commandID m =
     (case AckResults m commandID of
        None \<Rightarrow> (False, Some (Errorf ''unknown command''))
      | Some ok \<Rightarrow> (ok, None))"

subsection \<open>Fleet discovery (infra/mqtt/discovery.go)\<close>

text \<open>
  The response handler: a payload is the decoded vehicle or the decoding error. The state is the
  vehicles collected, the errors and the set of identifiers seen.
\<close>

definition discovery_handler ::
  "(go_error + 'n Vehicle) \<Rightarrow> 'n Vehicle list \<times> go_error list \<times> string set
    \<Rightarrow> 'n Vehicle list \<times> go_error list \<times> string set" where
  "discovery_handler m st =
     (case st of (vs, errs, ids) \<Rightarrow>
        case m of
          Inl e \<Rightarrow> (vs, errs @ [Wrapped ''invalid discovery payload'' e], ids)
        | Inr v \<Rightarrow> if ID v \<in> ids then (vs, errs, ids) else (vs @ [v], errs, insert (ID v) ids))"

text \<open>
  \<open>Discover\<close>: \<open>subErr\<close> and \<open>pubErr\<close> are the outcomes of subscribing and of the broadcast, \<open>msgs\<close>
  the responses that arrive before the time is up. The result carries the joined errors.
\<close>

definition Discover ::
  "go_error option \<Rightarrow> go_error option \<Rightarrow> (go_error + 'n Vehicle) list \<Rightarrow> 'n Vehicle list \<times> go_error list" where
  "Discover subErr pubErr msgs =
     (case subErr of
        Some e \<Rightarrow> ([], [e])
      | None \<Rightarrow>
          (case pubErr of
             Some e \<Rightarrow> ([], [e])
           | None \<Rightarrow>
               (case foldl (\<lambda>st m. discovery_handler m st) ([], [], {}) msgs of
                  (vs, errs, ids) \<Rightarrow> (vs, errs))))"

subsection \<open>Publication attempts\<close>

lemma retryDefaults_pos: "0 < maxRetries (retryDefaults p)" "0 < backoff (retryDefaults p)"
  by (auto simp: retryDefaults_def Millisecond_def Let_def)

lemma publish_attempts_fail:
  assumes "int attempt \<le> r + 1" "\<forall>k. attempt \<le> k \<and> int k \<le> r \<longrightarrow> outcome k \<noteq> None"
  shows "publish_attempts outcome r b attempt err pubs sl =
    (if int attempt \<le> r then outcome (nat r) else err, pubs + nat (r + 1 - int attempt),
     sl @ map (backoffDelay b) [attempt..<nat (r + 1)])"
  using assms
proof (induction "nat (r + 1 - int attempt)" arbitrary: attempt err pubs sl)
  case 0
  then have "nat (r + 1) = attempt" "\<not> int attempt \<le> r" "nat (r + 1 - int attempt) = 0" by auto
  then show ?case by (subst publish_attempts.simps) simp
next
  case (Suc n)
  have le: "int attempt \<le> r" using Suc.hyps(2) by simp
  obtain e where e: "outcome attempt = Some e" using Suc.prems(2) le by blast
  have "publish_attempts outcome r b (attempt + 1) (Some e) (pubs + 1) (sl @ [backoffDelay b attempt]) =
    (if int (attempt + 1) \<le> r then outcome (nat r) else Some e, pubs + 1 + nat (r + 1 - int (attempt + 1)),
     (sl @ [backoffDelay b attempt]) @ map (backoffDelay b) [attempt + 1..<nat (r + 1)])"
    by (rule Suc.hyps(1)) (use Suc.hyps(2) Suc.prems le in auto)
  moreover have "[attempt..<nat (r + 1)] = attempt # [attempt + 1..<nat (r + 1)]"
    using le by (simp add: upt_rec [of attempt])
  moreover have "\<not> int (attempt + 1) \<le> r \<Longrightarrow> nat r = attempt" using le by simp
  ultimately show ?case using le e by (subst publish_attempts.simps) auto
qed

lemma publish_attempts_success:
  assumes "outcome k = None" "attempt \<le> k" "int k \<le> r" "\<forall>j. attempt \<le> j \<and> j < k \<longrightarrow> outcome j \<noteq> None"
  shows "publish_attempts outcome r b attempt err pubs sl =
    (None, pubs + (k - attempt) + 1, sl @ map (backoffDelay b) [attempt..<k])"
  using assms(2,4)
proof (induction "k - attempt" arbitrary: attempt err pubs sl)
  case 0
  then have "attempt = k" by simp
  with assms(1,3) show ?case by (subst publish_attempts.simps) simp
next
  case (Suc n)
  have lt: "attempt < k" using Suc.hyps(2) by simp
  obtain e where e: "outcome attempt = Some e" using Suc.prems(2) lt by blast
  have "publish_attempts outcome r b (attempt + 1) (Some e) (pubs + 1) (sl @ [backoffDelay b attempt]) =
      (None, pubs + 1 + (k - (attempt + 1)) + 1, (sl @ [backoffDelay b attempt]) @ map (backoffDelay b) [attempt + 1..<k])"
    by (rule Suc.hyps(1)) (use Suc.hyps(2) Suc.prems lt in auto)
  moreover have "[attempt..<k] = attempt # [attempt + 1..<k]" using lt by (simp add: upt_rec [of attempt])
  moreover have "int attempt \<le> r" using lt assms(3) by simp
  ultimately show ?case using e lt by (subst publish_attempts.simps) simp
qed

text \<open>
  \<open>SendOrder\<close> publishes at most \<open>maxRetries + 1\<close> times (four times by default). It stops at the
  first success and registers the order, having slept the doubling delays of the failures before
  it; if every attempt fails it returns the last error, registers nothing, and has slept after
  the last attempt too.
\<close>

theorem send_order_retries:
  assumes "r = maxRetries (retryDefaults p)" "b = backoff (retryDefaults p)"
  shows "(\<forall>k. outcome k = None \<and> int k \<le> r \<and> (\<forall>j<k. outcome j \<noteq> None) \<longrightarrow>
      SendOrder_publish outcome p = (retryDefaults p, None, k + 1, map (backoffDelay b) [0..<k]) \<and>
      SendOrder outcome c p = (SendOrder_register c (retryDefaults p), Inr c)) \<and>
    ((\<forall>k. int k \<le> r \<longrightarrow> outcome k \<noteq> None) \<longrightarrow>
      SendOrder_publish outcome p =
        (retryDefaults p, outcome (nat r), nat r + 1, map (backoffDelay b) [0..<nat r + 1]) \<and>
      SendOrder outcome c p = (retryDefaults p, Inl (the (outcome (nat r)))))"
proof -
  have pos: "0 < r" using retryDefaults_pos assms(1) by simp
  have ok: "SendOrder_publish outcome p = (retryDefaults p, None, k + 1, map (backoffDelay b) [0..<k])"
    if "outcome k = None" "int k \<le> r" "\<forall>j<k. outcome j \<noteq> None" for k
    using publish_attempts_success [of outcome k 0 r b None 0 "[]"] that assms
    by (simp add: SendOrder_publish_def Let_def)
  have bad: "SendOrder_publish outcome p =
      (retryDefaults p, outcome (nat r), nat r + 1, map (backoffDelay b) [0..<nat r + 1])"
    if "\<forall>k. int k \<le> r \<longrightarrow> outcome k \<noteq> None"
    using publish_attempts_fail [of 0 r outcome b None 0 "[]"] that assms pos
    by (simp add: SendOrder_publish_def Let_def nat_add_distrib)
  have "\<exists>e. outcome (nat r) = Some e" if "\<forall>k. int k \<le> r \<longrightarrow> outcome k \<noteq> None"
    using that pos by auto
  with ok bad show ?thesis by (auto simp: SendOrder_def)
qed

theorem send_order_retries_witness:
  "SendOrder (\<lambda>k. if k < 2 then Some (Errorf ''offline'') else None) ''c'' (NewPahoClient Map.empty 0 0) =
     (SendOrder_register ''c'' (retryDefaults (NewPahoClient Map.empty 0 0)), Inr ''c'')"
proof -
  let ?p = "NewPahoClient Map.empty 0 0"
  have "maxRetries (retryDefaults ?p) = 3"
    by (simp add: retryDefaults_def NewPahoClient_def durMul_def Let_def)
  then show ?thesis
    using conjunct1 [OF send_order_retries [OF refl refl,
        of "\<lambda>k. if k < 2 then Some (Errorf ''offline'') else None" ?p "''c''"], rule_format, of 2]
    by simp
qed

subsection \<open>Acknowledgments\<close>

text \<open>The tokens of a registered command under operations that do not touch it.\<close>

lemma exec_tokens:
  assumes "\<not> touches c op" "ackChans p c = Some t" "t \<le> 1"
  shows "ackChans (mqtt_exec op p) c = Some (if op = OpAck (Some c) then 1 else t)"
  using assms
  by (cases op)
    (auto simp: SendOrder_register_def onAck_def WaitForAck_def split: option.split)

lemma run_tokens:
  assumes "\<forall>op\<in>set ops. \<not> touches c op" "ackChans p c = Some t" "t \<le> 1"
  shows "ackChans (mqtt_run ops p) c = Some (if OpAck (Some c) \<in> set ops then 1 else t)"
  using assms
proof (induction ops arbitrary: p t)
  case (Cons op ops)
  have "ackChans (mqtt_exec op p) c = Some (if op = OpAck (Some c) then 1 else t)"
    using Cons.prems by (intro exec_tokens) auto
  then have "ackChans (mqtt_run ops (mqtt_exec op p)) c =
      Some (if OpAck (Some c) \<in> set ops then 1 else (if op = OpAck (Some c) then 1 else t))"
    using Cons.prems by (intro Cons.IH) auto
  then show ?case by (auto simp: mqtt_run_def)
qed (simp add: mqtt_run_def)

text \<open>
  Once an order is registered, whatever other orders, acknowledgments and waits interleave, the
  wait for it returns true exactly if its acknowledgment arrives after the registration, and an
  unacknowledged wait ends with an error that is \<open>ErrAckTimeout\<close> and forgets the order. What came
  before the registration does not count: an acknowledgment that arrives between the publication
  and the registration is lost.
\<close>

theorem ack_counts_only_after_registration:
  assumes "\<forall>op\<in>set ops. \<not> touches c op"
    and "p' = mqtt_run ops (SendOrder_register c (mqtt_run before p))"
  shows "WaitForAck c False p' =
      (if OpAck (Some c) \<in> set ops then Some ((True, None), p'\<lparr>ackChans := (ackChans p')(c := None)\<rparr>) else None) \<and>
    (\<exists>e. WaitForAck c True p' = Some ((False, Some e), p'\<lparr>ackChans := (ackChans p')(c := None)\<rparr>) \<and>
       errorsIs e ErrAckTimeout)"
proof -
  have "ackChans p' c = Some (if OpAck (Some c) \<in> set ops then 1 else 0)"
    unfolding assms(2) by (rule run_tokens [OF assms(1)]) (simp_all add: SendOrder_register_def)
  then show ?thesis by (simp add: WaitForAck_def)
qed

theorem ack_counts_only_after_registration_witness:
  "WaitForAck ''c'' False
     (mqtt_run [] (SendOrder_register ''c'' (mqtt_run [OpAck (Some ''c'')] (NewPahoClient Map.empty 0 0)))) = None"
  using ack_counts_only_after_registration [of "[]" "''c''" _ "[OpAck (Some ''c'')]" "NewPahoClient Map.empty 0 0"]
  by simp

subsection \<open>Discovery\<close>

lemma discovery_fold:
  assumes "foldl (\<lambda>st m. discovery_handler m st) (vs, errs, ids) msgs = (vs', errs', ids')"
    "distinct (map ID vs)" "ids = ID ` set vs"
  shows "distinct (map ID vs') \<and> ids' = ID ` set vs' \<and> set vs \<subseteq> set vs' \<and>
    set vs' \<subseteq> set vs \<union> {v. Inr v \<in> set msgs} \<and> ID ` set vs' = ID ` set vs \<union> ID ` {v. Inr v \<in> set msgs} \<and>
    length errs' = length errs + length (filter isl msgs)"
  using assms
proof (induction msgs arbitrary: vs errs ids)
  case (Cons m msgs)
  show ?case
  proof (cases m)
    case (Inl e)
    then have "foldl (\<lambda>st m. discovery_handler m st)
        (vs, errs @ [Wrapped ''invalid discovery payload'' e], ids) msgs = (vs', errs', ids')"
      using Cons.prems(1) by (simp add: discovery_handler_def)
    from Cons.IH [OF this Cons.prems(2,3)] Inl show ?thesis by auto
  next
    case (Inr v)
    show ?thesis
    proof (cases "ID v \<in> ids")
      case True
      then have "foldl (\<lambda>st m. discovery_handler m st) (vs, errs, ids) msgs = (vs', errs', ids')"
        using Cons.prems(1) Inr by (simp add: discovery_handler_def)
      note ih = Cons.IH [OF this Cons.prems(2,3)]
      have "ID v \<in> ID ` set vs" using True Cons.prems(3) by simp
      with ih Inr show ?thesis by auto
    next
      case False
      then have "foldl (\<lambda>st m. discovery_handler m st) (vs @ [v], errs, insert (ID v) ids) msgs = (vs', errs', ids')"
        using Cons.prems(1) Inr by (simp add: discovery_handler_def)
      then have "distinct (map ID vs') \<and> ids' = ID ` set vs' \<and> set (vs @ [v]) \<subseteq> set vs' \<and>
          set vs' \<subseteq> set (vs @ [v]) \<union> {v. Inr v \<in> set msgs} \<and>
          ID ` set vs' = ID ` set (vs @ [v]) \<union> ID ` {v. Inr v \<in> set msgs} \<and>
          length errs' = length errs + length (filter isl msgs)"
        by (rule Cons.IH) (use Cons.prems(2,3) False in auto)
      with Inr show ?thesis by auto
    qed
  qed
qed auto

text \<open>
  A discovery round lists every vehicle that answered with a readable payload exactly once,
  however often it answered; the round reports an error exactly if the subscription or the
  broadcast failed or some payload was unreadable.
\<close>

theorem discovery_lists_once:
  assumes "Discover None None msgs = (vs, errs)"
  shows "distinct (map ID vs) \<and> set vs \<subseteq> {v. Inr v \<in> set msgs} \<and>
    ID ` set vs = ID ` {v. Inr v \<in> set msgs} \<and> (errs = [] \<longleftrightarrow> (\<forall>m\<in>set msgs. \<not> isl m))"
proof -
  obtain ids where f: "foldl (\<lambda>st m. discovery_handler m st) ([], [], {}) msgs = (vs, errs, ids)"
    using assms by (auto simp: Discover_def split: prod.splits)
  note r = discovery_fold [OF f]
  have "length errs = length (filter isl msgs)" using r by simp
  then have "errs = [] \<longleftrightarrow> filter isl msgs = []" by (metis length_0_conv)
  with r show ?thesis by (auto simp: filter_empty_conv)
qed

theorem discovery_lists_once_witness:
  "distinct (map ID (fst (Discover None None
     [Inr (zeroVehicle\<lparr>ID := ''a''\<rparr>), Inl (Errorf ''bad''), Inr (zeroVehicle\<lparr>ID := ''a'', SoC := (1 :: real)\<rparr>)])))"
  using discovery_lists_once [OF prod.collapse [symmetric]] by blast

end
