(* ===== verification/Mqtt_Connection.thy ===== *)
theory Mqtt_Connection
  imports Mqtt_Client Configuration
begin

text \<open>
  How connections to the MQTT broker are set up: the options of a client (\<open>NewClientOptions\<close> and
  \<open>LoadTLSConfig\<close> of \<open>infra/mqtt/client.go\<close>), the command client with its subscription to
  acknowledgments, and the discovery client of \<open>infra/mqtt/discovery.go\<close>, which builds its options
  itself. The outcomes of Paho, of reading certificates and the fresh identifier are arguments.
\<close>

subsection \<open>Options (infra/mqtt/client.go)\<close>

text \<open>A TLS configuration, as far as the code looks into it: has it a certificate?\<close>

record tls_config =
  tls_name :: string
  tls_hasCertificate :: bool

record client_options =
  opt_broker :: string
  opt_clientID :: string
  opt_username :: "string option"
  opt_password :: "string option"
  opt_tls :: "tls_config option"
  opt_will :: "(string \<times> string \<times> nat \<times> bool) option"
  opt_autoReconnect :: bool

text \<open>The outcomes of loading the key pair and the bundle of certificates.\<close>

record tls_files =
  keyPair :: "go_error option"
  caBundle :: "go_error option"

text \<open>\<open>field\<close> is the field \<open>TLSConfig\<close>, which configuration files cannot set.\<close>

definition LoadTLSConfig :: "tls_files \<Rightarrow> tls_config option \<Rightarrow> MqttConfig \<Rightarrow> go_error + tls_config" where
  "LoadTLSConfig files field c =
     (case field of
        Some t \<Rightarrow> Inr t
      | None \<Rightarrow>
          if ClientCert c = [] \<or> ClientKey c = [] \<or> CABundle c = []
          then Inl (Errorf ''tls config requires client_cert, client_key and ca_bundle'')
          else case keyPair files of
                 Some e \<Rightarrow> Inl (Wrapped ''load cert'' e)
               | None \<Rightarrow>
                   (case caBundle files of
                      Some e \<Rightarrow> Inl (Wrapped ''read ca'' e)
                    | None \<Rightarrow> Inr \<lparr>tls_name = ClientCert c, tls_hasCertificate = True\<rparr>))"

definition nonEmpty :: "string \<Rightarrow> string option" where
  "nonEmpty s = (if s \<noteq> [] then Some s else None)"

definition password_auth :: "MqttConfig \<Rightarrow> bool" where
  "password_auth c \<longleftrightarrow> AuthMethod c = ''username_password'' \<or> AuthMethod c = ''both'' \<or> AuthMethod c = []"

definition NewClientOptions :: "tls_files \<Rightarrow> tls_config option \<Rightarrow> MqttConfig \<Rightarrow> go_error + client_options" where
  "NewClientOptions files field c =
     (let password = password_auth c;
          opts = \<lparr>opt_broker = Broker c, opt_clientID = MqttClientID c,
            opt_username = (if password then nonEmpty (Username c) else None),
            opt_password = (if password then nonEmpty (Password c) else None),
            opt_tls = None, opt_will = None, opt_autoReconnect = True\<rparr>;
          will = (\<lambda>opts. if LWTTopic c \<noteq> [] then opts\<lparr>opt_will := Some (LWTTopic c, LWTPayload c, LWTQoS c, LWTRetain c)\<rparr> else opts)
      in if UseTLS c
         then (case LoadTLSConfig files field c of
                 Inl e \<Rightarrow> Inl e
               | Inr t \<Rightarrow> Inr (will (opts\<lparr>opt_tls := Some t\<rparr>)))
         else Inr (will opts))"

subsection \<open>The command client\<close>

text \<open>\<open>OnConnect\<close>: the subscription made at every connection and reconnection.\<close>

definition onConnect :: "MqttConfig \<Rightarrow> string \<times> nat" where
  "onConnect c = (AckTopic c, getd 0 (QoS c) ''ack'')"

definition PahoClient_connect ::
  "tls_files \<Rightarrow> tls_config option \<Rightarrow> (client_options \<Rightarrow> go_error option) \<Rightarrow> MqttConfig
    \<Rightarrow> go_error + PahoClient \<times> client_options" where
  "PahoClient_connect files field connect c =
     (case NewClientOptions files field c of
        Inl e \<Rightarrow> Inl e
      | Inr opts \<Rightarrow>
          (case connect opts of
             Some e \<Rightarrow> Inl e
           | None \<Rightarrow> Inr (NewPahoClient (QoS c) (MaxRetries c) (BackoffMS c), opts)))"

text \<open>\<open>Disconnect\<close> and \<open>Close\<close> of a client that may be nil: whether its connection is still up afterwards.\<close>

definition Paho_Disconnect :: "bool option \<Rightarrow> bool option" where
  "Paho_Disconnect up = (if up = Some True then Some False else up)"

subsection \<open>The discovery client (infra/mqtt/discovery.go)\<close>

definition discoveryClientID :: "string \<Rightarrow> string \<Rightarrow> string" where
  "discoveryClientID uuid clientID = (if clientID \<noteq> [] then clientID @ ''-discovery'' else ''discovery-'' @ uuid)"

definition NewPahoFleetDiscovery ::
  "string \<Rightarrow> tls_config option \<Rightarrow> (client_options \<Rightarrow> go_error option) \<Rightarrow> MqttConfig \<Rightarrow> go_error + client_options" where
  "NewPahoFleetDiscovery uuid field connect c =
     (let opts = \<lparr>opt_broker = Broker c, opt_clientID = discoveryClientID uuid (MqttClientID c),
            opt_username = nonEmpty (Username c), opt_password = nonEmpty (Password c), opt_tls = None,
            opt_will = None, opt_autoReconnect = True\<rparr>;
          dial = (\<lambda>opts. case connect opts of
                    Some e \<Rightarrow> Inl (Wrapped (''mqtt connect '' @ Broker c) e)
                  | None \<Rightarrow> Inr opts)
      in if UseTLS c
         then (case field of
                 None \<Rightarrow> Inl (Errorf ''mqtt tls enabled but TLSConfig is nil'')
               | Some t \<Rightarrow>
                   if \<not> tls_hasCertificate t then Inl (Errorf ''tls config missing certificate'')
                   else dial (opts\<lparr>opt_tls := Some t\<rparr>))
         else dial opts)"

definition MockDiscovery_Discover :: "'n Vehicle list \<Rightarrow> 'n Vehicle list \<times> go_error option" where
  "MockDiscovery_Discover vs = (vs, None)"

subsection \<open>What the two connections agree on\<close>

lemma NewClientOptions_sel:
  assumes "NewClientOptions files field c = Inr opts"
  shows "opt_broker opts = Broker c" "opt_clientID opts = MqttClientID c"
    "UseTLS c \<longrightarrow> field \<noteq> None \<longrightarrow> opt_tls opts = field" "\<not> UseTLS c \<longrightarrow> opt_tls opts = None"
    "opt_username opts = (if password_auth c then nonEmpty (Username c) else None)"
    "opt_password opts = (if password_auth c then nonEmpty (Password c) else None)"
  using assms by (cases "UseTLS c"; auto simp: NewClientOptions_def LoadTLSConfig_def Let_def split: sum.splits)+

lemma Discovery_options_sel:
  assumes "NewPahoFleetDiscovery uuid field connect c = Inr opts"
  shows "opt_broker opts = Broker c" "opt_clientID opts = discoveryClientID uuid (MqttClientID c)"
    "UseTLS c \<longrightarrow> field \<noteq> None \<and> opt_tls opts = field" "\<not> UseTLS c \<longrightarrow> opt_tls opts = None"
    "opt_username opts = nonEmpty (Username c)" "opt_password opts = nonEmpty (Password c)"
  using assms by (cases "UseTLS c"; auto simp: NewPahoFleetDiscovery_def Let_def split: option.splits if_splits)+

text \<open>
  The command client and the discovery client speak to the same broker under different names; they
  log in alike under password authentication or without any user, but under any other method the
  discovery client still presents the user and the password, which the command client withholds. With
  TLS and no configuration in memory, the discovery client refuses whatever certificates the files name.
\<close>

theorem mqtt_clients_options:
  assumes "PahoClient_connect files field connect c = Inr (p, o1)"
  shows "(UseTLS c \<and> field = None \<longrightarrow>
      NewPahoFleetDiscovery uuid field connect' c = Inl (Errorf ''mqtt tls enabled but TLSConfig is nil'')) \<and>
    (\<forall>o2. NewPahoFleetDiscovery uuid field connect' c = Inr o2 \<longrightarrow>
       opt_broker o2 = opt_broker o1 \<and> opt_clientID o2 \<noteq> opt_clientID o1 \<and> opt_tls o2 = opt_tls o1 \<and>
       opt_username o2 = nonEmpty (Username c) \<and> opt_password o2 = nonEmpty (Password c) \<and>
       (if password_auth c
        then opt_username o1 = opt_username o2 \<and> opt_password o1 = opt_password o2
        else opt_username o1 = None \<and> opt_password o1 = None))"
proof -
  have o1: "opt_broker o1 = Broker c" "opt_clientID o1 = MqttClientID c" "UseTLS c \<longrightarrow> field \<noteq> None \<longrightarrow> opt_tls o1 = field"
    "\<not> UseTLS c \<longrightarrow> opt_tls o1 = None"
    "opt_username o1 = (if password_auth c then nonEmpty (Username c) else None)"
    "opt_password o1 = (if password_auth c then nonEmpty (Password c) else None)"
    using NewClientOptions_sel [of files field c o1] assms by (auto simp: PahoClient_connect_def split: sum.splits option.splits)
  have name: "discoveryClientID uuid (MqttClientID c) \<noteq> MqttClientID c" by (auto simp: discoveryClientID_def)
  have "opt_broker o2 = opt_broker o1 \<and> opt_clientID o2 \<noteq> opt_clientID o1 \<and> opt_tls o2 = opt_tls o1 \<and>
      opt_username o2 = nonEmpty (Username c) \<and> opt_password o2 = nonEmpty (Password c) \<and>
      (if password_auth c then opt_username o1 = opt_username o2 \<and> opt_password o1 = opt_password o2
       else opt_username o1 = None \<and> opt_password o1 = None)"
    if "NewPahoFleetDiscovery uuid field connect' c = Inr o2" for o2
    using Discovery_options_sel [OF that] o1 name by auto
  moreover have "UseTLS c \<and> field = None \<longrightarrow>
      NewPahoFleetDiscovery uuid field connect' c = Inl (Errorf ''mqtt tls enabled but TLSConfig is nil'')"
    by (simp add: NewPahoFleetDiscovery_def)
  ultimately show ?thesis by blast
qed

definition tls_mqtt :: MqttConfig where
  "tls_mqtt = (CfgMQTT test_config)\<lparr>UseTLS := True, ClientCert := ''c.pem'', ClientKey := ''k.pem'', CABundle := ''ca.pem''\<rparr>"

theorem mqtt_clients_options_witness:
  "\<exists>p o1. PahoClient_connect \<lparr>keyPair = None, caBundle = None\<rparr> None (\<lambda>_. None) tls_mqtt = Inr (p, o1) \<and>
     NewPahoFleetDiscovery [] None (\<lambda>_. None) tls_mqtt = Inl (Errorf ''mqtt tls enabled but TLSConfig is nil'')"
proof -
  obtain p o1 where c: "PahoClient_connect \<lparr>keyPair = None, caBundle = None\<rparr> None (\<lambda>_. None) tls_mqtt = Inr (p, o1)"
    by (simp add: PahoClient_connect_def NewClientOptions_def LoadTLSConfig_def Let_def tls_mqtt_def)
  with mqtt_clients_options [OF c] show ?thesis by (simp add: tls_mqtt_def)
qed

end
