(* ===== verification/Commands.thy ===== *)
theory Commands
  imports Service Mqtt_Connection
begin

text \<open>
  The command line, package \<open>cmd\<close>: the service with its flags (\<open>root.go\<close>), the test dispatch
  (\<open>dispatch.go\<close>) and the list of the fleet (\<open>fleet.go\<close>). Here the constructors that \<open>app.New\<close> calls
  are those of \<open>Mqtt_Connection\<close>, with one record for what the environment answers.
\<close>

subsection \<open>The service from its configuration\<close>

record connect_env =
  ceTlsFiles :: tls_files
  ceConnect :: "client_options \<Rightarrow> go_error option"
  ceUuid :: string
  cePromErr :: "go_error option"
  ceInflux :: "go_error + string"

text \<open>The error of a constructor, if there is one.\<close>

definition error_of :: "go_error + 'a \<Rightarrow> go_error option" where
  "error_of r = (case r of Inl e \<Rightarrow> Some e | Inr _ \<Rightarrow> None)"

text \<open>The connection of the telemetry manager, lines 46 to 60 of \<open>infra/telemetry/manager.go\<close>.\<close>

definition telemetry_connect :: "connect_env \<Rightarrow> tls_config option \<Rightarrow> MqttConfig \<Rightarrow> go_error option" where
  "telemetry_connect ce field c =
     (case NewClientOptions (ceTlsFiles ce) field c of
        Inl e \<Rightarrow> Some e
      | Inr opts \<Rightarrow> ceConnect ce (opts\<lparr>opt_clientID := telemetryClientID (ceUuid ce) (MqttClientID c)\<rparr>))"

definition app_outcomes :: "connect_env \<Rightarrow> tls_config option \<Rightarrow> MqttConfig \<Rightarrow> service_outcomes" where
  "app_outcomes ce field c =
     \<lparr>mqttOutcome = error_of (PahoClient_connect (ceTlsFiles ce) field (ceConnect ce) c),
      promOutcome = cePromErr ce, influxHealth = ceInflux ce,
      discoveryOutcome = error_of (NewPahoFleetDiscovery (ceUuid ce) field (ceConnect ce) c),
      telemetryOutcome = telemetry_connect ce field c\<rparr>"

definition app_New ::
  "connect_env \<Rightarrow> 'n collectors \<Rightarrow> 'n::{zero,one,plus,inverse,ord} AppConfig \<Rightarrow> go_error + 'n Service" where
  "app_New ce prom cfg = Service_New (app_outcomes ce None (CfgMQTT cfg)) prom cfg"

subsection \<open>The root command (cmd/root.go)\<close>

record root_flags =
  demoSeed :: bool
  rteGen :: bool
  rteGenScenario :: string

definition apply_flags :: "root_flags \<Rightarrow> 'n AppConfig \<Rightarrow> 'n AppConfig" where
  "apply_flags f cfg =
     (let cfg1 = (if rteGen f then cfg\<lparr>CfgRTEGenerator := (CfgRTEGenerator cfg)\<lparr>Enabled := True\<rparr>\<rparr> else cfg)
      in if rteGenScenario f \<noteq> []
         then cfg1\<lparr>CfgRTEGenerator := (CfgRTEGenerator cfg1)\<lparr>Scenario := rteGenScenario f\<rparr>\<rparr> else cfg1)"

text \<open>What the command does once it has its configuration: seed the database, or run the service.\<close>

datatype 'n root_action = SeedDemo "'n metric_call list" | RunService "'n Service"

definition demo_calls :: "Time \<Rightarrow> 'n::{zero,one,plus,inverse} metric_call list" where
  "demo_calls now =
     (let v = zeroVehicle\<lparr>ID := ''demo-veh'', SoC := lit 1 2, Available := True, MaxPower := lit 7 1\<rparr> in
      [RecordVehicleState \<lparr>vs_Vehicle = v, vs_FleetID = [], vs_Context = [], vs_Component = [], vs_Time = now\<rparr>,
       RecordDispatchOrder \<lparr>oe_OrderID = ''demo1'', oe_VehicleID = ''demo-veh'', oe_Signal = SignalFCR, oe_PowerKW = lit 33 10,
         oe_Score = lit 9 10, oe_MarketPrice = 0, oe_Accepted = True, oe_Time = now\<rparr>,
       RecordDispatchAck \<lparr>da_OrderID = ''demo1'', da_VehicleID = ''demo-veh'', da_Signal = SignalFCR, da_Acknowledged = True,
         da_Latency = 50 * Millisecond, da_Error = [], da_Time = timeAdd now (50 * Millisecond)\<rparr>,
       RecordRTESignal \<lparr>SigType = SignalFCR, PowerKW = lit 5 1, SigDuration = Minute, Timestamp = timeZero\<rparr> now])"

definition root_run ::
  "connect_env \<Rightarrow> 'n collectors \<Rightarrow> Time \<Rightarrow> root_flags \<Rightarrow> go_error + 'n AppConfig
    \<Rightarrow> go_error + 'n::{zero,one,plus,inverse,ord} root_action" where
  "root_run ce prom now f loaded =
     (case loaded of
        Inl e \<Rightarrow> Inl (Wrapped ''load config'' e)
      | Inr cfg0 \<Rightarrow>
          (let cfg = apply_flags f cfg0 in
           case app_New ce prom cfg of
             Inl e \<Rightarrow> Inl e
           | Inr svc \<Rightarrow>
               if demoSeed f \<and> InfluxEnabled (CfgMetrics cfg) then Inr (SeedDemo (demo_calls now))
               else Inr (RunService svc)))"

subsection \<open>The test dispatch (cmd/dispatch.go)\<close>

definition command_vehicle :: "'n::{zero,one,plus,inverse} Vehicle" where
  "command_vehicle = zeroVehicle\<lparr>ID := ''test'', IsV2G := True, Available := True, MaxPower := lit 10 1, BatteryKWh := lit 40 1,
     SoC := lit 8 10\<rparr>"

definition command_signal :: "Time \<Rightarrow> 'n::{zero,one,plus,inverse} FlexibilitySignal" where
  "command_signal now = \<lparr>SigType = SignalFCR, PowerKW = lit 5 1, SigDuration = Minute, Timestamp = now\<rparr>"

text \<open>
  The result of the command and the manager that its deferred function closes; \<open>discErr\<close> is the error of
  closing the discovery, which is logged only. After a dispatch without errors the command waits for the
  interrupt or for the termination signal before it returns; the result does not depend on when that is.
\<close>

definition dispatchSignal ::
  "connect_env \<Rightarrow> 'n collectors \<Rightarrow> 'n dispatch_env \<Rightarrow> Time \<Rightarrow> go_error option \<Rightarrow> go_error + 'n AppConfig
    \<Rightarrow> (go_error option \<times> 'n::{zero,one,plus,minus,uminus,times,inverse,ord} DispatchManager option) option" where
  "dispatchSignal ce prom env now discErr loaded =
     (case loaded of
        Inl e \<Rightarrow> Some (Some (Wrapped ''load config'' e), None)
      | Inr cfg \<Rightarrow>
     case PahoClient_connect (ceTlsFiles ce) None (ceConnect ce) (CfgMQTT cfg) of
        Inl e \<Rightarrow> Some (Some (Wrapped ''mqtt client'' e), None)
      | Inr _ \<Rightarrow>
     case NewPahoFleetDiscovery (ceUuid ce) None (ceConnect ce) (CfgMQTT cfg) of
        Inl e \<Rightarrow> Some (Some (Wrapped ''fleet discovery'' e), None)
      | Inr _ \<Rightarrow>
     case NewDispatchManager (Some SimpleVehicleFilter_Filter) (Some EqualImpl) NewSmartDispatcher (Some NoopImpl) True
            (durMul (AckTimeoutSeconds (CfgDispatch cfg)) Second) None (Some Bus_New) True NoTuner None prom of
        Inl e \<Rightarrow> Some (Some (Wrapped ''dispatch manager'' e), None)
      | Inr m0 \<Rightarrow>
     case Manager_Dispatch env (SetLPFirst (CfgLPFirst (CfgDispatch cfg)) m0) (command_signal now) [command_vehicle] of
        None \<Rightarrow> None
      | Some (res, m) \<Rightarrow>
          map_option (\<lambda>(m', e). (if Errors res \<noteq> Map.empty then Some (Errorf ''dispatch encountered errors'') else None, Some m'))
            (Manager_Close discErr m))"

subsection \<open>The list of the fleet (cmd/fleet.go)\<close>

text \<open>The identifiers printed; \<open>nanos\<close> is the clock in nanoseconds, \<open>found\<close> the outcome of the discovery.\<close>

definition fleetClientID :: "int \<Rightarrow> string \<Rightarrow> string" where
  "fleetClientID nanos clientID =
     (if clientID \<noteq> [] then clientID @ ''-'' @ FormatInt nanos else ''fleet-ls-'' @ FormatInt nanos)"

definition runFleetLs ::
  "connect_env \<Rightarrow> int \<Rightarrow> 'n Vehicle list \<times> go_error option \<Rightarrow> go_error + 'n AppConfig \<Rightarrow> go_error + string list" where
  "runFleetLs ce nanos found loaded =
     (case loaded of
        Inl e \<Rightarrow> Inl (Wrapped ''load config'' e)
      | Inr cfg \<Rightarrow>
          (let c = (CfgMQTT cfg)\<lparr>MqttClientID := fleetClientID nanos (MqttClientID (CfgMQTT cfg))\<rparr> in
           case NewPahoFleetDiscovery (ceUuid ce) None (ceConnect ce) c of
             Inl e \<Rightarrow> Inl (Wrapped ''fleet discovery'' e)
           | Inr _ \<Rightarrow> (case found of (vs, Some e) \<Rightarrow> Inl e | (vs, None) \<Rightarrow> Inr (map ID vs))))"

subsection \<open>TLS\<close>

lemma discovery_tls: "UseTLS c \<Longrightarrow>
    NewPahoFleetDiscovery uuid None connect c = Inl (Errorf ''mqtt tls enabled but TLSConfig is nil'')"
  by (simp add: NewPahoFleetDiscovery_def)

lemma apply_flags_mqtt: "CfgMQTT (apply_flags f cfg) = CfgMQTT cfg"
  by (simp add: apply_flags_def Let_def)

lemma app_New_tls:
  assumes "UseTLS (CfgMQTT cfg)"
  shows "\<exists>e. app_New ce prom cfg = Inl e"
  using discovery_tls [OF assms]
  by (auto simp: app_New_def Service_New_def app_outcomes_def error_of_def split: option.split sum.split)

text \<open>
  With \<open>use_tls\<close> no command works. The discovery client accepts only a TLS configuration in memory,
  which no configuration file can provide: whatever certificates the file names and however the
  broker answers, the service, the test dispatch and the list of the fleet end with an error.
\<close>

theorem tls_never_starts:
  assumes "UseTLS (CfgMQTT cfg)"
  shows "(\<exists>e. root_run ce prom now f (Inr cfg) = Inl e) \<and>
    (\<exists>e. dispatchSignal ce prom env now discErr (Inr cfg) = Some (Some e, None)) \<and>
    (\<exists>e. runFleetLs ce nanos found (Inr cfg) = Inl e)"
proof (intro conjI)
  have "UseTLS (CfgMQTT (apply_flags f cfg))" using assms by (simp add: apply_flags_mqtt)
  from app_New_tls [OF this, of ce prom] show "\<exists>e. root_run ce prom now f (Inr cfg) = Inl e"
    by (auto simp: root_run_def Let_def)
  show "\<exists>e. dispatchSignal ce prom env now discErr (Inr cfg) = Some (Some e, None)"
    using discovery_tls [OF assms] by (simp add: dispatchSignal_def split: sum.split)
  show "\<exists>e. runFleetLs ce nanos found (Inr cfg) = Inl e"
    using discovery_tls [of "(CfgMQTT cfg)\<lparr>MqttClientID := x\<rparr>" for x] assms by (simp add: runFleetLs_def Let_def)
qed

definition test_connect :: connect_env where
  "test_connect = \<lparr>ceTlsFiles = \<lparr>keyPair = None, caBundle = None\<rparr>, ceConnect = (\<lambda>_. None), ceUuid = ''1'',
     cePromErr = None, ceInflux = Inr ''pass''\<rparr>"

theorem tls_never_starts_witness:
  "(\<exists>p. PahoClient_connect (ceTlsFiles test_connect) None (ceConnect test_connect) tls_mqtt = Inr p) \<and>
   (\<exists>e. root_run test_connect test_collectors timeZero \<lparr>demoSeed = False, rteGen = False, rteGenScenario = []\<rparr>
      (Inr (test_config\<lparr>CfgMQTT := tls_mqtt\<rparr>)) = Inl e)"
proof -
  have "UseTLS (CfgMQTT (test_config\<lparr>CfgMQTT := tls_mqtt\<rparr>))" by (simp add: tls_mqtt_def)
  from tls_never_starts [OF this] show ?thesis
    by (simp add: PahoClient_connect_def NewClientOptions_def LoadTLSConfig_def Let_def tls_mqtt_def test_connect_def)
qed

subsection \<open>The order of the test dispatch\<close>

lemma command_assignment:
  "EqualDispatcher_Dispatch (filter (filter_accepts (command_signal now)) [command_vehicle]) (command_signal now) = [''test'' \<mapsto> (5 :: real)]"
  by (simp add: command_signal_def command_vehicle_def filter_accepts_def EqualDispatcher_Dispatch_def equal_loop.simps Let_def)

lemma Manager_Dispatch_errors:
  assumes "Manager_Dispatch env m s vehicles = Some (res, m')" "valid_schedule (dom (Assignments res)) (envSchedule env)"
    and "Assignments res i = Some p"
  shows "Errors res i = (case envSend env i p of Inl e \<Rightarrow> Some e | Inr c \<Rightarrow> snd (envAck env c (ackTimeout m)))"
    "dom (Errors res) \<subseteq> dom (Assignments res)"
proof -
  obtain vs m3 m4 u r0 where r0: "r0 = sent_result env (ackTimeout m) (dom (Assignments res)) (new_result (Assignments res) (smart_state m4 u))"
    and fin: "finish_result env s vs (smart_state m4 u) (Fallback_SetVehicles vs (mgr_fallback m)) r0 = Some res"
    by (rule Manager_Dispatch_result [OF assms(1,2)])
  have "Errors res = Errors r0" using finish_result_frame(2) [OF fin] .
  then show "Errors res i = (case envSend env i p of Inl e \<Rightarrow> Some e | Inr c \<Rightarrow> snd (envAck env c (ackTimeout m)))"
    "dom (Errors res) \<subseteq> dom (Assignments res)"
    using assms(3) by (auto simp: r0 sent_result_def order_err_eq getd_def domI split: if_splits)
qed

lemma Manager_Close_wired:
  assumes "wired m"
  obtains m' e where "Manager_Close discErr m = Some (m', e)" "mgr_history m' = mgr_history m"
proof (cases "mgr_bus m")
  case None
  then show ?thesis using that by (cases discErr; cases "hasDiscovery m") (auto simp: Manager_Close_def)
next
  case (Some b)
  then obtain b' where "Bus_Close b = Some b'"
    using assms Bus_Close_ok [of b] by (auto simp: wired_def mgr_live_def bus_ok_def)
  with Some show ?thesis using that by (cases discErr; cases "hasDiscovery m") (auto simp: Manager_Close_def)
qed

text \<open>
  The test dispatch sends exactly one order, of 5 kW to the vehicle \<open>test\<close>, without asking the
  discovery. It fails if and only if the publication fails or the wait for the acknowledgment ends
  in an error, within the configured timeout or 5 seconds.
\<close>

theorem dispatch_command_outcome:
  assumes "PahoClient_connect (ceTlsFiles ce) None (ceConnect ce) (CfgMQTT cfg) = Inr p"
    and "NewPahoFleetDiscovery (ceUuid ce) None (ceConnect ce) (CfgMQTT cfg) = Inr q"
    and "solver_ok env" "valid_schedule {''test''} (envSchedule env)"
    and "T = durMul (AckTimeoutSeconds (CfgDispatch cfg)) Second" "T' = (if T \<le> 0 then 5 * Second else T)"
  shows "\<exists>m' err. dispatchSignal ce prom env now discErr (Inr (cfg :: real AppConfig)) = Some (err, Some m') \<and>
    (\<exists>res. mgr_history m' = [res] \<and> Assignments res = [''test'' \<mapsto> 5]) \<and>
    err = (if \<exists>c. envSend env ''test'' 5 = Inr c \<and> snd (envAck env c T') = None
           then None else Some (Errorf ''dispatch encountered errors''))"
proof -
  obtain m0 where m0: "NewDispatchManager (Some SimpleVehicleFilter_Filter) (Some EqualImpl) NewSmartDispatcher (Some NoopImpl) True
            T None (Some Bus_New) True NoTuner None prom = Inr m0" by (simp add: NewDispatchManager_def)
  define m where "m = SetLPFirst (CfgLPFirst (CfgDispatch cfg)) m0"
  have m: "wired m" "ackTimeout m = T'" "mgr_history m = []"
    using service_manager(1) [OF m0] m0 assms(6)
    by (auto simp: m_def NewDispatchManager_def SetLPFirst_def split: option.split)
  obtain res m1 where run: "Manager_Dispatch env m (command_signal now) [command_vehicle] = Some (res, m1)" "wired m1"
    and "Assignments res = EqualDispatcher_Dispatch (filter (filter_accepts (command_signal now))
        (fst (discover_fleet env m [command_vehicle]))) (command_signal now)"
    by (rule Manager_Dispatch_wired [OF m(1) assms(3)])
  moreover have "fst (discover_fleet env m [command_vehicle]) = [command_vehicle]" by (simp add: discover_fleet_def)
  ultimately have asn: "Assignments res = [''test'' \<mapsto> 5]" by (simp only: command_assignment)
  have sched: "valid_schedule (dom (Assignments res)) (envSchedule env)" using assms(4) by (simp add: asn)
  have errs: "Errors res = Map.empty \<longleftrightarrow> (\<exists>c. envSend env ''test'' 5 = Inr c \<and> snd (envAck env c T') = None)"
  proof -
    have test: "Assignments res ''test'' = Some 5" by (simp add: asn)
    note es = Manager_Dispatch_errors [OF run(1) sched test]
    have "Errors res = Map.empty \<longleftrightarrow> Errors res ''test'' = None" using es(2) by (auto simp: asn)
    then show ?thesis unfolding es(1) m(2) by (cases "envSend env ''test'' 5") simp_all
  qed
  obtain m' e where close: "Manager_Close discErr m1 = Some (m', e)" "mgr_history m' = mgr_history m1"
    by (rule Manager_Close_wired [OF run(2), of discErr])
  have "mgr_history m1 = [res]" using Manager_Dispatch_history(2) [OF run(1)] m(3) by simp
  then have "mgr_history m' = [res]" using close(2) by simp
  moreover have "dispatchSignal ce prom env now discErr (Inr cfg) =
      Some (if Errors res \<noteq> Map.empty then Some (Errorf ''dispatch encountered errors'') else None, Some m')"
    using m0 run(1) close(1) by (simp add: dispatchSignal_def assms(1,2,5) m_def)
  ultimately show ?thesis using asn errs by simp
qed

definition command_env :: "real dispatch_env" where
  "command_env = mgr_env\<lparr>envSchedule := [ActSend ''test'', ActUpdate ''test'', ActRecord ''test'']\<rparr>"

theorem dispatch_command_outcome_witness:
  "\<exists>m'. dispatchSignal test_connect test_collectors command_env timeZero None (Inr test_config) = Some (None, Some m') \<and>
    (\<exists>res. mgr_history m' = [res] \<and> Assignments res = [''test'' \<mapsto> 5])"
proof -
  obtain p where p: "PahoClient_connect (ceTlsFiles test_connect) None (ceConnect test_connect) (CfgMQTT test_config) = Inr p"
    by (simp add: PahoClient_connect_def NewClientOptions_def LoadTLSConfig_def Let_def test_connect_def test_config_def)
  obtain q where q: "NewPahoFleetDiscovery (ceUuid test_connect) None (ceConnect test_connect) (CfgMQTT test_config) = Inr q"
    by (simp add: NewPahoFleetDiscovery_def Let_def test_connect_def test_config_def)
  have "solver_ok command_env" "valid_schedule {''test''} (envSchedule command_env)"
    by (auto simp: solver_ok_def command_env_def mgr_env_def valid_schedule_def)
  from dispatch_command_outcome [OF p q this refl refl, of test_collectors timeZero None]
  show ?thesis by (auto simp: command_env_def mgr_env_def)
qed

end
