(* ===== verification/Simulator.thy ===== *)
theory Simulator
  imports Core_Model
begin

text \<open>
  The simulated vehicle: the battery (\<open>simulator/battery.go\<close>), the acknowledgment strategies
  (\<open>simulator/ack_strategy.go\<close>) and the handlers and loops of \<open>SimulatedVehicle\<close>
  (\<open>simulator/vehicle.go\<close>). Each handler and each iteration of a loop is one step; what comes
  from outside (the clock, the random source, the outcome of MQTT calls, a decoded payload) is
  an argument. Messages published and metrics recorded are logged in the state, for a metrics
  sink that implements every recorder interface; a vehicle always has a battery. A method call
  on a nil MQTT client panics, which is \<^term>\<open>None\<close>.
\<close>

subsection \<open>Battery (simulator/battery.go)\<close>

record 'n Battery =
  CapacityKWh :: 'n
  Soc :: 'n
  ChargeRateKW :: 'n
  DischargeRateKW :: 'n

definition clampSoc :: "'n::{zero,one,ord} Battery \<Rightarrow> 'n Battery" where
  "clampSoc b =
     (let b' = (if Soc b < 0 then b\<lparr>Soc := 0\<rparr> else b) in if 1 < Soc b' then b'\<lparr>Soc := 1\<rparr> else b')"

definition ApplyPower ::
  "'n::{zero,one,plus,minus,uminus,times,inverse,ord} Battery \<Rightarrow> 'n \<Rightarrow> Duration \<Rightarrow> 'n \<times> 'n Battery" where
  "ApplyPower b powerKW dt =
     (let hours = Hours dt in
      if hours \<le> 0 then (0, b)
      else if 0 < powerKW
      then let actual = (if DischargeRateKW b < powerKW then DischargeRateKW b else powerKW);
               maxEnergy = Soc b * CapacityKWh b;
               needed = actual * hours;
               (needed', actual') = (if maxEnergy < needed then (maxEnergy, maxEnergy / hours)
                                     else (needed, actual))
           in (actual', clampSoc (b\<lparr>Soc := Soc b - needed' / CapacityKWh b\<rparr>))
      else if powerKW < 0
      then let p0 = mathAbs powerKW;
               p = (if ChargeRateKW b < p0 then ChargeRateKW b else p0);
               avail = (1 - Soc b) * CapacityKWh b;
               needed = p * hours;
               (needed', p') = (if avail < needed then (avail, avail / hours) else (needed, p))
           in (- p', clampSoc (b\<lparr>Soc := Soc b + needed' / CapacityKWh b\<rparr>))
      else (powerKW, clampSoc b))"

subsection \<open>Vehicle state (simulator/vehicle.go)\<close>

record 'n command =
  cmd_id :: string
  cmd_power :: 'n
  cmd_received :: Time

text \<open>The payload of \<open>publishAvailability\<close> and \<open>publishTelemetry\<close>.\<close>

record 'n state_msg =
  msg_vehicle_id :: string
  msg_soc :: 'n
  msg_available :: bool
  msg_charging :: bool
  msg_power_kw :: 'n
  msg_ts :: int

datatype 'n sim_event =
    EvState string "'n state_msg"
  | EvDiscovery string "'n Vehicle"
  | EvAck string string
  | EvOrder string 'n Time
  | EvAckMetric string bool Time
  | EvResult 'n Time bool
  | EvVehicleState 'n Time

text \<open>
  \<open>sv_client\<close> is the handle of the MQTT client, \<^term>\<open>None\<close> for nil; \<open>sv_log\<close> collects the
  messages and metrics in order.
\<close>

record 'n SimulatedVehicle =
  sv_ID :: string
  sv_IsV2G :: bool
  sv_MaxPower :: 'n
  sv_Battery :: "'n Battery"
  TopicPrefix :: string
  StateTopicPrefix :: string
  TelemetryPush :: bool
  DisconnectRate :: 'n
  AvailabilityProfile :: "'n list"
  currentPower :: 'n
  sv_client :: "nat option"
  ackCh :: "'n command list"
  sv_log :: "'n sim_event list"

definition ackChCap :: nat where "ackChCap = 50"

text \<open>\<open>strings.TrimSuffix(s, "/")\<close>\<close>

definition trimSlash :: "string \<Rightarrow> string" where
  "trimSlash s = (if s \<noteq> [] \<and> last s = CHR ''/'' then butlast s else s)"

definition emit :: "'n sim_event \<Rightarrow> 'n SimulatedVehicle \<Rightarrow> 'n SimulatedVehicle" where
  "emit e v = v\<lparr>sv_log := sv_log v @ [e]\<rparr>"

subsection \<open>Commands\<close>

definition applyPowerOrder ::
  "'n::{zero,one,uminus,ord} SimulatedVehicle \<Rightarrow> 'n \<Rightarrow> 'n \<times> 'n SimulatedVehicle" where
  "applyPowerOrder v p =
     (let b = sv_Battery v;
          refused = (if 0 < p
                     then sv_MaxPower v < p \<or> DischargeRateKW b < p \<or> Soc b \<le> 0
                     else if p < 0
                     then sv_MaxPower v < - p \<or> ChargeRateKW b < - p \<or> 1 \<le> Soc b
                     else False)
      in if refused then (currentPower v, v) else (p, v\<lparr>currentPower := p\<rparr>))"

text \<open>\<open>onCommand\<close>: \<open>payload\<close> is the decoded message, \<^term>\<open>None\<close> when decoding fails.\<close>

definition onCommand ::
  "Time \<Rightarrow> (string \<times> 'n) option \<Rightarrow> 'n::{zero,one,uminus,ord} SimulatedVehicle \<Rightarrow> 'n SimulatedVehicle" where
  "onCommand now payload v =
     (case payload of
        None \<Rightarrow> v
      | Some (commandID, powerKW) \<Rightarrow>
          let (allowed, v1) = applyPowerOrder v powerKW;
              v2 = emit (EvOrder commandID allowed now) v1;
              cmd = \<lparr>cmd_id = commandID, cmd_power = allowed, cmd_received = now\<rparr>
          in if length (ackCh v2) < ackChCap then v2\<lparr>ackCh := ackCh v2 @ [cmd]\<rparr> else v2)"

subsection \<open>Acknowledgments (simulator/ack_strategy.go)\<close>

datatype 'n AckStrategy =
    AutoAck Duration
  | RandomAck Duration 'n

text \<open>\<open>publishAck\<close>: the outcome \<open>ok\<close> of the MQTT publication is given.\<close>

definition publishAck :: "bool \<Rightarrow> string \<Rightarrow> 'n SimulatedVehicle \<Rightarrow> (bool \<times> 'n SimulatedVehicle) option" where
  "publishAck ok commandID v =
     (case sv_client v of
        None \<Rightarrow> None
      | Some c \<Rightarrow>
          Some (ok, if ok then emit (EvAck (''vehicle/'' @ sv_ID v @ ''/ack'') commandID) v else v))"

text \<open>
  \<open>Ack\<close>: \<open>rnd\<close> is the number drawn, \<open>cancelled\<close> says that the context ended during the delay.
\<close>

fun AckStrategy_Ack ::
  "'n AckStrategy \<Rightarrow> 'n::{zero,ord} \<Rightarrow> bool \<Rightarrow> bool \<Rightarrow> string \<Rightarrow> 'n SimulatedVehicle
    \<Rightarrow> (bool \<times> 'n SimulatedVehicle) option" where
  "AckStrategy_Ack (AutoAck delay) rnd cancelled ok commandID v =
     (if 0 < delay \<and> cancelled then Some (False, v) else publishAck ok commandID v)"
| "AckStrategy_Ack (RandomAck delay dropRate) rnd cancelled ok commandID v =
     (if 0 < dropRate \<and> rnd < dropRate then Some (False, v)
      else if 0 < delay \<and> cancelled then Some (False, v)
      else publishAck ok commandID v)"

text \<open>One iteration of \<open>worker\<close> on a queued command.\<close>

definition worker_step ::
  "'n AckStrategy \<Rightarrow> 'n::{zero,ord} \<Rightarrow> bool \<Rightarrow> bool \<Rightarrow> Time \<Rightarrow> 'n SimulatedVehicle
    \<Rightarrow> 'n SimulatedVehicle option" where
  "worker_step strategy rnd cancelled ok now v =
     (case ackCh v of
        [] \<Rightarrow> Some v
      | cmd # rest \<Rightarrow>
          (case AckStrategy_Ack strategy rnd cancelled ok (cmd_id cmd) (v\<lparr>ackCh := rest\<rparr>) of
             None \<Rightarrow> None
           | Some (sent, v1) \<Rightarrow>
               Some (emit (EvResult (cmd_power cmd) (cmd_received cmd) sent)
                      (emit (EvAckMetric (cmd_id cmd) sent now) v1))))"

subsection \<open>Discovery, telemetry and availability\<close>

definition onDiscovery ::
  "string \<Rightarrow> bool \<Rightarrow> 'n::zero SimulatedVehicle \<Rightarrow> 'n SimulatedVehicle option" where
  "onDiscovery payload ok v =
     (if payload \<noteq> ''hello'' then Some v
      else case sv_client v of
             None \<Rightarrow> None
           | Some c \<Rightarrow>
               Some (if ok
                     then emit (EvDiscovery (trimSlash (TopicPrefix v) @ ''/fleet/response/'' @ sv_ID v)
                            (zeroVehicle\<lparr>ID := sv_ID v, IsV2G := sv_IsV2G v, Available := True,
                               MaxPower := sv_MaxPower v, BatteryKWh := CapacityKWh (sv_Battery v),
                               SoC := Soc (sv_Battery v)\<rparr>)) v
                     else v))"

definition state_message :: "bool \<Rightarrow> Time \<Rightarrow> 'n::{zero,ord} SimulatedVehicle \<Rightarrow> 'n state_msg" where
  "state_message avail now v =
     \<lparr>msg_vehicle_id = sv_ID v, msg_soc = Soc (sv_Battery v), msg_available = avail,
      msg_charging = (0 < currentPower v), msg_power_kw = currentPower v, msg_ts = timeUnix now\<rparr>"

definition publishAvailability :: "bool \<Rightarrow> Time \<Rightarrow> 'n::{zero,ord} SimulatedVehicle \<Rightarrow> 'n SimulatedVehicle" where
  "publishAvailability avail now v =
     (case sv_client v of
        None \<Rightarrow> v
      | Some c \<Rightarrow> emit (EvState (trimSlash (StateTopicPrefix v) @ ''/'' @ sv_ID v) (state_message avail now v)) v)"

definition publishTelemetry :: "Time \<Rightarrow> 'n::{zero,ord} SimulatedVehicle \<Rightarrow> 'n SimulatedVehicle option" where
  "publishTelemetry now v =
     (case sv_client v of
        None \<Rightarrow> None
      | Some c \<Rightarrow>
          Some (emit (EvState (trimSlash (StateTopicPrefix v) @ ''/'' @ sv_ID v) (state_message True now v)) v))"

text \<open>One tick of \<open>batteryLoop\<close>, \<open>dt\<close> after the previous one.\<close>

definition batteryTick ::
  "Duration \<Rightarrow> Time \<Rightarrow> 'n::{zero,one,plus,minus,uminus,times,inverse,ord} SimulatedVehicle
    \<Rightarrow> 'n SimulatedVehicle option" where
  "batteryTick dt now v =
     (let (applied, b) = ApplyPower (sv_Battery v) (currentPower v) dt;
          v1 = emit (EvVehicleState (Soc b) now) (v\<lparr>sv_Battery := b, currentPower := applied\<rparr>)
      in if TelemetryPush v1 then publishTelemetry now v1 else Some v1)"

text \<open>
  \<open>handleAvailabilityTick\<close>: \<open>r1\<close> and \<open>r2\<close> are the numbers drawn, \<open>newCli\<close> the result of
  connecting and \<open>sub1\<close>, \<open>sub2\<close> those of the subscriptions. An hour beyond the profile panics
  in Go; hours are below 24 and the profile has 24 entries.
\<close>

definition handleAvailabilityTick ::
  "Time \<Rightarrow> 'n \<Rightarrow> 'n \<Rightarrow> nat option \<Rightarrow> bool \<Rightarrow> bool \<Rightarrow> 'n::{zero,ord} SimulatedVehicle \<Rightarrow> 'n SimulatedVehicle" where
  "handleAvailabilityTick now r1 r2 newCli sub1 sub2 v =
     (case sv_client v of
        Some cli \<Rightarrow>
          (if 0 < DisconnectRate v \<and> r1 < DisconnectRate v
           then publishAvailability False now (v\<lparr>sv_client := None\<rparr>) else v)
      | None \<Rightarrow>
          (if AvailabilityProfile v ! hourOfDay now \<le> r2 then v
           else case newCli of
                  None \<Rightarrow> v
                | Some c \<Rightarrow>
                    if sub1 \<and> sub2 then publishAvailability True now (v\<lparr>sv_client := Some c\<rparr>) else v))"

text \<open>The departure branch of \<open>availabilityLoop\<close>, lines 325 to 333.\<close>

definition depart :: "Time \<Rightarrow> 'n::{zero,ord} SimulatedVehicle \<Rightarrow> 'n SimulatedVehicle" where
  "depart now v = publishAvailability False now (v\<lparr>sv_client := None\<rparr>)"

subsection \<open>The battery at exact arithmetic\<close>

definition battery_ok :: "real Battery \<Rightarrow> bool" where
  "battery_ok b \<longleftrightarrow> 0 < CapacityKWh b \<and> 0 \<le> Soc b \<and> Soc b \<le> 1 \<and> 0 \<le> ChargeRateKW b \<and> 0 \<le> DischargeRateKW b"

lemma clampSoc_ok [simp]: "0 \<le> Soc b \<Longrightarrow> Soc b \<le> 1 \<Longrightarrow> clampSoc (b :: real Battery) = b"
  by (simp add: clampSoc_def)

text \<open>Both directions at once: \<open>room\<close> is the energy that can still flow.\<close>

lemma capped_flow:
  fixes rate p h room cap :: real
  assumes "0 < h" "0 \<le> rate" "0 < p" "0 \<le> room" "room \<le> cap" "0 < cap"
  defines "a \<equiv> (if rate < p then rate else p)"
  shows "(if room < a * h then (room, room / h) else (a * h, a)) = (min room (a * h), min (room / h) a)"
    and "0 \<le> min (room / h) a" "min (room / h) a \<le> rate" "min (room / h) a \<le> p"
    and "min room (a * h) = min (room / h) a * h"
    and "0 \<le> min room (a * h) / cap" "min room (a * h) / cap \<le> room / cap"
proof -
  have lt: "room < a * h \<longleftrightarrow> room / h < a" using assms(1) by (simp add: pos_divide_less_eq)
  have a: "0 \<le> a" "a \<le> rate" "a \<le> p" using assms by (auto simp: a_def)
  have rh: "room / h * h = room" using assms(1) by simp
  show "(if room < a * h then (room, room / h) else (a * h, a)) = (min room (a * h), min (room / h) a)"
    using lt by auto
  show "0 \<le> min (room / h) a" "min (room / h) a \<le> rate" "min (room / h) a \<le> p"
    using a assms(1,4) by auto
  show "min room (a * h) = min (room / h) a * h" using lt rh by (auto simp: min_def)
  show "0 \<le> min room (a * h) / cap" "min room (a * h) / cap \<le> room / cap"
    using a assms by (auto intro: divide_right_mono)
qed

text \<open>The three directions of \<open>ApplyPower\<close>, in one statement.\<close>

definition power_step :: "real Battery \<Rightarrow> real \<Rightarrow> Duration \<Rightarrow> real \<Rightarrow> real Battery \<Rightarrow> bool" where
  "power_step b p dt actual b' \<longleftrightarrow>
     battery_ok b' \<and> CapacityKWh b' = CapacityKWh b \<and> (Soc b - Soc b') * CapacityKWh b = actual * Hours dt \<and>
     (0 \<le> p \<longrightarrow> 0 \<le> actual \<and> actual \<le> min p (DischargeRateKW b)) \<and>
     (p \<le> 0 \<longrightarrow> actual \<le> 0 \<and> - actual \<le> min (- p) (ChargeRateKW b)) \<and>
     ChargeRateKW b' = ChargeRateKW b \<and> DischargeRateKW b' = DischargeRateKW b"

lemma ApplyPower_discharge:
  assumes "battery_ok b" "0 < dt" "0 < p" "ApplyPower b p dt = (actual, b')"
  shows "power_step b p dt actual b'"
proof -
  let ?h = "Hours dt :: real" and ?a = "if DischargeRateKW b < p then DischargeRateKW b else p"
  let ?room = "Soc b * CapacityKWh b"
  let ?e = "min ?room (?a * ?h)"
  have h: "0 < ?h" using assms(2) by simp
  have b: "0 < CapacityKWh b" "0 \<le> Soc b" "Soc b \<le> 1" "0 \<le> ChargeRateKW b" "0 \<le> DischargeRateKW b"
    using assms(1) by (auto simp: battery_ok_def)
  have room: "0 \<le> ?room" "?room \<le> CapacityKWh b" using b by (auto simp: mult_left_le_one_le)
  note f = capped_flow [OF h b(5) assms(3) room b(1)]
  have soc: "0 \<le> Soc b - ?e / CapacityKWh b" "Soc b - ?e / CapacityKWh b \<le> 1" using f(6,7) b by auto
  have out: "actual = min (?room / ?h) ?a" "b' = b\<lparr>Soc := Soc b - ?e / CapacityKWh b\<rparr>"
    using assms(3,4) h f(1) soc by (auto simp: ApplyPower_def Let_def simp del: Hours_real)
  show ?thesis using out f(2-5) soc b assms(3) by (simp add: power_step_def battery_ok_def)
qed

lemma ApplyPower_charge:
  assumes "battery_ok b" "0 < dt" "p < 0" "ApplyPower b p dt = (actual, b')"
  shows "power_step b p dt actual b'"
proof -
  let ?h = "Hours dt :: real" and ?a = "if ChargeRateKW b < - p then ChargeRateKW b else - p"
  let ?room = "(1 - Soc b) * CapacityKWh b"
  let ?e = "min ?room (?a * ?h)"
  have h: "0 < ?h" using assms(2) by simp
  have b: "0 < CapacityKWh b" "0 \<le> Soc b" "Soc b \<le> 1" "0 \<le> ChargeRateKW b" "0 \<le> DischargeRateKW b"
    using assms(1) by (auto simp: battery_ok_def)
  have mp: "0 < - p" "mathAbs p = - p" "\<not> 0 < p" using assms(3) by auto
  have room: "0 \<le> ?room" "?room \<le> CapacityKWh b" using b by (auto simp: mult_left_le_one_le)
  note f = capped_flow [OF h b(4) mp(1) room b(1)]
  have soc: "0 \<le> Soc b + ?e / CapacityKWh b" "Soc b + ?e / CapacityKWh b \<le> 1" using f(6,7) b by auto
  have out: "actual = - min (?room / ?h) ?a" "b' = b\<lparr>Soc := Soc b + ?e / CapacityKWh b\<rparr>"
    using assms(3,4) h f(1) soc mp by (auto simp: ApplyPower_def Let_def simp del: Hours_real mathAbs_real)
  show ?thesis using out f(2-5) soc b assms(3) by (simp add: power_step_def battery_ok_def)
qed

lemma ApplyPower_balance:
  assumes "battery_ok b" "0 < dt" "ApplyPower b p dt = (actual, b')"
  shows "battery_ok b'" and "CapacityKWh b' = CapacityKWh b"
    and "(Soc b - Soc b') * CapacityKWh b = actual * Hours dt"
    and "0 \<le> p \<Longrightarrow> 0 \<le> actual \<and> actual \<le> min p (DischargeRateKW b)"
    and "p \<le> 0 \<Longrightarrow> actual \<le> 0 \<and> - actual \<le> min (- p) (ChargeRateKW b)"
    and "ChargeRateKW b' = ChargeRateKW b" "DischargeRateKW b' = DischargeRateKW b"
proof -
  consider "0 < p" | "p < 0" | "p = 0" by linarith
  then have "power_step b p dt actual b'"
  proof cases
    case 3
    then show ?thesis using assms by (auto simp: ApplyPower_def Let_def power_step_def battery_ok_def)
  qed (use assms ApplyPower_discharge ApplyPower_charge in blast)+
  then show "battery_ok b'" "CapacityKWh b' = CapacityKWh b"
    "(Soc b - Soc b') * CapacityKWh b = actual * Hours dt"
    "0 \<le> p \<Longrightarrow> 0 \<le> actual \<and> actual \<le> min p (DischargeRateKW b)"
    "p \<le> 0 \<Longrightarrow> actual \<le> 0 \<and> - actual \<le> min (- p) (ChargeRateKW b)"
    "ChargeRateKW b' = ChargeRateKW b" "DischargeRateKW b' = DischargeRateKW b"
    unfolding power_step_def by blast+
qed

text \<open>
  A battery step conserves energy: the state of charge changes by exactly the energy of the
  power reported as applied, stays between 0 and 1, and that power keeps the direction of the
  request and exceeds neither the request nor the rate of the battery.
\<close>

theorem battery_conserves_energy:
  fixes b :: "real Battery"
  assumes "battery_ok b" "0 < dt" "ApplyPower b p dt = (actual, b')"
  shows "(Soc b - Soc b') * CapacityKWh b = actual * Hours dt \<and> 0 \<le> Soc b' \<and> Soc b' \<le> 1 \<and>
    0 \<le> actual * p \<and> \<bar>actual\<bar> \<le> \<bar>p\<bar> \<and> actual \<le> DischargeRateKW b \<and> - actual \<le> ChargeRateKW b"
proof -
  note r = ApplyPower_balance [OF assms]
  have rates: "0 \<le> ChargeRateKW b" "0 \<le> DischargeRateKW b" using assms(1) by (auto simp: battery_ok_def)
  have "0 \<le> Soc b' \<and> Soc b' \<le> 1" using r(1) by (simp add: battery_ok_def)
  moreover have "0 \<le> actual * p \<and> \<bar>actual\<bar> \<le> \<bar>p\<bar> \<and> actual \<le> DischargeRateKW b \<and> - actual \<le> ChargeRateKW b"
    using r(4,5) rates by (cases "0 \<le> p") (auto simp: mult_nonpos_nonpos)
  ultimately show ?thesis using r(3) by blast
qed

theorem battery_conserves_energy_witness:
  "(1/2 - 1/4) * 40 = 10 * (Hours Hour :: real)"
proof -
  let ?b = "\<lparr>CapacityKWh = 40, Soc = 1/2, ChargeRateKW = 7, DischargeRateKW = 10\<rparr> :: real Battery"
  have "ApplyPower ?b 15 Hour = (10, ?b\<lparr>Soc := 1/4\<rparr>)"
    by (simp add: ApplyPower_def Let_def duration_units clampSoc_def)
  from battery_conserves_energy [OF _ _ this] show ?thesis
    by (simp add: battery_ok_def duration_units)
qed

subsection \<open>Runs of a vehicle\<close>

inductive sim_step :: "real SimulatedVehicle \<Rightarrow> real SimulatedVehicle \<Rightarrow> bool" where
  step_command: "sim_step v (onCommand now payload v)"
| step_worker: "worker_step st r cancelled ok now v = Some v' \<Longrightarrow> sim_step v v'"
| step_battery: "batteryTick dt now v = Some v' \<Longrightarrow> sim_step v v'"
| step_avail: "sim_step v (handleAvailabilityTick now r1 r2 newCli sub1 sub2 v)"
| step_depart: "sim_step v (depart now v)"
| step_discovery: "onDiscovery payload ok v = Some v' \<Longrightarrow> sim_step v v'"
| step_telemetry: "publishTelemetry now v = Some v' \<Longrightarrow> sim_step v v'"

inductive_cases sim_stepE: "sim_step v v'"

definition power_ok :: "real SimulatedVehicle \<Rightarrow> bool" where
  "power_ok v \<longleftrightarrow>
     (0 < currentPower v \<longrightarrow> currentPower v \<le> min (sv_MaxPower v) (DischargeRateKW (sv_Battery v))) \<and>
     (currentPower v < 0 \<longrightarrow> - currentPower v \<le> min (sv_MaxPower v) (ChargeRateKW (sv_Battery v)))"

definition sim_ok :: "real SimulatedVehicle \<Rightarrow> bool" where
  "sim_ok v \<longleftrightarrow> battery_ok (sv_Battery v) \<and> power_ok v \<and> length (ackCh v) \<le> ackChCap"

text \<open>The invariant reads only the fields below.\<close>

lemma sim_ok_cong:
  "sv_Battery v' = sv_Battery v \<Longrightarrow> currentPower v' = currentPower v \<Longrightarrow> sv_MaxPower v' = sv_MaxPower v \<Longrightarrow>
   length (ackCh v') \<le> length (ackCh v) \<Longrightarrow> sim_ok v \<Longrightarrow> sim_ok v'"
  by (simp add: sim_ok_def power_ok_def)

lemma sim_ok_command: "sim_ok v \<Longrightarrow> sim_ok (onCommand now payload v)"
  by (auto simp: sim_ok_def power_ok_def onCommand_def applyPowerOrder_def emit_def Let_def
      split: option.split if_splits)

lemma publishAck_frame:
  "publishAck ok c v = Some (sent, v') \<Longrightarrow> sv_Battery v' = sv_Battery v \<and> currentPower v' = currentPower v \<and>
    sv_MaxPower v' = sv_MaxPower v \<and> ackCh v' = ackCh v \<and> AvailabilityProfile v' = AvailabilityProfile v"
  by (auto simp: publishAck_def emit_def split: option.splits)

lemma Ack_frame:
  "AckStrategy_Ack st r cancelled ok c v = Some (sent, v') \<Longrightarrow> sv_Battery v' = sv_Battery v \<and>
    currentPower v' = currentPower v \<and> sv_MaxPower v' = sv_MaxPower v \<and> ackCh v' = ackCh v \<and>
    AvailabilityProfile v' = AvailabilityProfile v"
  by (cases st) (auto split: if_splits dest: publishAck_frame)

lemma sim_ok_worker:
  assumes "worker_step st r cancelled ok now v = Some v'" "sim_ok v"
  shows "sim_ok v'"
proof (cases "ackCh v")
  case (Cons cmd rest)
  then obtain sent v1 where a: "AckStrategy_Ack st r cancelled ok (cmd_id cmd) (v\<lparr>ackCh := rest\<rparr>) = Some (sent, v1)"
    and v': "v' = emit (EvResult (cmd_power cmd) (cmd_received cmd) sent) (emit (EvAckMetric (cmd_id cmd) sent now) v1)"
    using assms(1) by (auto simp: worker_step_def split: option.splits)
  show ?thesis
    by (rule sim_ok_cong [OF _ _ _ _ assms(2)]) (use Ack_frame [OF a] v' Cons in \<open>simp_all add: emit_def\<close>)
qed (use assms in \<open>simp add: worker_step_def\<close>)

lemma sim_ok_battery:
  assumes "batteryTick dt now v = Some v'" "sim_ok v"
  shows "sim_ok v'"
proof -
  obtain applied b where ap: "ApplyPower (sv_Battery v) (currentPower v) dt = (applied, b)" by fastforce
  define v1 where "v1 = v\<lparr>sv_Battery := b, currentPower := applied\<rparr>"
  have bok: "battery_ok (sv_Battery v)" and pok: "power_ok v" using assms(2) by (auto simp: sim_ok_def)
  have "battery_ok b \<and> power_ok v1"
  proof (cases "0 < dt")
    case True
    note r = ApplyPower_balance [OF bok True ap]
    have "power_ok v1"
      using pok r(4-7) unfolding power_ok_def v1_def by (cases "0 \<le> currentPower v") auto
    with r(1) show ?thesis by simp
  next
    case False
    then have "applied = 0" "b = sv_Battery v" using ap by (auto simp: ApplyPower_def Let_def)
    then show ?thesis using bok by (simp add: power_ok_def v1_def)
  qed
  then have ok1: "sim_ok v1" using assms(2) by (simp add: sim_ok_def v1_def)
  have frame: "sv_Battery v' = sv_Battery v1 \<and> currentPower v' = currentPower v1 \<and>
      sv_MaxPower v' = sv_MaxPower v1 \<and> ackCh v' = ackCh v1"
    using assms(1) ap
    by (auto simp: batteryTick_def Let_def v1_def emit_def publishTelemetry_def split: if_splits option.splits)
  show ?thesis by (rule sim_ok_cong [OF _ _ _ _ ok1]) (use frame in simp_all)
qed

lemma sim_ok_step: "sim_step v v' \<Longrightarrow> sim_ok v \<Longrightarrow> sim_ok v'"
proof (induction rule: sim_step.induct)
  case (step_avail v now r1 r2 newCli sub1 sub2)
  then show ?case
    by (auto simp: handleAvailabilityTick_def publishAvailability_def emit_def
        elim!: sim_ok_cong [rotated -1] split: option.split)
next
  case (step_depart v now)
  then show ?case
    by (auto simp: depart_def publishAvailability_def elim!: sim_ok_cong [rotated -1])
next
  case (step_discovery payload ok v v')
  then show ?case
    by (auto simp: onDiscovery_def emit_def elim!: sim_ok_cong [rotated -1] split: if_splits option.splits)
next
  case (step_telemetry now v v')
  then show ?case
    by (auto simp: publishTelemetry_def emit_def elim!: sim_ok_cong [rotated -1] split: option.splits)
qed (auto intro: sim_ok_command sim_ok_worker sim_ok_battery)

text \<open>
  In every run of a simulated vehicle, whatever commands, ticks, disconnections and random
  draws occur, the state of charge stays between 0 and 1, the current power stays within the
  limits of the vehicle and of the battery, and the acknowledgment queue within 50 commands.
\<close>

theorem simulated_vehicle_invariant:
  assumes "sim_step\<^sup>*\<^sup>* v v'" "sim_ok v"
  shows "0 \<le> Soc (sv_Battery v') \<and> Soc (sv_Battery v') \<le> 1 \<and> length (ackCh v') \<le> 50 \<and>
    (currentPower v' \<noteq> 0 \<longrightarrow> \<bar>currentPower v'\<bar> \<le> sv_MaxPower v') \<and>
    currentPower v' \<le> DischargeRateKW (sv_Battery v') \<and> - currentPower v' \<le> ChargeRateKW (sv_Battery v')"
proof -
  have "sim_ok v'" using assms by (induction rule: rtranclp_induct) (auto intro: sim_ok_step)
  then show ?thesis by (auto simp: sim_ok_def battery_ok_def power_ok_def ackChCap_def)
qed

definition sim_test :: "real SimulatedVehicle" where
  "sim_test = \<lparr>sv_ID = ''v1'', sv_IsV2G = True, sv_MaxPower = 10,
     sv_Battery = \<lparr>CapacityKWh = 40, Soc = 1/2, ChargeRateKW = 7, DischargeRateKW = 7\<rparr>,
     TopicPrefix = ''v2g'', StateTopicPrefix = ''v2g/state'', TelemetryPush = True,
     DisconnectRate = 1/10, AvailabilityProfile = replicate 24 1, currentPower = 0,
     sv_client = Some 0, ackCh = [], sv_log = []\<rparr>"

theorem simulated_vehicle_invariant_witness:
  "currentPower (onCommand timeZero (Some (''c1'', 5)) sim_test) = 5 \<and>
   \<bar>currentPower (onCommand timeZero (Some (''c1'', 5)) sim_test)\<bar> \<le> 10"
proof -
  have "sim_step\<^sup>*\<^sup>* sim_test (onCommand timeZero (Some (''c1'', 5)) sim_test)"
    by (intro r_into_rtranclp step_command)
  moreover have "sim_ok sim_test" by (simp add: sim_ok_def sim_test_def battery_ok_def power_ok_def)
  ultimately show ?thesis
    using simulated_vehicle_invariant [of sim_test "onCommand timeZero (Some (''c1'', 5)) sim_test"]
    by (simp add: onCommand_def applyPowerOrder_def sim_test_def emit_def ackChCap_def)
qed

text \<open>
  A vehicle that drops its connection never announces it: the client is set to nil before
  \<open>publishAvailability(false)\<close>, which returns at once. If it pushes telemetry, the next battery
  tick then calls a method on the nil client and panics.
\<close>

theorem disconnect_unannounced_then_panic:
  fixes v :: "real SimulatedVehicle"
  assumes "sv_client v \<noteq> None" "r1 < DisconnectRate v" "0 < DisconnectRate v" "TelemetryPush v"
    and "v' = handleAvailabilityTick now r1 r2 newCli sub1 sub2 v"
  shows "sv_log v' = sv_log v \<and> batteryTick dt now' v' = None"
  using assms
  by (auto simp: handleAvailabilityTick_def publishAvailability_def batteryTick_def publishTelemetry_def
      emit_def case_prod_unfold Let_def)

theorem disconnect_unannounced_then_panic_witness:
  "batteryTick Second timeZero (handleAvailabilityTick timeZero 0 0 None False False sim_test) = None"
  using disconnect_unannounced_then_panic [of sim_test 0
      "handleAvailabilityTick timeZero 0 0 None False False sim_test" timeZero 0 None False False Second timeZero]
  by (simp add: sim_test_def)

end
