(* ===== verification/Sim_Fleet.thy ===== *)
theory Sim_Fleet
  imports Simulator Go_Text
begin

text \<open>
  The fleet simulator around the simulated vehicle: its flags and their validation
  (\<open>simulator/config.go\<close>), the generation of a fleet (\<open>simulator/fleet.go\<close>) and the start of the
  vehicles (\<open>simulator/main.go\<close>). Reading files, decoding JSON, parsing RFC 3339 times, scanning a
  number and random numbers are arguments; the metrics sink and the flag parser are left out.
\<close>

subsection \<open>Configuration (simulator/config.go)\<close>

record 'n SimConfig =
  sc_Broker :: string
  sc_Count :: int
  sc_FleetSize :: int
  sc_AckLatency :: Duration
  sc_DropRate :: 'n
  sc_DisconnectRate :: 'n
  sc_CapacityKWh :: 'n
  sc_ChargeRateKW :: 'n
  sc_DischargeRateKW :: 'n
  sc_MaxPower :: 'n
  sc_Interval :: Duration
  sc_TelemetryPush :: bool
  sc_TelemetryInterval :: Duration
  sc_TelemetryRequestTopic :: string
  sc_TelemetryResponsePrefix :: string
  sc_StateTopicPrefix :: string
  sc_CommuterPct :: 'n
  sc_AvailabilityFile :: string
  sc_ScheduleFile :: string
  sc_TemplateFile :: string
  sc_BatteryProfile :: string
  sc_TopicPrefix :: string

text \<open>\<open>Validate\<close> fills in the fleet size and the intervals while it checks.\<close>

definition SimConfig_Validate :: "'n::{zero,one,ord} SimConfig \<Rightarrow> go_error + 'n SimConfig" where
  "SimConfig_Validate c =
     (if sc_Broker c = [] then Inl (Errorf ''broker is required'')
      else let c1 = (if sc_FleetSize c = 0 then c\<lparr>sc_FleetSize := sc_Count c\<rparr> else c) in
      if sc_FleetSize c1 \<le> 0 then Inl (Errorf ''fleet-size must be positive'')
      else if sc_DropRate c1 < 0 \<or> 1 < sc_DropRate c1 then Inl (Errorf ''drop-rate must be between 0 and 1'')
      else if sc_DisconnectRate c1 < 0 \<or> 1 < sc_DisconnectRate c1
      then Inl (Errorf ''disconnect-rate must be between 0 and 1'')
      else if sc_CapacityKWh c1 \<le> 0 then Inl (Errorf ''capacity must be positive'')
      else if sc_ChargeRateKW c1 \<le> 0 \<or> sc_DischargeRateKW c1 \<le> 0
      then Inl (Errorf ''charge and discharge rates must be positive'')
      else if sc_MaxPower c1 \<le> 0 then Inl (Errorf ''max-power must be positive'')
      else let c2 = (if sc_Interval c1 \<le> 0 then c1\<lparr>sc_Interval := Second\<rparr> else c1);
               c3 = (if sc_TelemetryInterval c2 \<le> 0 then c2\<lparr>sc_TelemetryInterval := sc_Interval c2\<rparr> else c2) in
      if sc_CommuterPct c3 < 0 \<or> 1 < sc_CommuterPct c3
      then Inl (Errorf ''commuter percentage must be between 0 and 1'')
      else Inr c3)"

text \<open>
  \<open>parseFlags\<close>: the defaults of the flags, then what the command line sets, in order. The flags for
  the verbosity and for InfluxDB do not reach the vehicles.
\<close>

definition flag_defaults :: "'n::{zero,one,plus,inverse} SimConfig" where
  "flag_defaults =
     \<lparr>sc_Broker = ''tcp://localhost:1883'', sc_Count = 1, sc_FleetSize = 0, sc_AckLatency = 0, sc_DropRate = 0,
      sc_DisconnectRate = 0, sc_CapacityKWh = lit 40 1, sc_ChargeRateKW = lit 7 1, sc_DischargeRateKW = lit 10 1,
      sc_MaxPower = lit 10 1, sc_Interval = Second * 30, sc_TelemetryPush = False, sc_TelemetryInterval = 10 * Second,
      sc_TelemetryRequestTopic = ''v2g/telemetry/request'', sc_TelemetryResponsePrefix = ''v2g/telemetry/response/'',
      sc_StateTopicPrefix = ''v2g/vehicle/state/'', sc_CommuterPct = 0, sc_AvailabilityFile = [], sc_ScheduleFile = [],
      sc_TemplateFile = [], sc_BatteryProfile = [], sc_TopicPrefix = ''v2g''\<rparr>"

definition parseFlags :: "('n SimConfig \<Rightarrow> 'n SimConfig) list \<Rightarrow> 'n::{zero,one,plus,inverse} SimConfig" where
  "parseFlags given = foldl (\<lambda>c f. f c) flag_defaults given"

text \<open>The simulator starts without any flag: one vehicle, with the defaults unchanged.\<close>

lemma parseFlags_default_valid:
  "SimConfig_Validate (parseFlags [] :: real SimConfig) = Inr ((parseFlags [])\<lparr>sc_FleetSize := 1\<rparr>)"
  by (simp add: parseFlags_def flag_defaults_def SimConfig_Validate_def Let_def duration_units)

definition applyBatteryProfile :: "'n::{zero,one,plus,inverse} SimConfig \<Rightarrow> 'n SimConfig" where
  "applyBatteryProfile c =
     (if sc_BatteryProfile c = ''small''
      then c\<lparr>sc_CapacityKWh := lit 20 1, sc_ChargeRateKW := lit 36 10, sc_DischargeRateKW := lit 7 1\<rparr>
      else if sc_BatteryProfile c = ''medium''
      then c\<lparr>sc_CapacityKWh := lit 40 1, sc_ChargeRateKW := lit 7 1, sc_DischargeRateKW := lit 10 1\<rparr>
      else if sc_BatteryProfile c = ''large''
      then c\<lparr>sc_CapacityKWh := lit 80 1, sc_ChargeRateKW := lit 11 1, sc_DischargeRateKW := lit 20 1\<rparr>
      else c)"

subsection \<open>Fleet (simulator/fleet.go)\<close>

text \<open>The fields of \<open>SimulatedVehicle\<close> that its handlers do not read.\<close>

record 'n FleetVehicle = "'n SimulatedVehicle" +
  fv_Segment :: string
  fv_Departure :: Time
  fv_Broker :: string
  fv_Interval :: Duration
  fv_TelemetryRequestTopic :: string
  fv_TelemetryResponsePrefix :: string

record 'n FleetConfig =
  fc_Size :: int
  fc_CommuterPct :: 'n
  fc_DisconnectRate :: 'n
  fc_Availability :: "'n list"
  fc_Schedule :: "string \<rightharpoonup> Time"

definition vehicleName :: "nat \<Rightarrow> string" where
  "vehicleName i = ''veh'' @ padded 3 (i + 1)"

text \<open>
  \<open>parse\<close> is \<open>time.Parse(time.RFC3339, \<dots>)\<close>; a template maps a name to its \<open>departure\<close> text. A schedule
  entry has precedence; a departure that does not parse is ignored.
\<close>

definition departureOf ::
  "(string \<Rightarrow> Time option) \<Rightarrow> (string \<rightharpoonup> Time) \<Rightarrow> (string \<rightharpoonup> string) option \<Rightarrow> string \<Rightarrow> Time" where
  "departureOf parse schedule tmpl i =
     (case schedule i of
        Some t \<Rightarrow> t
      | None \<Rightarrow>
          (case tmpl of
             None \<Rightarrow> timeZero
           | Some m \<Rightarrow>
               (case m i of
                  None \<Rightarrow> timeZero
                | Some d \<Rightarrow> if d \<noteq> [] then (case parse d of None \<Rightarrow> timeZero | Some t \<Rightarrow> t) else timeZero)))"

text \<open>The vehicle \<open>i\<close> of the fleet; \<open>u\<close> is its random number.\<close>

definition fleetVehicle ::
  "(string \<Rightarrow> Time option) \<Rightarrow> (string \<rightharpoonup> string) option \<Rightarrow> 'n::{zero,one,plus,ord} FleetConfig
    \<Rightarrow> (nat \<Rightarrow> 'n) \<Rightarrow> nat \<Rightarrow> 'n FleetVehicle" where
  "fleetVehicle parse tmpl cfg rnd i =
     \<lparr>sv_ID = vehicleName i, sv_IsV2G = True, sv_MaxPower = 0,
      sv_Battery = \<lparr>CapacityKWh = 0, Soc = 0, ChargeRateKW = 0, DischargeRateKW = 0\<rparr>,
      TopicPrefix = [], StateTopicPrefix = [], TelemetryPush = False, DisconnectRate = fc_DisconnectRate cfg,
      AvailabilityProfile = fc_Availability cfg, currentPower = 0, sv_client = None, ackCh = [], sv_log = [],
      fv_Segment = (if 0 < fc_CommuterPct cfg \<and> rnd i < fc_CommuterPct cfg then ''commuter'' else ''opportunistic''),
      fv_Departure = departureOf parse (fc_Schedule cfg) tmpl (vehicleName i), fv_Broker = [], fv_Interval = 0,
      fv_TelemetryRequestTopic = [], fv_TelemetryResponsePrefix = []\<rparr>"

definition GenerateFleet ::
  "(string \<Rightarrow> Time option) \<Rightarrow> (string \<rightharpoonup> string) option \<Rightarrow> 'n::{zero,one,plus,ord} FleetConfig
    \<Rightarrow> (nat \<Rightarrow> 'n) \<Rightarrow> 'n FleetVehicle list" where
  "GenerateFleet parse tmpl cfg rnd =
     (if fc_Size cfg \<le> 0 then [] else map (fleetVehicle parse tmpl cfg rnd) [0..<nat (fc_Size cfg)])"

text \<open>
  \<open>LoadAvailabilityProfile\<close>: \<open>raw\<close> is the decoded object, \<open>hs\<close> the order of its keys, \<open>scan\<close> the
  number that \<open>Sscanf\<close> reads.
\<close>

definition LoadAvailabilityProfile ::
  "(string \<Rightarrow> int option) \<Rightarrow> string list \<Rightarrow> go_error + (string \<rightharpoonup> 'n::zero) \<Rightarrow> go_error + 'n list" where
  "LoadAvailabilityProfile scan hs raw =
     (case raw of
        Inl e \<Rightarrow> Inl e
      | Inr m \<Rightarrow>
          Inr (foldl (\<lambda>prof h. case scan h of
                 None \<Rightarrow> prof
               | Some hour \<Rightarrow> if 0 \<le> hour \<and> hour < 24 then prof[nat hour := getd 0 m h] else prof)
               (replicate 24 0) hs))"

subsection \<open>Starting the fleet (simulator/main.go)\<close>

text \<open>
  A file is the error of \<open>os.ReadFile\<close> or what the decoder makes of its bytes; for an object whose keys are
  looped over, the order of its keys comes with it.
\<close>

definition readTemplateFile :: "go_error + (go_error + (string \<rightharpoonup> string)) \<Rightarrow> go_error + (string \<rightharpoonup> string)" where
  "readTemplateFile data = (case data of Inl err \<Rightarrow> Inl err | Inr (Inl err) \<Rightarrow> Inl err | Inr (Inr m) \<Rightarrow> Inr m)"

definition readAvailabilityFile ::
  "(string \<Rightarrow> int option) \<Rightarrow> go_error + (string list \<times> (go_error + (string \<rightharpoonup> 'n::zero))) \<Rightarrow> go_error + 'n list" where
  "readAvailabilityFile scan data =
     (case data of Inl err \<Rightarrow> Inl err | Inr (hs, raw) \<Rightarrow> LoadAvailabilityProfile scan hs raw)"

text \<open>\<open>readScheduleFile\<close>: \<open>raw\<close> is the decoded object, \<open>ks\<close> the order of its keys.\<close>

fun schedule_loop ::
  "(string \<Rightarrow> Time option) \<Rightarrow> (string \<rightharpoonup> string) \<Rightarrow> string list \<Rightarrow> (string \<rightharpoonup> Time) \<Rightarrow> go_error + (string \<rightharpoonup> Time)" where
  "schedule_loop parse raw [] sched = Inr sched"
| "schedule_loop parse raw (k # ks) sched =
     (case parse (getd [] raw k) of
        None \<Rightarrow> Inl (Wrapped (''invalid departure for '' @ k) (Errorf ''parsing time''))
      | Some t \<Rightarrow> schedule_loop parse raw ks (sched(k \<mapsto> t)))"

definition readScheduleFile ::
  "(string \<Rightarrow> Time option) \<Rightarrow> string list \<Rightarrow> go_error + (string \<rightharpoonup> string) \<Rightarrow> go_error + (string \<rightharpoonup> Time)" where
  "readScheduleFile parse ks raw =
     (case raw of Inl e \<Rightarrow> Inl e | Inr m \<Rightarrow> schedule_loop parse m ks Map.empty)"

text \<open>The fields that \<open>runVehicles\<close> sets, and the client that \<open>Run\<close> connects.\<close>

definition startVehicle ::
  "'n::{zero,one,plus,inverse} SimConfig \<Rightarrow> nat \<Rightarrow> 'n FleetVehicle \<Rightarrow> 'n FleetVehicle" where
  "startVehicle c client v =
     v\<lparr>sv_Battery := \<lparr>CapacityKWh = sc_CapacityKWh c, Soc = lit 8 10, ChargeRateKW = sc_ChargeRateKW c,
         DischargeRateKW = sc_DischargeRateKW c\<rparr>,
       fv_Broker := sc_Broker c, TopicPrefix := sc_TopicPrefix c, fv_Interval := sc_TelemetryInterval c,
       sv_MaxPower := sc_MaxPower c, TelemetryPush := sc_TelemetryPush c,
       fv_TelemetryRequestTopic := sc_TelemetryRequestTopic c,
       fv_TelemetryResponsePrefix := sc_TelemetryResponsePrefix c, StateTopicPrefix := sc_StateTopicPrefix c,
       sv_client := Some client\<rparr>"

definition runVehicles ::
  "'n::{zero,one,plus,inverse} SimConfig \<Rightarrow> 'n FleetVehicle list \<Rightarrow> 'n FleetVehicle list" where
  "runVehicles c vs = map (\<lambda>(k, v). startVehicle c k v) (zip [0..<length vs] vs)"

text \<open>
  \<open>main\<close>: the contents of the three optional files are \<^term>\<open>None\<close> when the flag is not set, else what
  reading them gives.
\<close>

definition sim_main ::
  "(string \<Rightarrow> Time option) \<Rightarrow> (string \<Rightarrow> int option) \<Rightarrow> (nat \<Rightarrow> 'n) \<Rightarrow> (go_error + (go_error + (string \<rightharpoonup> string))) option
    \<Rightarrow> (go_error + (string list \<times> (go_error + (string \<rightharpoonup> 'n)))) option \<Rightarrow> (string list \<times> (go_error + (string \<rightharpoonup> string))) option
    \<Rightarrow> 'n::{zero,one,plus,inverse,ord} SimConfig \<Rightarrow> go_error + 'n FleetVehicle list" where
  "sim_main parse scan rnd tmplFile availFile schedFile c0 =
     (case SimConfig_Validate c0 of
        Inl e \<Rightarrow> Inl e
      | Inr c1 \<Rightarrow>
     let c = applyBatteryProfile c1 in
     case (case tmplFile of None \<Rightarrow> Inr None | Some data \<Rightarrow> map_sum id Some (readTemplateFile data)) of
        Inl e \<Rightarrow> Inl e
      | Inr tmpl \<Rightarrow>
     case (case availFile of None \<Rightarrow> Inr (replicate 24 1) | Some data \<Rightarrow> readAvailabilityFile scan data) of
        Inl e \<Rightarrow> Inl e
      | Inr prof \<Rightarrow>
     case (case schedFile of None \<Rightarrow> Inr Map.empty | Some (ks, raw) \<Rightarrow> readScheduleFile parse ks raw) of
        Inl e \<Rightarrow> Inl e
      | Inr schedule \<Rightarrow>
          Inr (runVehicles c (GenerateFleet parse tmpl
            \<lparr>fc_Size = sc_FleetSize c, fc_CommuterPct = sc_CommuterPct c, fc_DisconnectRate = sc_DisconnectRate c,
             fc_Availability = prof, fc_Schedule = schedule\<rparr> rnd)))"

subsection \<open>The fleet that is started\<close>

lemma SimConfig_Validate_ok:
  assumes "SimConfig_Validate c = Inr (c' :: real SimConfig)"
  shows "0 < sc_FleetSize c'" "sc_FleetSize c' = (if sc_FleetSize c = 0 then sc_Count c else sc_FleetSize c)"
    and "0 < sc_CapacityKWh c'" "0 < sc_ChargeRateKW c'" "0 < sc_DischargeRateKW c'" "0 < sc_MaxPower c'"
    and "sc_MaxPower c' = sc_MaxPower c" "0 < sc_TelemetryInterval c'"
  using assms by (auto simp: SimConfig_Validate_def Let_def Second_def split: if_splits)

lemma applyBatteryProfile_ok:
  fixes c :: "real SimConfig"
  assumes "0 < sc_CapacityKWh c" "0 < sc_ChargeRateKW c" "0 < sc_DischargeRateKW c"
  shows "0 < sc_CapacityKWh (applyBatteryProfile c)" "0 < sc_ChargeRateKW (applyBatteryProfile c)"
    "0 < sc_DischargeRateKW (applyBatteryProfile c)"
  using assms by (simp_all add: applyBatteryProfile_def)

lemma applyBatteryProfile_frame [simp]:
  "sc_FleetSize (applyBatteryProfile c) = sc_FleetSize c" "sc_MaxPower (applyBatteryProfile c) = sc_MaxPower c"
  "sc_TelemetryInterval (applyBatteryProfile c) = sc_TelemetryInterval c"
  by (simp_all add: applyBatteryProfile_def)

lemma vehicleName_inj: "inj vehicleName"
  by (rule injI) (auto simp: vehicleName_def dest: padded_inj)

lemma GenerateFleet_ids:
  "map sv_ID (GenerateFleet parse tmpl cfg rnd) = map vehicleName [0..<nat (fc_Size cfg)]"
  by (simp add: GenerateFleet_def fleetVehicle_def)

lemma profile_length:
  "length (foldl (\<lambda>prof h. case scan h of None \<Rightarrow> prof
     | Some hour \<Rightarrow> if 0 \<le> hour \<and> hour < 24 then prof[nat hour := f h] else prof) xs hs) = length xs"
  by (induction hs arbitrary: xs) (auto split: option.split)

lemma LoadAvailabilityProfile_length: "LoadAvailabilityProfile scan hs raw = Inr prof \<Longrightarrow> length prof = 24"
  by (auto simp: LoadAvailabilityProfile_def profile_length split: sum.splits)

lemma hourOfDay_less: "hourOfDay t < 24"
proof -
  have "x mod 86400000000000 div 3600000000000 < 24" for x :: int
  proof -
    have "x mod 86400000000000 < 86400000000000" by (rule pos_mod_bound) simp
    then have "x mod 86400000000000 div 3600000000000 \<le> 86399999999999 div 3600000000000" by (intro zdiv_mono1) auto
    then show ?thesis by simp
  qed
  then show ?thesis by (simp add: hourOfDay_def duration_units nat_less_iff)
qed

text \<open>What \<open>main\<close> promises of the vehicles it starts.\<close>

definition started_ok :: "real SimConfig \<Rightarrow> real FleetVehicle \<Rightarrow> bool" where
  "started_ok c v \<longleftrightarrow> sim_ok (SimulatedVehicle.truncate v) \<and> sv_MaxPower v = sc_MaxPower c \<and> 0 < fv_Interval v \<and>
     length (AvailabilityProfile v) = 24 \<and> sv_client v \<noteq> None"

lemma startVehicle_ok:
  assumes "0 < sc_CapacityKWh c" "0 < sc_ChargeRateKW c" "0 < sc_DischargeRateKW c" "0 < sc_TelemetryInterval c"
    and "length (AvailabilityProfile v) = 24" "currentPower v = 0" "ackCh v = []"
  shows "started_ok c (startVehicle c k v)"
  using assms
  by (simp add: started_ok_def startVehicle_def sim_ok_def battery_ok_def power_ok_def SimulatedVehicle.truncate_def)

lemma sim_step_frame:
  "sim_step v v' \<Longrightarrow> sv_MaxPower v' = sv_MaxPower v \<and> AvailabilityProfile v' = AvailabilityProfile v"
proof (induction rule: sim_step.induct)
  case (step_worker st r cancelled ok now v v')
  show ?case
  proof (cases "ackCh v")
    case (Cons cmd rest)
    then obtain sent v1 where "AckStrategy_Ack st r cancelled ok (cmd_id cmd) (v\<lparr>ackCh := rest\<rparr>) = Some (sent, v1)"
      "v' = emit (EvResult (cmd_power cmd) (cmd_received cmd) sent) (emit (EvAckMetric (cmd_id cmd) sent now) v1)"
      using step_worker by (auto simp: worker_step_def split: option.splits)
    then show ?thesis using Ack_frame by (fastforce simp: emit_def)
  qed (use step_worker in \<open>simp add: worker_step_def\<close>)
qed (auto simp: onCommand_def applyPowerOrder_def emit_def Let_def batteryTick_def publishTelemetry_def
    handleAvailabilityTick_def publishAvailability_def depart_def onDiscovery_def
    split: option.splits if_splits prod.splits)

lemma runVehicles_sel:
  "length (runVehicles c vs) = length vs" "map sv_ID (runVehicles c vs) = map sv_ID vs"
  by (auto simp: runVehicles_def startVehicle_def case_prod_unfold intro!: nth_equalityI)

lemma runVehicles_mem: "w \<in> set (runVehicles c vs) \<Longrightarrow> \<exists>k. \<exists>v\<in>set vs. w = startVehicle c k v"
  unfolding runVehicles_def by (auto dest: set_zip_rightD)

lemma sim_main_started:
  assumes "sim_main parse scan rnd tmplFile availFile schedFile c0 = Inr vs"
  obtains size where "size = (if sc_FleetSize c0 = 0 then sc_Count c0 else sc_FleetSize c0)" "0 < size"
    "map sv_ID vs = map vehicleName [0..<nat size]" "\<forall>v\<in>set vs. started_ok c0 v"
proof -
  obtain c1 tmpl prof schedule where c1: "SimConfig_Validate c0 = Inr c1"
    and prof: "(case availFile of None \<Rightarrow> Inr (replicate 24 1) | Some data \<Rightarrow> readAvailabilityFile scan data) = Inr prof"
    and vs: "vs = runVehicles (applyBatteryProfile c1) (GenerateFleet parse tmpl
      \<lparr>fc_Size = sc_FleetSize (applyBatteryProfile c1), fc_CommuterPct = sc_CommuterPct (applyBatteryProfile c1),
       fc_DisconnectRate = sc_DisconnectRate (applyBatteryProfile c1), fc_Availability = prof, fc_Schedule = schedule\<rparr> rnd)"
    using assms by (auto simp: sim_main_def Let_def split: sum.splits)
  have len: "length prof = 24" using prof by (auto simp: readAvailabilityFile_def LoadAvailabilityProfile_length split: option.splits prod.splits sum.splits)
  note v = SimConfig_Validate_ok [OF c1] and b = applyBatteryProfile_ok [of c1]
  have "started_ok c0 w" if w: "w \<in> set vs" for w
  proof -
    obtain k x where x: "x \<in> set (GenerateFleet parse tmpl
      \<lparr>fc_Size = sc_FleetSize (applyBatteryProfile c1), fc_CommuterPct = sc_CommuterPct (applyBatteryProfile c1),
       fc_DisconnectRate = sc_DisconnectRate (applyBatteryProfile c1), fc_Availability = prof, fc_Schedule = schedule\<rparr> rnd)"
      "w = startVehicle (applyBatteryProfile c1) k x" using runVehicles_mem w unfolding vs by blast
    then have "length (AvailabilityProfile x) = 24" "currentPower x = 0" "ackCh x = []"
      by (auto simp: GenerateFleet_def fleetVehicle_def len split: if_splits)
    then have "started_ok (applyBatteryProfile c1) w"
      unfolding x(2) using b v(3-5,8) by (intro startVehicle_ok) simp_all
    then show ?thesis using v(7) by (simp add: started_ok_def)
  qed
  then show ?thesis using that v(1,2) by (simp add: vs runVehicles_sel GenerateFleet_ids)
qed

text \<open>
  C32. From the flags to the running fleet: if \<open>main\<close> starts, it starts as many vehicles as the flags
  ask for, under names of their own, and whatever happens to a vehicle afterwards, its state of
  charge stays between zero and one, its power within the limit of the flags, and the hour of any
  clock reading is an index of its availability profile.
\<close>

theorem simulator_fleet_invariant:
  assumes "sim_main parse scan rnd tmplFile availFile schedFile c0 = Inr vs"
    and "v \<in> set vs" "sim_step\<^sup>*\<^sup>* (SimulatedVehicle.truncate v) w"
  shows "int (length vs) = (if sc_FleetSize c0 = 0 then sc_Count c0 else sc_FleetSize c0) \<and> distinct (map sv_ID vs) \<and>
    0 \<le> Soc (sv_Battery w) \<and> Soc (sv_Battery w) \<le> 1 \<and> \<bar>currentPower w\<bar> \<le> sc_MaxPower c0 \<and>
    hourOfDay now < length (AvailabilityProfile w)"
  using assms(1)
proof (rule sim_main_started)
  fix size
  assume size: "size = (if sc_FleetSize c0 = 0 then sc_Count c0 else sc_FleetSize c0)" "0 < size"
    and ids: "map sv_ID vs = map vehicleName [0..<nat size]" and ok: "\<forall>v\<in>set vs. started_ok c0 v"
  have v: "sim_ok (SimulatedVehicle.truncate v)" "sv_MaxPower v = sc_MaxPower c0" "length (AvailabilityProfile v) = 24"
    using ok assms(2) by (auto simp: started_ok_def)
  have "sim_ok w \<and> sv_MaxPower w = sc_MaxPower c0 \<and> length (AvailabilityProfile w) = 24"
    using assms(3) by (induction rule: rtranclp_induct)
      (use v sim_ok_step sim_step_frame in \<open>auto simp: SimulatedVehicle.truncate_def\<close>)
  moreover have "0 < sc_MaxPower c0"
    using SimConfig_Validate_ok(6,7) assms(1) by (auto simp: sim_main_def split: sum.splits)
  moreover note hourOfDay_less [of now]
  moreover have "length vs = nat size" using arg_cong [OF ids, of length] by simp
  moreover have "distinct (map sv_ID vs)" unfolding ids by (simp add: distinct_map inj_on_subset [OF vehicleName_inj])
  ultimately show ?thesis using size by (auto simp: sim_ok_def battery_ok_def power_ok_def)
qed

definition sim_cfg_test :: "real SimConfig" where
  "sim_cfg_test = \<lparr>sc_Broker = ''tcp://localhost:1883'', sc_Count = 2, sc_FleetSize = 0, sc_AckLatency = 0, sc_DropRate = 0,
     sc_DisconnectRate = 0, sc_CapacityKWh = 40, sc_ChargeRateKW = 7, sc_DischargeRateKW = 10, sc_MaxPower = 10,
     sc_Interval = 30 * Second, sc_TelemetryPush = False, sc_TelemetryInterval = 10 * Second,
     sc_TelemetryRequestTopic = [], sc_TelemetryResponsePrefix = [], sc_StateTopicPrefix = [], sc_CommuterPct = 0,
     sc_AvailabilityFile = [], sc_ScheduleFile = [], sc_TemplateFile = [], sc_BatteryProfile = ''large'', sc_TopicPrefix = ''v2g''\<rparr>"

theorem simulator_fleet_invariant_witness:
  "\<exists>vs v. sim_main (\<lambda>_. None) (\<lambda>_. None) (\<lambda>_. 0) None None None sim_cfg_test = Inr vs \<and> v \<in> set vs \<and>
     length vs = 2 \<and> distinct (map sv_ID vs) \<and>
     \<bar>currentPower (onCommand timeZero (Some (''c1'', 5)) (SimulatedVehicle.truncate v))\<bar> \<le> 10"
proof -
  obtain vs where vs: "sim_main (\<lambda>_. None) (\<lambda>_. None) (\<lambda>_. 0) None None None sim_cfg_test = Inr vs"
    by (simp add: sim_main_def SimConfig_Validate_def sim_cfg_test_def Second_def Let_def)
  have "length vs = 2"
    using vs by (rule sim_main_started) (auto simp: sim_cfg_test_def dest: map_eq_imp_length_eq)
  then obtain v where v: "v \<in> set vs" by (cases vs) auto
  have "sim_step\<^sup>*\<^sup>* (SimulatedVehicle.truncate v) (onCommand timeZero (Some (''c1'', 5)) (SimulatedVehicle.truncate v))"
    by (intro r_into_rtranclp step_command)
  from simulator_fleet_invariant [OF vs v this] v vs \<open>length vs = 2\<close> show ?thesis
    by (intro exI [of _ vs] exI [of _ v]) (simp add: sim_cfg_test_def)
qed

end
