(* ===== verification/Sim_Run.thy ===== *)
theory Sim_Run
  imports Sim_Fleet
begin

text \<open>
  The life of a simulated vehicle, \<open>Run\<close> of \<open>simulator/vehicle.go\<close>: its five workers, the battery
  and the availability loop, the callbacks of its MQTT subscriptions, and its shutdown. The
  goroutines interleave as steps of a relation; a step to \<^term>\<open>None\<close> is a panic, which ends the
  process. What a goroutine does in a step are the handlers of \<open>Simulator\<close>.
\<close>

subsection \<open>Connecting (simulator/mqtt_sim.go)\<close>

text \<open>\<open>connect\<close> is the outcome of Paho: a handle for the client, or the error of its token.\<close>

definition realMQTTClient :: "string \<Rightarrow> string \<Rightarrow> go_error + nat \<Rightarrow> go_error + nat" where
  "realMQTTClient broker clientID connect =
     (if broker = [] \<or> clientID = [] then Inl (Errorf ''broker and clientID must be provided'') else connect)"

definition NewSimulatedVehicle ::
  "string \<Rightarrow> string \<Rightarrow> string \<Rightarrow> 'n Battery \<Rightarrow> Duration \<Rightarrow> 'n \<Rightarrow> 'n::zero FleetVehicle" where
  "NewSimulatedVehicle i broker pre battery interval maxPower =
     \<lparr>sv_ID = i, sv_IsV2G = True, sv_MaxPower = maxPower, sv_Battery = battery, TopicPrefix = pre, StateTopicPrefix = [],
      TelemetryPush = False, DisconnectRate = 0, AvailabilityProfile = replicate 24 0, currentPower = 0, sv_client = None,
      ackCh = [], sv_log = [], fv_Segment = [], fv_Departure = timeZero, fv_Broker = broker, fv_Interval = interval,
      fv_TelemetryRequestTopic = [], fv_TelemetryResponsePrefix = []\<rparr>"

subsection \<open>State\<close>

text \<open>Where \<open>Run\<close> stands: it serves, it drains after the channel is closed, or it has returned.\<close>

datatype run_phase = Serving | Draining | Returned "go_error option"

text \<open>
  \<open>run_first\<close> is the client of \<open>Run\<close>, \<open>run_subs\<close> the subscriptions in force, by client and topic.
\<close>

record 'n vehicle_run =
  run_vehicle :: "'n SimulatedVehicle"
  run_first :: nat
  run_subs :: "(nat \<times> string) set"
  run_request :: string
  run_interval :: Duration
  run_cancelled :: bool
  run_closed :: bool
  run_workers :: nat
  run_battery :: bool
  run_avail :: bool
  run_departs :: bool
  run_phase :: run_phase

definition discoveryTopic :: "'n SimulatedVehicle \<Rightarrow> string" where
  "discoveryTopic v = trimSlash (TopicPrefix v) @ ''/fleet/discovery''"

definition commandTopic :: "'n SimulatedVehicle \<Rightarrow> string" where
  "commandTopic v = ''vehicle/'' @ sv_ID v @ ''/command''"

definition requestTopics :: "string \<Rightarrow> 'n SimulatedVehicle \<Rightarrow> string list" where
  "requestTopics req v = (if req \<noteq> [] then [req, trimSlash req @ ''/'' @ sv_ID v] else [])"

text \<open>Subscribing in turn up to the first error; \<open>sub\<close> is the outcome by topic.\<close>

fun subscribe_all :: "(string \<Rightarrow> go_error option) \<Rightarrow> string list \<Rightarrow> go_error option" where
  "subscribe_all sub [] = None"
| "subscribe_all sub (t # ts) = (case sub t of Some e \<Rightarrow> Some e | None \<Rightarrow> subscribe_all sub ts)"

text \<open>\<open>Run\<close> up to its wait: on a failed subscription it returns while its goroutines go on.\<close>

definition Run_start ::
  "(go_error + nat) \<Rightarrow> (string \<Rightarrow> go_error option) \<Rightarrow> 'n FleetVehicle \<Rightarrow> 'n vehicle_run" where
  "Run_start connect sub fv =
     (let v = SimulatedVehicle.truncate fv; req = fv_TelemetryRequestTopic fv in
      case realMQTTClient (fv_Broker fv) (''sim-'' @ sv_ID v) connect of
        Inl e \<Rightarrow> \<lparr>run_vehicle = v, run_first = 0, run_subs = {}, run_request = req, run_interval = fv_Interval fv, run_cancelled = False,
            run_closed = False, run_workers = 0, run_battery = False, run_avail = False, run_departs = False,
            run_phase = Returned (Some e)\<rparr>
      | Inr c \<Rightarrow>
          (let topics = [discoveryTopic v, commandTopic v] @ requestTopics req v;
               err = subscribe_all sub topics
           in \<lparr>run_vehicle = v\<lparr>sv_client := Some c\<rparr>, run_first = c,
               run_subs = (if err = None then (\<lambda>t. (c, t)) ` set topics else {}), run_request = req, run_interval = fv_Interval fv,
               run_cancelled = False, run_closed = False, run_workers = 5, run_battery = True, run_avail = True,
               run_departs = (\<not> IsZero (fv_Departure fv)),
               run_phase = (if err = None then Serving else Returned err)\<rparr>))"

text \<open>The channel of the departure (\<open>availabilityLoop\<close>): nil, or a timer that fires after a duration.\<close>

definition departTimer :: "Time \<Rightarrow> Time \<Rightarrow> Duration option" where
  "departTimer now departure =
     (if \<not> IsZero departure then Some (let d = timeSub departure now in if d < 0 then 0 else d) else None)"

lemma departTimer_run:
  assumes "realMQTTClient (fv_Broker fv) (''sim-'' @ sv_ID fv) connect = Inr c"
  shows "run_departs (Run_start connect sub fv) \<longleftrightarrow> departTimer now (fv_Departure fv) \<noteq> None"
    and "departTimer now (fv_Departure fv) = Some d \<Longrightarrow> 0 \<le> d \<and> d = max 0 (timeSub (fv_Departure fv) now)"
  using assms by (auto simp: Run_start_def departTimer_def Let_def SimulatedVehicle.defs split: if_splits)

subsection \<open>Steps\<close>

text \<open>
  After a tick or a departure, the client in use has changed or not: a client that was dropped has
  lost its subscriptions, a new one has those of the discovery and the command topic.
\<close>

definition follow_client :: "'n SimulatedVehicle \<Rightarrow> 'n vehicle_run \<Rightarrow> 'n vehicle_run" where
  "follow_client v s =
     s\<lparr>run_vehicle := v,
       run_subs := (if sv_client v = sv_client (run_vehicle s) then run_subs s
                    else {(c, t). (c, t) \<in> run_subs s \<and> Some c \<noteq> sv_client (run_vehicle s)} \<union>
                         (case sv_client v of None \<Rightarrow> {} | Some c \<Rightarrow> {(c, discoveryTopic v), (c, commandTopic v)}))\<rparr>"

definition onTelemetryRequest :: "Time \<Rightarrow> 'n::{zero,ord} SimulatedVehicle \<Rightarrow> 'n SimulatedVehicle option" where
  "onTelemetryRequest now v = publishTelemetry now v"

text \<open>
  The battery loop begins with \<open>time.NewTicker(v.Interval)\<close>, which panics when the interval is not positive;
  the other ticker has a constant interval.
\<close>

inductive run_step :: "real vehicle_run \<Rightarrow> real vehicle_run option \<Rightarrow> bool" where
  cancel: "run_step s (Some (s\<lparr>run_cancelled := True\<rparr>))"
| command: "(c, commandTopic (run_vehicle s)) \<in> run_subs s \<Longrightarrow>
    run_step s (if run_closed s \<and> payload \<noteq> None then None
                else Some (s\<lparr>run_vehicle := onCommand now payload (run_vehicle s)\<rparr>))"
| discovery: "(c, discoveryTopic (run_vehicle s)) \<in> run_subs s \<Longrightarrow>
    run_step s (map_option (\<lambda>v. s\<lparr>run_vehicle := v\<rparr>) (onDiscovery payload ok (run_vehicle s)))"
| request: "(c, t) \<in> run_subs s \<Longrightarrow> t \<in> set (requestTopics (run_request s) (run_vehicle s)) \<Longrightarrow>
    run_step s (map_option (\<lambda>v. s\<lparr>run_vehicle := v\<rparr>) (onTelemetryRequest now (run_vehicle s)))"
| worker: "0 < run_workers s \<Longrightarrow> ackCh (run_vehicle s) \<noteq> [] \<Longrightarrow> (cancelled \<longrightarrow> run_cancelled s) \<Longrightarrow>
    run_step s (map_option (\<lambda>v. s\<lparr>run_vehicle := v\<rparr>) (worker_step st r cancelled ok now (run_vehicle s)))"
| worker_exit: "0 < run_workers s \<Longrightarrow> run_cancelled s \<or> run_closed s \<and> ackCh (run_vehicle s) = [] \<Longrightarrow>
    run_step s (Some (s\<lparr>run_workers := run_workers s - 1\<rparr>))"
| ticker: "run_battery s \<Longrightarrow> run_interval s \<le> 0 \<Longrightarrow> run_step s None"
| battery: "run_battery s \<Longrightarrow> 0 < run_interval s \<Longrightarrow>
    run_step s (map_option (\<lambda>v. s\<lparr>run_vehicle := v\<rparr>) (batteryTick dt now (run_vehicle s)))"
| battery_exit: "run_battery s \<Longrightarrow> 0 < run_interval s \<Longrightarrow> run_cancelled s \<Longrightarrow> run_step s (Some (s\<lparr>run_battery := False\<rparr>))"
| avail: "run_avail s \<Longrightarrow> (\<And>c t. newCli = Some c \<Longrightarrow> (c, t) \<notin> run_subs s \<and> c \<noteq> run_first s) \<Longrightarrow>
    run_step s (Some (follow_client (handleAvailabilityTick now r1 r2 newCli sub1 sub2 (run_vehicle s)) s))"
| departure: "run_avail s \<Longrightarrow> run_departs s \<Longrightarrow>
    run_step s (Some ((follow_client (depart now (run_vehicle s)) s)\<lparr>run_departs := False\<rparr>))"
| avail_exit: "run_avail s \<Longrightarrow> run_cancelled s \<Longrightarrow> run_step s (Some (s\<lparr>run_avail := False\<rparr>))"
| close: "run_phase s = Serving \<Longrightarrow> run_cancelled s \<Longrightarrow>
    run_step s (Some (s\<lparr>run_closed := True, run_phase := Draining\<rparr>))"
| finish: "run_phase s = Draining \<Longrightarrow> run_workers s = 0 \<Longrightarrow> \<not> run_battery s \<Longrightarrow> \<not> run_avail s \<Longrightarrow>
    run_step s (Some (s\<lparr>run_subs := {(c, t). (c, t) \<in> run_subs s \<and> c \<noteq> run_first s}, run_phase := Returned None\<rparr>))"

inductive reaches :: "real vehicle_run \<Rightarrow> real vehicle_run \<Rightarrow> bool" for s0 where
  start: "reaches s0 s0"
| step: "reaches s0 s \<Longrightarrow> run_step s (Some s') \<Longrightarrow> reaches s0 s'"

subsection \<open>What handlers leave alone\<close>

definition same_identity :: "'n SimulatedVehicle \<Rightarrow> 'n SimulatedVehicle \<Rightarrow> bool" where
  "same_identity v v' \<longleftrightarrow> sv_ID v' = sv_ID v \<and> TopicPrefix v' = TopicPrefix v \<and> DisconnectRate v' = DisconnectRate v"

lemma same_identity_topics:
  assumes "same_identity v v'"
  shows "discoveryTopic v' = discoveryTopic v" "commandTopic v' = commandTopic v" "requestTopics r v' = requestTopics r v"
  using assms by (simp_all add: same_identity_def discoveryTopic_def commandTopic_def requestTopics_def)

lemma onCommand_keeps: "same_identity v (onCommand now payload v) \<and> sv_client (onCommand now payload v) = sv_client v"
  by (auto simp: same_identity_def onCommand_def applyPowerOrder_def emit_def Let_def split: option.split)

lemma onDiscovery_keeps: "onDiscovery payload ok v = Some v' \<Longrightarrow> same_identity v v' \<and> sv_client v' = sv_client v"
  by (auto simp: same_identity_def onDiscovery_def emit_def split: option.splits if_splits)

lemma publishTelemetry_keeps: "publishTelemetry now v = Some v' \<Longrightarrow> same_identity v v' \<and> sv_client v' = sv_client v"
  by (auto simp: same_identity_def publishTelemetry_def emit_def split: option.splits)

lemma batteryTick_keeps: "batteryTick dt now v = Some v' \<Longrightarrow> same_identity v v' \<and> sv_client v' = sv_client v"
  by (auto simp: same_identity_def batteryTick_def publishTelemetry_def emit_def Let_def
      split: option.splits if_splits prod.splits)

lemma publishAck_keeps: "publishAck ok c v = Some (sent, v') \<Longrightarrow> same_identity v v' \<and> sv_client v' = sv_client v"
  by (auto simp: same_identity_def publishAck_def emit_def split: option.splits if_splits)

lemma Ack_keeps:
  "AckStrategy_Ack st r cancelled ok c v = Some (sent, v') \<Longrightarrow> same_identity v v' \<and> sv_client v' = sv_client v"
  by (cases st) (auto split: if_splits dest: publishAck_keeps simp: same_identity_def)

lemma worker_step_keeps:
  assumes "worker_step st r cancelled ok now v = Some v'"
  shows "same_identity v v' \<and> sv_client v' = sv_client v"
proof (cases "ackCh v")
  case (Cons cmd rest)
  then obtain sent v1 where "AckStrategy_Ack st r cancelled ok (cmd_id cmd) (v\<lparr>ackCh := rest\<rparr>) = Some (sent, v1)"
    "v' = emit (EvResult (cmd_power cmd) (cmd_received cmd) sent) (emit (EvAckMetric (cmd_id cmd) sent now) v1)"
    using assms by (auto simp: worker_step_def split: option.splits)
  then show ?thesis by (auto dest!: Ack_keeps simp: same_identity_def emit_def)
qed (use assms in \<open>simp add: worker_step_def same_identity_def\<close>)

lemma availability_keeps:
  "same_identity v (handleAvailabilityTick now r1 r2 newCli sub1 sub2 v)" "same_identity v (depart now v)"
  by (auto simp: same_identity_def handleAvailabilityTick_def depart_def publishAvailability_def emit_def split: option.split)

lemma availability_client:
  "sv_client (handleAvailabilityTick now r1 r2 newCli sub1 sub2 v) = sv_client v \<or>
   0 < DisconnectRate v \<and> sv_client (handleAvailabilityTick now r1 r2 newCli sub1 sub2 v) = None \<or>
   sv_client v = None \<and> newCli \<noteq> None \<and> sv_client (handleAvailabilityTick now r1 r2 newCli sub1 sub2 v) = newCli"
  by (auto simp: handleAvailabilityTick_def publishAvailability_def emit_def split: option.split)

lemma depart_client: "sv_client (depart now v) = None"
  by (simp add: depart_def publishAvailability_def)

lemma handler_Some:
  assumes "Some s' = map_option (\<lambda>v. s\<lparr>run_vehicle := v\<rparr>) h"
  obtains v where "h = Some v" "s' = s\<lparr>run_vehicle := v\<rparr>"
  using assms by (cases h) auto

text \<open>The kinds of steps: a handler that keeps the client, a change of the client, or the lifecycle.\<close>

lemma run_step_SomeE:
  assumes "run_step s (Some s')"
  obtains (handler) v where "s' = s\<lparr>run_vehicle := v\<rparr>" "sim_step (run_vehicle s) v" "same_identity (run_vehicle s) v"
      "sv_client v = sv_client (run_vehicle s)"
    | (client) v d where "run_avail s" "s' = (follow_client v s)\<lparr>run_departs := d\<rparr>" "sim_step (run_vehicle s) v"
      "same_identity (run_vehicle s) v" "d \<longrightarrow> run_departs s"
      "sv_client v = sv_client (run_vehicle s) \<or>
       sv_client v = None \<and> (0 < DisconnectRate (run_vehicle s) \<or> run_departs s) \<or>
       sv_client (run_vehicle s) = None \<and> (\<exists>c. sv_client v = Some c \<and> c \<noteq> run_first s)"
    | (cancel) "s' = s\<lparr>run_cancelled := True\<rparr>"
    | (worker_exit) "s' = s\<lparr>run_workers := run_workers s - 1\<rparr>" "0 < run_workers s"
    | (battery_exit) "s' = s\<lparr>run_battery := False\<rparr>" "run_battery s"
    | (avail_exit) "s' = s\<lparr>run_avail := False\<rparr>" "run_avail s"
    | (close) "run_phase s = Serving" "run_cancelled s" "s' = s\<lparr>run_closed := True, run_phase := Draining\<rparr>"
    | (finish) "run_phase s = Draining" "run_workers s = 0" "\<not> run_battery s" "\<not> run_avail s"
      "s' = s\<lparr>run_subs := {(c, t). (c, t) \<in> run_subs s \<and> c \<noteq> run_first s}, run_phase := Returned None\<rparr>"
  using assms
proof cases
  case (command c payload now)
  then have "s' = s\<lparr>run_vehicle := onCommand now payload (run_vehicle s)\<rparr>" by (auto split: if_splits)
  then show ?thesis using handler onCommand_keeps step_command by blast
next
  case (avail newCli now r1 r2 sub1 sub2)
  let ?v = "handleAvailabilityTick now r1 r2 newCli sub1 sub2 (run_vehicle s)"
  have "s' = (follow_client ?v s)\<lparr>run_departs := run_departs s\<rparr>" using avail(1) by (simp add: follow_client_def)
  then show ?thesis
    by (rule client [OF avail(2) _ step_avail availability_keeps(1)])
      (use availability_client [of now r1 r2 newCli sub1 sub2 "run_vehicle s"] avail(3) in auto)
next
  case (departure now)
  show ?thesis
    by (rule client [OF departure(2), of False "depart now (run_vehicle s)"])
      (use departure in \<open>auto simp: step_depart availability_keeps(2) depart_client\<close>)
next
  case (discovery c payload ok)
  from discovery(1) show ?thesis by (rule handler_Some) (use handler onDiscovery_keeps step_discovery in blast)
next
  case (request c t now)
  from request(1) show ?thesis by (rule handler_Some) (use handler publishTelemetry_keeps step_telemetry in \<open>simp add: onTelemetryRequest_def, blast\<close>)
next
  case (worker cancelled st r ok now)
  from worker(1) show ?thesis by (rule handler_Some) (use handler worker_step_keeps step_worker in blast)
next
  case (battery dt now)
  from battery(1) show ?thesis by (rule handler_Some) (use handler batteryTick_keeps step_battery in blast)
next
  case cancel
  then show ?thesis by (intro that(3)) simp
next
  case worker_exit
  then show ?thesis by (intro that(4)) simp_all
next
  case battery_exit
  then show ?thesis by (intro that(5)) simp_all
next
  case avail_exit
  then show ?thesis by (intro that(6)) simp_all
next
  case close
  then show ?thesis by (intro that(7)) simp_all
next
  case finish
  then show ?thesis by (intro that(8)) simp_all
qed

subsection \<open>The invariant of a run\<close>

definition vehicle_inv :: "real FleetVehicle \<Rightarrow> real vehicle_run \<Rightarrow> bool" where
  "vehicle_inv fv s \<longleftrightarrow> sim_ok (run_vehicle s) \<and> same_identity (SimulatedVehicle.truncate fv) (run_vehicle s) \<and>
     run_request s = fv_TelemetryRequestTopic fv \<and> run_interval s = fv_Interval fv"

definition lifecycle_inv :: "real vehicle_run \<Rightarrow> bool" where
  "lifecycle_inv s \<longleftrightarrow> (run_closed s \<longleftrightarrow> run_phase s = Draining \<or> run_phase s = Returned None) \<and>
     (run_closed s \<longrightarrow> run_cancelled s) \<and> run_workers s \<le> 5 \<and>
     (run_phase s = Returned None \<longrightarrow> run_workers s = 0 \<and> \<not> run_battery s \<and> \<not> run_avail s)"

text \<open>Only the client in use has subscriptions; while \<open>Run\<close> has not returned, it has the command topic.\<close>

definition client_inv :: "real FleetVehicle \<Rightarrow> real vehicle_run \<Rightarrow> bool" where
  "client_inv fv s \<longleftrightarrow>
     (\<forall>c t. (c, t) \<in> run_subs s \<longrightarrow> sv_client (run_vehicle s) = Some c \<and>
        (c = run_first s \<or> t = discoveryTopic (run_vehicle s) \<or> t = commandTopic (run_vehicle s))) \<and>
     (\<forall>c. run_phase s = Serving \<or> run_phase s = Draining \<longrightarrow> sv_client (run_vehicle s) = Some c \<longrightarrow>
        (c, commandTopic (run_vehicle s)) \<in> run_subs s) \<and>
     (run_phase s = Returned None \<longrightarrow> (\<forall>t. (run_first s, t) \<notin> run_subs s)) \<and>
     (DisconnectRate fv \<le> 0 \<and> IsZero (fv_Departure fv) \<longrightarrow> \<not> run_departs s \<and> sv_client (run_vehicle s) \<noteq> None)"

lemma vehicle_inv_step: "run_step s (Some s') \<Longrightarrow> vehicle_inv fv s \<Longrightarrow> vehicle_inv fv s'"
  by (erule run_step_SomeE) (auto simp: vehicle_inv_def same_identity_def follow_client_def intro: sim_ok_step)

lemma lifecycle_inv_step: "run_step s (Some s') \<Longrightarrow> lifecycle_inv s \<Longrightarrow> lifecycle_inv s'"
  by (erule run_step_SomeE) (auto simp: lifecycle_inv_def follow_client_def)

lemma client_inv_step:
  assumes "run_step s (Some s')" "client_inv fv s" "vehicle_inv fv s" "lifecycle_inv s"
  shows "client_inv fv s'"
  using assms(1)
proof (cases rule: run_step_SomeE)
  case (handler v)
  with assms(2) show ?thesis by (auto simp: client_inv_def same_identity_topics)
next
  case (client v d)
  note topics = same_identity_topics [OF client(4)]
  have "DisconnectRate (run_vehicle s) = DisconnectRate fv"
    using assms(3) by (simp add: vehicle_inv_def same_identity_def SimulatedVehicle.truncate_def)
  moreover have "run_phase s \<noteq> Returned None" using assms(4) client(1) by (auto simp: lifecycle_inv_def)
  ultimately show ?thesis
    using assms(2) client topics by (auto simp: client_inv_def follow_client_def split: option.splits if_splits)
qed (use assms(2) in \<open>auto simp: client_inv_def\<close>)

text \<open>A run that has got its connection starts within the invariant.\<close>

definition starts :: "real FleetVehicle \<Rightarrow> (go_error + nat) \<Rightarrow> bool" where
  "starts fv connect \<longleftrightarrow> sim_ok (SimulatedVehicle.truncate fv) \<and>
     (\<exists>c. realMQTTClient (fv_Broker fv) (''sim-'' @ sv_ID fv) connect = Inr c)"

lemma Run_start_inv:
  assumes "starts fv connect"
  shows "vehicle_inv fv (Run_start connect sub fv) \<and> lifecycle_inv (Run_start connect sub fv) \<and>
    client_inv fv (Run_start connect sub fv)"
proof -
  obtain c where c: "realMQTTClient (fv_Broker fv) (''sim-'' @ sv_ID fv) connect = Inr c" using assms starts_def by blast
  have id: "sv_ID (SimulatedVehicle.truncate fv) = sv_ID fv" "DisconnectRate (SimulatedVehicle.truncate fv) = DisconnectRate fv"
    by (simp_all add: SimulatedVehicle.truncate_def)
  have "sim_ok ((SimulatedVehicle.truncate fv)\<lparr>sv_client := Some c\<rparr>)"
    using assms by (auto simp: starts_def elim!: sim_ok_cong [rotated -1])
  then show ?thesis
    using c by (auto simp: Run_start_def Let_def id vehicle_inv_def lifecycle_inv_def client_inv_def same_identity_def
        discoveryTopic_def commandTopic_def)
qed

lemma reaches_inv:
  assumes "reaches (Run_start connect sub fv) s" "starts fv connect"
  shows "vehicle_inv fv s \<and> lifecycle_inv s \<and> client_inv fv s"
  using assms(1)
proof induction
  case (step s s')
  then show ?case using vehicle_inv_step lifecycle_inv_step client_inv_step by metis
qed (rule Run_start_inv [OF assms(2)])

subsection \<open>Panics\<close>

lemma handler_None: "None = map_option f h \<Longrightarrow> h = None"
  by (cases h) auto

lemma panic_causes:
  assumes "run_step s None"
  shows "run_closed s \<or> sv_client (run_vehicle s) = None \<or> run_battery s \<and> run_interval s \<le> 0"
  using assms
proof cases
  case (worker cancelled st r ok now)
  from handler_None [OF this(1)] show ?thesis
    by (cases st) (auto simp: worker_step_def publishAck_def split: list.splits option.splits if_splits)
next
  case (discovery c payload ok)
  from handler_None [OF this(1)] show ?thesis by (auto simp: onDiscovery_def split: if_splits option.splits)
next
  case (request c t now)
  from handler_None [OF this(1)] show ?thesis by (auto simp: onTelemetryRequest_def publishTelemetry_def split: option.splits)
next
  case (battery dt now)
  from handler_None [OF this(1)] show ?thesis
    by (auto simp: batteryTick_def publishTelemetry_def emit_def Let_def split: option.splits if_splits prod.splits)
qed (auto split: if_splits)

text \<open>
  C36. When a simulated vehicle can panic. In every state that a connected vehicle reaches, under any
  interleaving of its goroutines, a panic needs a closed acknowledgment channel, a dropped connection or
  a publish interval that is not positive; a vehicle that has no disconnect rate and no departure never
  drops its connection, so with a positive interval it does not panic before its context ends. Each cause
  but the dropped connection is enough: with an interval of zero or less the battery loop panics from
  the start; and from the close of the channel until \<open>Run\<close> returns, the command topic stays subscribed,
  and the next command panics.
\<close>

theorem vehicle_panics:
  assumes "starts fv connect" "reaches (Run_start connect sub fv) s"
  shows "(run_step s None \<longrightarrow>
      run_closed s \<and> run_cancelled s \<or> sv_client (run_vehicle s) = None \<or> run_battery s \<and> fv_Interval fv \<le> 0) \<and>
    (DisconnectRate fv \<le> 0 \<and> IsZero (fv_Departure fv) \<longrightarrow> sv_client (run_vehicle s) \<noteq> None) \<and>
    (fv_Interval fv \<le> 0 \<longrightarrow> run_step (Run_start connect sub fv) None) \<and>
    (run_phase s = Draining \<and> sv_client (run_vehicle s) \<noteq> None \<longrightarrow> run_step s None)"
proof (intro conjI impI)
  note inv = reaches_inv [OF assms(2,1)]
  show "run_step s None \<Longrightarrow>
      run_closed s \<and> run_cancelled s \<or> sv_client (run_vehicle s) = None \<or> run_battery s \<and> fv_Interval fv \<le> 0"
    using panic_causes [of s] inv by (auto simp: lifecycle_inv_def vehicle_inv_def)
  show "DisconnectRate fv \<le> 0 \<and> IsZero (fv_Departure fv) \<Longrightarrow> sv_client (run_vehicle s) \<noteq> None"
    using inv by (simp add: client_inv_def)
  show "fv_Interval fv \<le> 0 \<Longrightarrow> run_step (Run_start connect sub fv) None"
    using assms(1) by (intro run_step.ticker) (auto simp: starts_def Run_start_def Let_def SimulatedVehicle.truncate_def)
  assume d: "run_phase s = Draining \<and> sv_client (run_vehicle s) \<noteq> None"
  then obtain c where "(c, commandTopic (run_vehicle s)) \<in> run_subs s" using inv by (auto simp: client_inv_def)
  from run_step.command [OF this, of "Some ([], 0)" timeZero] show "run_step s None"
    using d inv by (simp add: lifecycle_inv_def)
qed

subsection \<open>Shutdown\<close>

fun phase_rank :: "run_phase \<Rightarrow> nat" where
  "phase_rank Serving = 2"
| "phase_rank Draining = 1"
| "phase_rank (Returned e) = 0"

definition run_rank :: "'n vehicle_run \<Rightarrow> nat" where
  "run_rank s = run_workers s + (if run_battery s then 1 else 0) + (if run_avail s then 1 else 0) + phase_rank (run_phase s)"

lemma run_rank_step: "run_step s (Some s') \<Longrightarrow> run_rank s' \<le> run_rank s \<and> (run_cancelled s \<longrightarrow> run_cancelled s')"
  by (erule run_step_SomeE) (auto simp: run_rank_def follow_client_def)

lemma run_interval_step: "run_step s (Some s') \<Longrightarrow> run_interval s' = run_interval s"
  by (erule run_step_SomeE) (simp_all add: follow_client_def)

lemma run_rank_progress:
  assumes "run_cancelled s" "run_phase s = Serving \<or> run_phase s = Draining" "0 < run_interval s"
  shows "\<exists>s'. run_step s (Some s') \<and> run_rank s' < run_rank s \<and> run_cancelled s' \<and>
    (run_phase s' = Serving \<or> run_phase s' = Draining \<or> run_phase s' = Returned None)"
proof -
  have less: ?thesis if "run_step s (Some s')" "run_rank s' < run_rank s" "run_cancelled s'"
    "run_phase s' = Serving \<or> run_phase s' = Draining \<or> run_phase s' = Returned None" for s'
    using that by blast
  consider (worker) "0 < run_workers s" | (battery) "run_battery s" | (avail) "run_avail s" | (close) "run_phase s = Serving"
    | (finish) "run_phase s = Draining" "run_workers s = 0" "\<not> run_battery s" "\<not> run_avail s"
    using assms(2) by blast
  then show ?thesis
  proof cases
    case worker
    then show ?thesis by (intro less [OF run_step.worker_exit [OF worker]]) (use assms in \<open>auto simp: run_rank_def\<close>)
  next
    case battery
    then show ?thesis by (intro less [OF run_step.battery_exit [OF battery assms(3,1)]]) (use assms in \<open>auto simp: run_rank_def\<close>)
  next
    case avail
    then show ?thesis by (intro less [OF run_step.avail_exit [OF avail assms(1)]]) (use assms in \<open>auto simp: run_rank_def\<close>)
  next
    case close
    then show ?thesis by (intro less [OF run_step.close [OF close assms(1)]]) (use assms in \<open>auto simp: run_rank_def\<close>)
  next
    case finish
    then show ?thesis by (intro less [OF run_step.finish [OF finish]]) (use assms in \<open>auto simp: run_rank_def\<close>)
  qed
qed

lemma shutdown_run:
  assumes "run_cancelled s" "run_phase s = Serving \<or> run_phase s = Draining \<or> run_phase s = Returned None"
    and "0 < run_interval s"
  shows "\<exists>s'. reaches s s' \<and> run_phase s' = Returned None"
  using assms
proof (induction "run_rank s" arbitrary: s rule: less_induct)
  case less
  show ?case
  proof (cases "run_phase s = Returned None")
    case False
    with less.prems run_rank_progress [of s] obtain s1 where s1: "run_step s (Some s1)" "run_rank s1 < run_rank s"
      "run_cancelled s1" "run_phase s1 = Serving \<or> run_phase s1 = Draining \<or> run_phase s1 = Returned None" by blast
    have "0 < run_interval s1" using run_interval_step [OF s1(1)] less.prems(3) by simp
    from less.hyps [OF s1(2,3,4) this] obtain s2 where s2: "reaches s1 s2" "run_phase s2 = Returned None" by blast
    from s2(1) have "reaches s s2"
      by induction (use s1(1) in \<open>auto intro: reaches.intros\<close>)
    with s2(2) show ?thesis by blast
  qed (use reaches.start in blast)
qed

definition run_fv :: "real FleetVehicle" where
  "run_fv = (NewSimulatedVehicle ''v1'' ''tcp://localhost:1883'' ''v2g''
     \<lparr>CapacityKWh = 40, Soc = 1/2, ChargeRateKW = 7, DischargeRateKW = 7\<rparr> Second 10)
     \<lparr>fv_TelemetryRequestTopic := ''v2g/request'', DisconnectRate := 1/10, AvailabilityProfile := replicate 24 1\<rparr>"

abbreviation run_start_test :: "real vehicle_run" where
  "run_start_test \<equiv> Run_start (Inr 0) (\<lambda>_. None) run_fv"

abbreviation run_cancelled_test :: "real vehicle_run" where
  "run_cancelled_test \<equiv> run_start_test\<lparr>run_cancelled := True\<rparr>"

lemma run_fv_starts: "starts run_fv (Inr 0)"
  by (simp add: starts_def run_fv_def NewSimulatedVehicle_def realMQTTClient_def sim_ok_def battery_ok_def power_ok_def
      SimulatedVehicle.truncate_def)

lemma run_fv_interval: "0 < fv_Interval run_fv"
  by (simp add: run_fv_def NewSimulatedVehicle_def Second_def)

lemma run_start_test_sel:
  "run_phase run_start_test = Serving" "run_first run_start_test = 0" "sv_client (run_vehicle run_start_test) = Some 0"
  "run_avail run_start_test"
  by (simp_all add: Run_start_def Let_def run_fv_def NewSimulatedVehicle_def realMQTTClient_def SimulatedVehicle.truncate_def
      requestTopics_def)

lemma run_cancelled_reached: "reaches run_start_test run_cancelled_test"
  by (rule reaches.step [OF reaches.start run_step.cancel])

theorem vehicle_panics_witness:
  "\<exists>s. reaches run_start_test s \<and> run_phase s = Draining \<and> run_step s None"
proof -
  let ?s = "run_cancelled_test\<lparr>run_closed := True, run_phase := Draining\<rparr>"
  have "run_step run_cancelled_test (Some ?s)" by (rule run_step.close) (simp_all add: run_start_test_sel)
  with run_cancelled_reached have "reaches run_start_test ?s" by (rule reaches.step)
  with vehicle_panics [OF run_fv_starts this] show ?thesis
    by (intro exI [of _ ?s]) (simp add: run_start_test_sel)
qed

text \<open>
  C37. Shutdown completes, for a vehicle with a positive publish interval. Once the context has ended, no step adds work, and until \<open>Run\<close> has returned
  some goroutine can always take a step that reduces it, at most nine times in all; so \<open>Run\<close> can
  return from every state that a started vehicle reaches, and when it has, all its goroutines have ended and its
  connection has no subscriptions.
\<close>

theorem vehicle_shutdown_completes:
  assumes "starts fv connect" "reaches (Run_start connect sub fv) s" "run_cancelled s"
    and "run_phase s = Serving \<or> run_phase s = Draining" "0 < fv_Interval fv"
  shows "run_rank s \<le> 9 \<and> (\<forall>s'. run_step s (Some s') \<longrightarrow> run_rank s' \<le> run_rank s) \<and>
    (\<exists>s'. run_step s (Some s') \<and> run_rank s' < run_rank s) \<and>
    (\<exists>s'. reaches s s' \<and> run_phase s' = Returned None \<and> run_workers s' = 0 \<and> \<not> run_battery s' \<and> \<not> run_avail s' \<and>
       (\<forall>t. (run_first s', t) \<notin> run_subs s'))"
proof (intro conjI)
  show "run_rank s \<le> 9"
    using reaches_inv [OF assms(2,1)] assms(4) by (auto simp: lifecycle_inv_def run_rank_def)
  show "\<forall>s'. run_step s (Some s') \<longrightarrow> run_rank s' \<le> run_rank s" using run_rank_step by blast
  have i: "0 < run_interval s" using reaches_inv [OF assms(2,1)] assms(5) by (simp add: vehicle_inv_def)
  show "\<exists>s'. run_step s (Some s') \<and> run_rank s' < run_rank s" using run_rank_progress [OF assms(3,4) i] by blast
  obtain s' where s': "reaches s s'" "run_phase s' = Returned None" using shutdown_run assms(3,4) i by blast
  from s'(1) have "reaches (Run_start connect sub fv) s'"
    by induction (use assms(2) in \<open>auto intro: reaches.intros\<close>)
  from reaches_inv [OF this assms(1)] s' show "\<exists>s'. reaches s s' \<and> run_phase s' = Returned None \<and> run_workers s' = 0 \<and>
      \<not> run_battery s' \<and> \<not> run_avail s' \<and> (\<forall>t. (run_first s', t) \<notin> run_subs s')"
    by (auto simp: lifecycle_inv_def client_inv_def)
qed

theorem vehicle_shutdown_completes_witness:
  "run_rank run_cancelled_test \<le> 9 \<and> (\<exists>s'. reaches run_cancelled_test s' \<and> run_phase s' = Returned None \<and> run_workers s' = 0)"
  using vehicle_shutdown_completes [OF run_fv_starts run_cancelled_reached] by (auto simp: run_start_test_sel run_fv_interval)

text \<open>
  A vehicle that has reconnected no longer answers polls: the tick that reconnects subscribes to the
  discovery and the command topic only, so on any later client of the vehicle no request for telemetry arrives.
\<close>

theorem reconnected_vehicle_ignores_polls:
  assumes "starts fv connect" "reaches (Run_start connect sub fv) s" "sv_client (run_vehicle s) \<noteq> Some (run_first s)"
    and "t \<in> set (requestTopics (fv_TelemetryRequestTopic fv) (run_vehicle s))"
    and "t \<noteq> discoveryTopic (run_vehicle s)" "t \<noteq> commandTopic (run_vehicle s)"
  shows "(c, t) \<notin> run_subs s"
  using reaches_inv [OF assms(2,1)] assms(3-6) by (auto simp: client_inv_def)

text \<open>The vehicle drops its connection in one tick and reconnects in the next.\<close>

definition dropped :: "real SimulatedVehicle" where
  "dropped = handleAvailabilityTick timeZero 0 0 None True True (run_vehicle run_start_test)"

definition reconnected :: "real vehicle_run" where
  "reconnected = follow_client (handleAvailabilityTick timeZero 0 0 (Some 1) True True dropped) (follow_client dropped run_start_test)"

lemma reconnected_reached: "reaches run_start_test reconnected" "sv_client (run_vehicle reconnected) = Some 1" "run_first reconnected = 0"
  "sv_ID (run_vehicle reconnected) = ''v1''" "TopicPrefix (run_vehicle reconnected) = ''v2g''"
proof -
  have v0: "DisconnectRate (run_vehicle run_start_test) = 1/10" "AvailabilityProfile (run_vehicle run_start_test) = replicate 24 1"
    "sv_ID (run_vehicle run_start_test) = ''v1''" "TopicPrefix (run_vehicle run_start_test) = ''v2g''"
    by (simp_all add: Run_start_def Let_def run_fv_def NewSimulatedVehicle_def realMQTTClient_def SimulatedVehicle.truncate_def
        requestTopics_def)
  have d: "dropped = (run_vehicle run_start_test)\<lparr>sv_client := None\<rparr>"
    by (simp add: dropped_def handleAvailabilityTick_def run_start_test_sel v0 publishAvailability_def)
  have "run_step run_start_test (Some (follow_client dropped run_start_test))"
    unfolding dropped_def by (rule run_step.avail) (simp_all add: run_start_test_sel)
  then have "reaches run_start_test (follow_client dropped run_start_test)" by (rule reaches.step [OF reaches.start])
  moreover have "\<forall>c t. (c, t) \<in> run_subs run_start_test \<longrightarrow> c = 0"
    using Run_start_inv [OF run_fv_starts] by (fastforce simp: client_inv_def run_start_test_sel)
  then have s1: "run_vehicle (follow_client dropped run_start_test) = dropped" "run_avail (follow_client dropped run_start_test)"
    "run_first (follow_client dropped run_start_test) = 0" "(1, t) \<notin> run_subs (follow_client dropped run_start_test)" for t
    by (auto simp: follow_client_def d run_start_test_sel)
  have "run_step (follow_client dropped run_start_test) (Some reconnected)"
    unfolding reconnected_def
    by (subst (1) s1(1) [symmetric], rule run_step.avail) (use s1(2-4) in auto)
  ultimately show "reaches run_start_test reconnected" by (rule reaches.step)
  show "sv_client (run_vehicle reconnected) = Some 1" "run_first reconnected = 0"
    "sv_ID (run_vehicle reconnected) = ''v1''" "TopicPrefix (run_vehicle reconnected) = ''v2g''"
    using v0 hourOfDay_less [of timeZero]
    by (simp_all add: reconnected_def follow_client_def handleAvailabilityTick_def d publishAvailability_def emit_def run_start_test_sel)
qed

theorem reconnected_vehicle_ignores_polls_witness: "(1, ''v2g/request'') \<notin> run_subs reconnected"
  by (rule reconnected_vehicle_ignores_polls [OF run_fv_starts reconnected_reached(1)])
    (simp_all add: reconnected_reached requestTopics_def run_fv_def NewSimulatedVehicle_def discoveryTopic_def commandTopic_def
      trimSlash_def)

end
