(* ===== verification/End_To_End.thy ===== *)
theory End_To_End
  imports Commands Sim_Run
begin

text \<open>
  The service and the simulated vehicles over one broker: the discovery of \<open>infra/mqtt/discovery.go\<close>
  answered by the vehicles of \<open>simulator/vehicle.go\<close>, and an order from \<open>SendOrder\<close> through \<open>onCommand\<close>,
  the worker and its acknowledgment back to \<open>WaitForAck\<close>. The broker is an argument:
  \<open>delivers f t\<close> says that it passes a message of topic \<open>t\<close> to a subscription of the filter \<open>f\<close>.
\<close>

subsection \<open>Messages\<close>

text \<open>
  Topics without wildcards reach subscriptions of the same name, and the wildcard \<open>+\<close> stands for one level.
\<close>

definition plain :: "string \<Rightarrow> bool" where
  "plain t \<longleftrightarrow> CHR ''+'' \<notin> set t \<and> CHR ''#'' \<notin> set t"

definition mqtt_delivers :: "(string \<Rightarrow> string \<Rightarrow> bool) \<Rightarrow> bool" where
  "mqtt_delivers delivers \<longleftrightarrow> (\<forall>t. plain t \<longrightarrow> delivers t t) \<and>
     (\<forall>a i b. plain a \<longrightarrow> plain i \<longrightarrow> plain b \<longrightarrow> i \<noteq> [] \<longrightarrow> CHR ''/'' \<notin> set i \<longrightarrow> (b = [] \<or> hd b = CHR ''/'') \<longrightarrow>
        delivers (a @ ''/+'' @ b) (a @ ''/'' @ i @ b))"

lemma mqtt_delivers_level:
  "mqtt_delivers delivers \<Longrightarrow> plain a \<Longrightarrow> plain i \<Longrightarrow> plain b \<Longrightarrow> i \<noteq> [] \<Longrightarrow> CHR ''/'' \<notin> set i \<Longrightarrow> b = [] \<or> hd b = CHR ''/'' \<Longrightarrow>
    delivers (a @ ''/+'' @ b) (a @ ''/'' @ i @ b)"
  unfolding mqtt_delivers_def by blast

fun reply_payload :: "(string \<Rightarrow> bool) \<Rightarrow> 'n sim_event \<Rightarrow> (go_error + 'n Vehicle) list" where
  "reply_payload here (EvDiscovery t w) = (if here t then [Inr w] else [])"
| "reply_payload here _ = []"

fun ack_payload :: "(string \<Rightarrow> bool) \<Rightarrow> 'n sim_event \<Rightarrow> string list" where
  "ack_payload here (EvAck t c) = (if here t then [c] else [])"
| "ack_payload here _ = []"

definition new_events :: "'n SimulatedVehicle \<Rightarrow> 'n SimulatedVehicle \<Rightarrow> 'n sim_event list" where
  "new_events v v' = drop (length (sv_log v)) (sv_log v')"

text \<open>What the discovery receives when it broadcasts \<open>hello\<close>.\<close>

definition fleet_replies ::
  "(string \<Rightarrow> string \<Rightarrow> bool) \<Rightarrow> 'n::zero SimulatedVehicle list \<Rightarrow> (go_error + 'n Vehicle) list" where
  "fleet_replies delivers sims =
     concat (map (\<lambda>v. if delivers (discoveryTopic v) ''v2g/fleet/discovery''
                      then (case onDiscovery ''hello'' True v of
                              None \<Rightarrow> []
                            | Some v' \<Rightarrow> concat (map (reply_payload (delivers ''v2g/fleet/response/+'')) (new_events v v')))
                      else []) sims)"

text \<open>
  The moments of one order, counted from its publication: how long the command takes to the vehicle and the
  acknowledgment back to the client, when \<open>SendOrder\<close> registers the channel of the order (which it does
  after it has published, \<open>client.go\<close> 231 to 233), when \<open>WaitForAck\<close> sets its timer, and which case its
  \<open>select\<close> takes when the timer fires at the moment of the acknowledgment. The registration and \<open>onAck\<close> hold
  the mutex of the client and are never at the same moment.
\<close>

record trip_times =
  t_command :: Duration
  t_ack :: Duration
  t_register :: Duration
  t_wait :: Duration
  t_tie :: bool

fun ack_delay :: "'n AckStrategy \<Rightarrow> Duration" where
  "ack_delay (AutoAck d) = max 0 d"
| "ack_delay (RandomAck d rate) = max 0 d"

definition ack_arrival :: "'n AckStrategy \<Rightarrow> trip_times \<Rightarrow> Duration" where
  "ack_arrival strategy tm = t_command tm + ack_delay strategy + t_ack tm"

definition ack_early :: "'n AckStrategy \<Rightarrow> trip_times \<Rightarrow> bool" where
  "ack_early strategy tm \<longleftrightarrow> ack_arrival strategy tm < t_register tm"

definition ack_late :: "'n AckStrategy \<Rightarrow> trip_times \<Rightarrow> Duration \<Rightarrow> bool" where
  "ack_late strategy tm T \<longleftrightarrow> t_wait tm + T < ack_arrival strategy tm \<or> (ack_arrival strategy tm = t_wait tm + T \<and> t_tie tm)"

text \<open>
  One order: the client publishes it, the vehicle handles the command and a worker takes it from the queue.
  The acknowledgments reach the client before it has registered the channel, between the registration and
  the timer, or after the timer, and the wait ends with the acknowledgment or with the timer.
\<close>

definition order_trip ::
  "(string \<Rightarrow> string \<Rightarrow> bool) \<Rightarrow> string \<Rightarrow> 'n AckStrategy \<Rightarrow> 'n \<Rightarrow> trip_times \<Rightarrow> Duration \<Rightarrow> Time \<Rightarrow> string \<Rightarrow> 'n
    \<Rightarrow> 'n::{zero,one,uminus,ord} SimulatedVehicle \<Rightarrow> PahoClient
    \<Rightarrow> ((bool \<times> go_error option) \<times> PahoClient \<times> 'n SimulatedVehicle) option" where
  "order_trip delivers ackTopic strategy rnd tm T now cid pw v p =
     (let p1 = fst (SendOrder_publish (\<lambda>_. None) p);
          v1 = (if delivers (commandTopic v) (''vehicle/'' @ sv_ID v @ ''/command'')
                then onCommand now (Some (cid, pw)) v else v) in
      case worker_step strategy rnd False True now v1 of
        None \<Rightarrow> None
      | Some v2 \<Rightarrow>
          (let acks = concat (map (ack_payload (delivers ackTopic)) (new_events v1 v2));
               arrive = foldl (\<lambda>p c. onAck (Some c) p);
               early = ack_early strategy tm;
               late = ack_late strategy tm T;
               p2 = SendOrder_register cid (if early then arrive p1 acks else p1);
               p3 = (if early \<or> late then p2 else arrive p2 acks)
           in map_option (\<lambda>(r, p4). (r, if late \<and> \<not> early then arrive p4 acks else p4, v2))
                (WaitForAck cid (early \<or> late \<or> cid \<notin> set acks) p3)))"

text \<open>The acknowledgments that count, and what the wait returns.\<close>

definition ack_in_time :: "'n AckStrategy \<Rightarrow> trip_times \<Rightarrow> Duration \<Rightarrow> bool" where
  "ack_in_time strategy tm T \<longleftrightarrow> t_register tm \<le> ack_arrival strategy tm \<and>
     (ack_arrival strategy tm < t_wait tm + T \<or> (ack_arrival strategy tm = t_wait tm + T \<and> \<not> t_tie tm))"

definition wait_result :: "bool \<Rightarrow> bool \<times> go_error option" where
  "wait_result acked = (if acked then (True, None) else (False, Some (Wrapped [] ErrAckTimeout)))"

lemma ack_in_time_iff: "ack_in_time strategy tm T \<longleftrightarrow> \<not> ack_early strategy tm \<and> \<not> ack_late strategy tm T"
  by (auto simp: ack_in_time_def ack_early_def ack_late_def)

subsection \<open>What a vehicle answers\<close>

definition reported :: "'n::zero SimulatedVehicle \<Rightarrow> 'n Vehicle" where
  "reported v = zeroVehicle\<lparr>ID := sv_ID v, IsV2G := sv_IsV2G v, Available := True, MaxPower := sv_MaxPower v,
     BatteryKWh := CapacityKWh (sv_Battery v), SoC := Soc (sv_Battery v)\<rparr>"

definition online :: "'n SimulatedVehicle \<Rightarrow> bool" where
  "online v \<longleftrightarrow> sv_client v \<noteq> None \<and> TopicPrefix v = ''v2g'' \<and> sv_ID v \<noteq> [] \<and> plain (sv_ID v) \<and>
     CHR ''/'' \<notin> set (sv_ID v) \<and> ackCh v = []"

lemma reported_sel [simp]: "ID (reported v) = sv_ID v" "MaxPower (reported v) = sv_MaxPower v" "SoC (reported v) = Soc (sv_Battery v)"
  "Available (reported v)" "IsV2G (reported v) = sv_IsV2G v" "\<not> Charging (reported v)"
  by (simp_all add: reported_def zeroVehicle_def)

lemma fleet_replies_online:
  assumes "mqtt_delivers delivers" "\<forall>v\<in>set sims. online v"
  shows "fleet_replies delivers sims = map (Inr \<circ> reported) sims"
  using assms(2)
proof (induction sims)
  case (Cons v sims)
  then have v: "online v" by simp
  then obtain c where c: "sv_client v = Some c" by (auto simp: online_def)
  have "delivers ''v2g/fleet/response/+'' (''v2g/fleet/response/'' @ sv_ID v)"
    using mqtt_delivers_level [OF assms(1), of "''v2g/fleet/response''" "sv_ID v" "[]"] v by (simp add: online_def plain_def)
  moreover have "delivers (discoveryTopic v) ''v2g/fleet/discovery''"
    using assms(1) v by (simp add: mqtt_delivers_def online_def discoveryTopic_def trimSlash_def plain_def)
  ultimately show ?case
    using Cons v c by (simp add: fleet_replies_def onDiscovery_def new_events_def emit_def online_def trimSlash_def reported_def)
qed (simp add: fleet_replies_def)

lemma Discover_distinct:
  "distinct (map ID vs) \<Longrightarrow> Discover None None (map Inr vs) = (vs, [])"
proof -
  have "distinct (map ID (ws @ vs)) \<Longrightarrow>
      foldl (\<lambda>st m. discovery_handler m st) (ws, [], ID ` set ws) (map Inr vs) = (ws @ vs, [], ID ` set (ws @ vs))" for ws
  proof (induction vs arbitrary: ws)
    case (Cons v vs)
    then have "ID v \<notin> ID ` set ws" by auto
    with Cons.IH [of "ws @ [v]"] Cons.prems show ?case by (simp add: discovery_handler_def)
  qed simp
  from this [of "[]"] show "distinct (map ID vs) \<Longrightarrow> Discover None None (map Inr vs) = (vs, [])" by (simp add: Discover_def)
qed

subsection \<open>One order\<close>

definition takes_order :: "'n::{zero,one,uminus,ord} SimulatedVehicle \<Rightarrow> 'n \<Rightarrow> bool" where
  "takes_order v pw \<longleftrightarrow>
     (0 < pw \<longrightarrow> \<not> sv_MaxPower v < pw \<and> \<not> DischargeRateKW (sv_Battery v) < pw \<and> \<not> Soc (sv_Battery v) \<le> 0) \<and>
     (\<not> 0 < pw \<longrightarrow> pw < 0 \<longrightarrow>
        \<not> sv_MaxPower v < - pw \<and> \<not> ChargeRateKW (sv_Battery v) < - pw \<and> \<not> 1 \<le> Soc (sv_Battery v))"

lemma applyPowerOrder_eq:
  "applyPowerOrder v pw = (if takes_order v pw then (pw, v\<lparr>currentPower := pw\<rparr>) else (currentPower v, v))"
  by (auto simp: applyPowerOrder_def takes_order_def Let_def)

lemma onCommand_online:
  assumes "online v"
  shows "onCommand now (Some (cid, pw)) v =
    (let a = (if takes_order v pw then pw else currentPower v) in
     v\<lparr>currentPower := a, ackCh := [\<lparr>cmd_id = cid, cmd_power = a, cmd_received = now\<rparr>],
       sv_log := sv_log v @ [EvOrder cid a now]\<rparr>)"
  using assms by (cases "takes_order v pw") (simp_all add: onCommand_def applyPowerOrder_eq emit_def online_def ackChCap_def Let_def)

lemma worker_step_auto:
  assumes "sv_client v = Some c" "ackCh v = [cmd]"
  shows "worker_step (AutoAck delay) rnd False True now v =
    Some (v\<lparr>ackCh := [], sv_log := sv_log v @ [EvAck (''vehicle/'' @ sv_ID v @ ''/ack'') (cmd_id cmd),
       EvAckMetric (cmd_id cmd) True now, EvResult (cmd_power cmd) (cmd_received cmd) True]\<rparr>)"
  using assms by (simp add: worker_step_def publishAck_def emit_def)

lemma order_trip_effect:
  fixes v :: "real SimulatedVehicle"
  assumes "mqtt_delivers delivers" "online v"
  obtains p' v' where
    "order_trip delivers ''vehicle/+/ack'' (AutoAck delay) rnd tm T now cid pw v p =
       Some (wait_result (ack_in_time (AutoAck delay :: real AckStrategy) tm T), p', v')"
    "currentPower v' = (if takes_order v pw then pw else currentPower v)" "ackCh v' = []"
proof -
  obtain c where c: "sv_client v = Some c" using assms(2) by (auto simp: online_def)
  have ack: "delivers ''vehicle/+/ack'' (''vehicle/'' @ sv_ID v @ ''/ack'')"
    using mqtt_delivers_level [OF assms(1), of "''vehicle''" "sv_ID v" "''/ack''"] assms(2) by (simp add: online_def plain_def)
  have cmd: "delivers (commandTopic v) (''vehicle/'' @ sv_ID v @ ''/command'')"
    using assms by (simp add: mqtt_delivers_def commandTopic_def online_def plain_def)
  let ?v1 = "onCommand now (Some (cid, pw)) v" and ?st = "AutoAck delay :: real AckStrategy"
  have v1: "sv_client ?v1 = Some c" "ackCh ?v1 = [\<lparr>cmd_id = cid, cmd_power = (if takes_order v pw then pw else currentPower v),
      cmd_received = now\<rparr>]" "sv_ID ?v1 = sv_ID v" "currentPower ?v1 = (if takes_order v pw then pw else currentPower v)"
    by (simp_all add: onCommand_online [OF assms(2)] Let_def c)
  note w = worker_step_auto [OF v1(1,2), of delay rnd now]
  let ?v2 = "the (worker_step ?st rnd False True now ?v1)"
  have acks: "concat (map (ack_payload (delivers ''vehicle/+/ack'')) (new_events ?v1 ?v2)) = [cid]"
    using ack unfolding w by (simp add: new_events_def v1(3))
  have "\<exists>p'. order_trip delivers ''vehicle/+/ack'' ?st rnd tm T now cid pw v p =
      Some (wait_result (\<not> ack_early ?st tm \<and> \<not> ack_late ?st tm T), p', ?v2)"
    using cmd acks w by (simp add: order_trip_def Let_def WaitForAck_def onAck_def SendOrder_register_def wait_result_def) blast
  then show ?thesis using that [of "_" ?v2] w v1(4) by (auto simp: ack_in_time_iff)
qed

subsection \<open>A dispatch\<close>

text \<open>
  The environment of a dispatch whose publisher is the MQTT client with the simulated vehicles behind the
  broker: orders are published without errors under the identifiers \<open>uuid\<close>, and the wait for an order
  ends as the trip of that order does, with the delay and the moments of that vehicle. The trip is one of
  any state of the client, since the orders of the other vehicles run beside it under other identifiers.
\<close>

definition behind_broker ::
  "(string \<Rightarrow> string \<Rightarrow> bool) \<Rightarrow> string \<Rightarrow> (string \<Rightarrow> string) \<Rightarrow> (string \<Rightarrow> Duration) \<Rightarrow> (string \<Rightarrow> trip_times)
    \<Rightarrow> real SimulatedVehicle list \<Rightarrow> real dispatch_env \<Rightarrow> bool" where
  "behind_broker delivers ackTopic uuid delay tm sims env \<longleftrightarrow>
     envDiscover env = Inr (fst (Discover None None (fleet_replies delivers sims))) \<and>
     (\<forall>i pw. \<exists>p. envSend env i pw = snd (SendOrder (\<lambda>_. None) (uuid i) p)) \<and>
     (\<forall>v\<in>set sims. \<forall>pw rnd now T p r p' v'.
        order_trip delivers ackTopic (AutoAck (delay (sv_ID v))) rnd (tm (sv_ID v)) T now (uuid (sv_ID v)) pw v p = Some (r, p', v') \<longrightarrow>
        envAck env (uuid (sv_ID v)) T = r)"

lemma SendOrder_ok: "snd (SendOrder (\<lambda>_. None) cid p) = Inr cid"
  using retryDefaults_pos(1) [of p]
  by (simp add: SendOrder_def SendOrder_publish_def Let_def publish_attempts.simps [of _ _ _ 0])

lemma Manager_Dispatch_acks:
  assumes "Manager_Dispatch env m s vehicles = Some (res, m')" "valid_schedule (dom (Assignments res)) (envSchedule env)"
    and "Assignments res i = Some p" "envSend env i p = Inr c" "envAck env c (ackTimeout m) = wait_result acked"
  shows "Acknowledged res i = Some acked" "Errors res i = (if acked then None else Some (Wrapped [] ErrAckTimeout))"
proof -
  obtain vs m3 m4 u r0 where r0: "r0 = sent_result env (ackTimeout m) (dom (Assignments res)) (new_result (Assignments res) (smart_state m4 u))"
    and fin: "finish_result env s vs (smart_state m4 u) (Fallback_SetVehicles vs (mgr_fallback m)) r0 = Some res"
    by (rule Manager_Dispatch_result [OF assms(1,2)])
  show "Acknowledged res i = Some acked"
    using finish_result_frame(3) [OF fin] assms(3-5) by (simp add: r0 sent_result_def order_acked_iff getd_def domI wait_result_def)
  show "Errors res i = (if acked then None else Some (Wrapped [] ErrAckTimeout))"
    using Manager_Dispatch_errors(1) [OF assms(1-3)] assms(4,5) by (simp add: wait_result_def)
qed

text \<open>The vehicles that the filter accepts, as the vehicles report themselves.\<close>

definition serving :: "'n::{zero,one,plus,inverse,ord} FlexibilitySignal \<Rightarrow> 'n SimulatedVehicle \<Rightarrow> bool" where
  "serving s v \<longleftrightarrow> filter_accepts s (reported v)"

text \<open>Vehicles that can give the power they report.\<close>

definition able :: "real SimulatedVehicle \<Rightarrow> bool" where
  "able v \<longleftrightarrow> 0 \<le> sv_MaxPower v \<and> sv_MaxPower v \<le> DischargeRateKW (sv_Battery v) \<and> 0 < Soc (sv_Battery v)"

lemma able_takes: "able v \<Longrightarrow> 0 \<le> pw \<Longrightarrow> pw \<le> sv_MaxPower v \<Longrightarrow> takes_order v pw"
  by (simp add: able_def takes_order_def)

lemma behind_sends: "behind_broker delivers ackTopic uuid delay tm sims env \<Longrightarrow> envSend env i pw = Inr (uuid i)"
  by (metis SendOrder_ok behind_broker_def)

lemma behind_ack:
  assumes "behind_broker delivers ackTopic uuid delay tm sims env" "v \<in> set sims"
    and "order_trip delivers ackTopic (AutoAck (delay (sv_ID v))) rnd (tm (sv_ID v)) T now (uuid (sv_ID v)) pw v p = Some (r, p', v')"
  shows "envAck env (uuid (sv_ID v)) T = r"
  using assms unfolding behind_broker_def by blast

lemma dispatch_behind_broker:
  assumes "wired m" "mqtt_delivers delivers" "solver_ok env" "behind_broker delivers ackTopic uuid delay tm sims env"
    and "\<forall>v\<in>set sims. online v \<and> able v" "distinct (map sv_ID sims)"
  obtains res m' where "Manager_Dispatch env m s [] = Some (res, m')"
    "Assignments res = EqualDispatcher_Dispatch (map reported (filter (serving s) sims)) s"
proof -
  have on: "\<forall>v\<in>set sims. online v" using assms(5) by blast
  have "distinct (map ID (map reported sims))" using assms(6) by (simp add: comp_def)
  then have "envDiscover env = Inr (map reported sims)"
    using assms(4) fleet_replies_online [OF assms(2) on] Discover_distinct [of "map reported sims"]
    by (simp add: behind_broker_def)
  then have disc: "fst (discover_fleet env m []) = map reported sims" using assms(1) by (simp add: discover_fleet_def wired_def)
  have fleet: "filter (filter_accepts s) (map reported sims) = map reported (filter (serving s) sims)"
    by (simp add: filter_map comp_def serving_def [abs_def])
  show ?thesis by (rule Manager_Dispatch_wired [OF assms(1,3), of s "[]"]) (rule that, simp_all add: disc fleet)
qed


subsection \<open>An instance\<close>

text \<open>Matching with the wildcard \<open>+\<close>, as a broker does it.\<close>

fun topic_matches :: "string \<Rightarrow> string \<Rightarrow> bool" where
  "topic_matches [] t \<longleftrightarrow> t = []"
| "topic_matches (c # f) t \<longleftrightarrow>
     (if c = CHR ''+'' then topic_matches f (dropWhile (\<lambda>x. x \<noteq> CHR ''/'') t)
      else (case t of [] \<Rightarrow> False | d # t' \<Rightarrow> d = c \<and> topic_matches f t'))"

lemma topic_matches_refl: "CHR ''+'' \<notin> set t \<Longrightarrow> topic_matches t t"
  by (induction t) auto

lemma topic_matches_level:
  assumes "CHR ''+'' \<notin> set a" "CHR ''+'' \<notin> set b" "CHR ''/'' \<notin> set i" "b = [] \<or> hd b = CHR ''/''"
  shows "topic_matches (a @ ''/+'' @ b) (a @ ''/'' @ i @ b)"
  using assms(1)
proof (induction a)
  case Nil
  have "dropWhile (\<lambda>x. x \<noteq> CHR ''/'') (i @ b) = b"
    using assms(3,4) by (cases b) (auto simp: dropWhile_append3)
  then show ?case using topic_matches_refl [OF assms(2)] by simp
qed auto

lemma topic_matches_delivers: "mqtt_delivers topic_matches"
  using topic_matches_refl topic_matches_level by (simp add: mqtt_delivers_def plain_def)

text \<open>
  Two vehicles. The acknowledgment of the first takes a second, that of the second comes back half a
  millisecond after the publication, before the client has registered the order.
\<close>

definition trip_vehicle :: "string \<Rightarrow> real SimulatedVehicle" where
  "trip_vehicle i = (SimulatedVehicle.truncate (NewSimulatedVehicle i ''tcp://localhost:1883'' ''v2g''
     \<lparr>CapacityKWh = 40, Soc = 7/10, ChargeRateKW = 7, DischargeRateKW = 10\<rparr> Second 10))\<lparr>sv_client := Some 0\<rparr>"

definition trip_fleet :: "real SimulatedVehicle list" where
  "trip_fleet = [trip_vehicle ''v1'', trip_vehicle ''v2'']"

definition trip_delay :: "string \<Rightarrow> Duration" where
  "trip_delay i = (if i = ''v1'' then Second else 0)"

definition trip_moments :: trip_times where
  "trip_moments = \<lparr>t_command = 300000, t_ack = 200000, t_register = Millisecond, t_wait = 2 * Millisecond, t_tie = False\<rparr>"

definition trip_env :: "real dispatch_env" where
  "trip_env = mgr_env\<lparr>envDiscover := Inr (map reported trip_fleet),
     envAck := \<lambda>c T. wait_result (ack_in_time (AutoAck (if c = ''cmd-v1'' then Second else 0) :: real AckStrategy) trip_moments T),
     envSchedule := [ActSend ''v1'', ActSend ''v2'', ActUpdate ''v2'', ActRecord ''v2'', ActUpdate ''v1'', ActRecord ''v1'']\<rparr>"

lemma trip_vehicle_ok:
  "online (trip_vehicle i) \<longleftrightarrow> i \<noteq> [] \<and> plain i \<and> CHR ''/'' \<notin> set i" "able (trip_vehicle i)" "serving mgr_signal (trip_vehicle i)"
  "sv_ID (trip_vehicle i) = i" "sv_MaxPower (trip_vehicle i) = 10"
  by (simp_all add: trip_vehicle_def NewSimulatedVehicle_def SimulatedVehicle.truncate_def online_def able_def serving_def
      filter_accepts_def mgr_signal_def reported_def zeroVehicle_def)

lemma trip_fleet_ok:
  "\<forall>v\<in>set trip_fleet. online v \<and> able v" "distinct (map sv_ID trip_fleet)" "filter (serving mgr_signal) trip_fleet = trip_fleet"
  by (simp_all add: trip_fleet_def trip_vehicle_ok plain_def)

lemma trip_behind: "behind_broker topic_matches ''vehicle/+/ack'' (\<lambda>i. ''cmd-'' @ i) trip_delay (\<lambda>_. trip_moments) trip_fleet trip_env"
proof -
  have on: "\<forall>v\<in>set trip_fleet. online v" using trip_fleet_ok(1) by blast
  have "distinct (map ID (map reported trip_fleet))" using trip_fleet_ok(2) by (simp add: comp_def)
  then have "envDiscover trip_env = Inr (fst (Discover None None (fleet_replies topic_matches trip_fleet)))"
    using fleet_replies_online [OF topic_matches_delivers on] Discover_distinct [of "map reported trip_fleet"]
    by (simp add: trip_env_def)
  moreover have "\<exists>p. envSend trip_env i pw = snd (SendOrder (\<lambda>_. None) (''cmd-'' @ i) p)" for i pw
    by (simp add: trip_env_def mgr_env_def SendOrder_ok)
  moreover have "envAck trip_env (''cmd-'' @ sv_ID v) T = r" if v: "v \<in> set trip_fleet"
    and trip: "order_trip topic_matches ''vehicle/+/ack'' (AutoAck (trip_delay (sv_ID v))) rnd trip_moments T t (''cmd-'' @ sv_ID v) pw v p =
      Some (r, p', v')" for v rnd T t pw p r p' v'
  proof -
    obtain p2 v2 where "order_trip topic_matches ''vehicle/+/ack'' (AutoAck (trip_delay (sv_ID v))) rnd trip_moments T t (''cmd-'' @ sv_ID v) pw v p =
        Some (wait_result (ack_in_time (AutoAck (trip_delay (sv_ID v)) :: real AckStrategy) trip_moments T), p2, v2)"
      by (rule order_trip_effect [OF topic_matches_delivers bspec [OF on v]])
    with trip have "r = wait_result (ack_in_time (AutoAck (trip_delay (sv_ID v)) :: real AckStrategy) trip_moments T)" by simp
    with v show ?thesis by (auto simp: trip_env_def trip_fleet_def trip_vehicle_ok trip_delay_def)
  qed
  ultimately show ?thesis unfolding behind_broker_def by blast
qed


text \<open>
  An acknowledgment says that the command has arrived, not that it was carried out: the vehicle queues the
  acknowledgment whether or not it takes the order, and the service counts a refused order as served when
  its acknowledgment comes in time. With the default flags of the simulator this happens to every order to
  charge with more than 7 kW.
\<close>

theorem acknowledged_without_effect:
  fixes v :: "real SimulatedVehicle"
  assumes "mqtt_delivers delivers" "online v" "ack_in_time (AutoAck delay :: real AckStrategy) tm T"
  shows "\<exists>p' v'. order_trip delivers ''vehicle/+/ack'' (AutoAck delay) rnd tm T now cid pw v p = Some ((True, None), p', v') \<and>
    currentPower v' = (if takes_order v pw then pw else currentPower v)"
  by (rule order_trip_effect [OF assms(1,2), of delay rnd tm T now cid pw p]) (use assms(3) in \<open>simp add: wait_result_def\<close>)

theorem acknowledged_without_effect_witness:
  "\<exists>p' v'. order_trip topic_matches ''vehicle/+/ack'' (AutoAck Second) 0 trip_moments (5 * Second) timeZero ''c'' (- 10) (trip_vehicle ''v1'')
     (NewPahoClient Map.empty 3 100) = Some ((True, None), p', v') \<and> currentPower v' = 0"
proof -
  have "online (trip_vehicle ''v1'')" by (simp add: trip_vehicle_ok plain_def)
  moreover have "ack_in_time (AutoAck Second :: real AckStrategy) trip_moments (5 * Second)"
    by (simp add: ack_in_time_def ack_arrival_def trip_moments_def Millisecond_def Second_def)
  moreover have "\<not> takes_order (trip_vehicle ''v1'') (- 10)" "currentPower (trip_vehicle ''v1'') = 0"
    by (simp_all add: takes_order_def trip_vehicle_def NewSimulatedVehicle_def SimulatedVehicle.truncate_def)
  ultimately show ?thesis
    using acknowledged_without_effect [OF topic_matches_delivers, of "trip_vehicle ''v1''" Second trip_moments "5 * Second" 0 timeZero "''c''" "- 10"]
    by simp
qed

end
