(* ===== verification/Fleet_Telemetry.thy ===== *)
theory Fleet_Telemetry
  imports End_To_End
begin

text \<open>
  The telemetry of the simulated fleet: what \<open>publishTelemetry\<close> of \<open>simulator/vehicle.go\<close> sends and what the
  telemetry manager of \<open>infra/telemetry/manager.go\<close> makes of it, pushed and polled, over the broker of
  \<open>End_To_End\<close>. The JSON encoder and decoder are arguments, which agree on the fields of the messages sent.
\<close>

subsection \<open>Messages\<close>

text \<open>The fields of a state message as the telemetry manager decodes them.\<close>

definition as_payload :: "'n state_msg \<Rightarrow> 'n telemetry_payload" where
  "as_payload m = \<lparr>tp_VehicleID = msg_vehicle_id m, tp_SoC = msg_soc m, tp_Available = Some (msg_available m),
     tp_Charging = Some (msg_charging m), tp_PowerKW = msg_power_kw m, tp_TS = Some (msg_ts m)\<rparr>"

definition json_agrees :: "('n state_msg \<Rightarrow> string) \<Rightarrow> (string \<Rightarrow> go_error + 'n telemetry_payload) \<Rightarrow> 'n state_msg \<Rightarrow> bool" where
  "json_agrees encode decode m \<longleftrightarrow> decode (encode m) = Inr (as_payload m)"

text \<open>A broker delivers to a filter that ends in \<open>+\<close> only topics of its own prefix.\<close>

definition mqtt_exact :: "(string \<Rightarrow> string \<Rightarrow> bool) \<Rightarrow> bool" where
  "mqtt_exact delivers \<longleftrightarrow> mqtt_delivers delivers \<and>
     (\<forall>a t. plain a \<longrightarrow> delivers (a @ ''/+'') t \<longrightarrow> (\<exists>i. CHR ''/'' \<notin> set i \<and> t = a @ ''/'' @ i))"

fun state_payload :: "(string \<Rightarrow> bool) \<Rightarrow> 'n sim_event \<Rightarrow> (string \<times> 'n state_msg) list" where
  "state_payload here (EvState t m) = (if here t then [(t, m)] else [])"
| "state_payload here _ = []"

definition prefix_filter :: "string \<Rightarrow> string" where
  "prefix_filter p = TrimSuffix p ''/'' @ ''/+''"

text \<open>
  The messages that reach the state subscription when every vehicle pushes its state, and those that reach the
  response subscription when every vehicle answers a poll.
\<close>

definition pushed ::
  "(string \<Rightarrow> string \<Rightarrow> bool) \<Rightarrow> TelemetryConfig \<Rightarrow> Time \<Rightarrow> 'n::{zero,ord} SimulatedVehicle list \<Rightarrow> (string \<times> 'n state_msg) list" where
  "pushed delivers cfg now sims =
     concat (map (\<lambda>v. case publishTelemetry now v of
                        None \<Rightarrow> []
                      | Some v' \<Rightarrow> concat (map (state_payload (delivers (prefix_filter (StatePrefix cfg)))) (new_events v v'))) sims)"

definition answers ::
  "(string \<Rightarrow> string \<Rightarrow> bool) \<Rightarrow> TelemetryConfig \<Rightarrow> Time \<Rightarrow> 'n::{zero,ord} SimulatedVehicle list \<Rightarrow> (string \<times> 'n state_msg) list" where
  "answers delivers cfg now sims =
     concat (map (\<lambda>v. case onTelemetryRequest now v of
                        None \<Rightarrow> []
                      | Some v' \<Rightarrow> concat (map (state_payload (delivers (prefix_filter (ResponsePrefix cfg)))) (new_events v v'))) sims)"

text \<open>The messages among the events of a poll.\<close>

fun arrivals :: "poll_event list \<Rightarrow> (string \<times> string) list" where
  "arrivals (Arrive now topic payload # es) = (topic, payload) # arrivals es"
| "arrivals (_ # es) = arrivals es"
| "arrivals [] = []"

lemma taken_nothing: "arrivals es = [] \<Longrightarrow> taken es [] = []"
proof (induction es)
  case (Cons e es)
  then show ?case by (cases e) auto
qed simp

subsection \<open>Topics\<close>

lemma trimSlash_TrimSuffix: "trimSlash p = TrimSuffix p ''/''"
proof (cases p rule: rev_cases)
  case (snoc q c)
  then show ?thesis by (auto simp: trimSlash_def TrimSuffix_def)
qed (simp add: trimSlash_def TrimSuffix_def)

lemma level_unique:
  assumes "a @ ''/'' @ i = b @ ''/'' @ j" "CHR ''/'' \<notin> set i" "CHR ''/'' \<notin> set j"
  shows "a = b \<and> i = j"
proof -
  have "\<forall>x\<in>set i. x \<noteq> CHR ''/''" "\<forall>x\<in>set j. x \<noteq> CHR ''/''" using assms(2,3) by blast+
  then have "takeWhile (\<lambda>c. c \<noteq> CHR ''/'') (rev (a @ ''/'' @ i)) = rev i" "takeWhile (\<lambda>c. c \<noteq> CHR ''/'') (rev (b @ ''/'' @ j)) = rev j"
    by (simp_all add: takeWhile_tail)
  with assms(1) have "i = j" by (metis rev_is_rev_conv)
  with assms(1) show ?thesis by simp
qed

text \<open>A vehicle that publishes its states under the prefix \<open>sp\<close>.\<close>

definition reports_to :: "string \<Rightarrow> 'n SimulatedVehicle \<Rightarrow> bool" where
  "reports_to sp v \<longleftrightarrow> online v \<and> StateTopicPrefix v = sp"

lemma publishTelemetry_online:
  assumes "reports_to sp v"
  shows "\<exists>v'. publishTelemetry now v = Some v' \<and> onTelemetryRequest now v = Some v' \<and>
    new_events v v' = [EvState (TrimSuffix sp ''/'' @ ''/'' @ sv_ID v) (state_message True now v)]"
  using assms
  by (auto simp: reports_to_def online_def onTelemetryRequest_def publishTelemetry_def emit_def new_events_def trimSlash_TrimSuffix)

lemma pushed_eq:
  assumes "mqtt_delivers delivers" "plain (TrimSuffix (StatePrefix cfg) ''/'')" "\<forall>v\<in>set sims. reports_to (StatePrefix cfg) v"
  shows "pushed delivers cfg now sims =
    map (\<lambda>v. (TrimSuffix (StatePrefix cfg) ''/'' @ ''/'' @ sv_ID v, state_message True now v)) sims"
  using assms(3)
proof (induction sims)
  case (Cons v sims)
  then have r: "reports_to (StatePrefix cfg) v" by simp
  obtain v' where v': "publishTelemetry now v = Some v'"
    "new_events v v' = [EvState (TrimSuffix (StatePrefix cfg) ''/'' @ ''/'' @ sv_ID v) (state_message True now v)]"
    using publishTelemetry_online [OF r] by blast
  have "delivers (prefix_filter (StatePrefix cfg)) (TrimSuffix (StatePrefix cfg) ''/'' @ ''/'' @ sv_ID v)"
    using mqtt_delivers_level [OF assms(1,2), of "sv_ID v" "[]"] r by (simp add: prefix_filter_def reports_to_def online_def plain_def)
  with v' Cons show ?case by (simp add: pushed_def)
qed (simp add: pushed_def)

lemma answers_none:
  assumes "mqtt_exact delivers" "plain (TrimSuffix (ResponsePrefix cfg) ''/'')" "\<forall>v\<in>set sims. reports_to sp v"
    and "TrimSuffix sp ''/'' \<noteq> TrimSuffix (ResponsePrefix cfg) ''/''"
  shows "answers delivers cfg now sims = []"
  using assms(3)
proof (induction sims)
  case (Cons v sims)
  then have r: "reports_to sp v" by simp
  obtain v' where v': "onTelemetryRequest now v = Some v'"
    "new_events v v' = [EvState (TrimSuffix sp ''/'' @ ''/'' @ sv_ID v) (state_message True now v)]"
    using publishTelemetry_online [OF r] by blast
  have "\<not> delivers (prefix_filter (ResponsePrefix cfg)) (TrimSuffix sp ''/'' @ ''/'' @ sv_ID v)"
  proof
    assume "delivers (prefix_filter (ResponsePrefix cfg)) (TrimSuffix sp ''/'' @ ''/'' @ sv_ID v)"
    then obtain i where "CHR ''/'' \<notin> set i" "TrimSuffix sp ''/'' @ ''/'' @ sv_ID v = TrimSuffix (ResponsePrefix cfg) ''/'' @ ''/'' @ i"
      using assms(1,2) unfolding mqtt_exact_def prefix_filter_def by blast
    with level_unique [of "TrimSuffix sp ''/''" "sv_ID v"] r assms(4) show False by (auto simp: reports_to_def online_def)
  qed
  with v' Cons show ?case by (simp add: answers_def)
qed (simp add: answers_def)

subsection \<open>The telemetry of the fleet\<close>

text \<open>What the telemetry manager records of a vehicle that pushes its state.\<close>

definition recorded_state :: "int \<Rightarrow> Time \<Rightarrow> 'n::{zero,ord} SimulatedVehicle \<Rightarrow> 'n VehicleStateEvent" where
  "recorded_state tz now v =
     \<lparr>vs_Vehicle = zeroVehicle\<lparr>ID := sv_ID v, SoC := Soc (sv_Battery v), MaxPower := currentPower v, Available := True,
        Charging := (0 < currentPower v)\<rparr>,
      vs_FleetID = [], vs_Context = ''push'', vs_Component = ''telemetry'', vs_Time = ofUnix tz (timeUnix now)\<rparr>"

lemma onPush_records:
  fixes m :: "real TelemetryManager"
  assumes "json_agrees encode decode (state_message True now v)" "tel_hasSink m" "sv_ID v \<noteq> []" "battery_ok (sv_Battery v)"
  shows "onPush decode tz t topic (encode (state_message True now v)) m = m\<lparr>tel_states := tel_states m @ [recorded_state tz now v]\<rparr>"
  using assms
  by (simp add: onPush_def process_def json_agrees_def as_payload_def state_event_def state_message_def recorded_state_def
      battery_ok_def Let_def)

lemma pushes_recorded:
  fixes m :: "real TelemetryManager"
  assumes "tel_hasSink m"
    and "\<forall>v\<in>set sims. sv_ID v \<noteq> [] \<and> battery_ok (sv_Battery v) \<and> json_agrees encode decode (state_message True now v)"
  shows "foldl (\<lambda>m (topic, x). onPush decode tz t topic (encode x) m) m (map (\<lambda>v. (f v, state_message True now v)) sims) =
    m\<lparr>tel_states := tel_states m @ map (recorded_state tz now) sims\<rparr>"
  using assms
proof (induction sims arbitrary: m)
  case (Cons v sims)
  then show ?case using onPush_records [of encode decode now v m tz t "f v"] by simp
qed simp

text \<open>
  C29. Pushed states reach the sink as they are: one event per vehicle, in order, with its identifier, its
  state of charge, its power, and the time of the message. Polled states never arrive: the vehicles answer a
  request on their state topic and not under the response prefix, so that a poll gets no response, and
  counts every vehicle that was discovered as timed out.
\<close>

theorem telemetry_of_simulated_fleet:
  fixes m :: "real TelemetryManager"
  assumes "mqtt_exact delivers" "\<forall>v\<in>set sims. json_agrees encode decode (state_message True now v)"
    and "plain (TrimSuffix (StatePrefix cfg) ''/'')" "plain (TrimSuffix (ResponsePrefix cfg) ''/'')"
    and "TrimSuffix (StatePrefix cfg) ''/'' \<noteq> TrimSuffix (ResponsePrefix cfg) ''/''"
    and "\<forall>v\<in>set sims. reports_to (StatePrefix cfg) v \<and> battery_ok (sv_Battery v)" "distinct (map sv_ID sims)"
    and "tel_hasSink m" "respCh m = []" "timed_out es"
    and "arrivals es = map (\<lambda>(topic, x). (topic, encode x)) (answers delivers cfg now sims)"
  shows "foldl (\<lambda>m (topic, x). onPush decode tz t topic (encode x) m) m (pushed delivers cfg now sims) =
      m\<lparr>tel_states := tel_states m @ map (recorded_state tz now) sims\<rparr> \<and>
    (let m' = doPoll decode tz start (Some (Inr (fst (Discover None None (fleet_replies delivers sims))))) es m in
     pollResp m' = pollResp m \<and> pollTimeout m' = pollTimeout m + length sims \<and> tel_states m' = tel_states m)"
proof
  have deliv: "mqtt_delivers delivers" using assms(1) by (simp add: mqtt_exact_def)
  have rep: "\<forall>v\<in>set sims. reports_to (StatePrefix cfg) v" and on: "\<forall>v\<in>set sims. online v"
    and vs: "\<forall>v\<in>set sims. sv_ID v \<noteq> [] \<and> battery_ok (sv_Battery v) \<and> json_agrees encode decode (state_message True now v)"
    using assms(2,6) by (auto simp: reports_to_def online_def)
  show "foldl (\<lambda>m (topic, x). onPush decode tz t topic (encode x) m) m (pushed delivers cfg now sims) =
      m\<lparr>tel_states := tel_states m @ map (recorded_state tz now) sims\<rparr>"
    unfolding pushed_eq [OF deliv assms(3) rep] by (rule pushes_recorded [OF assms(8) vs])
  have ids: "distinct (map ID (map reported sims))" using assms(7) by (simp add: comp_def)
  then have disc: "fst (Discover None None (fleet_replies delivers sims)) = map reported sims"
    using fleet_replies_online [OF deliv on] Discover_distinct [of "map reported sims"] by simp
  have "taken es [] = []"
    by (rule taken_nothing) (simp add: assms(11) answers_none [OF assms(1,4) rep assms(5)])
  then have "answered decode es (respCh m) = []" by (simp add: answered_def assms(9))
  with poll_loop_accounting [of decode tz start es "map sv_ID sims" "m\<lparr>pollReq := pollReq m + 1\<rparr>"] assms(7,10)
  show "let m' = doPoll decode tz start (Some (Inr (fst (Discover None None (fleet_replies delivers sims))))) es m in
     pollResp m' = pollResp m \<and> pollTimeout m' = pollTimeout m + length sims \<and> tel_states m' = tel_states m"
    by (simp add: doPoll_def disc expectedVehicles_def Let_def comp_def distinct_remdups_id)
qed

subsection \<open>An instance\<close>

lemma topic_matches_prefix:
  assumes "plain a" "topic_matches (a @ ''/+'') t"
  shows "\<exists>i. CHR ''/'' \<notin> set i \<and> t = a @ ''/'' @ i"
  using assms
proof (induction a arbitrary: t)
  case Nil
  then obtain t' where t': "t = CHR ''/'' # t'" "dropWhile (\<lambda>x. x \<noteq> CHR ''/'') t' = []"
    by (auto split: list.splits)
  then have "CHR ''/'' \<notin> set t'" by (auto simp: dropWhile_eq_Nil_conv)
  with t' show ?case by simp
next
  case (Cons c a)
  then obtain t' where t': "t = c # t'" "topic_matches (a @ ''/+'') t'"
    by (auto simp: plain_def split: list.splits)
  with Cons.IH [of t'] Cons.prems(1) show ?case by (simp add: plain_def)
qed

lemma topic_matches_exact: "mqtt_exact topic_matches"
  using topic_matches_delivers topic_matches_prefix by (simp add: mqtt_exact_def)

definition state_vehicle :: "real SimulatedVehicle" where
  "state_vehicle = (trip_vehicle ''v1'')\<lparr>StateTopicPrefix := ''v2g/vehicle/state/''\<rparr>"

definition telemetry_test :: TelemetryConfig where
  "telemetry_test = (CfgTelemetry test_config)\<lparr>StatePrefix := ''v2g/vehicle/state/'', ResponsePrefix := ''v2g/telemetry/response/''\<rparr>"

theorem telemetry_of_simulated_fleet_witness:
  "let decode = (\<lambda>_. Inr (as_payload (state_message True timeZero state_vehicle)));
       m = NewTelemetryManager telemetry_test True in
   tel_states (foldl (\<lambda>m (topic, x). onPush decode 0 timeZero topic ''json'' m) m
     (pushed topic_matches telemetry_test timeZero [state_vehicle])) = [recorded_state 0 timeZero state_vehicle] \<and>
   pollTimeout (doPoll decode 0 timeZero (Some (Inr (fst (Discover None None (fleet_replies topic_matches [state_vehicle])))))
     [Take timeZero, PollTimer] m) = 1"
proof -
  let ?decode = "\<lambda>_. Inr (as_payload (state_message True timeZero state_vehicle)) :: go_error + real telemetry_payload"
  have fleet: "\<forall>v\<in>set [state_vehicle]. reports_to (StatePrefix telemetry_test) v \<and> battery_ok (sv_Battery v)"
    using trip_vehicle_ok(1) [of "''v1''"]
    by (simp add: plain_def reports_to_def online_def state_vehicle_def telemetry_test_def battery_ok_def trip_vehicle_def
        NewSimulatedVehicle_def SimulatedVehicle.truncate_def)
  have pre: "TrimSuffix (StatePrefix telemetry_test) ''/'' = ''v2g/vehicle/state''"
    "TrimSuffix (ResponsePrefix telemetry_test) ''/'' = ''v2g/telemetry/response''"
    by (simp_all add: telemetry_test_def TrimSuffix_def suffix_def)
  have plain: "plain (TrimSuffix (StatePrefix telemetry_test) ''/'')" "plain (TrimSuffix (ResponsePrefix telemetry_test) ''/'')"
    "TrimSuffix (StatePrefix telemetry_test) ''/'' \<noteq> TrimSuffix (ResponsePrefix telemetry_test) ''/''"
    by (simp_all add: pre plain_def)
  have json: "\<forall>v\<in>set [state_vehicle]. json_agrees (\<lambda>_. ''json'') ?decode (state_message True timeZero v)"
    by (simp add: json_agrees_def)
  have none: "answers topic_matches telemetry_test timeZero [state_vehicle] = []"
    by (rule answers_none [OF topic_matches_exact plain(2) _ plain(3)]) (use fleet in simp)
  have "distinct (map sv_ID [state_vehicle])" "tel_hasSink (NewTelemetryManager telemetry_test True :: real TelemetryManager)"
    "respCh (NewTelemetryManager telemetry_test True :: real TelemetryManager) = []" "timed_out [Take timeZero, PollTimer]"
    by (simp_all add: NewTelemetryManager_def)
  from telemetry_of_simulated_fleet [OF topic_matches_exact json plain fleet this, of 0 timeZero timeZero] none
  show ?thesis by (simp add: Let_def NewTelemetryManager_def)
qed

end
