(* ===== verification/Logging.thy ===== *)
theory Logging
  imports Smart_Dispatcher Go_Text
begin

text \<open>
  Logging: the adapters of \<open>infra/logger\<close> (\<open>NopLogger\<close>, \<open>ZerologLogger\<close>) behind the interface of
  \<open>core/logger\<close>, and what the smart dispatcher writes to its logger. The formatting of a message
  (\<open>fmt\<close>) and the order in which the fields of a structured line are ranged over are arguments, and the
  output is the list of the lines written.
\<close>

subsection \<open>The interface (core/logger/logger.go)\<close>

datatype log_level = DebugLevel | InfoLevel | WarnLevel | ErrorLevel

datatype 'n log_value = LogString string | LogNumber 'n

text \<open>A call of \<open>Logger\<close>: a format with its arguments, or a message with fields.\<close>

datatype 'n log_call =
    Debugf string "'n log_value list"
  | Debugw string "string \<rightharpoonup> 'n log_value"
  | Infof string "'n log_value list"
  | Warnf string "'n log_value list"
  | Errorf_call string "'n log_value list"

record 'n log_line =
  ln_component :: string
  ln_level :: log_level
  ln_fields :: "(string \<times> 'n log_value) list"
  ln_msg :: string

subsection \<open>The adapters (infra/logger)\<close>

text \<open>\<open>NopLogger\<close>: every method is empty.\<close>

definition Nop_call :: "'n log_call \<Rightarrow> unit \<Rightarrow> unit" where
  "Nop_call c l = l"

datatype log_writer = ConsoleWriter | StdoutWriter

record 'n ZerologLogger =
  zl_writer :: log_writer
  zl_component :: string
  zl_lines :: "'n log_line list"

definition NewZerologLogger :: "string \<Rightarrow> string \<Rightarrow> 'n ZerologLogger" where
  "NewZerologLogger appEnv component =
     \<lparr>zl_writer = (if ToLower appEnv = ''dev'' then ConsoleWriter else StdoutWriter),
      zl_component = component, zl_lines = []\<rparr>"

definition emit_line :: "log_level \<Rightarrow> (string \<times> 'n log_value) list \<Rightarrow> string \<Rightarrow> 'n ZerologLogger \<Rightarrow> 'n ZerologLogger" where
  "emit_line level flds msg l =
     l\<lparr>zl_lines := zl_lines l @ [\<lparr>ln_component = zl_component l, ln_level = level, ln_fields = flds, ln_msg = msg\<rparr>]\<rparr>"

fun Zerolog_call ::
  "(string \<Rightarrow> 'n log_value list \<Rightarrow> string) \<Rightarrow> ((string \<rightharpoonup> 'n log_value) \<Rightarrow> string list) \<Rightarrow> 'n log_call
    \<Rightarrow> 'n ZerologLogger \<Rightarrow> 'n ZerologLogger" where
  "Zerolog_call sprintf keys (Debugf fmt args) l = emit_line DebugLevel [] (sprintf fmt args) l"
| "Zerolog_call sprintf keys (Debugw msg flds) l =
     emit_line DebugLevel (map (\<lambda>k. (k, the (flds k))) (keys flds)) msg l"
| "Zerolog_call sprintf keys (Infof fmt args) l = emit_line InfoLevel [] (sprintf fmt args) l"
| "Zerolog_call sprintf keys (Warnf fmt args) l = emit_line WarnLevel [] (sprintf fmt args) l"
| "Zerolog_call sprintf keys (Errorf_call fmt args) l = emit_line ErrorLevel [] (sprintf fmt args) l"

text \<open>What a client relies on: a call adds lines and changes nothing that was written.\<close>

locale logger =
  fixes log :: "'n log_call \<Rightarrow> 'l \<Rightarrow> 'l" and written :: "'l \<Rightarrow> 'n log_line list"
    and line_of :: "'l \<Rightarrow> 'n log_call \<Rightarrow> 'n log_line list"
  assumes log_appends: "written (log c l) = written l @ line_of l c"
    and line_of_stable: "line_of (log c l) c' = line_of l c'"
begin

lemma line_of_log: "line_of (log c l) = line_of l"
  by (rule ext) (rule line_of_stable)

lemma fold_written: "written (fold log cs l) = written l @ concat (map (line_of l) cs)"
  by (induction cs arbitrary: l) (simp_all add: log_appends line_of_log)

end

interpretation nop: logger Nop_call "\<lambda>_. []" "\<lambda>_ _. []"
  by unfold_locales simp_all

text \<open>The line of a call.\<close>

fun zerolog_line ::
  "(string \<Rightarrow> 'n log_value list \<Rightarrow> string) \<Rightarrow> ((string \<rightharpoonup> 'n log_value) \<Rightarrow> string list) \<Rightarrow> string \<Rightarrow> 'n log_call \<Rightarrow> 'n log_line" where
  "zerolog_line sprintf keys i (Debugf fmt args) = \<lparr>ln_component = i, ln_level = DebugLevel, ln_fields = [], ln_msg = sprintf fmt args\<rparr>"
| "zerolog_line sprintf keys i (Debugw msg flds) =
     \<lparr>ln_component = i, ln_level = DebugLevel, ln_fields = map (\<lambda>k. (k, the (flds k))) (keys flds), ln_msg = msg\<rparr>"
| "zerolog_line sprintf keys i (Infof fmt args) = \<lparr>ln_component = i, ln_level = InfoLevel, ln_fields = [], ln_msg = sprintf fmt args\<rparr>"
| "zerolog_line sprintf keys i (Warnf fmt args) = \<lparr>ln_component = i, ln_level = WarnLevel, ln_fields = [], ln_msg = sprintf fmt args\<rparr>"
| "zerolog_line sprintf keys i (Errorf_call fmt args) = \<lparr>ln_component = i, ln_level = ErrorLevel, ln_fields = [], ln_msg = sprintf fmt args\<rparr>"

lemma Zerolog_call_line:
  "Zerolog_call sprintf keys c l = l\<lparr>zl_lines := zl_lines l @ [zerolog_line sprintf keys (zl_component l) c]\<rparr>"
  by (cases c) (simp_all add: emit_line_def)

interpretation zerolog: logger "Zerolog_call sprintf keys" zl_lines "\<lambda>l c. [zerolog_line sprintf keys (zl_component l) c]"
  by unfold_locales (simp_all add: Zerolog_call_line)

subsection \<open>What the smart dispatcher logs (core/dispatch/smart_dispatcher.go)\<close>

text \<open>
  Lines 163 to 170 for the vehicles without enough charge, and lines 199 to 208 for the vehicles selected.
  \<open>Logger\<close> has the method \<open>Debugw\<close>, so the assertion to \<open>StructuredLogger\<close> holds for every logger.
\<close>

definition excluded_calls :: "'n Vehicle \<Rightarrow> 'n log_call list" where
  "excluded_calls v =
     [Debugw ''soc_excluded'' [''vehicle'' \<mapsto> LogString (ID v), ''soc'' \<mapsto> LogNumber (SoC v)],
      Infof ''vehicle %s skipped due to SoC %.2f'' [LogString (ID v), LogNumber (SoC v)]]"

definition selected_calls :: "(string \<rightharpoonup> 'n::{zero,ord}) \<Rightarrow> 'n candidate \<Rightarrow> 'n log_call list" where
  "selected_calls asn c =
     (case asn (ID (cand_v c)) of
        None \<Rightarrow> []
      | Some p \<Rightarrow>
          if feq p 0 then []
          else [Debugw ''vehicle_selected'' [''vehicle'' \<mapsto> LogString (ID (cand_v c)), ''score'' \<mapsto> LogNumber (cand_score c),
                  ''power'' \<mapsto> LogNumber p],
                Infof ''vehicle %s selected soc=%.2f power=%.2f'' [LogString (ID (cand_v c)), LogNumber (SoC (cand_v c)), LogNumber p]])"

text \<open>
  The calls of one \<open>Dispatch\<close> of a dispatcher whose \<open>Logger\<close> is set, which returns the assignments \<open>asn\<close>;
  \<open>candCopy\<close> is the list before the rounds.
\<close>

definition smart_calls ::
  "('n \<Rightarrow> 'n) \<Rightarrow> 'n::{zero,one,plus,minus,uminus,times,inverse,ord} SmartDispatcher \<Rightarrow> 'n Vehicle list
    \<Rightarrow> 'n FlexibilitySignal \<Rightarrow> (string \<rightharpoonup> 'n) \<Rightarrow> 'n log_call list" where
  "smart_calls expf d vs s asn =
     (if vs = [] \<or> feq (PowerKW s) 0 then []
      else let (lst, excluded) = buildCandidates expf d vs s (smart_ctx d s) in
           concat (map excluded_calls excluded) @ (if lst = [] then [] else concat (map (selected_calls asn) lst)))"

subsection \<open>The log tells the truth\<close>

text \<open>The vehicles that structured lines with the message \<open>msg\<close> name, with the value of a field.\<close>

definition reports :: "string \<Rightarrow> string \<Rightarrow> 'n log_line list \<Rightarrow> (string \<times> 'n) list" where
  "reports msg key ls =
     concat (map (\<lambda>l. if ln_level l = DebugLevel \<and> ln_msg l = msg
                      then (case (map_of (ln_fields l) ''vehicle'', map_of (ln_fields l) key) of
                              (Some (LogString i), Some (LogNumber x)) \<Rightarrow> [(i, x)] | _ \<Rightarrow> [])
                      else []) ls)"

lemma reports_simps [simp]:
  "reports msg key [] = []" "reports msg key (ls @ ls') = reports msg key ls @ reports msg key ls'"
  by (simp_all add: reports_def)

lemma reports_concat: "reports msg key (map f (concat xss)) = concat (map (\<lambda>xs. reports msg key (map f xs)) xss)"
  by (induction xss) simp_all

text \<open>The fields of a line are ranged over once each.\<close>

definition key_order :: "((string \<rightharpoonup> 'v) \<Rightarrow> string list) \<Rightarrow> bool" where
  "key_order keys \<longleftrightarrow> (\<forall>m. dom m \<subseteq> {''vehicle'', ''soc'', ''score'', ''power''} \<longrightarrow> ranges (keys m) m)"

lemma map_of_keys:
  assumes "key_order keys" "dom m \<subseteq> {''vehicle'', ''soc'', ''score'', ''power''}"
  shows "map_of (map (\<lambda>k. (k, the (m k))) (keys m)) = m"
proof
  fix k
  have "set (keys m) = dom m" using assms by (simp add: key_order_def ranges_def)
  then show "map_of (map (\<lambda>k. (k, the (m k))) (keys m)) k = m k"
    by (cases "k \<in> dom m") (auto simp: map_of_map_keys map_of_eq_None_iff image_image domIff)
qed

lemma reports_excluded:
  assumes "key_order keys"
  shows "reports ''soc_excluded'' ''soc'' (map (zerolog_line sprintf keys i) (excluded_calls v)) = [(ID v, SoC v)]"
    and "reports ''vehicle_selected'' ''power'' (map (zerolog_line sprintf keys i) (excluded_calls v)) = []"
  using map_of_keys [OF assms, of "[''vehicle'' \<mapsto> LogString (ID v), ''soc'' \<mapsto> LogNumber (SoC v)]"]
  by (simp_all add: excluded_calls_def reports_def del: fun_upd_apply) auto

lemma reports_selected:
  assumes "key_order keys"
  shows "reports ''vehicle_selected'' ''power'' (map (zerolog_line sprintf keys i) (selected_calls asn c)) =
      (case asn (ID (cand_v c)) of None \<Rightarrow> [] | Some p \<Rightarrow> if feq p 0 then [] else [(ID (cand_v c), p)])"
    and "reports ''soc_excluded'' ''soc'' (map (zerolog_line sprintf keys i) (selected_calls asn c)) = []"
proof -
  let ?m = "\<lambda>p. [''vehicle'' \<mapsto> LogString (ID (cand_v c)), ''score'' \<mapsto> LogNumber (cand_score c), ''power'' \<mapsto> LogNumber p]"
  have m: "map_of (map (\<lambda>k. (k, the (?m p k))) (keys (?m p))) = ?m p" for p
    by (rule map_of_keys [OF assms]) (auto split: if_splits)
  show "reports ''vehicle_selected'' ''power'' (map (zerolog_line sprintf keys i) (selected_calls asn c)) =
      (case asn (ID (cand_v c)) of None \<Rightarrow> [] | Some p \<Rightarrow> if feq p 0 then [] else [(ID (cand_v c), p)])"
    using m by (simp add: selected_calls_def reports_def del: fun_upd_apply split: option.split) simp
  show "reports ''soc_excluded'' ''soc'' (map (zerolog_line sprintf keys i) (selected_calls asn c)) = []"
    unfolding selected_calls_def reports_def by (cases "asn (ID (cand_v c))") simp_all
qed

lemma concat_options:
  assumes "distinct (map f xs)" "\<And>x. x \<in> set xs \<Longrightarrow> g x = [] \<or> (\<exists>y. g x = [(f x, y)])"
  shows "distinct (map fst (concat (map g xs)))"
proof -
  have "fst ` set (concat (map g xs)) \<subseteq> f ` set xs" if "\<And>x. x \<in> set xs \<Longrightarrow> g x = [] \<or> (\<exists>y. g x = [(f x, y)])" for xs
    using that by (induction xs) fastforce+
  with assms show ?thesis
  proof (induction xs)
    case (Cons x xs)
    have "fst ` set (concat (map g xs)) \<subseteq> f ` set xs" by (rule Cons.prems(3)) (use Cons.prems(2) in auto)
    with Cons Cons.prems(2) [of x] show ?case by fastforce
  qed simp
qed

text \<open>The lines of one dispatch.\<close>

definition dispatch_lines where
  "dispatch_lines sprintf keys appEnv component expf d vs s asn =
     zl_lines (fold (Zerolog_call sprintf keys) (smart_calls expf d vs s asn) (NewZerologLogger appEnv component))"

lemma dispatch_lines_eq:
  "dispatch_lines sprintf keys appEnv component expf d vs s asn =
     map (zerolog_line sprintf keys component) (smart_calls expf d vs s asn)"
  by (simp add: dispatch_lines_def zerolog.fold_written NewZerologLogger_def concat_map_singleton)

lemma zerolog_line_component: "ln_component (zerolog_line sprintf keys i c) = i"
  by (cases c) simp_all

lemma buildCandidates_parts:
  "fst (buildCandidates expf d vs s (smart_ctx d s)) = smart_list expf d vs s"
  "snd (buildCandidates expf d vs s (smart_ctx d s)) =
     filter (\<lambda>v. EnableSoCConstraints d \<and> \<not> soc_eligible d s (length vs) v) vs"
  by (auto simp: smart_list_def buildCandidates_def filterBySoC_def filterBySoC_loop_eq case_prod_unfold)

lemma reports_dispatch:
  assumes "key_order keys" "\<not> (vs = [] \<or> feq (PowerKW s) 0)"
  shows "reports ''vehicle_selected'' ''power'' (dispatch_lines sprintf keys appEnv component expf d vs s asn) =
      concat (map (\<lambda>c. case asn (ID (cand_v c)) of None \<Rightarrow> [] | Some p \<Rightarrow> if feq p 0 then [] else [(ID (cand_v c), p)]) (smart_list expf d vs s))"
    and "reports ''soc_excluded'' ''soc'' (dispatch_lines sprintf keys appEnv component expf d vs s asn) =
      map (\<lambda>v. (ID v, SoC v)) (filter (\<lambda>v. EnableSoCConstraints d \<and> \<not> soc_eligible d s (length vs) v) vs)"
proof -
  have calls: "smart_calls expf d vs s asn = concat (map excluded_calls (filter (\<lambda>v. EnableSoCConstraints d \<and> \<not> soc_eligible d s (length vs) v) vs)) @
      concat (map (selected_calls asn) (smart_list expf d vs s))"
    using assms(2) by (simp add: smart_calls_def case_prod_unfold buildCandidates_parts)
  show "reports ''vehicle_selected'' ''power'' (dispatch_lines sprintf keys appEnv component expf d vs s asn) =
      concat (map (\<lambda>c. case asn (ID (cand_v c)) of None \<Rightarrow> [] | Some p \<Rightarrow> if feq p 0 then [] else [(ID (cand_v c), p)]) (smart_list expf d vs s))"
    "reports ''soc_excluded'' ''soc'' (dispatch_lines sprintf keys appEnv component expf d vs s asn) =
      map (\<lambda>v. (ID v, SoC v)) (filter (\<lambda>v. EnableSoCConstraints d \<and> \<not> soc_eligible d s (length vs) v) vs)"
    unfolding dispatch_lines_eq calls map_append reports_simps reports_concat map_map comp_def
      reports_excluded [OF assms(1)] reports_selected [OF assms(1)] by simp_all
qed

lemma excluded_not_assigned:
  assumes "SmartDispatcher_Dispatch expf d vs s = Some (d', asn)" "distinct (map ID vs)"
  shows "\<not> (v \<in> set vs \<and> EnableSoCConstraints d \<and> \<not> soc_eligible d s (length vs) v \<and> asn (ID v) = Some p)"
proof
  assume v: "v \<in> set vs \<and> EnableSoCConstraints d \<and> \<not> soc_eligible d s (length vs) v \<and> asn (ID v) = Some p"
  then obtain c where "c \<in> set (smart_list expf d vs s)" "ID (cand_v c) = ID v" using smart_dispatch_dom [OF assms(1)] by force
  with v assms(2) smart_list_mem(1,5) [of c expf d vs s] show False by (metis distinct_map inj_onD)
qed

text \<open>
  C27. The log of a dispatch tells the truth. Through the zerolog adapter every line carries the component of
  the logger; the lines \<open>vehicle_selected\<close> name every vehicle with a power other than zero once, with exactly
  the power it is assigned, and no other vehicle; the lines \<open>soc_excluded\<close> name the vehicles that the filter
  on the state of charge turned away, in the order of the fleet, and none of these was selected.
\<close>

theorem dispatch_log_truthful:
  assumes "SmartDispatcher_Dispatch expf d vs s = Some (d', asn)" "distinct (map ID vs)" "key_order keys"
    and "lines = dispatch_lines sprintf keys appEnv component expf d vs s asn"
  shows "(\<forall>l\<in>set lines. ln_component l = component) \<and>
    distinct (map fst (reports ''vehicle_selected'' ''power'' lines)) \<and>
    (\<forall>i p. (i, p) \<in> set (reports ''vehicle_selected'' ''power'' lines) \<longleftrightarrow> asn i = Some p \<and> \<not> feq p 0) \<and>
    (vs \<noteq> [] \<and> \<not> feq (PowerKW s) 0 \<longrightarrow> reports ''soc_excluded'' ''soc'' lines =
       map (\<lambda>v. (ID v, SoC v)) (filter (\<lambda>v. EnableSoCConstraints d \<and> \<not> soc_eligible d s (length vs) v) vs)) \<and>
    fst ` set (reports ''soc_excluded'' ''soc'' lines) \<inter> fst ` set (reports ''vehicle_selected'' ''power'' lines) = {}"
proof (cases "vs = [] \<or> feq (PowerKW s) 0")
  case True
  then have "lines = []" "asn = Map.empty"
    using assms(1,4) by (auto simp: dispatch_lines_eq smart_calls_def SmartDispatcher_Dispatch_def)
  with True show ?thesis by auto
next
  case False
  let ?lst = "smart_list expf d vs s"
  let ?g = "\<lambda>c. case asn (ID (cand_v c)) of None \<Rightarrow> [] | Some p \<Rightarrow> if feq p 0 then [] else [(ID (cand_v c), p)]"
  note rep = reports_dispatch [OF assms(3) False, of sprintf appEnv component expf d asn, folded assms(4)]
  have "\<forall>l\<in>set lines. ln_component l = component" by (auto simp: assms(4) dispatch_lines_eq zerolog_line_component)
  moreover have "distinct (map fst (concat (map ?g ?lst)))"
    by (rule concat_options [OF smart_list_distinct [OF assms(2)]]) (simp split: option.split)
  moreover have sel: "(i, p) \<in> set (concat (map ?g ?lst)) \<longleftrightarrow> asn i = Some p \<and> \<not> feq p 0" for i p
  proof
    assume "(i, p) \<in> set (concat (map ?g ?lst))"
    then show "asn i = Some p \<and> \<not> feq p 0" by (auto split: option.splits if_splits)
  next
    assume p: "asn i = Some p \<and> \<not> feq p 0"
    then obtain c where "c \<in> set ?lst" "ID (cand_v c) = i" using smart_dispatch_dom [OF assms(1)] by blast
    with p have "c \<in> set ?lst" "(i, p) \<in> set (?g c)" by simp_all
    then show "(i, p) \<in> set (concat (map ?g ?lst))" by (simp only: set_concat set_map) blast
  qed
  moreover have "fst ` set (reports ''soc_excluded'' ''soc'' lines) \<inter> fst ` set (reports ''vehicle_selected'' ''power'' lines) = {}"
  proof -
    note excluded_not_assigned [OF assms(1,2)]
    then show ?thesis unfolding rep using sel by fastforce
  qed
  ultimately show ?thesis unfolding rep by simp
qed

text \<open>A vehicle that a dispatch selects for \<open>-10\<close> kW.\<close>

definition field_order :: "(string \<rightharpoonup> 'v) \<Rightarrow> string list" where
  "field_order m = filter (\<lambda>k. m k \<noteq> None) [''vehicle'', ''soc'', ''score'', ''power'']"

lemma field_order_ok: "key_order field_order"
  unfolding key_order_def ranges_def
proof (intro allI impI conjI)
  fix m :: "string \<rightharpoonup> 'a"
  assume m: "dom m \<subseteq> {''vehicle'', ''soc'', ''score'', ''power''}"
  show "distinct (field_order m)" unfolding field_order_def by (rule distinct_filter) simp
  have "set (field_order m) = {k \<in> {''vehicle'', ''soc'', ''score'', ''power''}. m k \<noteq> None}"
    unfolding field_order_def set_filter by (simp only: list.set)
  with m show "set (field_order m) = dom m" by blast
qed

theorem dispatch_log_truthful_witness:
  "\<exists>d' asn. SmartDispatcher_Dispatch exp NewSmartDispatcher [smart_test_vehicle] smart_test_signal = Some (d', asn) \<and>
     (''v1'', - 10) \<in> set (reports ''vehicle_selected'' ''power''
        (dispatch_lines (\<lambda>f args. f) field_order ''dev'' ''smart'' exp NewSmartDispatcher [smart_test_vehicle] smart_test_signal asn))"
proof -
  obtain d' where d': "SmartDispatcher_Dispatch exp NewSmartDispatcher [smart_test_vehicle] smart_test_signal = Some (d', [''v1'' \<mapsto> - 10])"
    using smart_test_dispatch by blast
  have "distinct (map ID [smart_test_vehicle])" by simp
  from dispatch_log_truthful [OF d' this field_order_ok refl] d' show ?thesis by (simp add: feq_def)
qed

end
