(* ===== verification/Metrics_Registry.thy ===== *)
theory Metrics_Registry
  imports V2G_Prelude "HOL-Library.More_List" "HOL-Library.Sublist"
begin

text \<open>
  The registration of the Prometheus collectors: \<open>core/dispatch/metrics.go\<close>, the constructors of
  \<open>infra/metrics/prom.go\<close>, \<open>rte/server_mock.go\<close> and \<open>infra/telemetry/manager.go\<close>, and the \<open>init\<close> of
  \<open>rte/generator\<close>. The registerer of the Prometheus client is an argument; what its documentation
  promises is \<open>registry_ok\<close>.
\<close>

subsection \<open>Collectors and registerers\<close>

datatype metric_kind = CounterVec | SingleCounter | HistogramVec | SingleHistogram | GaugeVec | SingleGauge

text \<open>A collector is a pointer: \<open>col_ref\<close> tells two collectors with the same options apart.\<close>

record collector =
  col_kind :: metric_kind
  col_name :: string
  col_help :: string
  col_labels :: "string list"
  col_ref :: nat

datatype register_outcome = Registered | AlreadyRegistered collector | RegisterErr go_error

type_synonym 'r registerer = "collector \<Rightarrow> 'r \<Rightarrow> register_outcome \<times> 'r"

text \<open>\<open>MustRegister\<close> panics at the first error.\<close>

fun MustRegister :: "'r registerer \<Rightarrow> collector list \<Rightarrow> 'r \<Rightarrow> 'r option" where
  "MustRegister register [] r = Some r"
| "MustRegister register (c # cs) r =
     (case register c r of (Registered, r') \<Rightarrow> MustRegister register cs r' | _ \<Rightarrow> None)"

text \<open>A nil registerer stands for the default one.\<close>

definition orDefault :: "'r option \<Rightarrow> 'r \<Rightarrow> 'r" where
  "orDefault reg dflt = (case reg of None \<Rightarrow> dflt | Some r \<Rightarrow> r)"

subsection \<open>The dispatch metrics (core/dispatch/metrics.go)\<close>

text \<open>New collectors take the references from \<open>n\<close> on.\<close>

definition newCollectors :: "nat \<Rightarrow> collector list" where
  "newCollectors n =
     [\<lparr>col_kind = HistogramVec, col_name = ''dispatch_execution_latency_seconds'',
       col_help = ''Latency of dispatch orders from publish to acknowledgment'', col_labels = [''signal_type''], col_ref = n\<rparr>,
      \<lparr>col_kind = CounterVec, col_name = ''vehicles_dispatched_total'', col_help = ''Number of vehicles dispatched'',
       col_labels = [''signal_type''], col_ref = n + 1\<rparr>,
      \<lparr>col_kind = GaugeVec, col_name = ''ack_rate'', col_help = ''Acknowledgment rate for dispatch orders'',
       col_labels = [''signal_type''], col_ref = n + 2\<rparr>,
      \<lparr>col_kind = SingleCounter, col_name = ''mqtt_publish_success_total'',
       col_help = ''Number of successful MQTT publish operations'', col_labels = [], col_ref = n + 3\<rparr>,
      \<lparr>col_kind = SingleCounter, col_name = ''mqtt_publish_failure_total'',
       col_help = ''Number of failed MQTT publish operations'', col_labels = [], col_ref = n + 4\<rparr>]"

definition MustRegisterMetrics :: "'r registerer \<Rightarrow> collector list \<Rightarrow> 'r option \<Rightarrow> 'r \<Rightarrow> 'r option" where
  "MustRegisterMetrics register globals reg dflt = MustRegister register globals (orDefault reg dflt)"

definition ResetMetrics :: "'r registerer \<Rightarrow> nat \<Rightarrow> 'r option \<Rightarrow> (collector list \<times> 'r option) option" where
  "ResetMetrics register n reg =
     (let globals = newCollectors n in
      case reg of
        None \<Rightarrow> Some (globals, None)
      | Some r \<Rightarrow> map_option (\<lambda>r'. (globals, Some r')) (MustRegisterMetrics register globals (Some r) r))"

subsection \<open>The generator and the telemetry manager\<close>

definition generator_collectors :: "nat \<Rightarrow> collector list" where
  "generator_collectors n =
     [\<lparr>col_kind = CounterVec, col_name = ''rte_generator_signals_total'', col_help = ''Total RTE signals emitted'',
       col_labels = [''signal_type''], col_ref = n\<rparr>,
      \<lparr>col_kind = SingleCounter, col_name = ''rte_generator_power_requested_kw_sum'', col_help = ''Sum of requested power'',
       col_labels = [], col_ref = n + 1\<rparr>,
      \<lparr>col_kind = SingleGauge, col_name = ''rte_generator_last_emit_timestamp_seconds'', col_help = ''Last emission time'',
       col_labels = [], col_ref = n + 2\<rparr>,
      \<lparr>col_kind = SingleCounter, col_name = ''rte_generator_emit_errors_total'', col_help = ''Errors while emitting signals'',
       col_labels = [], col_ref = n + 3\<rparr>,
      \<lparr>col_kind = SingleHistogram, col_name = ''rte_generator_interval_seconds'', col_help = ''Interval between signals'',
       col_labels = [], col_ref = n + 4\<rparr>]"

definition telemetry_collectors :: "nat \<Rightarrow> collector list" where
  "telemetry_collectors n =
     [\<lparr>col_kind = SingleCounter, col_name = ''telemetry_poll_requests_total'', col_help = ''Number of telemetry poll requests'',
       col_labels = [], col_ref = n\<rparr>,
      \<lparr>col_kind = SingleCounter, col_name = ''telemetry_poll_responses_total'', col_help = ''Number of telemetry poll responses'',
       col_labels = [], col_ref = n + 1\<rparr>,
      \<lparr>col_kind = SingleCounter, col_name = ''telemetry_poll_timeout_total'', col_help = ''Number of telemetry poll timeouts'',
       col_labels = [], col_ref = n + 2\<rparr>,
      \<lparr>col_kind = SingleGauge, col_name = ''telemetry_last_collect_timestamp_seconds'',
       col_help = ''Unix timestamp of last telemetry collection'', col_labels = [], col_ref = n + 3\<rparr>,
      \<lparr>col_kind = SingleHistogram, col_name = ''telemetry_collect_latency_seconds'',
       col_help = ''Latency of telemetry collection'', col_labels = [], col_ref = n + 4\<rparr>]"

subsection \<open>The Prometheus sink (infra/metrics/prom.go)\<close>

record sink_handles =
  h_events :: collector
  h_latency :: collector
  h_fleet :: collector

definition sink_collectors :: "nat \<Rightarrow> sink_handles" where
  "sink_collectors n =
     \<lparr>h_events = \<lparr>col_kind = CounterVec, col_name = ''dispatch_events_total'', col_help = ''Total number of dispatch events'',
        col_labels = [''vehicle_id'', ''signal_type'', ''acknowledged''], col_ref = n\<rparr>,
      h_latency = \<lparr>col_kind = HistogramVec, col_name = ''dispatch_latency_seconds'',
        col_help = ''Time between command send and acknowledgment'',
        col_labels = [''vehicle_id'', ''signal_type'', ''acknowledged''], col_ref = n + 1\<rparr>,
      h_fleet = \<lparr>col_kind = SingleGauge, col_name = ''fleet_discovery_vehicles_total'',
        col_help = ''Number of vehicles discovered during fleet discovery'', col_labels = [], col_ref = n + 2\<rparr>\<rparr>"

text \<open>
  An existing collector is taken over with an unchecked type assertion, which panics when the type is
  another; every other error is returned.
\<close>

definition take_over :: "metric_kind \<Rightarrow> 'r registerer \<Rightarrow> collector \<Rightarrow> 'r \<Rightarrow> ((go_error + collector) \<times> 'r) option" where
  "take_over kind register c r =
     (case register c r of
        (Registered, r') \<Rightarrow> Some (Inr c, r')
      | (AlreadyRegistered old, r') \<Rightarrow> if col_kind old = kind then Some (Inr old, r') else None
      | (RegisterErr e, r') \<Rightarrow> Some (Inl e, r'))"

definition NewPromSinkWithRegistry ::
  "'r registerer \<Rightarrow> nat \<Rightarrow> 'r option \<Rightarrow> 'r \<Rightarrow> ((go_error + sink_handles) \<times> 'r) option" where
  "NewPromSinkWithRegistry register n reg dflt =
     (let new = sink_collectors n in
      case take_over CounterVec register (h_events new) (orDefault reg dflt) of
        None \<Rightarrow> None
      | Some (Inl e, r) \<Rightarrow> Some (Inl e, r)
      | Some (Inr events, r) \<Rightarrow>
     case take_over HistogramVec register (h_latency new) r of
        None \<Rightarrow> None
      | Some (Inl e, r) \<Rightarrow> Some (Inl e, r)
      | Some (Inr latency, r) \<Rightarrow>
     case take_over SingleGauge register (h_fleet new) r of
        None \<Rightarrow> None
      | Some (Inl e, r) \<Rightarrow> Some (Inl e, r)
      | Some (Inr fleet, r) \<Rightarrow> Some (Inr \<lparr>h_events = events, h_latency = latency, h_fleet = fleet\<rparr>, r))"

subsection \<open>The eco sink (infra/metrics/eco.go)\<close>

definition eco_collectors :: "nat \<Rightarrow> collector list" where
  "eco_collectors n =
     [\<lparr>col_kind = GaugeVec, col_name = ''vehicle_injected_energy_kwh'', col_help = ''Daily injected energy per vehicle'',
       col_labels = [''vehicle_id'', ''day''], col_ref = n\<rparr>,
      \<lparr>col_kind = GaugeVec, col_name = ''vehicle_energy_ratio'', col_help = ''Daily ratio of injected to consumed energy'',
       col_labels = [''vehicle_id'', ''day''], col_ref = n + 1\<rparr>,
      \<lparr>col_kind = GaugeVec, col_name = ''vehicle_co2_avoided_grams'', col_help = ''Daily CO2 avoided per vehicle'',
       col_labels = [''vehicle_id'', ''day''], col_ref = n + 2\<rparr>]"

text \<open>The collectors of the sink and the registry; the constructor panics when they are registered already.\<close>

definition NewEcoSink :: "'r registerer \<Rightarrow> nat \<Rightarrow> 'r option \<Rightarrow> 'r \<Rightarrow> (collector list \<times> 'r) option" where
  "NewEcoSink register n reg dflt =
     map_option (Pair (eco_collectors n)) (MustRegister register (eco_collectors n) (orDefault reg dflt))"

subsection \<open>The mock server (rte/server_mock.go)\<close>

record server_handles =
  h_total :: collector
  h_failed :: collector

definition server_collectors :: "nat \<Rightarrow> server_handles" where
  "server_collectors n =
     \<lparr>h_total = \<lparr>col_kind = CounterVec, col_name = ''rte_signals_total'', col_help = ''Total received RTE signals'',
        col_labels = [''signal_type''], col_ref = n\<rparr>,
      h_failed = \<lparr>col_kind = SingleCounter, col_name = ''rte_signals_failed'', col_help = ''Failed RTE signals'',
        col_labels = [], col_ref = n + 1\<rparr>\<rparr>"

text \<open>
  Here the assertion is checked, and a collector of another type or any other error leaves the server
  with its own collector. The interface \<open>Counter\<close> is a part of \<open>Gauge\<close>, so a gauge passes for one.
\<close>

definition take_over_checked :: "(metric_kind \<Rightarrow> bool) \<Rightarrow> 'r registerer \<Rightarrow> collector \<Rightarrow> 'r \<Rightarrow> collector \<times> 'r" where
  "take_over_checked fits register c r =
     (case register c r of
        (AlreadyRegistered old, r') \<Rightarrow> (if fits (col_kind old) then old else c, r')
      | (_, r') \<Rightarrow> (c, r'))"

definition isCounter :: "metric_kind \<Rightarrow> bool" where
  "isCounter k \<longleftrightarrow> k = SingleCounter \<or> k = SingleGauge"

definition NewRTEServerMockWithRegistry ::
  "'r registerer \<Rightarrow> nat \<Rightarrow> 'r option \<Rightarrow> 'r \<Rightarrow> server_handles \<times> 'r" where
  "NewRTEServerMockWithRegistry register n reg dflt =
     (let new = server_collectors n;
          (total, r1) = take_over_checked (\<lambda>k. k = CounterVec) register (h_total new) (orDefault reg dflt);
          (failed, r2) = take_over_checked isCounter register (h_failed new) r1
      in (\<lparr>h_total = total, h_failed = failed\<rparr>, r2))"

subsection \<open>A process\<close>

text \<open>
  The default registry, the next free reference, the collectors in use and the values of counters by
  reference and label. The package initialisers run before anything else.
\<close>

record 'r metrics_process =
  proc_reg :: 'r
  proc_next :: nat
  proc_globals :: "collector list"
  proc_sinks :: "sink_handles list"
  proc_servers :: "server_handles list"
  proc_values :: "nat \<Rightarrow> string \<Rightarrow> nat"

definition package_init :: "'r registerer \<Rightarrow> 'r \<Rightarrow> 'r metrics_process option" where
  "package_init register r0 =
     (case MustRegisterMetrics register (newCollectors 0) None r0 of
        None \<Rightarrow> None
      | Some r1 \<Rightarrow>
          map_option (\<lambda>r2. \<lparr>proc_reg = r2, proc_next = 10, proc_globals = newCollectors 0, proc_sinks = [], proc_servers = [],
              proc_values = (\<lambda>_ _. 0)\<rparr>)
            (MustRegister register (generator_collectors 5) r1))"

text \<open>
  Constructions on the default registry, the counters of the \<open>j\<close>-th server for a rejected and an
  accepted request, and \<open>ResetMetrics\<close> with a nil registerer.
\<close>

datatype metrics_op = MakeSink | MakeServer | MakeTelemetry | Reject nat | Accept nat string | NewGlobals

definition inc_value :: "collector \<Rightarrow> string \<Rightarrow> 'r metrics_process \<Rightarrow> 'r metrics_process" where
  "inc_value c l p = p\<lparr>proc_values := (\<lambda>ref l'. proc_values p ref l' + (if ref = col_ref c \<and> l' = l then 1 else 0))\<rparr>"

fun metrics_step :: "'r registerer \<Rightarrow> metrics_op \<Rightarrow> 'r metrics_process \<Rightarrow> 'r metrics_process option" where
  "metrics_step register MakeSink p =
     map_option (\<lambda>(h, r). p\<lparr>proc_reg := r, proc_next := proc_next p + 3,
         proc_sinks := (case h of Inl e \<Rightarrow> proc_sinks p | Inr h \<Rightarrow> proc_sinks p @ [h])\<rparr>)
       (NewPromSinkWithRegistry register (proc_next p) None (proc_reg p))"
| "metrics_step register MakeServer p =
     (let (h, r) = NewRTEServerMockWithRegistry register (proc_next p) None (proc_reg p)
      in Some (p\<lparr>proc_reg := r, proc_next := proc_next p + 2, proc_servers := proc_servers p @ [h]\<rparr>))"
| "metrics_step register MakeTelemetry p =
     map_option (\<lambda>r. p\<lparr>proc_reg := r, proc_next := proc_next p + 5\<rparr>)
       (MustRegister register (telemetry_collectors (proc_next p)) (proc_reg p))"
| "metrics_step register (Reject j) p =
     Some (if j < length (proc_servers p) then inc_value (h_failed (proc_servers p ! j)) [] p else p)"
| "metrics_step register (Accept j t) p =
     Some (if j < length (proc_servers p) then inc_value (h_total (proc_servers p ! j)) t p else p)"
| "metrics_step register NewGlobals p =
     map_option (\<lambda>(g, _). p\<lparr>proc_globals := g, proc_next := proc_next p + 5\<rparr>)
       (ResetMetrics register (proc_next p) None)"

fun metrics_run :: "'r registerer \<Rightarrow> metrics_op list \<Rightarrow> 'r metrics_process \<Rightarrow> 'r metrics_process option" where
  "metrics_run register [] p = Some p"
| "metrics_run register (a # as) p = (case metrics_step register a p of None \<Rightarrow> None | Some p' \<Rightarrow> metrics_run register as p')"

subsection \<open>What a registerer promises\<close>

text \<open>
  The default registry of the Prometheus client starts with the collectors of the Go runtime and of the process,
  and the HTTP handler adds its own. Each of these exports many metrics; their names begin as follows.
\<close>

definition default_name :: "string \<Rightarrow> bool" where
  "default_name x \<longleftrightarrow> prefix ''go_'' x \<or> prefix ''process_'' x \<or> prefix ''promhttp_'' x"

text \<open>
  A registerer keeps one collector of the program per name. A second one with the same help text and labels is
  answered with the existing collector, any other with an error, and so is one under a name of the collectors
  above, \<open>foreign\<close>.
\<close>

definition register_spec ::
  "(collector \<Rightarrow> collector option \<Rightarrow> go_error) \<Rightarrow> string set \<Rightarrow> collector \<Rightarrow> (string \<rightharpoonup> collector) \<Rightarrow> register_outcome \<times> (string \<rightharpoonup> collector)" where
  "register_spec err foreign c k =
     (if col_name c \<in> foreign then (RegisterErr (err c None), k)
      else case k (col_name c) of
        None \<Rightarrow> (Registered, k(col_name c \<mapsto> c))
      | Some old \<Rightarrow>
          if col_help old = col_help c \<and> col_labels old = col_labels c then (AlreadyRegistered old, k)
          else (RegisterErr (err c (Some old)), k))"

definition registry_ok :: "'r registerer \<Rightarrow> ('r \<Rightarrow> string \<rightharpoonup> collector) \<Rightarrow> bool" where
  "registry_ok register known \<longleftrightarrow>
     (\<exists>err foreign. (\<forall>x\<in>foreign. default_name x) \<and>
        (\<forall>c r. map_prod id known (register c r) = register_spec err foreign c (known r)))"

lemma registry_okE:
  assumes "registry_ok register known"
  obtains err foreign where "\<forall>x\<in>foreign. default_name x"
    "\<And>c r out r'. register c r = (out, r') \<Longrightarrow> (out, known r') = register_spec err foreign c (known r)"
proof -
  obtain err foreign where f: "\<forall>x\<in>foreign. default_name x"
    and e: "\<And>c r. map_prod id known (register c r) = register_spec err foreign c (known r)"
    using assms by (auto simp: registry_ok_def)
  have "(out, known r') = register_spec err foreign c (known r)" if "register c r = (out, r')" for c r out r'
    using that e by (metis map_prod_simp id_apply)
  with f show ?thesis by (rule that)
qed

lemma register_new:
  assumes "registry_ok register known" "\<not> default_name (col_name c)" "known r (col_name c) = None"
  obtains r' where "register c r = (Registered, r')" "known r' = (known r)(col_name c \<mapsto> c)"
  by (rule registry_okE [OF assms(1)], cases "register c r") (use assms(2,3) that in \<open>fastforce simp: register_spec_def\<close>)

lemma register_old:
  assumes "registry_ok register known" "\<not> default_name (col_name c)"
    and "known r (col_name c) = Some old" "col_help old = col_help c" "col_labels old = col_labels c"
  obtains r' where "register c r = (AlreadyRegistered old, r')" "known r' = known r"
  by (rule registry_okE [OF assms(1)], cases "register c r") (use assms(2-5) that in \<open>fastforce simp: register_spec_def\<close>)

text \<open>None of the names of the program is one of these.\<close>

lemma program_names:
  "\<forall>c\<in>set (newCollectors n). \<not> default_name (col_name c)"
  "\<forall>c\<in>set (generator_collectors n). \<not> default_name (col_name c)"
  "\<forall>c\<in>set (telemetry_collectors n). \<not> default_name (col_name c)"
  "\<forall>c\<in>set (eco_collectors n). \<not> default_name (col_name c)"
  "\<not> default_name (col_name (h_events (sink_collectors n)))" "\<not> default_name (col_name (h_latency (sink_collectors n)))"
  "\<not> default_name (col_name (h_fleet (sink_collectors n)))" "\<not> default_name (col_name (h_total (server_collectors n)))"
  "\<not> default_name (col_name (h_failed (server_collectors n)))"
  by (simp_all add: newCollectors_def generator_collectors_def telemetry_collectors_def eco_collectors_def sink_collectors_def
      server_collectors_def default_name_def)

lemma MustRegister_old:
  assumes "registry_ok register known" "known r (col_name c) \<noteq> None"
  shows "MustRegister register (c # cs) r = None"
  by (rule registry_okE [OF assms(1)], cases "register c r")
    (use assms(2) in \<open>fastforce simp: register_spec_def split: option.splits if_splits register_outcome.split\<close>)

subsection \<open>Installing collectors\<close>

text \<open>The collector that is in use after a registration, and the names after a list of them.\<close>

definition chosen :: "(string \<rightharpoonup> collector) \<Rightarrow> collector \<Rightarrow> collector" where
  "chosen k c = (case k (col_name c) of None \<Rightarrow> c | Some old \<Rightarrow> old)"

fun install :: "collector list \<Rightarrow> (string \<rightharpoonup> collector) \<Rightarrow> (string \<rightharpoonup> collector)" where
  "install [] k = k"
| "install (c # cs) k = install cs (k(col_name c \<mapsto> chosen k c))"

definition same_options :: "collector \<Rightarrow> collector \<Rightarrow> bool" where
  "same_options c c' \<longleftrightarrow> col_kind c' = col_kind c \<and> col_help c' = col_help c \<and> col_labels c' = col_labels c"

lemma chosen_upd [simp]: "x \<noteq> col_name c \<Longrightarrow> chosen (k(x \<mapsto> d)) c = chosen k c"
  by (simp add: chosen_def)

lemma install_outside: "x \<notin> col_name ` set cs \<Longrightarrow> install cs k x = k x"
  by (induction cs arbitrary: k) auto

lemma install_keeps: "k x = Some c \<Longrightarrow> install cs k x = Some c"
proof (induction cs arbitrary: k)
  case (Cons d cs)
  then have "(k(col_name d \<mapsto> chosen k d)) x = Some c" by (auto simp: chosen_def)
  then show ?case using Cons.IH by simp
qed simp

lemma install_new: "install cs k x = Some c \<Longrightarrow> k x = Some c \<or> c \<in> set cs"
proof (induction cs arbitrary: k)
  case (Cons d cs)
  from Cons.prems have "install cs (k(col_name d \<mapsto> chosen k d)) x = Some c" by simp
  from Cons.IH [OF this] have "(k(col_name d \<mapsto> chosen k d)) x = Some c \<or> c \<in> set cs" .
  then show ?case by (auto simp: chosen_def split: if_splits option.splits)
qed simp

lemma install_at:
  assumes "distinct (map col_name cs)" "c \<in> set cs"
  shows "install cs k (col_name c) = Some (chosen k c)"
  using assms
proof (induction cs arbitrary: k)
  case (Cons d cs)
  then show ?case by (cases "c = d") (auto simp: install_outside image_iff)
qed simp

text \<open>Names, references below \<open>n\<close> and no reference under two names.\<close>

definition registry_wf :: "nat \<Rightarrow> (string \<rightharpoonup> collector) \<Rightarrow> bool" where
  "registry_wf n k \<longleftrightarrow>
     (\<forall>x c. k x = Some c \<longrightarrow> col_ref c < n) \<and>
     (\<forall>x y c d. k x = Some c \<longrightarrow> k y = Some d \<longrightarrow> col_ref c = col_ref d \<longrightarrow> x = y)"

lemma registry_wf_ref: "registry_wf n k \<Longrightarrow> k x = Some c \<Longrightarrow> col_ref c < n"
  by (simp add: registry_wf_def)

lemma registry_wf_chosen:
  assumes "registry_wf n k" "col_ref c = n"
  shows "registry_wf (Suc n) (k(col_name c \<mapsto> chosen k c))"
proof (cases "k (col_name c)")
  case None
  with assms show ?thesis by (fastforce simp: registry_wf_def chosen_def less_Suc_eq)
next
  case (Some old)
  then have "k(col_name c \<mapsto> chosen k c) = k" by (simp add: chosen_def fun_upd_idem)
  with assms(1) show ?thesis by (auto simp: registry_wf_def less_Suc_eq)
qed

lemma registry_wf_install: "registry_wf n k \<Longrightarrow> map col_ref cs = [n..<n + length cs] \<Longrightarrow> registry_wf (n + length cs) (install cs k)"
proof (induction cs arbitrary: n k)
  case (Cons c cs)
  then have c: "col_ref c = n" and cs: "map col_ref cs = [Suc n..<Suc n + length cs]"
    by (simp_all add: upt_conv_Cons del: upt_Suc)
  from Cons.IH [OF registry_wf_chosen [OF Cons.prems(1) c] cs] show ?case by (simp del: fun_upd_apply)
qed simp

text \<open>Collectors under the names of \<open>ts\<close> have the options of \<open>ts\<close>.\<close>

definition options_ok :: "collector list \<Rightarrow> (string \<rightharpoonup> collector) \<Rightarrow> bool" where
  "options_ok ts k \<longleftrightarrow> (\<forall>t\<in>set ts. \<forall>c. k (col_name t) = Some c \<longrightarrow> same_options t c)"

lemma options_ok_install:
  assumes "options_ok ts k" "\<forall>c\<in>set cs. \<forall>t\<in>set ts. col_name c = col_name t \<longrightarrow> same_options t c"
  shows "options_ok ts (install cs k)"
  using assms
proof (induction cs arbitrary: k)
  case (Cons c cs)
  have "options_ok ts (k(col_name c \<mapsto> chosen k c))"
    using Cons.prems by (auto simp: options_ok_def chosen_def split: option.split)
  with Cons show ?case by simp
qed simp

subsection \<open>The constructors on a registry\<close>

abbreviation sink_list :: "nat \<Rightarrow> collector list" where
  "sink_list n \<equiv> [h_events (sink_collectors n), h_latency (sink_collectors n), h_fleet (sink_collectors n)]"

abbreviation server_list :: "nat \<Rightarrow> collector list" where
  "server_list n \<equiv> [h_total (server_collectors n), h_failed (server_collectors n)]"

abbreviation shared_list :: "collector list" where
  "shared_list \<equiv> sink_list 0 @ server_list 0"

lemma family_refs:
  "map col_ref (sink_list n) = [n..<n + length (sink_list n)]"
  "map col_ref (server_list n) = [n..<n + length (server_list n)]"
  "map col_ref (telemetry_collectors n) = [n..<n + length (telemetry_collectors n)]"
  by (simp_all add: sink_collectors_def server_collectors_def telemetry_collectors_def upt_conv_Cons del: upt_Suc)

lemma family_names:
  "map col_name (sink_list n) = [''dispatch_events_total'', ''dispatch_latency_seconds'', ''fleet_discovery_vehicles_total'']"
  "map col_name (server_list n) = [''rte_signals_total'', ''rte_signals_failed'']"
  "map col_name (telemetry_collectors n) = [''telemetry_poll_requests_total'', ''telemetry_poll_responses_total'',
     ''telemetry_poll_timeout_total'', ''telemetry_last_collect_timestamp_seconds'', ''telemetry_collect_latency_seconds'']"
  by (simp_all add: sink_collectors_def server_collectors_def telemetry_collectors_def)

lemma families_compatible:
  "\<forall>c\<in>set (sink_list n). \<forall>t\<in>set shared_list. col_name c = col_name t \<longrightarrow> same_options t c"
  "\<forall>c\<in>set (server_list n). \<forall>t\<in>set shared_list. col_name c = col_name t \<longrightarrow> same_options t c"
  "\<forall>c\<in>set (telemetry_collectors n). \<forall>t\<in>set shared_list. col_name c = col_name t \<longrightarrow> same_options t c"
  by (simp_all add: sink_collectors_def server_collectors_def telemetry_collectors_def same_options_def)

lemma families_outside:
  "col_name ` set (sink_list n) \<inter> col_name ` set (telemetry_collectors m) = {}"
  "col_name ` set (server_list n) \<inter> col_name ` set (telemetry_collectors m) = {}"
  by (simp_all add: sink_collectors_def server_collectors_def telemetry_collectors_def)

lemma take_over_ok:
  assumes reg: "registry_ok register known" and name: "\<not> default_name (col_name c)"
    and opts: "\<And>old. known r (col_name c) = Some old \<Longrightarrow> same_options c old"
  obtains r' where "take_over (col_kind c) register c r = Some (Inr (chosen (known r) c), r')"
    "known r' = (known r)(col_name c \<mapsto> chosen (known r) c)"
proof (cases "known r (col_name c)")
  case None
  then obtain r' where "register c r = (Registered, r')" "known r' = (known r)(col_name c \<mapsto> c)"
    using register_new [OF reg name] by blast
  with None show ?thesis using that by (simp add: take_over_def chosen_def)
next
  case (Some old)
  with opts have old: "col_help old = col_help c" "col_labels old = col_labels c" "col_kind old = col_kind c"
    by (auto simp: same_options_def)
  then obtain r' where "register c r = (AlreadyRegistered old, r')" "known r' = known r"
    using register_old [OF reg name Some] by blast
  with Some old show ?thesis using that by (simp add: take_over_def chosen_def fun_upd_idem)
qed

lemma take_over_checked_ok:
  assumes reg: "registry_ok register known" and name: "\<not> default_name (col_name c)"
    and opts: "\<And>old. known r (col_name c) = Some old \<Longrightarrow> same_options c old" and "fits (col_kind c)"
  obtains r' where "take_over_checked fits register c r = (chosen (known r) c, r')"
    "known r' = (known r)(col_name c \<mapsto> chosen (known r) c)"
proof (cases "known r (col_name c)")
  case None
  then obtain r' where "register c r = (Registered, r')" "known r' = (known r)(col_name c \<mapsto> c)"
    using register_new [OF reg name] by blast
  with None show ?thesis using that by (simp add: take_over_checked_def chosen_def)
next
  case (Some old)
  with opts have old: "col_help old = col_help c" "col_labels old = col_labels c" "col_kind old = col_kind c"
    by (auto simp: same_options_def)
  then obtain r' where "register c r = (AlreadyRegistered old, r')" "known r' = known r"
    using register_old [OF reg name Some] by blast
  with Some old assms(4) show ?thesis using that by (simp add: take_over_checked_def chosen_def fun_upd_idem)
qed

lemma options_ok_sink:
  assumes "options_ok shared_list k" "c \<in> set (sink_list n)" "k (col_name c) = Some old"
  shows "same_options c old"
  using assms by (auto simp: options_ok_def sink_collectors_def same_options_def)

lemma options_ok_server:
  assumes "options_ok shared_list k" "c \<in> set (server_list n)" "k (col_name c) = Some old"
  shows "same_options c old"
  using assms by (auto simp: options_ok_def server_collectors_def same_options_def)

lemma NewPromSinkWithRegistry_ok:
  assumes reg: "registry_ok register known" and opts: "options_ok shared_list (known r)"
  obtains r' where "NewPromSinkWithRegistry register n None r = Some (Inr \<lparr>h_events = chosen (known r) (h_events (sink_collectors n)),
      h_latency = chosen (known r) (h_latency (sink_collectors n)), h_fleet = chosen (known r) (h_fleet (sink_collectors n))\<rparr>, r')"
    "known r' = install (sink_list n) (known r)"
proof -
  let ?e = "h_events (sink_collectors n)" and ?l = "h_latency (sink_collectors n)" and ?f = "h_fleet (sink_collectors n)"
  note opt = options_ok_sink [OF opts, of _ n]
  have kinds: "CounterVec = col_kind ?e" "HistogramVec = col_kind ?l" "SingleGauge = col_kind ?f"
    and ne: "col_name ?l \<noteq> col_name ?e" "col_name ?f \<noteq> col_name ?e" "col_name ?f \<noteq> col_name ?l"
    by (simp_all add: sink_collectors_def)
  obtain r1 where r1: "take_over (col_kind ?e) register ?e r = Some (Inr (chosen (known r) ?e), r1)"
    "known r1 = (known r)(col_name ?e \<mapsto> chosen (known r) ?e)"
    by (rule take_over_ok [where c = "?e" and r = r, OF reg program_names(5)]) (auto intro: opt)
  obtain r2 where r2: "take_over (col_kind ?l) register ?l r1 = Some (Inr (chosen (known r1) ?l), r2)"
    "known r2 = (known r1)(col_name ?l \<mapsto> chosen (known r1) ?l)"
    by (rule take_over_ok [where c = "?l" and r = r1, OF reg program_names(6)]) (use ne in \<open>auto simp: r1(2) intro: opt\<close>)
  obtain r3 where r3: "take_over (col_kind ?f) register ?f r2 = Some (Inr (chosen (known r2) ?f), r3)"
    "known r3 = (known r2)(col_name ?f \<mapsto> chosen (known r2) ?f)"
    by (rule take_over_ok [where c = "?f" and r = r2, OF reg program_names(7)]) (use ne in \<open>auto simp: r2(2) r1(2) intro: opt\<close>)
  show ?thesis
    by (rule that [of r3])
      (use ne in \<open>simp_all add: NewPromSinkWithRegistry_def Let_def orDefault_def kinds r1 r2 r3 [unfolded r2(2) r1(2)]\<close>)
qed

lemma NewRTEServerMockWithRegistry_ok:
  assumes reg: "registry_ok register known" and opts: "options_ok shared_list (known r)"
  obtains r' where "NewRTEServerMockWithRegistry register n None r =
      (\<lparr>h_total = chosen (known r) (h_total (server_collectors n)), h_failed = chosen (known r) (h_failed (server_collectors n))\<rparr>, r')"
    "known r' = install (server_list n) (known r)"
proof -
  let ?t = "h_total (server_collectors n)" and ?f = "h_failed (server_collectors n)"
  note opt = options_ok_server [OF opts, of _ n]
  have kinds: "col_kind ?t = CounterVec" "isCounter (col_kind ?f)" and ne: "col_name ?f \<noteq> col_name ?t"
    by (simp_all add: server_collectors_def isCounter_def)
  obtain r1 where r1: "take_over_checked (\<lambda>k. k = CounterVec) register ?t r = (chosen (known r) ?t, r1)"
    "known r1 = (known r)(col_name ?t \<mapsto> chosen (known r) ?t)"
    by (rule take_over_checked_ok [where c = "?t" and r = r and fits = "\<lambda>k. k = CounterVec", OF reg program_names(8)])
      (auto simp: kinds intro: opt)
  obtain r2 where r2: "take_over_checked isCounter register ?f r1 = (chosen (known r1) ?f, r2)"
    "known r2 = (known r1)(col_name ?f \<mapsto> chosen (known r1) ?f)"
    by (rule take_over_checked_ok [where c = "?f" and r = r1 and fits = isCounter, OF reg program_names(9)])
      (use ne in \<open>auto simp: r1(2) kinds intro: opt\<close>)
  show ?thesis
    by (rule that [of r2])
      (use ne in \<open>simp_all add: NewRTEServerMockWithRegistry_def Let_def orDefault_def r1 r2 [unfolded r1(2)]\<close>)
qed

lemma MustRegister_new:
  assumes reg: "registry_ok register known" and "distinct (map col_name cs)" "\<forall>c\<in>set cs. \<not> default_name (col_name c)"
    and "\<forall>c\<in>set cs. known r (col_name c) = None"
  shows "\<exists>r'. MustRegister register cs r = Some r' \<and> known r' = install cs (known r)"
  using assms(2-4)
proof (induction cs arbitrary: r)
  case (Cons c cs)
  then obtain r1 where r1: "register c r = (Registered, r1)" "known r1 = (known r)(col_name c \<mapsto> c)"
    using register_new [OF reg, of c r] by auto
  have "col_name d \<noteq> col_name c" if "d \<in> set cs" for d using Cons.prems(1) that by (metis distinct.simps(2) image_eqI image_set list.simps(9))
  then have "\<forall>d\<in>set cs. known r1 (col_name d) = None" using Cons.prems(3) by (simp add: r1(2))
  moreover have "distinct (map col_name cs)" "\<forall>c\<in>set cs. \<not> default_name (col_name c)" using Cons.prems(1,2) by simp_all
  ultimately obtain r' where "MustRegister register cs r1 = Some r'" "known r' = install cs (known r1)"
    using Cons.IH [of r1] by blast
  moreover have "chosen (known r) c = c" using Cons.prems by (simp add: chosen_def)
  ultimately show ?case by (simp add: r1 del: fun_upd_apply)
qed simp

text \<open>One eco sink per registry: it succeeds where its names are free, and a second one panics.\<close>

lemma NewEcoSink_once:
  assumes "registry_ok register known" "\<forall>c\<in>set (eco_collectors n). known r (col_name c) = None"
  obtains r' where "NewEcoSink register n None r = Some (eco_collectors n, r')" "NewEcoSink register m None r' = None"
proof -
  have "distinct (map col_name (eco_collectors n))" by (simp add: eco_collectors_def)
  from MustRegister_new [OF assms(1) this program_names(4) assms(2)] obtain r' where
    r': "MustRegister register (eco_collectors n) r = Some r'" "known r' = install (eco_collectors n) (known r)" by blast
  obtain c cs where m: "eco_collectors m = c # cs" "col_name c = ''vehicle_injected_energy_kwh''" by (simp add: eco_collectors_def)
  have "known r' (col_name c) \<noteq> None" by (simp add: r'(2) m(2) eco_collectors_def)
  from MustRegister_old [OF assms(1) this, of cs] show ?thesis
    by (intro that [of r']) (simp_all add: NewEcoSink_def orDefault_def r'(1) m(1) del: MustRegister.simps)
qed

subsection \<open>The invariant of a process\<close>

definition exported :: "(string \<rightharpoonup> collector) \<Rightarrow> 'r metrics_process \<Rightarrow> string \<Rightarrow> string \<Rightarrow> nat" where
  "exported k p name l = (case k name of None \<Rightarrow> 0 | Some c \<Rightarrow> proc_values p (col_ref c) l)"

definition handles_ok :: "(string \<rightharpoonup> collector) \<Rightarrow> 'r metrics_process \<Rightarrow> bool" where
  "handles_ok k p \<longleftrightarrow>
     (\<forall>h\<in>set (proc_sinks p). k ''dispatch_events_total'' = Some (h_events h) \<and>
        k ''dispatch_latency_seconds'' = Some (h_latency h) \<and> k ''fleet_discovery_vehicles_total'' = Some (h_fleet h)) \<and>
     (\<forall>h\<in>set (proc_servers p). k ''rte_signals_total'' = Some (h_total h) \<and> k ''rte_signals_failed'' = Some (h_failed h))"

definition process_inv :: "('r \<Rightarrow> string \<rightharpoonup> collector) \<Rightarrow> bool \<Rightarrow> 'r metrics_process \<Rightarrow> bool" where
  "process_inv known tel p \<longleftrightarrow>
     registry_wf (proc_next p) (known (proc_reg p)) \<and> options_ok shared_list (known (proc_reg p)) \<and>
     handles_ok (known (proc_reg p)) p \<and> (\<forall>ref l. proc_next p \<le> ref \<longrightarrow> proc_values p ref l = 0) \<and>
     (\<forall>c\<in>set (telemetry_collectors 0). known (proc_reg p) (col_name c) = None \<longleftrightarrow> \<not> tel)"

text \<open>The requests that reach one of \<open>n\<close> servers.\<close>

fun rejected :: "nat \<Rightarrow> metrics_op list \<Rightarrow> nat" where
  "rejected n [] = 0"
| "rejected n (a # as) =
     (case a of Reject j \<Rightarrow> if j < n then 1 else 0 | _ \<Rightarrow> 0) + rejected (if a = MakeServer then Suc n else n) as"

fun accepted :: "string \<Rightarrow> nat \<Rightarrow> metrics_op list \<Rightarrow> nat" where
  "accepted t n [] = 0"
| "accepted t n (a # as) =
     (case a of Accept j t' \<Rightarrow> if j < n \<and> t' = t then 1 else 0 | _ \<Rightarrow> 0) + accepted t (if a = MakeServer then Suc n else n) as"

text \<open>Installing new collectors keeps the invariant, whatever handles are added with it.\<close>

lemma exported_install:
  assumes "process_inv known tel p" "map col_ref cs = [proc_next p..<proc_next p + length cs]"
  shows "exported (install cs (known (proc_reg p))) p x l = exported (known (proc_reg p)) p x l"
proof (cases "known (proc_reg p) x")
  case (Some c)
  then show ?thesis by (simp add: exported_def install_keeps)
next
  case None
  have "proc_next p \<le> col_ref c" if "c \<in> set cs" for c
    using arg_cong [OF assms(2), of set] that by auto
  with None assms(1) show ?thesis
    by (auto simp: exported_def process_inv_def split: option.split dest!: install_new)
qed

lemma process_inv_install:
  assumes inv: "process_inv known tel p" and refs: "map col_ref cs = [proc_next p..<proc_next p + length cs]"
    and compat: "\<forall>c\<in>set cs. \<forall>t\<in>set shared_list. col_name c = col_name t \<longrightarrow> same_options t c"
    and k': "known r' = install cs (known (proc_reg p))"
    and handles: "handles_ok (known r') (p\<lparr>proc_sinks := sinks, proc_servers := servers\<rparr>)"
    and tel: "\<forall>c\<in>set (telemetry_collectors 0). install cs (known (proc_reg p)) (col_name c) = None \<longleftrightarrow> \<not> tel'"
  shows "process_inv known tel' (p\<lparr>proc_reg := r', proc_next := proc_next p + length cs, proc_sinks := sinks, proc_servers := servers\<rparr>)"
  using registry_wf_install [OF _ refs] options_ok_install [OF _ compat] inv handles tel
  by (auto simp: process_inv_def k' handles_ok_def)

lemma handles_ok_install: "handles_ok k p \<Longrightarrow> handles_ok (install cs k) p"
  by (auto simp: handles_ok_def install_keeps)

text \<open>What a step does, on the invariant.\<close>

definition step_effect ::
  "('r \<Rightarrow> string \<rightharpoonup> collector) \<Rightarrow> bool \<Rightarrow> metrics_op \<Rightarrow> 'r metrics_process \<Rightarrow> 'r metrics_process \<Rightarrow> bool" where
  "step_effect known tel a p p' \<longleftrightarrow>
     process_inv known (tel \<or> a = MakeTelemetry) p' \<and>
     length (proc_servers p') = (if a = MakeServer then Suc (length (proc_servers p)) else length (proc_servers p)) \<and>
     exported (known (proc_reg p')) p' ''rte_signals_failed'' [] =
       exported (known (proc_reg p)) p ''rte_signals_failed'' [] + rejected (length (proc_servers p)) [a] \<and>
     (\<forall>t. exported (known (proc_reg p')) p' ''rte_signals_total'' t =
       exported (known (proc_reg p)) p ''rte_signals_total'' t + accepted t (length (proc_servers p)) [a])"

lemma exported_frame: "proc_values p' = proc_values p \<Longrightarrow> exported k p' x l = exported k p x l"
  by (simp add: exported_def split: option.split)

lemma install_effect:
  assumes inv: "process_inv known tel p" and refs: "map col_ref cs = [proc_next p..<proc_next p + length cs]"
    and compat: "\<forall>c\<in>set cs. \<forall>t\<in>set shared_list. col_name c = col_name t \<longrightarrow> same_options t c"
    and k': "known r' = install cs (known (proc_reg p))"
    and handles: "handles_ok (known r') (p\<lparr>proc_sinks := sinks, proc_servers := servers\<rparr>)"
    and tel: "\<forall>c\<in>set (telemetry_collectors 0).
      install cs (known (proc_reg p)) (col_name c) = None \<longleftrightarrow> \<not> (tel \<or> a = MakeTelemetry)"
    and a: "a \<in> {MakeSink, MakeServer, MakeTelemetry}"
      "length servers = (if a = MakeServer then Suc (length (proc_servers p)) else length (proc_servers p))"
  shows "step_effect known tel a p
    (p\<lparr>proc_reg := r', proc_next := proc_next p + length cs, proc_sinks := sinks, proc_servers := servers\<rparr>)"
    (is "step_effect known tel a p ?p'")
proof -
  have "exported (known r') ?p' x l = exported (known (proc_reg p)) p x l" for x l
    using exported_install [OF inv refs, of x l] by (simp add: k' exported_frame [of ?p' p])
  with process_inv_install [OF inv refs compat k' handles tel] a show ?thesis by (auto simp: step_effect_def)
qed

lemma telemetry_outside:
  assumes "process_inv known tel p" "col_name ` set cs \<inter> col_name ` set (telemetry_collectors 0) = {}"
  shows "\<forall>c\<in>set (telemetry_collectors 0). install cs (known (proc_reg p)) (col_name c) = None \<longleftrightarrow> \<not> tel"
proof
  fix c assume "c \<in> set (telemetry_collectors 0)"
  moreover from this have "col_name c \<notin> col_name ` set cs" using assms(2) by blast
  ultimately show "install cs (known (proc_reg p)) (col_name c) = None \<longleftrightarrow> \<not> tel"
    using assms(1) by (simp add: process_inv_def install_outside)
qed

lemma step_sink:
  assumes "registry_ok register known" "process_inv known tel p"
  shows "\<exists>p'. metrics_step register MakeSink p = Some p' \<and> step_effect known tel MakeSink p p'"
proof -
  have opts: "options_ok shared_list (known (proc_reg p))" and h: "handles_ok (known (proc_reg p)) p"
    using assms(2) by (simp_all add: process_inv_def)
  let ?n = "proc_next p" and ?k = "known (proc_reg p)"
  let ?h = "\<lparr>h_events = chosen ?k (h_events (sink_collectors ?n)), h_latency = chosen ?k (h_latency (sink_collectors ?n)),
      h_fleet = chosen ?k (h_fleet (sink_collectors ?n))\<rparr>"
  obtain r' where r': "NewPromSinkWithRegistry register ?n None (proc_reg p) = Some (Inr ?h, r')" "known r' = install (sink_list ?n) ?k"
    by (rule NewPromSinkWithRegistry_ok [OF assms(1) opts])
  have at: "install (sink_list ?n) ?k (col_name c) = Some (chosen ?k c)" if "c \<in> set (sink_list ?n)" for c
    by (rule install_at [OF _ that]) (simp only: family_names, simp)
  have "handles_ok (known r') (p\<lparr>proc_sinks := proc_sinks p @ [?h], proc_servers := proc_servers p\<rparr>)"
    using handles_ok_install [OF h, of "sink_list ?n"] at [of "h_events (sink_collectors ?n)"]
      at [of "h_latency (sink_collectors ?n)"] at [of "h_fleet (sink_collectors ?n)"]
    by (auto simp: r'(2) handles_ok_def sink_collectors_def)
  from install_effect [OF assms(2) family_refs(1) families_compatible(1) r'(2) this, where a = MakeSink]
  have "step_effect known tel MakeSink p (p\<lparr>proc_reg := r', proc_next := ?n + 3, proc_sinks := proc_sinks p @ [?h]\<rparr>)"
    using telemetry_outside [OF assms(2) families_outside(1) [of ?n]] by (simp add: eval_nat_numeral del: install.simps)
  then show ?thesis by (simp add: r'(1))
qed

lemma step_server:
  assumes "registry_ok register known" "process_inv known tel p"
  shows "\<exists>p'. metrics_step register MakeServer p = Some p' \<and> step_effect known tel MakeServer p p'"
proof -
  have opts: "options_ok shared_list (known (proc_reg p))" and h: "handles_ok (known (proc_reg p)) p"
    using assms(2) by (simp_all add: process_inv_def)
  let ?n = "proc_next p" and ?k = "known (proc_reg p)"
  let ?h = "\<lparr>h_total = chosen ?k (h_total (server_collectors ?n)), h_failed = chosen ?k (h_failed (server_collectors ?n))\<rparr>"
  obtain r' where r': "NewRTEServerMockWithRegistry register ?n None (proc_reg p) = (?h, r')" "known r' = install (server_list ?n) ?k"
    by (rule NewRTEServerMockWithRegistry_ok [OF assms(1) opts])
  have at: "install (server_list ?n) ?k (col_name c) = Some (chosen ?k c)" if "c \<in> set (server_list ?n)" for c
    by (rule install_at [OF _ that]) (simp only: family_names, simp)
  have "handles_ok (known r') (p\<lparr>proc_sinks := proc_sinks p, proc_servers := proc_servers p @ [?h]\<rparr>)"
    using handles_ok_install [OF h, of "server_list ?n"] at [of "h_total (server_collectors ?n)"]
      at [of "h_failed (server_collectors ?n)"]
    by (auto simp: r'(2) handles_ok_def server_collectors_def)
  from install_effect [OF assms(2) family_refs(2) families_compatible(2) r'(2) this, where a = MakeServer]
  have "step_effect known tel MakeServer p (p\<lparr>proc_reg := r', proc_next := ?n + 2, proc_servers := proc_servers p @ [?h]\<rparr>)"
    using telemetry_outside [OF assms(2) families_outside(2) [of ?n]] by (simp add: eval_nat_numeral del: install.simps)
  then show ?thesis by (simp add: r'(1))
qed

lemma step_telemetry:
  assumes "registry_ok register known" "process_inv known tel p"
  shows "if tel then metrics_step register MakeTelemetry p = None
    else \<exists>p'. metrics_step register MakeTelemetry p = Some p' \<and> step_effect known tel MakeTelemetry p p'"
proof (cases tel)
  case True
  obtain c cs where tc: "telemetry_collectors (proc_next p) = c # cs" "col_name c = ''telemetry_poll_requests_total''"
    by (simp add: telemetry_collectors_def)
  have "known (proc_reg p) (col_name c) \<noteq> None"
    using assms(2) True by (simp add: process_inv_def telemetry_collectors_def tc(2))
  with True show ?thesis by (simp add: tc(1) MustRegister_old [OF assms(1)] del: MustRegister.simps)
next
  case False
  let ?cs = "telemetry_collectors (proc_next p)"
  have none: "\<forall>c\<in>set ?cs. known (proc_reg p) (col_name c) = None" and dist: "distinct (map col_name ?cs)"
    and h: "handles_ok (known (proc_reg p)) p"
    using assms(2) False by (simp_all add: process_inv_def telemetry_collectors_def)
  obtain r' where r': "MustRegister register ?cs (proc_reg p) = Some r'" "known r' = install ?cs (known (proc_reg p))"
    using MustRegister_new [OF assms(1) dist program_names(3) none] by blast
  have "install ?cs (known (proc_reg p)) (col_name c) \<noteq> None" if "c \<in> set (telemetry_collectors 0)" for c
  proof -
    have "col_name c \<in> col_name ` set ?cs" using that by (auto simp: telemetry_collectors_def)
    then show ?thesis using install_at [OF dist] by auto
  qed
  with install_effect [OF assms(2) family_refs(3) families_compatible(3) r'(2),
      where a = MakeTelemetry and sinks = "proc_sinks p" and servers = "proc_servers p"] h
  have "step_effect known tel MakeTelemetry p (p\<lparr>proc_reg := r', proc_next := proc_next p + length ?cs\<rparr>)"
    by (simp add: r'(2) handles_ok_install)
  moreover have "length ?cs = 5" by (simp add: telemetry_collectors_def)
  ultimately show ?thesis using False by (simp add: r'(1))
qed

lemma step_counter:
  assumes "process_inv known tel p" "a = Reject j \<or> a = Accept j t"
  shows "\<exists>p'. metrics_step register a p = Some p' \<and> step_effect known tel a p p'"
proof (cases "j < length (proc_servers p)")
  case False
  with assms show ?thesis by (auto simp: step_effect_def)
next
  case True
  let ?k = "known (proc_reg p)" and ?h = "proc_servers p ! j"
  have h: "?k ''rte_signals_total'' = Some (h_total ?h)" "?k ''rte_signals_failed'' = Some (h_failed ?h)"
    using assms(1) nth_mem [OF True] by (auto simp: process_inv_def handles_ok_def)
  have wf: "registry_wf (proc_next p) ?k" using assms(1) by (simp add: process_inv_def)
  then have ne: "col_ref (h_total ?h) \<noteq> col_ref (h_failed ?h)" using h by (force simp: registry_wf_def)
  have inv: "process_inv known tel (inc_value c l p)" if "?k x = Some c" for c l x
    using assms(1) registry_wf_ref [OF wf that] by (auto simp: process_inv_def inc_value_def handles_ok_def)
  show ?thesis
    using assms(2) True h ne inv [OF h(1), of t] inv [OF h(2), of "[]"]
    by (auto simp: step_effect_def exported_def inc_value_def)
qed

lemma step_globals:
  assumes "process_inv known tel p"
  shows "\<exists>p'. metrics_step register NewGlobals p = Some p' \<and> step_effect known tel NewGlobals p p'"
proof -
  let ?p' = "p\<lparr>proc_globals := newCollectors (proc_next p), proc_next := proc_next p + 5\<rparr>"
  have "registry_wf (proc_next p + 5) (known (proc_reg p))" using assms by (fastforce simp: process_inv_def registry_wf_def)
  then have "process_inv known tel ?p'" using assms by (simp add: process_inv_def handles_ok_def)
  then show ?thesis by (simp add: step_effect_def ResetMetrics_def exported_frame [of ?p' p])
qed

lemma metrics_step_effect:
  assumes "registry_ok register known" "process_inv known tel p"
  shows "if tel \<and> a = MakeTelemetry then metrics_step register a p = None
    else \<exists>p'. metrics_step register a p = Some p' \<and> step_effect known tel a p p'"
proof (cases a)
  case MakeTelemetry
  then show ?thesis using step_telemetry [OF assms] by (cases tel) (simp_all del: metrics_step.simps)
qed (use step_sink [OF assms] step_server [OF assms] step_counter [OF assms(2)] step_globals [OF assms(2)]
    in \<open>simp_all del: metrics_step.simps\<close>)

lemma rejected_Cons: "rejected n (a # as) = rejected n [a] + rejected (if a = MakeServer then Suc n else n) as"
  by simp

lemma accepted_Cons: "accepted t n (a # as) = accepted t n [a] + accepted t (if a = MakeServer then Suc n else n) as"
  by simp

lemma metrics_run_effect:
  assumes "registry_ok register known" "process_inv known tel p"
  shows "if count_list ops MakeTelemetry + of_bool tel \<le> 1
    then \<exists>p'. metrics_run register ops p = Some p' \<and> handles_ok (known (proc_reg p')) p' \<and>
      exported (known (proc_reg p')) p' ''rte_signals_failed'' [] =
        exported (known (proc_reg p)) p ''rte_signals_failed'' [] + rejected (length (proc_servers p)) ops \<and>
      (\<forall>t. exported (known (proc_reg p')) p' ''rte_signals_total'' t =
        exported (known (proc_reg p)) p ''rte_signals_total'' t + accepted t (length (proc_servers p)) ops)
    else metrics_run register ops p = None"
  using assms(2)
proof (induction ops arbitrary: tel p)
  case Nil
  then show ?case by (simp add: process_inv_def)
next
  case (Cons a as)
  show ?case
  proof (cases "tel \<and> a = MakeTelemetry")
    case True
    then show ?thesis using metrics_step_effect [OF assms(1) Cons.prems, of a] by simp
  next
    case False
    then obtain p1 where p1: "metrics_step register a p = Some p1" "step_effect known tel a p p1"
      using metrics_step_effect [OF assms(1) Cons.prems, of a] by auto
    have count: "count_list (a # as) MakeTelemetry + of_bool tel = count_list as MakeTelemetry + of_bool (tel \<or> a = MakeTelemetry)"
      using False by auto
    have "process_inv known (tel \<or> a = MakeTelemetry) p1" using p1(2) by (simp add: step_effect_def)
    from Cons.IH [OF this] p1 show ?thesis
      unfolding count step_effect_def rejected_Cons [of _ a as] accepted_Cons [of _ _ a as]
      by (auto simp del: rejected.simps accepted.simps split: if_splits)
  qed
qed

subsection \<open>The start\<close>

lemma package_init_inv:
  assumes "registry_ok register known" "known r0 = Map.empty"
  obtains p where "package_init register r0 = Some p" "process_inv known False p" "proc_servers p = []"
    "\<forall>c\<in>set (proc_globals p). known (proc_reg p) (col_name c) = Some c" "proc_globals p = newCollectors 0"
    "\<forall>x l. exported (known (proc_reg p)) p x l = 0"
proof -
  let ?d = "newCollectors 0" and ?g = "generator_collectors 5"
  have names: "distinct (map col_name (?d @ ?g))" by (simp add: newCollectors_def generator_collectors_def)
  obtain r1 where r1: "MustRegister register ?d r0 = Some r1" "known r1 = install ?d Map.empty"
    using MustRegister_new [OF assms(1) _ program_names(1), of 0 r0] names by (auto simp: assms(2))
  have "col_name c \<notin> col_name ` set ?d" if "c \<in> set ?g" for c using names that by (auto simp: disjoint_iff)
  then have "\<forall>c\<in>set ?g. known r1 (col_name c) = None" by (simp add: r1(2) install_outside)
  then obtain r2 where r2: "MustRegister register ?g r1 = Some r2" "known r2 = install ?g (install ?d Map.empty)"
    using MustRegister_new [OF assms(1) _ program_names(2), of 5 r1] names by (auto simp: r1(2))
  have k: "known r2 = install (?d @ ?g) Map.empty" unfolding r2(2) by (simp add: newCollectors_def)
  let ?p = "\<lparr>proc_reg = r2, proc_next = 10, proc_globals = ?d, proc_sinks = [], proc_servers = [], proc_values = (\<lambda>_ _. 0)\<rparr>"
  have "map col_ref (?d @ ?g) = [0..<0 + length (?d @ ?g)]"
    by (simp add: newCollectors_def generator_collectors_def upt_conv_Cons del: upt_Suc)
  moreover have "registry_wf 0 Map.empty" by (simp add: registry_wf_def)
  moreover have "0 + length (?d @ ?g) = 10" by (simp add: newCollectors_def generator_collectors_def)
  ultimately have "registry_wf 10 (known r2)" unfolding k by (metis registry_wf_install)
  moreover have "known r2 x = None" if "x \<notin> col_name ` set (?d @ ?g)" for x
    unfolding k using that by (simp add: install_outside)
  ultimately have "process_inv known False ?p"
    by (simp add: process_inv_def handles_ok_def options_ok_def sink_collectors_def server_collectors_def telemetry_collectors_def
        newCollectors_def generator_collectors_def)
  moreover have "\<forall>c\<in>set ?d. known r2 (col_name c) = Some c"
    using install_at [OF names, of _ Map.empty] by (simp add: k chosen_def)
  ultimately show ?thesis
    by (intro that [of ?p]) (simp_all add: package_init_def MustRegisterMetrics_def orDefault_def r1 r2 exported_def split: option.split)
qed


text \<open>A registry as a map from names, with two names of the default collectors taken, satisfies the contract.\<close>

definition map_register :: "(string \<rightharpoonup> collector) registerer" where
  "map_register = register_spec (\<lambda>c old. Errorf (''inconsistent '' @ col_name c))
     {''go_goroutines'', ''process_cpu_seconds_total''}"

lemma map_register_ok: "registry_ok map_register (\<lambda>k. k)"
proof -
  have "\<forall>x\<in>{''go_goroutines'', ''process_cpu_seconds_total''}. default_name x" by (simp add: default_name_def)
  moreover have "map_prod id (\<lambda>k. k) (map_register c r) =
      register_spec (\<lambda>c old. Errorf (''inconsistent '' @ col_name c)) {''go_goroutines'', ''process_cpu_seconds_total''} c r" for c r
    by (simp add: map_register_def map_prod_def split_beta prod_eq_iff)
  ultimately show ?thesis unfolding registry_ok_def by blast
qed


end
