(* ===== verification/Monitoring.thy ===== *)
theory Monitoring
  imports Configuration
begin

text \<open>
  The edge of the process: error reporting (\<open>core/monitoring\<close>, \<open>infra/monitoring/sentry.go\<close>) and the
  lifecycle of the HTTP servers (\<open>rte/server_mock.go\<close>, \<open>infra/metrics/http.go\<close>) and of the polling client
  (\<open>rte/client.go\<close>). The Sentry client and the listening sockets are arguments.
\<close>

subsection \<open>Monitors\<close>

datatype monitor = NopMonitor | SentryMonitor

text \<open>The global monitor, where \<^term>\<open>None\<close> is nil, and what reached Sentry.\<close>

record monitoring =
  current :: "monitor option"
  sentryErrors :: "(go_error \<times> (string \<rightharpoonup> string)) list"
  sentryPanics :: "string list"
  sentryFlushes :: nat

definition monitoring_zero :: monitoring where
  "monitoring_zero = \<lparr>current = Some NopMonitor, sentryErrors = [], sentryPanics = [], sentryFlushes = 0\<rparr>"

text \<open>\<open>initErr\<close> is the outcome of \<open>sentry.Init\<close>.\<close>

definition NewSentryMonitor :: "go_error option \<Rightarrow> 'n::{zero,one,ord} SentryConfig \<Rightarrow> monitor option \<times> go_error option" where
  "NewSentryMonitor initErr cfg =
     (if DSN cfg = [] then (Some NopMonitor, None)
      else if TracesSampleRate cfg < 0 \<or> 1 < TracesSampleRate cfg
      then (None, Some (Errorf ''sentry traces_sample_rate must be between 0 and 1''))
      else case initErr of Some e \<Rightarrow> (None, Some e) | None \<Rightarrow> (Some SentryMonitor, None))"

definition Monitoring_Init :: "monitor option \<Rightarrow> monitoring \<Rightarrow> monitoring" where
  "Monitoring_Init m st = (case m of None \<Rightarrow> st | Some _ \<Rightarrow> st\<lparr>current := m\<rparr>)"

text \<open>Without tags the error is captured in the current scope, with tags in a scope of its own.\<close>

definition Sentry_CaptureException :: "go_error option \<Rightarrow> (string \<rightharpoonup> string) \<Rightarrow> monitoring \<Rightarrow> monitoring" where
  "Sentry_CaptureException err tags st =
     (case err of
        None \<Rightarrow> st
      | Some e \<Rightarrow>
          if tags = Map.empty then st\<lparr>sentryErrors := sentryErrors st @ [(e, Map.empty)]\<rparr>
          else st\<lparr>sentryErrors := sentryErrors st @ [(e, Map.empty ++ tags)]\<rparr>)"

definition CaptureException :: "go_error option \<Rightarrow> (string \<rightharpoonup> string) \<Rightarrow> monitoring \<Rightarrow> monitoring" where
  "CaptureException err tags st =
     (case current st of
        Some SentryMonitor \<Rightarrow> Sentry_CaptureException err tags st
      | _ \<Rightarrow> st)"

text \<open>
  \<open>recover()\<close> answers the panic only when the deferred function itself calls it, at depth 0. The result of
  the handlers is the panic that goes on, with the state.
\<close>

definition recovered :: "nat \<Rightarrow> string option \<Rightarrow> string option" where
  "recovered depth panic = (if depth = 0 then panic else None)"

definition Sentry_Recover :: "nat \<Rightarrow> string option \<Rightarrow> monitoring \<Rightarrow> string option \<times> monitoring" where
  "Sentry_Recover depth panic st =
     (case recovered depth panic of
        None \<Rightarrow> (panic, st)
      | Some r \<Rightarrow> (Some r, st\<lparr>sentryPanics := sentryPanics st @ [r], sentryFlushes := sentryFlushes st + 1\<rparr>))"

text \<open>The goroutines defer \<open>Recover\<close>, which calls the method of the monitor one frame below.\<close>

definition Monitoring_Recover :: "string option \<Rightarrow> monitoring \<Rightarrow> string option \<times> monitoring" where
  "Monitoring_Recover panic st =
     (case current st of
        Some SentryMonitor \<Rightarrow> Sentry_Recover 1 panic st
      | _ \<Rightarrow> (panic, st))"

definition Monitoring_Flush :: "monitoring \<Rightarrow> monitoring" where
  "Monitoring_Flush st =
     (case current st of
        Some SentryMonitor \<Rightarrow> st\<lparr>sentryFlushes := sentryFlushes st + 1\<rparr>
      | _ \<Rightarrow> st)"

subsection \<open>A process that reports\<close>

definition monitor_setup :: "go_error option \<Rightarrow> 'n::{zero,one,ord} SentryConfig \<Rightarrow> monitoring" where
  "monitor_setup initErr cfg = Monitoring_Init (fst (NewSentryMonitor initErr cfg)) monitoring_zero"

datatype report = Capture "go_error option" "string \<rightharpoonup> string" | GoroutineEnds "string option"

fun report_step :: "monitoring \<Rightarrow> report \<Rightarrow> monitoring" where
  "report_step st (Capture err tags) = CaptureException err tags st"
| "report_step st (GoroutineEnds panic) = snd (Monitoring_Recover panic st)"

fun captured :: "report list \<Rightarrow> (go_error \<times> (string \<rightharpoonup> string)) list" where
  "captured [] = []"
| "captured (Capture (Some e) tags # rs) = (e, tags) # captured rs"
| "captured (_ # rs) = captured rs"

definition sentry_on :: "go_error option \<Rightarrow> 'n::{zero,one,ord} SentryConfig \<Rightarrow> bool" where
  "sentry_on initErr cfg \<longleftrightarrow>
     DSN cfg \<noteq> [] \<and> \<not> TracesSampleRate cfg < 0 \<and> \<not> 1 < TracesSampleRate cfg \<and> initErr = None"

lemma monitor_setup_current: "current (monitor_setup initErr cfg) = Some (if sentry_on initErr cfg then SentryMonitor else NopMonitor)"
  by (auto simp: monitor_setup_def NewSentryMonitor_def Monitoring_Init_def monitoring_zero_def sentry_on_def split: option.split)

lemma monitor_setup_empty: "sentryErrors (monitor_setup initErr cfg) = []" "sentryPanics (monitor_setup initErr cfg) = []"
  by (auto simp: monitor_setup_def Monitoring_Init_def monitoring_zero_def split: option.split)

lemma CaptureException_effect:
  "current (CaptureException err tags st) = current st" "sentryPanics (CaptureException err tags st) = sentryPanics st"
  "sentryErrors (CaptureException err tags st) =
     sentryErrors st @ (if current st = Some SentryMonitor then captured [Capture err tags] else [])"
  by (auto simp: CaptureException_def Sentry_CaptureException_def split: option.splits monitor.split)

lemma Monitoring_Recover_effect: "Monitoring_Recover panic st = (panic, st)"
  by (simp add: Monitoring_Recover_def Sentry_Recover_def recovered_def split: option.split monitor.split)

lemma reports_run:
  "current (foldl report_step st rs) = current st \<and> sentryPanics (foldl report_step st rs) = sentryPanics st \<and>
   sentryErrors (foldl report_step st rs) = sentryErrors st @ (if current st = Some SentryMonitor then captured rs else [])"
proof (induction rs arbitrary: st)
  case (Cons r rs)
  then show ?case
  proof (cases r)
    case (Capture err tags)
    with Cons show ?thesis by (cases err) (simp_all add: CaptureException_effect)
  qed (simp add: Monitoring_Recover_effect)
qed simp

text \<open>
  Sentry gets every error that the components capture, in order and with its tags, if it is configured
  and its client starts, and nothing otherwise; a wrong Sentry section never stops the
  service. Panics never reach it: the goroutines defer a function that calls \<open>recover\<close> in a function of
  its own, where it answers nil.
\<close>

theorem monitoring_reports:
  "sentryErrors (foldl report_step (monitor_setup initErr cfg) rs) = (if sentry_on initErr cfg then captured rs else []) \<and>
   sentryPanics (foldl report_step (monitor_setup initErr cfg) rs) = [] \<and>
   fst (Monitoring_Recover panic (foldl report_step (monitor_setup initErr cfg) rs)) = panic"
  using reports_run [of "monitor_setup initErr cfg" rs]
  by (simp add: monitor_setup_current monitor_setup_empty Monitoring_Recover_effect)

subsection \<open>Servers\<close>

datatype serve_outcome = ErrServerClosed | ServeErr go_error

text \<open>
  The address after \<open>Start\<close> and its result; \<open>listen\<close> is the address that was bound, or the error, and
  \<open>serve\<close> how \<open>Serve\<close> ended.
\<close>

definition Mock_Start :: "(string \<Rightarrow> go_error + string) \<Rightarrow> serve_outcome \<Rightarrow> string \<Rightarrow> string \<times> go_error option" where
  "Mock_Start listen serve addr =
     (case listen addr of
        Inl e \<Rightarrow> (addr, Some e)
      | Inr bound \<Rightarrow> (bound, case serve of ErrServerClosed \<Rightarrow> None | ServeErr e \<Rightarrow> Some e))"

definition StartPromServer :: "(string \<Rightarrow> serve_outcome) \<Rightarrow> string \<Rightarrow> go_error option" where
  "StartPromServer listenAndServe addr =
     (case listenAndServe addr of ErrServerClosed \<Rightarrow> None | ServeErr e \<Rightarrow> Some e)"

text \<open>The polling client: \<open>poll\<close> only writes a log line, and the loop ends with the context.\<close>

definition RTEClient_poll :: "string \<Rightarrow> go_error option" where
  "RTEClient_poll apiURL = None"

datatype client_event = ClientTick | ClientDone

fun RTEClient_Start :: "string \<Rightarrow> client_event list \<Rightarrow> monitoring \<Rightarrow> (go_error option \<times> monitoring) option" where
  "RTEClient_Start url [] st = None"
| "RTEClient_Start url (ClientDone # es) st = Some (None, st)"
| "RTEClient_Start url (ClientTick # es) st =
     RTEClient_Start url es
       (case RTEClient_poll url of
          None \<Rightarrow> st
        | Some e \<Rightarrow> CaptureException (Some e) [''module'' \<mapsto> ''rte-client''] st)"

lemma RTEClient_Start_returns:
  "RTEClient_Start url es st = (if ClientDone \<in> set es then Some (None, st) else None)"
proof (induction es arbitrary: st)
  case (Cons e es)
  then show ?case by (cases e) (simp_all add: RTEClient_poll_def)
qed simp

end
