(* ===== verification/Scheduler.thy ===== *)
theory Scheduler
  imports Core_Model
begin

text \<open>
  The day-ahead scheduler, \<open>core/scheduler/scheduler.go\<close>: availability of a vehicle in a slot,
  the distribution of a slot's power over the available vehicles and the plan of a day.
  \<open>sort.Slice\<close> is the argument \<open>sortf\<close>. The distribution loop has no bound in the source; it is
  a \<^theory_text>\<open>partial_function\<close>, and the theorems show that it ends. Slot durations are \<open>int64\<close>
  nanoseconds, so their products and sums wrap around.
\<close>

subsection \<open>Data\<close>

record AvailabilityWindow =
  WinStart :: Time
  WinEnd :: Time

record 'n SchedulerConfig =
  SlotDurationMinutes :: int
  TargetEnergyKWh :: 'n

record 'n Scheduler =
  Config :: "'n SchedulerConfig"
  Vehicles :: "'n Vehicle list"
  Availability :: "string \<rightharpoonup> AvailabilityWindow list"

record 'n EffacementEntry =
  EntryVehicleID :: string
  TimeSlot :: Time
  EntryPowerKW :: 'n

text \<open>The plan, an error return, or the integer division by zero of line 95.\<close>

datatype 'n plan_result =
    PlanPanic
  | PlanErr string
  | PlanOk "'n EffacementEntry list"

subsection \<open>Availability\<close>

definition vehicleAvailable :: "'n Scheduler \<Rightarrow> string \<Rightarrow> Time \<Rightarrow> Duration \<Rightarrow> bool" where
  "vehicleAvailable s i t d \<longleftrightarrow>
     list_ex (\<lambda>w. (timeEqual t (WinStart w) \<or> timeAfter t (WinStart w)) \<and>
                   \<not> timeAfter (timeAdd t d) (WinEnd w))
       (getd [] (Availability s) i)"

definition availableVehicles :: "'n Scheduler \<Rightarrow> Time \<Rightarrow> Duration \<Rightarrow> 'n Vehicle list" where
  "availableVehicles s ts d = filter (\<lambda>v. vehicleAvailable s (ID v) ts d) (Vehicles s)"

subsection \<open>Distribution of one slot\<close>

text \<open>A vehicle with its entry of \<open>alloc\<close>. One pass over them, lines 57 to 74.\<close>

fun distribute_pass ::
  "'n::{zero,one,plus,minus,inverse,ord} \<Rightarrow> ('n Vehicle \<times> 'n) list \<Rightarrow> 'n \<Rightarrow> bool
    \<Rightarrow> ('n Vehicle \<times> 'n) list \<times> 'n \<times> bool" where
  "distribute_pass share [] remaining progress = ([], remaining, progress)"
| "distribute_pass share ((v, a) # xs) remaining progress =
     (let skip = (case distribute_pass share xs remaining progress of
                    (ys, r, p) \<Rightarrow> ((v, a) # ys, r, p)) in
      if MaxPower v \<le> a then skip
      else let give = (if MaxPower v < a + share then MaxPower v - a else share) in
           if give \<le> 0 then skip
           else let remaining' = remaining - give in
                if remaining' \<le> lit 1 1000000 then ((v, a + give) # xs, remaining', True)
                else (case distribute_pass share xs remaining' True of
                        (ys, r, p) \<Rightarrow> ((v, a + give) # ys, r, p)))"

definition activeCount :: "('n::ord Vehicle \<times> 'n) list \<Rightarrow> nat" where
  "activeCount xs = length (filter (\<lambda>(v, a). a < MaxPower v) xs)"

partial_function (option) distribute_loop ::
  "('n::{zero,one,plus,minus,inverse,ord} Vehicle \<times> 'n) list \<Rightarrow> 'n \<Rightarrow> (('n Vehicle \<times> 'n) list) option" where
  "distribute_loop xs remaining =
     (if lit 1 1000000 < remaining
      then let active = activeCount xs in
           if active = 0 then Some xs
           else (case distribute_pass (remaining / num active) xs remaining False of
                   (ys, r, progress) \<Rightarrow> if progress then distribute_loop ys r else Some ys)
      else Some xs)"

definition distribute ::
  "('n Vehicle list \<Rightarrow> 'n Vehicle list) \<Rightarrow> Time \<Rightarrow> 'n::{zero,one,plus,minus,inverse,ord} Vehicle list \<Rightarrow> 'n
    \<Rightarrow> 'n EffacementEntry list option" where
  "distribute sortf ts vs target =
     map_option
       (\<lambda>xs. map (\<lambda>(v, a). \<lparr>EntryVehicleID = ID v, TimeSlot = ts, EntryPowerKW = a\<rparr>)
               (filter (\<lambda>(v, a). 0 < a) xs))
       (distribute_loop (map (\<lambda>v. (v, 0)) (sortf vs)) target)"

subsection \<open>The plan of a day\<close>

text \<open>The loop over the slots, lines 114 to 137: entries, backlog and the flag \<open>hadAvail\<close>.\<close>

function plan_loop ::
  "('n Vehicle list \<Rightarrow> 'n Vehicle list) \<Rightarrow> 'n::{zero,one,plus,minus,uminus,times,inverse,ord} Scheduler
    \<Rightarrow> Time \<Rightarrow> Duration \<Rightarrow> 'n \<Rightarrow> int \<Rightarrow> int \<Rightarrow> 'n EffacementEntry list \<Rightarrow> 'n \<Rightarrow> bool
    \<Rightarrow> ('n EffacementEntry list \<times> 'n \<times> bool) option" where
  "plan_loop sortf s startOfDay slotDur powerPerSlot totalSlots i entries backlog hadAvail =
     (if i < totalSlots
      then let ts = timeAdd startOfDay (durMul i slotDur);
               available = availableVehicles s ts slotDur;
               slotEnergy = powerPerSlot * Hours slotDur in
           if available = []
           then plan_loop sortf s startOfDay slotDur powerPerSlot totalSlots (i + 1) entries
                  (backlog + slotEnergy) hadAvail
           else let totalCap = fsum MaxPower available;
                    targetEnergy = slotEnergy + backlog;
                    maxEnergy = totalCap * Hours slotDur;
                    allocEnergy = (if maxEnergy < targetEnergy then maxEnergy else targetEnergy);
                    targetPower = allocEnergy / Hours slotDur in
                (case distribute sortf ts available targetPower of
                   None \<Rightarrow> None
                 | Some es \<Rightarrow>
                     plan_loop sortf s startOfDay slotDur powerPerSlot totalSlots (i + 1) (entries @ es)
                       (targetEnergy - allocEnergy) True)
      else Some (entries, backlog, hadAvail))"
  by pat_completeness auto
termination
  by (relation "measure (\<lambda>(sortf, s, t, d, p, n, i, es, b, h). nat (n - i))") auto

declare plan_loop.simps [simp del]

definition GeneratePlan ::
  "('n Vehicle list \<Rightarrow> 'n Vehicle list) \<Rightarrow> 'n::{zero,one,plus,minus,uminus,times,inverse,ord} Scheduler
    \<Rightarrow> Time \<Rightarrow> 'n plan_result option" where
  "GeneratePlan sortf s date =
     (if SlotDurationMinutes (Config s) \<le> 0
      then Some (PlanErr ''slot_duration_minutes must be positive'')
      else let slotDur = durMul (SlotDurationMinutes (Config s)) Minute in
           if slotDur = 0 then Some PlanPanic
           else let totalSlots = tdiv (wrap64 (wrap64 (24 * Hour + slotDur) - 1)) slotDur in
                if totalSlots = 0 then Some (PlanErr ''slot duration too long'')
                else let powerPerSlot = TargetEnergyKWh (Config s) / (fint totalSlots * Hours slotDur) in
                     if powerPerSlot \<le> 0 then Some (PlanErr ''target energy must be positive'')
                     else if Vehicles s = [] then Some (PlanErr ''no vehicles configured'')
                     else (case plan_loop sortf s (utcMidnight date) slotDur powerPerSlot totalSlots 0
                                  [] 0 False of
                             None \<Rightarrow> None
                           | Some (entries, backlog, hadAvail) \<Rightarrow>
                               if lit 1 1000000 < backlog \<or> \<not> hadAvail
                               then Some (PlanErr ''insufficient capacity for target energy'')
                               else Some (PlanOk entries)))"

subsection \<open>One pass at exact arithmetic\<close>

definition fill :: "real \<Rightarrow> real Vehicle \<times> real \<Rightarrow> real Vehicle \<times> real" where
  "fill share = (\<lambda>(v, a). (v, if a < MaxPower v then min (MaxPower v) (a + share) else a))"

definition load :: "(real Vehicle \<times> real) list \<Rightarrow> real" where
  "load xs = sum_list (map snd xs)"

definition in_limits :: "(real Vehicle \<times> real) list \<Rightarrow> bool" where
  "in_limits xs \<longleftrightarrow> list_all (\<lambda>(v, a). 0 \<le> a \<and> a \<le> MaxPower v) xs"

lemma load_simps [simp]: "load [] = 0" "load (x # xs) = snd x + load xs"
  by (simp_all add: load_def)

lemma in_limits_simps [simp]:
  "in_limits []" "in_limits ((v, a) # xs) \<longleftrightarrow> 0 \<le> a \<and> a \<le> MaxPower v \<and> in_limits xs"
  by (simp_all add: in_limits_def)

lemma active_simps [simp]:
  "activeCount [] = 0"
  "activeCount ((v, a) # xs) = (if a < MaxPower v then Suc (activeCount xs) else activeCount xs)"
  by (simp_all add: activeCount_def)

lemma pass_spec:
  assumes "0 < share" "in_limits xs" "distribute_pass share xs r p = (ys, r', p')"
  shows "map fst ys = map fst xs \<and> in_limits ys \<and> load ys + r' = load xs + r \<and>
    r - share * real (activeCount xs) \<le> r' \<and>
    (1/1000000 < r' \<longrightarrow> ys = map (fill share) xs) \<and> (p \<or> 0 < activeCount xs \<longrightarrow> p')"
  using assms(2,3)
proof (induction xs arbitrary: r p ys)
  case (Cons x xs)
  obtain v a where x: "x = (v, a)" by fastforce
  have lim: "0 \<le> a" "a \<le> MaxPower v" "in_limits xs" using Cons.prems(1) x by auto
  show ?case
  proof (cases "MaxPower v \<le> a")
    case True
    then obtain zs where zs: "distribute_pass share xs r p = (zs, r', p')" "ys = (v, a) # zs"
      using Cons.prems(2) x by (auto split: prod.splits)
    from Cons.IH [OF lim(3) zs(1)] True x zs(2) lim show ?thesis by (auto simp: fill_def)
  next
    case False
    define give where "give = (if MaxPower v < a + share then MaxPower v - a else share)"
    have give: "0 < give" "give \<le> share" "a + give = min (MaxPower v) (a + share)"
      using False assms(1) by (auto simp: give_def)
    show ?thesis
    proof (cases "r - give \<le> 1/1000000")
      case True
      then have out: "ys = (v, a + give) # xs" "r' = r - give" "p'"
        using Cons.prems(2) x False give(1) by (auto simp: give_def [symmetric] Let_def)
      have "0 \<le> share * real (activeCount xs)" using assms(1) by simp
      then have "r - share * real (activeCount (x # xs)) \<le> r'"
        using out(2) give(2) False x by (simp add: algebra_simps)
      with out True give lim x show ?thesis by auto
    next
      case more: False
      then obtain zs where zs: "distribute_pass share xs (r - give) True = (zs, r', p')"
        "ys = (v, a + give) # zs"
        using Cons.prems(2) x False give(1) by (auto simp: give_def [symmetric] Let_def split: prod.splits)
      from Cons.IH [OF lim(3) zs(1)] False x zs(2) lim give show ?thesis
        by (auto simp: fill_def algebra_simps)
    qed
  qed
qed simp

lemma fill_load_free:
  assumes "activeCount (map (fill share) xs) = activeCount xs" "0 < share"
  shows "load (map (fill share) xs) = load xs + share * real (activeCount xs)"
proof -
  have le: "activeCount (map (fill share) xs) \<le> activeCount xs" for xs
    by (induction xs) (auto simp: fill_def split: prod.splits)
  show ?thesis using assms(1)
  proof (induction xs)
    case (Cons x xs)
    obtain v a where x: "x = (v, a)" by fastforce
    show ?case
    proof (cases "a < MaxPower v")
      case True
      have "min (MaxPower v) (a + share) < MaxPower v \<and> activeCount (map (fill share) xs) = activeCount xs"
        using Cons.prems x True le [of xs] by (auto simp: fill_def split: if_splits)
      with Cons.IH x True show ?thesis by (auto simp: fill_def algebra_simps min_def split: if_splits)
    qed (use Cons x in \<open>auto simp: fill_def\<close>)
  qed simp
qed

lemma fill_active_le: "activeCount (map (fill share) xs) \<le> activeCount xs"
  by (induction xs) (auto simp: fill_def split: prod.splits)

subsection \<open>The distribution loop ends\<close>

text \<open>
  What the loop yields: the vehicles in order, each within its power, and the power still to
  place; it stops because nothing relevant remains or because every vehicle is at its power.
\<close>

definition distributed :: "(real Vehicle \<times> real) list \<Rightarrow> real \<Rightarrow> (real Vehicle \<times> real) list \<Rightarrow> bool" where
  "distributed xs r ys \<longleftrightarrow> map fst ys = map fst xs \<and> in_limits ys \<and>
     load ys \<le> load xs + r \<and> (load xs + r - load ys \<le> 1/1000000 \<or> activeCount ys = 0)"

lemma distribute_loop_ends:
  assumes "in_limits xs" "0 \<le> r"
  shows "\<exists>ys. distribute_loop xs r = Some ys \<and> distributed xs r ys"
  using assms
proof (induction "activeCount xs" arbitrary: xs r rule: less_induct)
  case less
  show ?case
  proof (cases "1/1000000 < r \<and> activeCount xs \<noteq> 0")
    case False
    then have "distribute_loop xs r = Some xs" by (subst distribute_loop.simps) (auto simp: Let_def)
    with False less.prems show ?thesis by (auto simp: distributed_def)
  next
    case True
    let ?share = "r / real (activeCount xs)"
    have share: "0 < ?share" "?share * real (activeCount xs) = r" using True by auto
    obtain ys r' p where ps: "distribute_pass ?share xs r False = (ys, r', p)" by (metis prod_cases3)
    note spec = pass_spec [OF share(1) less.prems(1) ps]
    have p: p using spec True by auto
    have r': "0 \<le> r'" using spec share(2) by simp
    have step: "distribute_loop xs r = distribute_loop ys r'"
      using True ps p by (subst distribute_loop.simps) (simp add: Let_def)
    show ?thesis
    proof (cases "1/1000000 < r'")
      case False
      then have "distribute_loop ys r' = Some ys" by (subst distribute_loop.simps) simp
      with step spec r' False show ?thesis by (auto simp: distributed_def)
    next
      case big: True
      then have ys: "ys = map (fill ?share) xs" using spec by blast
      have "activeCount ys \<noteq> activeCount xs"
      proof
        assume "activeCount ys = activeCount xs"
        then have "load ys = load xs + r" using fill_load_free ys share by metis
        then have "r' = 0" using spec by simp
        with big show False by simp
      qed
      then have "activeCount ys < activeCount xs" using fill_active_le [of ?share xs] ys by simp
      from less.hyps [OF this _ r'] spec
      obtain zs where zs: "distribute_loop ys r' = Some zs" "distributed ys r' zs" by blast
      with step spec show ?thesis by (auto simp: distributed_def)
    qed
  qed
qed

subsection \<open>One slot\<close>

lemma in_limits_start: "\<forall>v\<in>set vs. 0 \<le> MaxPower v \<Longrightarrow> in_limits (map (\<lambda>v. (v, 0)) vs)"
  by (induction vs) auto

lemma load_start: "load (map (\<lambda>v. (v, 0)) vs) = 0"
  by (induction vs) auto

lemma load_saturated: "in_limits ys \<Longrightarrow> activeCount ys = 0 \<Longrightarrow> load ys = sum_list (map (MaxPower \<circ> fst) ys)"
  by (induction ys) (auto split: if_splits)

definition entry_of :: "Time \<Rightarrow> real Vehicle \<times> real \<Rightarrow> real EffacementEntry" where
  "entry_of ts = (\<lambda>(v, a). \<lparr>EntryVehicleID = ID v, TimeSlot = ts, EntryPowerKW = a\<rparr>)"

lemma entries_load:
  "in_limits ys \<Longrightarrow> sum_list (map EntryPowerKW (map (entry_of ts) (filter (\<lambda>(v, a). 0 < a) ys))) = load ys"
  by (induction ys) (auto simp: entry_of_def)

lemma distribute_slot:
  fixes vs :: "real Vehicle list"
  assumes "mset (sortf vs) = mset vs" "\<forall>v\<in>set vs. 0 \<le> MaxPower v" "0 \<le> target"
  obtains ys where "distribute sortf ts vs target = Some (map (entry_of ts) (filter (\<lambda>(v, a). 0 < a) ys))"
    "map fst ys = sortf vs" "in_limits ys" "load ys \<le> target"
    "load ys = sum_list (map MaxPower vs) \<or> target - load ys \<le> 1/1000000"
proof -
  have set_eq: "set (sortf vs) = set vs" by (metis assms(1) set_mset_mset)
  have "in_limits (map (\<lambda>v. (v, 0)) (sortf vs))" using assms(2) set_eq by (intro in_limits_start) auto
  from distribute_loop_ends [OF this assms(3)] obtain ys
    where ys: "distribute_loop (map (\<lambda>v. (v, 0)) (sortf vs)) target = Some ys"
      "distributed (map (\<lambda>v. (v, 0)) (sortf vs)) target ys" by blast
  have fst_ys: "map fst ys = sortf vs" using ys(2) by (simp add: distributed_def comp_def)
  have "sum_list (map (MaxPower \<circ> fst) ys) = sum_list (map MaxPower (sortf vs))"
    using fst_ys by (metis map_map)
  also have "\<dots> = sum_list (map MaxPower vs)" using assms(1) by (metis mset_map sum_mset_sum_list)
  finally have cap: "activeCount ys = 0 \<Longrightarrow> load ys = sum_list (map MaxPower vs)"
    using load_saturated ys(2) by (simp add: distributed_def)
  show ?thesis
    by (rule that [of ys]) (use ys fst_ys cap in \<open>auto simp: distribute_def entry_of_def distributed_def load_start\<close>)
qed

text \<open>
  The distribution of a slot always ends. Every available vehicle gets at most one entry, of a
  positive power within its \<open>MaxPower\<close>; together they get no more than the target, and all of it
  up to \<open>1e-6\<close> kW unless every vehicle runs at its \<open>MaxPower\<close>. \<open>sort.Slice\<close> may order the
  vehicles in any way.
\<close>

theorem distribute_correct:
  fixes vs :: "real Vehicle list"
  assumes "mset (sortf vs) = mset vs" "distinct (map ID vs)" "\<forall>v\<in>set vs. 0 \<le> MaxPower v" "0 \<le> target"
  shows "\<exists>es. distribute sortf ts vs target = Some es \<and> distinct (map EntryVehicleID es) \<and>
    (\<forall>e\<in>set es. \<exists>v\<in>set vs. EntryVehicleID e = ID v \<and> 0 < EntryPowerKW e \<and> EntryPowerKW e \<le> MaxPower v) \<and>
    sum_list (map EntryPowerKW es) \<le> target \<and>
    min target (sum_list (map MaxPower vs)) - 1/1000000 \<le> sum_list (map EntryPowerKW es)"
proof -
  obtain ys where ys: "distribute sortf ts vs target = Some (map (entry_of ts) (filter (\<lambda>(v, a). 0 < a) ys))"
    "map fst ys = sortf vs" "in_limits ys" "load ys \<le> target"
    "load ys = sum_list (map MaxPower vs) \<or> target - load ys \<le> 1/1000000"
    using distribute_slot [of sortf vs target ts, OF assms(1,3,4)] by blast
  let ?es = "map (entry_of ts) (filter (\<lambda>(v, a). 0 < a) ys)"
  have "mset (map ID (sortf vs)) = mset (map ID vs)" using assms(1) by simp
  then have "distinct (map ID (map fst ys))" using assms(2) ys(2) by (metis mset_eq_imp_distinct_iff)
  then have d: "distinct (map EntryVehicleID ?es)"
    by (simp add: comp_def entry_of_def case_prod_unfold distinct_map_filter)
  have set_eq: "set (sortf vs) = set vs" by (metis assms(1) set_mset_mset)
  have mem: "\<exists>v\<in>set vs. EntryVehicleID e = ID v \<and> 0 < EntryPowerKW e \<and> EntryPowerKW e \<le> MaxPower v"
    if e: "e \<in> set ?es" for e
  proof -
    obtain v a where va: "(v, a) \<in> set ys" "0 < a" "e = entry_of ts (v, a)" using e by auto
    have "v \<in> set (map fst ys)" using va(1) by force
    moreover have "a \<le> MaxPower v" using ys(3) va(1) by (auto simp: in_limits_def list_all_iff)
    ultimately show ?thesis using va ys(2) set_eq by (auto simp: entry_of_def)
  qed
  have "min target (sum_list (map MaxPower vs)) - 1/1000000 \<le> load ys" using ys(4,5) by auto
  with ys(1,4) d mem entries_load [OF ys(3)] show ?thesis by metis
qed

theorem distribute_correct_witness:
  "\<exists>es. distribute (\<lambda>vs. vs) timeZero
      [zeroVehicle\<lparr>ID := ''a'', MaxPower := 10\<rparr>, zeroVehicle\<lparr>ID := ''b'', MaxPower := 4\<rparr>] 12 = Some es \<and>
    (\<forall>e\<in>set es. EntryPowerKW e \<le> (10 :: real)) \<and> 12 - 1/1000000 \<le> sum_list (map EntryPowerKW es)"
proof -
  let ?vs = "[zeroVehicle\<lparr>ID := ''a'', MaxPower := 10\<rparr>, zeroVehicle\<lparr>ID := ''b'', MaxPower := 4\<rparr>] :: real Vehicle list"
  obtain es where "distribute (\<lambda>vs. vs) timeZero ?vs 12 = Some es"
    "\<forall>e\<in>set es. \<exists>v\<in>set ?vs. EntryVehicleID e = ID v \<and> 0 < EntryPowerKW e \<and> EntryPowerKW e \<le> MaxPower v"
    "min 12 (sum_list (map MaxPower ?vs)) - 1/1000000 \<le> sum_list (map EntryPowerKW es)"
    using distribute_correct [of "\<lambda>vs. vs" ?vs 12 timeZero] by auto
  then show ?thesis by (intro exI [of _ es]) auto
qed

subsection \<open>The plan\<close>

definition entry_key :: "'n EffacementEntry \<Rightarrow> string \<times> int" where
  "entry_key e = (EntryVehicleID e, inst (TimeSlot e))"

text \<open>Entries of the slots before slot \<open>i\<close>: one per vehicle and slot, for available vehicles.\<close>

definition entries_ok :: "real Scheduler \<Rightarrow> Time \<Rightarrow> Duration \<Rightarrow> int \<Rightarrow> real EffacementEntry list \<Rightarrow> bool" where
  "entries_ok s start slotDur i es \<longleftrightarrow> distinct (map entry_key es) \<and>
     (\<forall>e\<in>set es. (\<exists>j. 0 \<le> j \<and> j < i \<and> TimeSlot e = timeAdd start (j * slotDur)) \<and>
       (\<exists>v\<in>set (Vehicles s). EntryVehicleID e = ID v \<and> vehicleAvailable s (ID v) (TimeSlot e) slotDur \<and>
          0 < EntryPowerKW e \<and> EntryPowerKW e \<le> MaxPower v))"

definition plan_energy :: "real \<Rightarrow> real EffacementEntry list \<Rightarrow> real" where
  "plan_energy H es = H * sum_list (map EntryPowerKW es)"

text \<open>After \<open>i\<close> slots: what is planned plus the backlog is the energy of \<open>i\<close> slots, less the roundings.\<close>

definition plan_inv ::
  "real Scheduler \<Rightarrow> Time \<Rightarrow> Duration \<Rightarrow> real \<Rightarrow> int \<Rightarrow> real EffacementEntry list \<Rightarrow> real \<Rightarrow> bool" where
  "plan_inv s start slotDur pps i es backlog \<longleftrightarrow>
     (let H = Hours slotDur; se = pps * H in
      0 \<le> backlog \<and> plan_energy H es + backlog \<le> of_int i * se \<and>
      of_int i * (se - H / 1000000) \<le> plan_energy H es + backlog \<and> entries_ok s start slotDur i es)"

lemma map_disjoint:
  "(\<And>x y. x \<in> set xs \<Longrightarrow> y \<in> set ys \<Longrightarrow> f x \<noteq> f y) \<Longrightarrow> set (map f xs) \<inter> set (map f ys) = {}"
  by fastforce

text \<open>The entries of one slot, and that a later end of the plan does not matter.\<close>

lemma slot_new_entries:
  assumes ids: "distinct (map ID (Vehicles s))"
    and srt: "mset (sortf (availableVehicles s ts slotDur)) = mset (availableVehicles s ts slotDur)"
    and ys: "map fst ys = sortf (availableVehicles s ts slotDur)" "in_limits ys"
    and new: "new = map (entry_of ts) (filter (\<lambda>(v, a). 0 < a) ys)"
  shows "distinct (map entry_key new)"
    and "e \<in> set new \<Longrightarrow> TimeSlot e = ts \<and> (\<exists>v\<in>set (Vehicles s). EntryVehicleID e = ID v \<and>
      vehicleAvailable s (ID v) ts slotDur \<and> 0 < EntryPowerKW e \<and> EntryPowerKW e \<le> MaxPower v)"
proof -
  let ?av = "availableVehicles s ts slotDur"
  have set_eq: "set (map fst ys) = set ?av" by (metis ys(1) srt set_mset_mset)
  have "mset (map ID (sortf ?av)) = mset (map ID ?av)" using srt by simp
  moreover have "distinct (map ID ?av)" using ids by (simp add: availableVehicles_def distinct_map_filter)
  ultimately have "distinct (map ID (map fst ys))" using ys(1) by (metis mset_eq_imp_distinct_iff)
  then have "distinct (map EntryVehicleID new)"
    by (simp add: new comp_def entry_of_def case_prod_unfold distinct_map_filter)
  then show "distinct (map entry_key new)" by (auto simp: distinct_map inj_on_def entry_key_def)
  assume "e \<in> set new"
  then obtain v a where va: "(v, a) \<in> set ys" "0 < a" "e = entry_of ts (v, a)" by (auto simp: new)
  have "v \<in> set (map fst ys)" using va(1) by force
  then have "v \<in> set (Vehicles s)" "vehicleAvailable s (ID v) ts slotDur"
    using set_eq by (auto simp: availableVehicles_def)
  moreover have "a \<le> MaxPower v" using ys(2) va(1) by (auto simp: in_limits_def list_all_iff)
  ultimately show "TimeSlot e = ts \<and> (\<exists>v\<in>set (Vehicles s). EntryVehicleID e = ID v \<and>
      vehicleAvailable s (ID v) ts slotDur \<and> 0 < EntryPowerKW e \<and> EntryPowerKW e \<le> MaxPower v)"
    using va by (auto simp: entry_of_def)
qed

lemma entries_ok_mono:
  assumes "entries_ok s start slotDur i es"
  shows "entries_ok s start slotDur (i + 1) es"
proof -
  have "\<exists>j. 0 \<le> j \<and> j < i + 1 \<and> TimeSlot e = timeAdd start (j * slotDur)" if "e \<in> set es" for e
  proof -
    obtain j where "0 \<le> j" "j < i" "TimeSlot e = timeAdd start (j * slotDur)"
      using assms \<open>e \<in> set es\<close> by (auto simp: entries_ok_def)
    then show ?thesis by (intro exI [of _ j]) simp
  qed
  with assms show ?thesis by (simp add: entries_ok_def)
qed

lemma slot_entries_ok:
  assumes ok: "entries_ok s start slotDur i es" and "0 < slotDur" "0 \<le> i"
    and ids: "distinct (map ID (Vehicles s))" and ts: "ts = timeAdd start (i * slotDur)"
    and srt: "mset (sortf (availableVehicles s ts slotDur)) = mset (availableVehicles s ts slotDur)"
    and ys: "map fst ys = sortf (availableVehicles s ts slotDur)" "in_limits ys"
  shows "entries_ok s start slotDur (i + 1) (es @ map (entry_of ts) (filter (\<lambda>(v, a). 0 < a) ys))"
proof -
  let ?new = "map (entry_of ts) (filter (\<lambda>(v, a). 0 < a) ys)"
  note new = slot_new_entries [where sortf = sortf, OF ids srt ys refl]
  have old_lt: "inst (TimeSlot e) < inst ts" if "e \<in> set es" for e
    using ok that \<open>0 < slotDur\<close> by (auto simp: entries_ok_def ts timeAdd_def)
  have "entry_key e \<noteq> entry_key e'" if "e \<in> set es" "e' \<in> set ?new" for e e'
    using old_lt [OF that(1)] new(2) [OF that(2)] by (simp add: entry_key_def)
  then have "set (map entry_key es) \<inter> set (map entry_key ?new) = {}" by (rule map_disjoint)
  then have "distinct (map entry_key (es @ ?new))" using ok new(1) by (simp add: entries_ok_def)
  moreover have "\<exists>j. 0 \<le> j \<and> j < i + 1 \<and> TimeSlot e = timeAdd start (j * slotDur)" if "e \<in> set (es @ ?new)" for e
  proof (cases "e \<in> set es")
    case True
    then show ?thesis using entries_ok_mono [OF ok] by (auto simp: entries_ok_def)
  next
    case False
    then have "TimeSlot e = timeAdd start (i * slotDur)" using that new(2) [of e] ts by auto
    then show ?thesis using \<open>0 \<le> i\<close> by (intro exI [of _ i]) simp
  qed
  moreover have "\<exists>v\<in>set (Vehicles s). EntryVehicleID e = ID v \<and>
      vehicleAvailable s (ID v) (TimeSlot e) slotDur \<and> 0 < EntryPowerKW e \<and> EntryPowerKW e \<le> MaxPower v"
    if "e \<in> set (es @ ?new)" for e
    using that new(2) [of e] ok by (auto simp: entries_ok_def)
  ultimately show ?thesis unfolding entries_ok_def by blast
qed

lemma plan_step_energy:
  fixes H :: real
  assumes "0 < H" "0 \<le> backlog" "0 \<le> se" "0 \<le> cap"
    and lo: "of_int i * (se - H / 1000000) \<le> E + backlog" and hi: "E + backlog \<le> of_int i * se"
    and "alloc = min (cap * H) (se + backlog)" "l \<le> alloc / H" "l = cap \<or> alloc / H - l \<le> 1/1000000"
  shows "0 \<le> se + backlog - alloc \<and> E + H * l + (se + backlog - alloc) \<le> of_int (i + 1) * se \<and>
    of_int (i + 1) * (se - H / 1000000) \<le> E + H * l + (se + backlog - alloc)"
proof -
  have "alloc / H \<le> cap" using assms(1,7) by (simp add: pos_divide_le_eq)
  then have "alloc / H - l \<le> 1/1000000" using assms(9) by (elim disjE) linarith+
  then have "H * (alloc / H - l) \<le> H * (1/1000000)" using assms(1) by (intro mult_left_mono) auto
  then have a: "alloc - H * l \<le> H / 1000000" using assms(1) by (simp add: right_diff_distrib)
  have "H * l \<le> H * (alloc / H)" using assms(1,8) by (intro mult_left_mono) auto
  then have b: "H * l \<le> alloc" using assms(1) by simp
  have c: "0 \<le> se + backlog - alloc" using assms(7) by simp
  have e: "of_int (i + 1) * x = of_int i * x + x" for x :: real by (simp add: distrib_right)
  show ?thesis unfolding e using a b c lo hi by linarith
qed

lemma plan_step_idle:
  fixes H :: real
  assumes "0 \<le> H" "0 \<le> backlog" "0 \<le> se"
    and "of_int i * (se - H / 1000000) \<le> E + backlog" "E + backlog \<le> of_int i * se"
  shows "0 \<le> backlog + se \<and> E + (backlog + se) \<le> of_int (i + 1) * se \<and>
    of_int (i + 1) * (se - H / 1000000) \<le> E + (backlog + se)"
proof -
  have e: "of_int (i + 1) * x = of_int i * x + x" for x :: real by (simp add: distrib_right)
  show ?thesis unfolding e using assms by linarith
qed

text \<open>One slot without and with available vehicles: the loop goes on from a state that keeps the invariant.\<close>

lemma plan_slot_idle:
  fixes s :: "real Scheduler"
  assumes inv: "plan_inv s start slotDur pps i es backlog" and "i < n" "0 < slotDur" "0 \<le> pps"
    and dm: "durMul i slotDur = i * slotDur" and empty: "availableVehicles s (timeAdd start (i * slotDur)) slotDur = []"
  shows "\<exists>b. plan_loop sortf s start slotDur pps n i es backlog h = plan_loop sortf s start slotDur pps n (i + 1) es b h \<and>
    plan_inv s start slotDur pps (i + 1) es b"
proof -
  let ?H = "Hours slotDur :: real"
  have H: "0 \<le> ?H" and se: "0 \<le> pps * ?H" using assms(3,4) by simp_all
  have invD: "0 \<le> backlog" "plan_energy ?H es + backlog \<le> of_int i * (pps * ?H)"
    "of_int i * (pps * ?H - ?H / 1000000) \<le> plan_energy ?H es + backlog" "entries_ok s start slotDur i es"
    using inv by (auto simp: plan_inv_def Let_def)
  have "plan_inv s start slotDur pps (i + 1) es (backlog + pps * ?H)"
    using plan_step_idle [OF H invD(1) se invD(3,2)] entries_ok_mono [OF invD(4)] by (simp add: plan_inv_def Let_def)
  moreover have "plan_loop sortf s start slotDur pps n i es backlog h =
      plan_loop sortf s start slotDur pps n (i + 1) es (backlog + pps * ?H) h"
    using \<open>i < n\<close> empty dm by (subst plan_loop.simps) (simp add: Let_def)
  ultimately show ?thesis by blast
qed

lemma plan_slot_busy:
  fixes s :: "real Scheduler"
  assumes inv: "plan_inv s start slotDur pps i es backlog" and "0 \<le> i" "i < n" "0 < slotDur" "0 \<le> pps"
    and ids: "distinct (map ID (Vehicles s))" and pos: "\<forall>v\<in>set (Vehicles s). 0 \<le> MaxPower v"
    and srt: "\<And>ws. mset (sortf ws) = mset ws" and dm: "durMul i slotDur = i * slotDur"
    and busy: "availableVehicles s (timeAdd start (i * slotDur)) slotDur \<noteq> []"
  shows "\<exists>es' b. plan_loop sortf s start slotDur pps n i es backlog h = plan_loop sortf s start slotDur pps n (i + 1) es' b True \<and>
    plan_inv s start slotDur pps (i + 1) es' b"
proof -
  let ?H = "Hours slotDur :: real" and ?ts = "timeAdd start (i * slotDur)"
  let ?av = "availableVehicles s ?ts slotDur"
  define cap where "cap = sum_list (map MaxPower ?av)"
  define alloc where "alloc = min (cap * ?H) (pps * ?H + backlog)"
  have H: "0 < ?H" and se: "0 \<le> pps * ?H" using assms(4,5) by simp_all
  have invD: "0 \<le> backlog" "plan_energy ?H es + backlog \<le> of_int i * (pps * ?H)"
    "of_int i * (pps * ?H - ?H / 1000000) \<le> plan_energy ?H es + backlog" "entries_ok s start slotDur i es"
    using inv by (auto simp: plan_inv_def Let_def)
  have av_pos: "\<forall>v\<in>set ?av. 0 \<le> MaxPower v" using pos by (auto simp: availableVehicles_def)
  have cap: "0 \<le> cap" unfolding cap_def using av_pos by (intro sum_list_nonneg) auto
  have tp: "0 \<le> alloc / ?H" using cap se invD(1) H by (auto simp: alloc_def)
  obtain ys where ys: "distribute sortf ?ts ?av (alloc / ?H) = Some (map (entry_of ?ts) (filter (\<lambda>(v, a). 0 < a) ys))"
    "map fst ys = sortf ?av" "in_limits ys" "load ys \<le> alloc / ?H" "load ys = cap \<or> alloc / ?H - load ys \<le> 1/1000000"
    using distribute_slot [of sortf ?av "alloc / ?H" ?ts, OF srt av_pos tp] unfolding cap_def by blast
  let ?es = "es @ map (entry_of ?ts) (filter (\<lambda>(v, a). 0 < a) ys)"
  have "plan_energy ?H ?es = plan_energy ?H es + ?H * load ys"
    using entries_load [OF ys(3), of ?ts] by (simp add: plan_energy_def distrib_left)
  then have "plan_inv s start slotDur pps (i + 1) ?es (pps * ?H + backlog - alloc)"
    using plan_step_energy [OF H invD(1) se cap invD(3,2) alloc_def ys(4,5)]
      slot_entries_ok [where sortf = sortf, OF invD(4) assms(4,2) ids refl srt ys(2,3)]
    by (simp add: plan_inv_def Let_def)
  moreover have al: "(if cap * ?H < pps * ?H + backlog then cap * ?H else pps * ?H + backlog) = alloc"
    by (simp add: alloc_def min_def)
  have "plan_loop sortf s start slotDur pps n i es backlog h =
      plan_loop sortf s start slotDur pps n (i + 1) ?es (pps * ?H + backlog - alloc) True"
    using \<open>i < n\<close> busy dm ys(1)
    by (subst plan_loop.simps) (simp only: Let_def if_True if_False fsum_real cap_def [symmetric] al option.case)
  ultimately show ?thesis by blast
qed

lemma plan_loop_correct:
  fixes s :: "real Scheduler"
  assumes "plan_inv s start slotDur pps i es backlog" "0 \<le> i" "i \<le> n" "0 < slotDur" "0 \<le> pps"
    and ids: "distinct (map ID (Vehicles s))" and pos: "\<forall>v\<in>set (Vehicles s). 0 \<le> MaxPower v"
    and srt: "\<And>ws. mset (sortf ws) = mset ws"
    and nowrap: "\<And>j. 0 \<le> j \<Longrightarrow> j < n \<Longrightarrow> durMul j slotDur = j * slotDur"
  shows "\<exists>es' backlog' h'. plan_loop sortf s start slotDur pps n i es backlog h = Some (es', backlog', h') \<and>
    plan_inv s start slotDur pps n es' backlog'"
  using assms(1-3)
proof (induction "nat (n - i)" arbitrary: i es backlog h rule: less_induct)
  case less
  show ?case
  proof (cases "i < n")
    case False
    with less.prems show ?thesis by (subst plan_loop.simps) simp
  next
    case True
    have dm: "durMul i slotDur = i * slotDur" using nowrap less.prems(2) True by blast
    have next_i: "nat (n - (i + 1)) < nat (n - i)" "0 \<le> i + 1" "i + 1 \<le> n" using True less.prems(2) by auto
    obtain es1 b1 h1 where "plan_loop sortf s start slotDur pps n i es backlog h = plan_loop sortf s start slotDur pps n (i + 1) es1 b1 h1"
      and inv1: "plan_inv s start slotDur pps (i + 1) es1 b1"
      using plan_slot_idle [OF less.prems(1) True assms(4,5) dm, of sortf h]
        plan_slot_busy [of s start slotDur pps i es backlog n sortf h, OF less.prems(1,2) True assms(4,5) ids pos srt dm] by blast
    with less.hyps [OF next_i(1) inv1 next_i(2,3), of h1] show ?thesis by simp
  qed
qed

lemma slot_arith:
  assumes "0 < m" "m \<le> 1440"
  shows "durMul m Minute = m * Minute" "0 < m * Minute"
    and "tdiv (wrap64 (wrap64 (24 * Hour + m * Minute) - 1)) (m * Minute) = (1440 + m - 1) div m"
proof -
  have b: "0 < m * Minute" "m * Minute \<le> 1440 * 60000000000" using assms by (simp_all add: duration_units)
  show "0 < m * Minute" by (rule b(1))
  have "int64 (m * Minute)" using b by (simp add: int64_def)
  then show "durMul m Minute = m * Minute" by (simp add: durMul_def)
  have "int64 (24 * Hour + m * Minute)" "int64 (24 * Hour + m * Minute - 1)"
    using b by (simp_all add: int64_def duration_units)
  then have "tdiv (wrap64 (wrap64 (24 * Hour + m * Minute) - 1)) (m * Minute) =
      (24 * Hour + m * Minute - 1) div (m * Minute)"
    using b by (simp add: tdiv_nonneg duration_units)
  also have "\<dots> = (1440 + m - 1) div m"
  proof -
    have "24 * Hour + m * Minute - 1 = (1440 + m - 1) * Minute + (Minute - 1)"
      by (simp add: duration_units algebra_simps)
    moreover have "((1440 + m - 1) * Minute + (Minute - 1)) div Minute = 1440 + m - 1"
      by (simp add: duration_units)
    ultimately have "(24 * Hour + m * Minute - 1) div Minute = 1440 + m - 1" by (simp only:)
    then show ?thesis
      by (metis mult.commute zdiv_zmult2_eq assms(1) less_imp_le)
  qed
  finally show "tdiv (wrap64 (wrap64 (24 * Hour + m * Minute) - 1)) (m * Minute) = (1440 + m - 1) div m" .
qed

lemma slot_count:
  assumes "0 < m" "m \<le> (1440::int)"
  shows "1 \<le> (1440 + m - 1) div m" "(1440 + m - 1) div m * m \<le> 1440 + m - 1" "(1440 + m - 1) div m \<le> 1440"
proof -
  show "1 \<le> (1440 + m - 1) div m" using assms by (simp add: pos_imp_zdiv_nonneg_iff)
  show "(1440 + m - 1) div m * m \<le> 1440 + m - 1"
    using assms(1) by (metis add.commute add_diff_cancel_left' div_mult_mod_eq le_add_same_cancel1
        less_imp_le pos_mod_sign)
  then have "((1440 + m - 1) div m - 1) * m < 1440" by (simp only: left_diff_distrib)
  moreover have "(1440 + m - 1) div m - 1 \<le> ((1440 + m - 1) div m - 1) * m"
    using assms \<open>1 \<le> (1440 + m - 1) div m\<close> by (simp add: mult_le_cancel_left1)
  ultimately show "(1440 + m - 1) div m \<le> 1440" by linarith
qed

lemma slot_fit:
  fixes m :: int
  defines "n \<equiv> (1440 + m - 1) div m"
  assumes m: "0 < m" "m \<le> 1440"
  shows "of_int n * (Hours (m * Minute) :: real) \<le> 48"
    and "0 \<le> j \<Longrightarrow> j < n \<Longrightarrow> durMul j (m * Minute) = j * (m * Minute)"
proof -
  have nm: "n * m \<le> 2880" using slot_count(2) [OF m] m(2) by (simp add: n_def)
  then have "real_of_int (n * m) \<le> real_of_int 2880" by (intro of_int_le_iff [THEN iffD2])
  then show "of_int n * (Hours (m * Minute) :: real) \<le> 48" by (simp add: duration_units)
  assume j: "0 \<le> j" "j < n"
  have "j * m \<le> n * m" using j m(1) by (intro mult_right_mono) auto
  then have "j * m \<le> 2880" using nm by linarith
  then have "j * (m * Minute) \<le> 2880 * Minute" "0 \<le> j * (m * Minute)"
    using j m(1) by (simp_all add: duration_units)
  then have "int64 (j * (m * Minute))" by (simp add: int64_def duration_units)
  then show "durMul j (m * Minute) = j * (m * Minute)" by (simp add: durMul_def)
qed

text \<open>The checks of \<open>GeneratePlan\<close> once the slot arithmetic is known not to wrap around.\<close>

lemma GeneratePlan_slots:
  fixes s :: "real Scheduler"
  defines "m \<equiv> SlotDurationMinutes (Config s)"
  defines "n \<equiv> (1440 + m - 1) div m"
  defines "pps \<equiv> TargetEnergyKWh (Config s) / (of_int n * Hours (m * Minute))"
  assumes "0 < m" "m \<le> 1440"
  shows "GeneratePlan sortf s date =
      (if pps \<le> 0 then Some (PlanErr ''target energy must be positive'')
       else if Vehicles s = [] then Some (PlanErr ''no vehicles configured'')
       else (case plan_loop sortf s (utcMidnight date) (m * Minute) pps n 0 [] 0 False of
               None \<Rightarrow> None
             | Some (entries, backlog, hadAvail) \<Rightarrow>
                 if lit 1 1000000 < backlog \<or> \<not> hadAvail
                 then Some (PlanErr ''insufficient capacity for target energy'') else Some (PlanOk entries)))"
proof -
  note sl = slot_arith [OF assms(4,5)] and sc = slot_count [OF assms(4,5), folded n_def]
  have "\<not> m \<le> 0" "m * Minute \<noteq> 0" "n \<noteq> 0" using assms(4) sl(2) sc(1) by auto
  moreover have "tdiv (wrap64 (wrap64 (24 * Hour + m * Minute) - 1)) (m * Minute) = n"
    using sl(3) by (simp only: n_def)
  ultimately show ?thesis
    unfolding GeneratePlan_def Let_def m_def [symmetric] sl(1) pps_def fint_real by (simp only: if_False)
qed

text \<open>The loop from the start of the day, and the energy of what it leaves.\<close>

lemma plan_day:
  fixes s :: "real Scheduler"
  assumes m: "0 < m" "m \<le> 1440" and ids: "distinct (map ID (Vehicles s))" and pos: "\<forall>v\<in>set (Vehicles s). 0 \<le> MaxPower v"
    and srt: "\<And>ws. mset (sortf ws) = mset ws" and "n = (1440 + m - 1) div m" "d = m * Minute"
    and "pps = T / (of_int n * Hours d)" "0 < pps"
  obtains es backlog h where "plan_loop sortf s start d pps n 0 [] 0 False = Some (es, backlog, h)"
    "entries_ok s start d n es"
    "\<not> 1/1000000 < backlog \<Longrightarrow> plan_energy (Hours d) es \<le> T \<and> T - 1/20000 \<le> plan_energy (Hours d) es"
proof -
  note sl = slot_arith(2) [OF m, folded \<open>d = m * Minute\<close>] and sc = slot_count [OF m, folded \<open>n = _\<close>]
  note nH = slot_fit(1) [OF m, folded \<open>n = _\<close> \<open>d = _\<close>] and nowrap = slot_fit(2) [OF m, folded \<open>n = _\<close> \<open>d = _\<close>]
  have "plan_inv s start d pps 0 [] 0" by (simp add: plan_inv_def plan_energy_def entries_ok_def)
  from plan_loop_correct [OF this, of n sortf False] obtain es backlog h where
    run: "plan_loop sortf s start d pps n 0 [] 0 False = Some (es, backlog, h)" and inv: "plan_inv s start d pps n es backlog"
    using sc sl assms(3-5,9) nowrap by force
  have tot: "of_int n * (pps * Hours d) = T" using sc(1) sl by (simp add: assms(8))
  have iv: "0 \<le> backlog" "plan_energy (Hours d) es + backlog \<le> T"
    "T - of_int n * Hours d / 1000000 \<le> plan_energy (Hours d) es + backlog" "entries_ok s start d n es"
    using inv tot by (simp_all add: plan_inv_def Let_def right_diff_distrib)
  show ?thesis by (rule that [OF run iv(4)]) (use iv(1-3) nH in linarith)
qed

text \<open>
  C13. For a slot length of up to a day, \<open>GeneratePlan\<close> returns for every fleet of non-negative
  powers, and a plan it returns delivers the target energy of the day: never more, and less by
  at most \<open>5e-5\<close> kWh. Every entry is for a vehicle that is available during the whole slot, with
  a positive power within its \<open>MaxPower\<close>, and there is one entry per vehicle and slot.
\<close>

theorem generate_plan_correct:
  fixes s :: "real Scheduler"
  assumes "0 < SlotDurationMinutes (Config s)" "SlotDurationMinutes (Config s) \<le> 1440"
    and "distinct (map ID (Vehicles s))" "\<forall>v\<in>set (Vehicles s). 0 \<le> MaxPower v"
    and "\<And>ws. mset (sortf ws) = mset ws"
  shows "\<exists>r. GeneratePlan sortf s date = Some r \<and> r \<noteq> PlanPanic \<and>
    (\<forall>entries. r = PlanOk entries \<longrightarrow>
       (let d = SlotDurationMinutes (Config s) * Minute; E = plan_energy (Hours d) entries in
        E \<le> TargetEnergyKWh (Config s) \<and> TargetEnergyKWh (Config s) - 1/20000 \<le> E \<and>
        entries_ok s (utcMidnight date) d ((1440 + SlotDurationMinutes (Config s) - 1) div SlotDurationMinutes (Config s)) entries))"
proof -
  define m where "m = SlotDurationMinutes (Config s)"
  define d where "d = m * Minute"
  define n where "n = (1440 + m - 1) div m"
  define T where "T = TargetEnergyKWh (Config s)"
  define pps where "pps = T / (of_int n * Hours d)"
  have m: "0 < m" "m \<le> 1440" using assms(1,2) by (simp_all add: m_def)
  have gp: "GeneratePlan sortf s date =
      (if pps \<le> 0 then Some (PlanErr ''target energy must be positive'')
       else if Vehicles s = [] then Some (PlanErr ''no vehicles configured'')
       else (case plan_loop sortf s (utcMidnight date) d pps n 0 [] 0 False of
               None \<Rightarrow> None
             | Some (entries, backlog, hadAvail) \<Rightarrow>
                 if lit 1 1000000 < backlog \<or> \<not> hadAvail
                 then Some (PlanErr ''insufficient capacity for target energy'') else Some (PlanOk entries)))"
    using GeneratePlan_slots [of s sortf date] assms(1,2) by (simp only: m_def d_def n_def pps_def T_def)
  show ?thesis
  proof (cases "pps \<le> 0 \<or> Vehicles s = []")
    case True
    then show ?thesis unfolding gp by auto
  next
    case False
    then obtain es backlog h where run: "plan_loop sortf s (utcMidnight date) d pps n 0 [] 0 False = Some (es, backlog, h)"
      "entries_ok s (utcMidnight date) d n es"
      "\<not> 1/1000000 < backlog \<Longrightarrow> plan_energy (Hours d) es \<le> T \<and> T - 1/20000 \<le> plan_energy (Hours d) es"
      using plan_day [OF m assms(3-5) n_def d_def pps_def] by (metis not_le)
    have res: "GeneratePlan sortf s date = Some (if 1/1000000 < backlog \<or> \<not> h
        then PlanErr ''insufficient capacity for target energy'' else PlanOk es)"
      using False run(1) unfolding gp by simp
    show ?thesis
      unfolding res m_def [symmetric] n_def [symmetric] T_def [symmetric] d_def [symmetric] Let_def using run(2,3) by auto
  qed
qed

definition plan_test :: "real Scheduler" where
  "plan_test = \<lparr>Config = \<lparr>SlotDurationMinutes = 720, TargetEnergyKWh = 24\<rparr>,
     Vehicles = [zeroVehicle\<lparr>ID := ''v'', MaxPower := 10\<rparr>],
     Availability = [''v'' \<mapsto> [\<lparr>WinStart = timeZero, WinEnd = timeAdd timeZero (24 * Hour)\<rparr>]]\<rparr>"

theorem generate_plan_correct_witness:
  "\<exists>r. GeneratePlan (\<lambda>vs. vs) plan_test timeZero = Some r \<and> r \<noteq> PlanPanic"
proof -
  have "\<exists>r. GeneratePlan (\<lambda>vs. vs) plan_test timeZero = Some r \<and> r \<noteq> PlanPanic \<and>
    (\<forall>entries. r = PlanOk entries \<longrightarrow>
       (let d = SlotDurationMinutes (Config plan_test) * Minute; E = plan_energy (Hours d) entries in
        E \<le> TargetEnergyKWh (Config plan_test) \<and> TargetEnergyKWh (Config plan_test) - 1/20000 \<le> E \<and>
        entries_ok plan_test (utcMidnight timeZero) d
          ((1440 + SlotDurationMinutes (Config plan_test) - 1) div SlotDurationMinutes (Config plan_test)) entries))"
    by (rule generate_plan_correct) (auto simp: plan_test_def)
  then show ?thesis by blast
qed

text \<open>
  The slot length is not bounded: at \<open>2 ^ 53\<close> minutes the \<open>int64\<close> product with
  \<open>time.Minute\<close> wraps around to zero, and the division by it panics instead of returning an error.
\<close>

theorem generate_plan_overflow_panics:
  assumes "SlotDurationMinutes (Config s) = 2 ^ 53"
  shows "GeneratePlan sortf s date = Some PlanPanic"
  using assms by (simp add: GeneratePlan_def durMul_def wrap64_def duration_units Let_def)

theorem generate_plan_overflow_panics_witness:
  "GeneratePlan (\<lambda>vs. vs) (plan_test\<lparr>Config := \<lparr>SlotDurationMinutes = 2 ^ 53, TargetEnergyKWh = 24\<rparr>\<rparr>)
     timeZero = Some PlanPanic"
  by (rule generate_plan_overflow_panics) simp

end
