(* ===== verification/Plan_Export.thy ===== *)
theory Plan_Export
  imports Scheduler Go_Text
begin

text \<open>
  What surrounds the day-ahead plan: the configuration of the scheduler (\<open>core/scheduler/config.go\<close>)
  and the export of a plan as CSV (\<open>pkg/export/export.go\<close>), with the quoting rules of Go's
  \<open>encoding/csv\<close>. The YAML and JSON decoders, \<open>Time.Format\<close>, \<open>strconv.FormatFloat\<close> and the test for a
  leading Unicode space are arguments; the writer that receives the text takes all of it.
\<close>

subsection \<open>Configuration (core/scheduler/config.go)\<close>

definition zeroSchedulerConfig :: "'n::zero SchedulerConfig" where
  "zeroSchedulerConfig = \<lparr>SlotDurationMinutes = 0, TargetEnergyKWh = 0\<rparr>"

text \<open>
  \<open>file\<close> is the outcome of reading the file; a decoder gives what it has decoded together with an
  error, if there was one.
\<close>

definition SchedulerLoadConfig ::
  "(string \<Rightarrow> 'n SchedulerConfig \<times> go_error option) \<Rightarrow> (string \<Rightarrow> 'n SchedulerConfig \<times> go_error option)
    \<Rightarrow> go_error + string \<Rightarrow> string \<Rightarrow> 'n::zero SchedulerConfig \<times> go_error option" where
  "SchedulerLoadConfig yaml json file path =
     (case file of
        Inl e \<Rightarrow> (zeroSchedulerConfig, Some e)
      | Inr b \<Rightarrow>
          (let ext = ToLower (Ext path) in
           if ext = ''.yaml'' \<or> ext = ''.yml'' then yaml b
           else if ext = ''.json'' then json b
           else (zeroSchedulerConfig, Some (Errorf (''unsupported config format: '' @ ext)))))"

definition DecodeConfig ::
  "(string \<Rightarrow> 'n SchedulerConfig \<times> go_error option) \<Rightarrow> (string \<Rightarrow> 'n SchedulerConfig \<times> go_error option)
    \<Rightarrow> string \<Rightarrow> string \<Rightarrow> 'n::zero SchedulerConfig \<times> go_error option" where
  "DecodeConfig yaml json b fmt =
     (let f = ToLower fmt in
      if f = ''yaml'' \<or> f = ''yml'' then yaml b
      else if f = ''json'' then json b
      else (zeroSchedulerConfig, Some (Errorf (''unsupported format: '' @ fmt))))"

subsection \<open>CSV (encoding/csv, pkg/export/export.go)\<close>

text \<open>
  The writer of \<open>encoding/csv\<close> with its defaults: a field is quoted if it holds a comma, a quote, a
  carriage return or a line feed, is \<open>\.\<close>, or begins with a space.
\<close>

definition csv_special :: "char \<Rightarrow> bool" where
  "csv_special c \<longleftrightarrow> c = CHR '','' \<or> c = CHR 0x22 \<or> c = CHR 0x0D \<or> c = CHR 0x0A"

definition fieldNeedsQuotes :: "(string \<Rightarrow> bool) \<Rightarrow> string \<Rightarrow> bool" where
  "fieldNeedsQuotes leadingSpace f \<longleftrightarrow>
     f \<noteq> [] \<and> (f = [CHR 0x5C, CHR ''.''] \<or> list_ex csv_special f \<or> leadingSpace f)"

fun quote_body :: "string \<Rightarrow> string" where
  "quote_body [] = []"
| "quote_body (c # cs) = (if c = CHR 0x22 then CHR 0x22 # CHR 0x22 # quote_body cs else c # quote_body cs)"

definition csv_field :: "(string \<Rightarrow> bool) \<Rightarrow> string \<Rightarrow> string" where
  "csv_field leadingSpace f =
     (if fieldNeedsQuotes leadingSpace f then CHR 0x22 # quote_body f @ [CHR 0x22] else f)"

fun csv_fields :: "(string \<Rightarrow> bool) \<Rightarrow> string list \<Rightarrow> string" where
  "csv_fields sp [] = []"
| "csv_fields sp [f] = csv_field sp f"
| "csv_fields sp (f # g # fs) = csv_field sp f @ CHR '','' # csv_fields sp (g # fs)"

definition csv_write :: "(string \<Rightarrow> bool) \<Rightarrow> string list \<Rightarrow> string" where
  "csv_write sp rec = csv_fields sp rec @ [CHR 0x0A]"

definition csv_header :: "string list" where
  "csv_header = [''vehicle_id'', ''timeslot'', ''power_kw'']"

definition csv_record :: "(Time \<Rightarrow> string) \<Rightarrow> ('n \<Rightarrow> string) \<Rightarrow> 'n EffacementEntry \<Rightarrow> string list" where
  "csv_record formatTime formatFloat e = [EntryVehicleID e, formatTime (TimeSlot e), formatFloat (EntryPowerKW e)]"

definition WriteCSV ::
  "(Time \<Rightarrow> string) \<Rightarrow> ('n \<Rightarrow> string) \<Rightarrow> (string \<Rightarrow> bool) \<Rightarrow> 'n EffacementEntry list \<Rightarrow> string" where
  "WriteCSV formatTime formatFloat sp entries =
     csv_write sp csv_header @ concat (map (\<lambda>e. csv_write sp (csv_record formatTime formatFloat e)) entries)"

subsection \<open>Reading the export back\<close>

text \<open>
  A reader after RFC 4180, as the specification: fields end at a comma or a line feed, within quotes
  only a quote is special, and two quotes stand for one. It fails on a quote in a bare field, on text
  after a closing quote and on a record that is not ended.
\<close>

datatype csv_mode = AtStart | Bare | Quoted | Closing

fun csv_read :: "csv_mode \<Rightarrow> string \<Rightarrow> string list \<Rightarrow> string \<Rightarrow> string list list option" where
  "csv_read mode fld rec [] = (if mode = AtStart \<and> rec = [] then Some [] else None)"
| "csv_read mode fld rec (c # cs) =
     (if mode = Quoted
      then (if c = CHR 0x22 then csv_read Closing fld rec cs else csv_read Quoted (fld @ [c]) rec cs)
      else if c = CHR '','' then csv_read AtStart [] (rec @ [fld]) cs
      else if c = CHR 0x0A then map_option ((#) (rec @ [fld])) (csv_read AtStart [] [] cs)
      else if c = CHR 0x22
      then (case mode of AtStart \<Rightarrow> csv_read Quoted [] rec cs
                       | Closing \<Rightarrow> csv_read Quoted (fld @ [c]) rec cs
                       | _ \<Rightarrow> None)
      else if mode = Closing then None
      else csv_read Bare (fld @ [c]) rec cs)"

lemma csv_read_bare:
  assumes "\<not> list_ex csv_special f"
  shows "csv_read Bare fld rec (f @ cs) = csv_read Bare (fld @ f) rec cs"
  using assms by (induction f arbitrary: fld) (auto simp: csv_special_def)

lemma csv_read_quoted: "csv_read Quoted fld rec (quote_body f @ CHR 0x22 # cs) = csv_read Closing (fld @ f) rec cs"
  if "\<And>c cs'. cs = c # cs' \<Longrightarrow> c \<noteq> CHR 0x22"
  using that by (induction f arbitrary: fld) auto

text \<open>A written field is read back, up to the character that ends it.\<close>

lemma csv_read_field:
  assumes "t = CHR '','' \<or> t = CHR 0x0A"
  shows "csv_read AtStart [] rec (csv_field sp f @ t # cs) =
    (if t = CHR '','' then csv_read AtStart [] (rec @ [f]) cs
     else map_option ((#) (rec @ [f])) (csv_read AtStart [] [] cs))"
proof (cases "fieldNeedsQuotes sp f")
  case True
  have "csv_read AtStart [] rec (csv_field sp f @ t # cs) = csv_read Closing f rec (t # cs)"
    using True assms csv_read_quoted [of "t # cs" "[]" rec f] by (auto simp: csv_field_def)
  with assms show ?thesis by auto
next
  case False
  show ?thesis
  proof (cases f)
    case Nil
    with False assms show ?thesis by (auto simp: csv_field_def)
  next
    case (Cons c f')
    with False have s: "\<not> csv_special c" "\<not> list_ex csv_special f'" by (auto simp: fieldNeedsQuotes_def)
    have "csv_read AtStart [] rec (csv_field sp f @ t # cs) = csv_read Bare f rec (t # cs)"
      using False Cons s csv_read_bare [OF s(2), of "[c]" rec "t # cs"] by (auto simp: csv_field_def csv_special_def)
    with assms show ?thesis by auto
  qed
qed

lemma csv_read_fields:
  "fs \<noteq> [] \<Longrightarrow> csv_read AtStart [] rec (csv_fields sp fs @ CHR 0x0A # cs) =
     map_option ((#) (rec @ fs)) (csv_read AtStart [] [] cs)"
proof (induction sp fs arbitrary: rec rule: csv_fields.induct)
  case (3 sp f g fs)
  then show ?case using csv_read_field [of "CHR '',''" rec sp f] by simp
qed (simp_all add: csv_read_field)

lemma csv_read_record:
  "fs \<noteq> [] \<Longrightarrow> csv_read AtStart [] [] (csv_write sp fs @ cs) = map_option ((#) fs) (csv_read AtStart [] [] cs)"
  by (simp add: csv_write_def csv_read_fields)

text \<open>
  An importer of the plan: after the header, each record is a vehicle, a time slot and a power, in this order.
  \<open>parseTime\<close> and \<open>parseFloat\<close> stand for \<open>time.Parse\<close> with the RFC 3339 layout and \<open>strconv.ParseFloat\<close>.
\<close>

fun plan_rows ::
  "(string \<Rightarrow> Time option) \<Rightarrow> (string \<Rightarrow> 'n option) \<Rightarrow> string list list \<Rightarrow> 'n EffacementEntry list option" where
  "plan_rows parseTime parseFloat [] = Some []"
| "plan_rows parseTime parseFloat (row # rows) =
     (case row of
        [i, t, p] \<Rightarrow>
          (case (parseTime t, parseFloat p, plan_rows parseTime parseFloat rows) of
             (Some slot, Some kw, Some es) \<Rightarrow> Some (\<lparr>EntryVehicleID = i, TimeSlot = slot, EntryPowerKW = kw\<rparr> # es)
           | _ \<Rightarrow> None)
      | _ \<Rightarrow> None)"

definition import_csv ::
  "(string \<Rightarrow> Time option) \<Rightarrow> (string \<Rightarrow> 'n option) \<Rightarrow> string \<Rightarrow> 'n EffacementEntry list option" where
  "import_csv parseTime parseFloat txt =
     (case csv_read AtStart [] [] txt of
        Some (hdr # rows) \<Rightarrow>
          if hdr = [''vehicle_id'', ''timeslot'', ''power_kw''] then plan_rows parseTime parseFloat rows else None
      | _ \<Rightarrow> None)"

lemma csv_read_plan:
  "csv_read AtStart [] [] (WriteCSV formatTime formatFloat sp entries) =
     Some (csv_header # map (csv_record formatTime formatFloat) entries)"
proof -
  have "csv_read AtStart [] [] (concat (map (\<lambda>e. csv_write sp (csv_record formatTime formatFloat e)) entries)) =
      Some (map (csv_record formatTime formatFloat) entries)"
    by (induction entries) (simp_all add: csv_read_record csv_record_def)
  then show ?thesis by (simp add: WriteCSV_def csv_read_record csv_header_def)
qed

text \<open>
  C40. The CSV export loses nothing: an importer that reads CSV after RFC 4180, expects the columns
  \<open>vehicle_id\<close>, \<open>timeslot\<close> and \<open>power_kw\<close> in this order and parses times and powers gets back exactly
  the entries of the plan, in their order, whatever bytes the vehicle identifiers hold. Of the formats
  it needs only that the time slots and the powers of the plan can be parsed from what they are formatted
  to, which holds of RFC 3339 for slots at whole seconds and of the shortest format of a float.
\<close>

theorem export_csv_roundtrip:
  assumes "\<forall>e\<in>set entries. parseTime (formatTime (TimeSlot e)) = Some (TimeSlot e) \<and>
      parseFloat (formatFloat (EntryPowerKW e)) = Some (EntryPowerKW e)"
  shows "import_csv parseTime parseFloat (WriteCSV formatTime formatFloat sp entries) = Some entries"
proof -
  have "plan_rows parseTime parseFloat (map (csv_record formatTime formatFloat) entries) = Some entries"
    using assms by (induction entries) (simp_all add: csv_record_def)
  then show ?thesis by (simp add: import_csv_def csv_read_plan csv_header_def)
qed

theorem export_csv_roundtrip_witness:
  "import_csv (\<lambda>t. Some (ofUnix 0 (int (digits_value t)))) (\<lambda>p. Some (digits_value p))
     (WriteCSV (\<lambda>t. Itoa (nat (timeUnix t))) Itoa (\<lambda>_. False)
        [\<lparr>EntryVehicleID = ''v,1'', TimeSlot = ofUnix 0 3600, EntryPowerKW = 7\<rparr>]) =
   Some [\<lparr>EntryVehicleID = ''v,1'', TimeSlot = ofUnix 0 3600, EntryPowerKW = 7\<rparr>]"
  by (rule export_csv_roundtrip) (simp add: ofUnix_def timeUnix_def Second_def)

end
