(* ===== verification/Rotating_Log.thy ===== *)
theory Rotating_Log
  imports Log_Store Go_Text "HOL-Library.Sublist"
begin

text \<open>
  The rotating log store (\<open>core/dispatch/logging/jsonl_rotating.go\<close>) over a directory, and the opening of
  the stores. Lumberjack, which writes and rotates the file, is described by the files that its documentation
  says it leaves; \<open>filepath.Glob\<close> is modelled for the pattern that the store uses.
\<close>

subsection \<open>Opening (jsonl_rotating.go, sqlite.go)\<close>

record RotatingJSONLStore =
  rs_Filename :: string
  rs_MaxSize :: int
  rs_MaxBackups :: int
  rs_MaxAge :: int
  rs_Compress :: bool
  rs_path :: string

definition NewRotatingJSONLStore ::
  "(string \<Rightarrow> string) \<Rightarrow> (string \<Rightarrow> go_error option) \<Rightarrow> string \<Rightarrow> int \<Rightarrow> int \<Rightarrow> int \<Rightarrow> go_error + RotatingJSONLStore" where
  "NewRotatingJSONLStore dirOf mkdirAll path maxSizeMB maxBackups maxAgeDays =
     (let store = \<lparr>rs_Filename = path, rs_MaxSize = maxSizeMB, rs_MaxBackups = maxBackups, rs_MaxAge = maxAgeDays,
                   rs_Compress = False, rs_path = path\<rparr>;
          dir = dirOf path in
      if dir \<noteq> ''.''
      then (case mkdirAll dir of Some e \<Rightarrow> Inl e | None \<Rightarrow> Inr store)
      else Inr store)"

text \<open>
  \<open>NewSQLiteStore\<close> of the log and of the KPIs, with the functions of \<open>database/sql\<close> as arguments: the
  store or the error, and the handles that were closed.
\<close>

definition SQLite_Open ::
  "(string \<Rightarrow> go_error + nat) \<Rightarrow> (nat \<Rightarrow> go_error option) \<Rightarrow> (nat \<Rightarrow> go_error option) \<Rightarrow> (go_error \<Rightarrow> string) \<Rightarrow> string
    \<Rightarrow> (go_error + nat) \<times> nat list" where
  "SQLite_Open sqlOpen exec close text path =
     (case sqlOpen path of
        Inl e \<Rightarrow> (Inl e, [])
      | Inr db \<Rightarrow>
          (case exec db of
             None \<Rightarrow> (Inr db, [])
           | Some err \<Rightarrow>
               (case close db of
                  Some cerr \<Rightarrow> (Inl (Wrapped (''close db: '' @ text cerr @ '' (schema err)'') err), [db])
                | None \<Rightarrow> (Inl err, [db]))))"

definition KPI_Open ::
  "(string \<Rightarrow> go_error + nat) \<Rightarrow> (nat \<Rightarrow> go_error option) \<Rightarrow> string \<Rightarrow> (go_error + nat) \<times> nat list" where
  "KPI_Open sqlOpen exec path =
     (case sqlOpen path of
        Inl e \<Rightarrow> (Inl e, [])
      | Inr db \<Rightarrow> (case exec db of None \<Rightarrow> (Inr db, []) | Some err \<Rightarrow> (Inl err, [db])))"

subsection \<open>The directory\<close>

type_synonym files = "string \<rightharpoonup> string list"

text \<open>
  \<open>filepath.Glob(path + "*")\<close>: nothing is said of a path with metacharacters; for any other the star stands
  for any characters but the separator. The names come in some order.
\<close>

definition glob_match :: "string \<Rightarrow> string \<Rightarrow> bool" where
  "glob_match path n \<longleftrightarrow> prefix path n \<and> CHR ''/'' \<notin> set (drop (length path) n)"

definition plain_path :: "string \<Rightarrow> bool" where
  "plain_path path \<longleftrightarrow> set path \<inter> {CHR ''*'', CHR ''?'', CHR ''['', CHR 0x5C} = {}"

definition globbed :: "string \<Rightarrow> files \<Rightarrow> string list \<Rightarrow> bool" where
  "globbed path fs names \<longleftrightarrow> plain_path path \<longrightarrow> distinct names \<and> set names = {n \<in> dom fs. glob_match path n}"

definition RotatingStore_Query ::
  "(string \<Rightarrow> 'n LogRecord option) \<Rightarrow> LogQuery \<Rightarrow> string list \<Rightarrow> files \<Rightarrow> go_error + 'n LogRecord list" where
  "RotatingStore_Query decode q names fs = Rotating_Query decode q (Inr (map fs names))"

text \<open>
  A backup of lumberjack is named \<open>name-timestamp.ext\<close>, where \<open>ext\<close> is the extension of the file and \<open>name\<close>
  the rest of its path.
\<close>

definition backup_of :: "string \<Rightarrow> string \<Rightarrow> bool" where
  "backup_of path b \<longleftrightarrow> (\<exists>stamp. b = TrimSuffix path (Ext path) @ ''-'' @ stamp @ Ext path)"

text \<open>
  What the documentation of lumberjack says of a write without an error: the line is appended to the file, or
  the file is first moved to a backup and older backups may be removed.
\<close>

definition write_step :: "string \<Rightarrow> string \<Rightarrow> files \<Rightarrow> files \<Rightarrow> bool" where
  "write_step path l fs fs' \<longleftrightarrow>
     fs' = fs(path \<mapsto> getd [] fs path @ [l]) \<or>
     (\<exists>b ls gone. backup_of path b \<and> fs path = Some ls \<and> gone \<subseteq> {n. backup_of path n} \<and>
        fs' = (fs |` (- gone))(b \<mapsto> ls, path \<mapsto> [l]))"

definition lumberjack :: "string \<Rightarrow> (string \<Rightarrow> files \<Rightarrow> files \<times> go_error option) \<Rightarrow> bool" where
  "lumberjack path w \<longleftrightarrow> (\<forall>l fs. snd (w l fs) = None \<longrightarrow> write_step path l fs (fst (w l fs)))"

text \<open>A log filled from an empty directory.\<close>

definition rotating_log ::
  "('n LogRecord \<Rightarrow> go_error + string) \<Rightarrow> (string \<Rightarrow> files \<Rightarrow> files \<times> go_error option) \<Rightarrow> 'n LogRecord list \<Rightarrow> files" where
  "rotating_log encode w rs = foldl (\<lambda>fs r. fst (Rotating_Append encode w r fs)) Map.empty rs"

subsection \<open>Handles are not lost\<close>

lemma SQLite_Open_handles:
  assumes "SQLite_Open sqlOpen exec close text path = (res, cl)" "sqlOpen path = Inr db"
  shows "(res = Inr db \<and> exec db = None \<and> cl = []) \<or> (\<exists>e err. res = Inl e \<and> exec db = Some err \<and> errorsIs e err \<and> cl = [db])"
proof -
  have refl: "errorsIs e e" for e by (cases e) simp_all
  show ?thesis using assms refl by (cases "exec db"; cases "close db") (auto simp: SQLite_Open_def)
qed

subsection \<open>What a query reads\<close>

lemma Ext_split:
  obtains "Ext path = []" | e where "Ext path = CHR ''.'' # e" "path = TrimSuffix path (Ext path) @ Ext path"
proof -
  have "ext_rev cs acc = [] \<or> (\<exists>e pre. ext_rev cs acc = CHR ''.'' # e \<and> rev cs @ acc = pre @ ext_rev cs acc)" for cs acc
    by (induction cs arbitrary: acc) auto
  from this [of "rev path" "[]"] show ?thesis
    using that by (auto simp: Ext_def TrimSuffix_def suffix_def)
qed

text \<open>The pattern of the query does not match the backups of a file with an extension.\<close>

lemma backup_not_globbed:
  assumes "backup_of path b" "Ext path \<noteq> []"
  shows "\<not> glob_match path b"
proof (rule Ext_split [of path])
  fix e assume e: "Ext path = CHR ''.'' # e" "path = TrimSuffix path (Ext path) @ Ext path"
  obtain stamp where b: "b = TrimSuffix path (Ext path) @ ''-'' @ stamp @ Ext path" using assms(1) by (auto simp: backup_of_def)
  show ?thesis
  proof
    assume "glob_match path b"
    then have "prefix (TrimSuffix path (Ext path) @ Ext path) b" using e(2) by (simp add: glob_match_def)
    then show False unfolding b by (simp add: e(1))
  qed
qed (use assms(2) in simp)

text \<open>The current file holds the records since the last rotation, and only backups lie beside it.\<close>

definition rotating_inv :: "('n LogRecord \<Rightarrow> go_error + string) \<Rightarrow> string \<Rightarrow> 'n LogRecord list \<Rightarrow> files \<Rightarrow> bool" where
  "rotating_inv encode path rs fs \<longleftrightarrow> dom fs \<subseteq> insert path {n. backup_of path n} \<and>
     (\<exists>old cur. rs = old @ cur \<and> getd [] fs path = map (line encode) cur \<and> (rs \<noteq> [] \<longrightarrow> cur \<noteq> [] \<and> path \<in> dom fs))"

lemma rotating_append_inv:
  assumes "lumberjack path w" "snd (w l fs) = None" "encode r = Inr l" "rotating_inv encode path rs fs"
  shows "rotating_inv encode path (rs @ [r]) (fst (Rotating_Append encode w r fs))"
proof -
  obtain old cur where inv: "rs = old @ cur" "getd [] fs path = map (line encode) cur" "dom fs \<subseteq> insert path {n. backup_of path n}"
    using assms(4) by (auto simp: rotating_inv_def)
  have run: "fst (Rotating_Append encode w r fs) = fst (w l fs)" by (simp add: Rotating_Append_def assms(3))
  have l: "line encode r = l" using assms(3) by simp
  consider "fst (w l fs) = fs(path \<mapsto> getd [] fs path @ [l])"
    | b ls gone where "backup_of path b" "fst (w l fs) = (fs |` (- gone))(b \<mapsto> ls, path \<mapsto> [l])"
    using assms(1,2) unfolding lumberjack_def write_step_def by metis
  then show ?thesis
  proof cases
    case 1
    have "getd [] (fst (w l fs)) path = map (line encode) (cur @ [r])" using 1 inv(2) l by (simp add: getd_def)
    moreover have "dom (fst (w l fs)) = insert path (dom fs)" using 1 by simp
    ultimately show ?thesis unfolding rotating_inv_def run using inv(1,3) by (intro conjI exI [of _ old] exI [of _ "cur @ [r]"]) auto
  next
    case 2
    have "getd [] (fst (w l fs)) path = map (line encode) [r]" using 2 l by (simp add: getd_def)
    moreover have "dom (fst (w l fs)) \<subseteq> insert path (insert b (dom fs))" "path \<in> dom (fst (w l fs))" using 2 by auto
    ultimately show ?thesis unfolding rotating_inv_def run using inv(3) 2(1)
      by (intro conjI exI [where x = rs] exI [where x = "[r]"]) auto
  qed
qed

lemma rotating_log_inv:
  assumes "lumberjack path w" "\<And>l fs. snd (w l fs) = None" "codec_ok encode decode rs"
  shows "rotating_inv encode path rs (rotating_log encode w rs)"
  using assms(3)
proof (induction rs rule: rev_induct)
  case Nil
  show ?case by (simp add: rotating_inv_def rotating_log_def getd_def)
next
  case (snoc r rs)
  have enc: "encode r = Inr (line encode r)" by (rule codec_okD [OF snoc.prems]) simp
  have "codec_ok encode decode rs" using snoc.prems by (simp add: codec_ok_def)
  from rotating_append_inv [OF assms(1,2) enc snoc.IH [OF this]] show ?case by (simp add: rotating_log_def)
qed

lemma list_eq_single: "distinct xs \<Longrightarrow> set xs = {x} \<Longrightarrow> xs = [x]"
  by (cases xs) (auto simp: subset_singleton_iff)

lemma glob_current:
  assumes "rotating_inv encode path rs fs" "plain_path path" "Ext path \<noteq> []" "globbed path fs names"
  shows "names = (if path \<in> dom fs then [path] else [])"
proof -
  have "{n \<in> dom fs. glob_match path n} = dom fs \<inter> {path}"
    using assms(1) backup_not_globbed [OF _ assms(3)] by (auto simp: rotating_inv_def glob_match_def)
  then have "distinct names" "set names = dom fs \<inter> {path}" using assms(2,4) by (auto simp: globbed_def)
  then show ?thesis
    by (cases "path \<in> dom fs") (simp_all add: list_eq_single)
qed

lemma query_file:
  assumes "codec_ok encode decode cur"
  shows "jsonl_loop decode q (fst (scan_lines (map (line encode) cur))) = filter (in_query q) cur"
proof -
  have "scan_lines (map (line encode) cur) = (map (line encode) cur, False)"
    by (rule scan_short) (use codec_okD(3) [OF assms] in auto)
  then show ?thesis by (simp add: jsonl_loop_lines [OF assms])
qed

text \<open>
  C26. A query on the rotating log reads only the file that is being written, whatever lumberjack has kept.
  For a file with an extension and a path without metacharacters, filled from an empty directory by appends
  that meet no error, the query returns exactly the matching records of a suffix of what was appended: those
  that the current file holds. The pattern \<open>path*\<close> does not match the backups, which are named
  \<open>name-timestamp.ext\<close>, so a record is lost to queries as soon as its file is rotated.
\<close>

theorem rotating_query_current_only:
  assumes "lumberjack path w" "\<And>l fs. snd (w l fs) = None" "codec_ok encode decode rs"
    and "plain_path path" "Ext path \<noteq> []"
  shows "\<exists>old cur. rs = old @ cur \<and> getd [] (rotating_log encode w rs) path = map (line encode) cur \<and>
    (rs \<noteq> [] \<longrightarrow> cur \<noteq> []) \<and>
    (\<forall>names q. globbed path (rotating_log encode w rs) names \<longrightarrow>
       RotatingStore_Query decode q names (rotating_log encode w rs) = Inr (filter (in_query q) cur))"
proof -
  let ?fs = "rotating_log encode w rs"
  have inv: "rotating_inv encode path rs ?fs" by (rule rotating_log_inv [OF assms(1-3)])
  then obtain old cur where cur: "rs = old @ cur" "getd [] ?fs path = map (line encode) cur" "rs \<noteq> [] \<longrightarrow> cur \<noteq> []"
    by (auto simp: rotating_inv_def)
  have "codec_ok encode decode cur" using assms(3) cur(1) by (simp add: codec_ok_def)
  note lines = query_file [OF this]
  have "RotatingStore_Query decode q names ?fs = Inr (filter (in_query q) cur)" if "globbed path ?fs names" for names q
    unfolding glob_current [OF inv assms(4,5) that] RotatingStore_Query_def Rotating_Query_def
    using cur(2) lines [of q] by (auto simp: getd_def dom_def split: option.splits)
  with cur show ?thesis by blast
qed

text \<open>A writer that rotates before every write, and two records written with it.\<close>

definition rotate_each :: "string \<Rightarrow> string \<Rightarrow> files \<Rightarrow> files \<times> go_error option" where
  "rotate_each path l fs =
     (case fs path of
        None \<Rightarrow> (fs(path \<mapsto> [l]), None)
      | Some ls \<Rightarrow> (fs(TrimSuffix path (Ext path) @ ''-'' @ ''1'' @ Ext path \<mapsto> ls, path \<mapsto> [l]), None))"

lemma rotate_each_lumberjack: "lumberjack path (rotate_each path)"
proof -
  have "write_step path l fs (fst (rotate_each path l fs))" for l fs
  proof (cases "fs path")
    case None
    then show ?thesis by (simp add: rotate_each_def write_step_def getd_def)
  next
    case (Some ls)
    then show ?thesis unfolding write_step_def rotate_each_def
      by (intro disjI2 exI [of _ "TrimSuffix path (Ext path) @ ''-'' @ ''1'' @ Ext path"] exI [of _ ls] exI [of _ "{}"])
        (auto simp: backup_of_def)
  qed
  then show ?thesis by (simp add: lumberjack_def)
qed

lemma rotate_each_no_error: "snd (rotate_each path l fs) = None"
  by (simp add: rotate_each_def split: option.split)

theorem rotating_query_current_only_witness:
  "rotating_log (\<lambda>_. Inr ''r1'') (rotate_each ''logs/d.jsonl'') [log_test, log_test] ''logs/d-1.jsonl'' = Some [''r1''] \<and>
   RotatingStore_Query (\<lambda>_. Some log_test) zeroLogQuery [''logs/d.jsonl'']
     (rotating_log (\<lambda>_. Inr ''r1'') (rotate_each ''logs/d.jsonl'') [log_test, log_test]) = Inr [log_test]"
proof -
  let ?p = "''logs/d.jsonl''" and ?fs = "rotating_log (\<lambda>_. Inr ''r1'') (rotate_each ''logs/d.jsonl'') [log_test, log_test]"
  have fs: "?fs = [''logs/d-1.jsonl'' \<mapsto> [''r1''], ?p \<mapsto> [''r1'']]"
    by (auto simp: rotating_log_def Rotating_Append_def rotate_each_def Ext_def TrimSuffix_def suffix_def)
  have g: "globbed ?p ?fs [?p]" unfolding fs by (auto simp: globbed_def glob_match_def)
  have c: "codec_ok (\<lambda>_. Inr ''r1'') (\<lambda>_. Some log_test) [log_test, log_test]" by (simp add: codec_ok_def maxToken_def)
  have p: "plain_path ?p" "Ext ?p \<noteq> []" by (simp_all add: plain_path_def Ext_def)
  obtain old cur where cur: "[log_test, log_test] = old @ cur" "getd [] ?fs ?p = map (line (\<lambda>_. Inr ''r1'')) cur"
    and q: "RotatingStore_Query (\<lambda>_. Some log_test) zeroLogQuery [?p] ?fs = Inr (filter (in_query zeroLogQuery) cur)"
    using rotating_query_current_only [OF rotate_each_lumberjack rotate_each_no_error c p] g by blast
  have "map (\<lambda>_. ''r1'') cur = [''r1'']" using cur(2) unfolding fs by (simp add: getd_def)
  moreover have "set cur \<subseteq> {log_test}" using arg_cong [OF cur(1), of set] by auto
  ultimately have "cur = [log_test]" by auto
  then show ?thesis using q fs by (simp add: in_query_def in_window_def zeroLogQuery_def timeZero_def)
qed

end
