(* ===== verification/Scenarios.thy ===== *)
theory Scenarios
  imports Manager_Correctness Mqtt_Client
begin

text \<open>
  The scenario runner of \<open>qa/scenarios\<close>: scenario files (\<open>loader.go\<close>) and their run against a dispatch
  manager over the mock publisher (\<open>run.go\<close>). The runner changes two things in place, the failure map of the
  publisher and the array of the vehicles, which \<open>removeVehicle\<close> compacts; they are modelled as such, and the
  run is shown to count what the scenario describes. The file system and the YAML decoder are arguments, as
  are the environment of each dispatch and the orders in which the maps of a scenario are ranged over.
\<close>

subsection \<open>Scenario files (qa/scenarios/loader.go)\<close>

record 'n VehicleDef =
  vd_ID :: string
  vd_SoC :: 'n
  vd_IsV2G :: bool
  vd_Available :: bool
  vd_MaxPower :: 'n
  vd_BatteryKWh :: 'n

definition VehicleDef_ToModel :: "'n::zero VehicleDef \<Rightarrow> 'n Vehicle" where
  "VehicleDef_ToModel v =
     zeroVehicle\<lparr>ID := vd_ID v, SoC := vd_SoC v, IsV2G := vd_IsV2G v, Available := vd_Available v,
       MaxPower := vd_MaxPower v, BatteryKWh := vd_BatteryKWh v\<rparr>"

record 'n SignalDef =
  sd_Type :: string
  sd_PowerKW :: 'n
  sd_DurationSeconds :: int

definition parseSignalType :: "string \<Rightarrow> SignalType" where
  "parseSignalType t =
     (if t = ''FCR'' then SignalFCR
      else if t = ''aFRR'' then SignalAFRR
      else if t = ''MA'' then SignalMA
      else if t = ''NEBEF'' then SignalNEBEF
      else if t = ''EcoWatt'' then SignalEcoWatt
      else SignalFCR)"

definition SignalDef_ToModel :: "Time \<Rightarrow> 'n SignalDef \<Rightarrow> 'n FlexibilitySignal" where
  "SignalDef_ToModel ts s =
     \<lparr>SigType = parseSignalType (sd_Type s), PowerKW = sd_PowerKW s,
      SigDuration = durMul (sd_DurationSeconds s) Second, Timestamp = ts\<rparr>"

record 'n Scenario =
  sc_Name :: string
  sc_Description :: string
  sc_Vehicles :: "'n VehicleDef list"
  sc_Signals :: "'n SignalDef list"
  sc_FailVehicles :: "string list"
  sc_AckFailAfter :: "string \<rightharpoonup> int"
  sc_DisconnectAfter :: "string \<rightharpoonup> int"
  sc_ExpectedAcked :: int

definition Scenario_Load ::
  "(string \<Rightarrow> go_error + string) \<Rightarrow> (string \<Rightarrow> go_error + 'n Scenario) \<Rightarrow> string \<Rightarrow> go_error + 'n Scenario" where
  "Scenario_Load readFile unmarshal path =
     (case readFile path of
        Inl e \<Rightarrow> Inl e
      | Inr contents \<Rightarrow> unmarshal contents)"

subsection \<open>Removal of a vehicle in place (qa/scenarios/run.go)\<close>

text \<open>
  A slice that starts at its array: the array and the length. \<open>out := vehicles[:0]\<close> shares the array, so
  every \<open>append\<close> writes at position \<open>k\<close>, behind the position \<open>i\<close> that the range reads next.
\<close>

type_synonym 'n vehicle_slice = "'n Vehicle list \<times> nat"

definition elements :: "'n vehicle_slice \<Rightarrow> 'n Vehicle list" where
  "elements sl = (case sl of (arr, n) \<Rightarrow> take n arr)"

function removeVehicle_loop :: "string \<Rightarrow> nat \<Rightarrow> 'n Vehicle list \<Rightarrow> nat \<Rightarrow> nat \<Rightarrow> 'n vehicle_slice" where
  "removeVehicle_loop vid n arr i k =
     (if n \<le> i then (arr, k)
      else if ID (arr ! i) \<noteq> vid then removeVehicle_loop vid n (arr[k := arr ! i]) (i + 1) (k + 1)
      else removeVehicle_loop vid n arr (i + 1) k)"
  by pat_completeness auto
termination by (relation "measure (\<lambda>(_, n, _, i, _). n - i)") auto

declare removeVehicle_loop.simps [simp del]

definition removeVehicle :: "string \<Rightarrow> 'n vehicle_slice \<Rightarrow> 'n vehicle_slice" where
  "removeVehicle vid sl = (case sl of (arr, n) \<Rightarrow> removeVehicle_loop vid n arr 0 0)"

subsection \<open>The run (qa/scenarios/run.go)\<close>

text \<open>What the environment decides for one signal.\<close>

record 'n step_env =
  seEnv :: "'n dispatch_env"
  seAckKeys :: "string list"
  seDisconnectKeys :: "string list"

text \<open>The zero value \<open>&dispatch.SmartDispatcher{}\<close>: no weights, no limits and no bound on the rounds.\<close>

definition zeroSmartDispatcher :: "'n::zero SmartDispatcher" where
  "zeroSmartDispatcher =
     \<lparr>SocWeight = 0, TimeWeight = 0, PriorityWeight = 0, PriceWeight = 0, WearWeight = 0, FairnessWeight = 0,
      AvailabilityWeight = 0, MarketPrice = 0, Participation = None, MaxRounds = 0, scores = Map.empty,
      EnableSoCConstraints = False, FleetMinSoC = 0, SafeDischargeFloor = 0\<rparr>"

definition scenario_manager ::
  "'n::{zero,one,plus,inverse,ord} sink \<Rightarrow> 'n collectors \<Rightarrow> go_error + 'n DispatchManager" where
  "scenario_manager snk prom =
     NewDispatchManager (Some SimpleVehicleFilter_Filter) (Some (SmartImpl zeroSmartDispatcher)) zeroSmartDispatcher
       (Some (BalancedImpl NewBalancedFallback)) True (10 * Millisecond) (Some snk) (Some Bus_New) False NoTuner None prom"

definition failVehicles :: "string list \<Rightarrow> 'n MockPublisher \<Rightarrow> 'n MockPublisher" where
  "failVehicles ids pub = foldl (\<lambda>p i. p\<lparr>FailIDs := (FailIDs p)(i \<mapsto> True)\<rparr>) pub ids"

text \<open>The two loops at the start of a signal, lines 63 to 72.\<close>

definition due :: "(string \<rightharpoonup> int) \<Rightarrow> nat \<Rightarrow> string \<Rightarrow> bool" where
  "due after i vid = (case after vid of None \<Rightarrow> False | Some a \<Rightarrow> a \<le> int i)"

definition ack_failures :: "(string \<rightharpoonup> int) \<Rightarrow> nat \<Rightarrow> string list \<Rightarrow> 'n MockPublisher \<Rightarrow> 'n MockPublisher" where
  "ack_failures after i keys pub =
     foldl (\<lambda>p vid. if due after i vid then p\<lparr>FailIDs := (FailIDs p)(vid \<mapsto> True)\<rparr> else p) pub keys"

definition disconnections :: "(string \<rightharpoonup> int) \<Rightarrow> nat \<Rightarrow> string list \<Rightarrow> 'n vehicle_slice \<Rightarrow> 'n vehicle_slice" where
  "disconnections after i keys sl =
     foldl (\<lambda>sl vid. if due after i vid then removeVehicle vid sl else sl) sl keys"

text \<open>
  The mock publisher behind a dispatch: every order is sent once, and its acknowledgment is read after it was
  sent. \<open>WaitForAck\<close> does not read the powers, so \<open>0\<close> stands for them there; \<open>mock_after\<close> is the publisher
  after the dispatch, with the powers of the result.
\<close>

fun mock_sends :: "(string \<Rightarrow> 'n) \<Rightarrow> action list \<Rightarrow> 'n MockPublisher \<Rightarrow> 'n MockPublisher" where
  "mock_sends pw [] pub = pub"
| "mock_sends pw (ActSend i # as) pub = mock_sends pw as (snd (Mock_SendOrder i (pw i) pub))"
| "mock_sends pw (ActUpdate i # as) pub = mock_sends pw as pub"
| "mock_sends pw (ActRecord i # as) pub = mock_sends pw as pub"

definition mock_env :: "'n::zero MockPublisher \<Rightarrow> 'n dispatch_env \<Rightarrow> 'n dispatch_env" where
  "mock_env pub env =
     env\<lparr>envSend := \<lambda>i p. fst (Mock_SendOrder i p pub),
         envAck := \<lambda>c T. Mock_WaitForAck c (mock_sends (\<lambda>_. 0) (envSchedule env) pub)\<rparr>"

definition mock_after :: "'n::zero dispatch_env \<Rightarrow> 'n DispatchResult \<Rightarrow> 'n MockPublisher \<Rightarrow> 'n MockPublisher" where
  "mock_after env res pub = mock_sends (power_of res) (envSchedule env) pub"

definition acked_count :: "'n DispatchResult \<Rightarrow> nat" where
  "acked_count res = card {i. Acknowledged res i = Some True}"

fun scenario_loop ::
  "'n::{zero,one,plus,minus,uminus,times,inverse,ord} Scenario \<Rightarrow> Time \<Rightarrow> nat \<Rightarrow> ('n SignalDef \<times> 'n step_env) list
    \<Rightarrow> 'n vehicle_slice \<Rightarrow> 'n MockPublisher \<Rightarrow> 'n DispatchManager \<Rightarrow> nat \<Rightarrow> nat option" where
  "scenario_loop sc ts i [] active pub m ackCount = Some ackCount"
| "scenario_loop sc ts i ((sigDef, se) # rest) active pub m ackCount =
     (let pub' = ack_failures (sc_AckFailAfter sc) i (seAckKeys se) pub;
          active' = disconnections (sc_DisconnectAfter sc) i (seDisconnectKeys se) active in
      case Manager_Dispatch (mock_env pub' (seEnv se)) m (SignalDef_ToModel ts sigDef) (elements active') of
        None \<Rightarrow> None
      | Some (res, m') \<Rightarrow>
          scenario_loop sc ts (i + 1) rest active' (mock_after (seEnv se) res pub') m' (ackCount + acked_count res))"

text \<open>
  The outcome of the test: it ends with \<open>t.Fatalf\<close>, or it reports a count other than the expected one, or it
  passes. The sink made by \<open>NewPromSinkWithRegistry\<close> is always a \<open>*metrics.PromSink\<close>, as the assertion wants.
\<close>

datatype test_outcome = Fatal string go_error | Failed nat | Passed

definition RunScenario ::
  "go_error + 'n sink \<Rightarrow> 'n collectors \<Rightarrow> int \<Rightarrow> 'n step_env list
    \<Rightarrow> 'n::{zero,one,plus,minus,uminus,times,inverse,ord} Scenario \<Rightarrow> test_outcome option" where
  "RunScenario snk prom zn ses sc =
     (case snk of
        Inl e \<Rightarrow> Some (Fatal ''prom sink'' e)
      | Inr sink \<Rightarrow>
          (case scenario_manager sink prom of
             Inl e \<Rightarrow> Some (Fatal ''manager'' e)
           | Inr mgr \<Rightarrow>
               (let vehicles = map VehicleDef_ToModel (sc_Vehicles sc);
                    pub = failVehicles (sc_FailVehicles sc) NewMockPublisher in
                map_option (\<lambda>n. if int n \<noteq> sc_ExpectedAcked sc then Failed n else Passed)
                  (scenario_loop sc (ofUnix zn 0) 0 (zip (sc_Signals sc) ses) (vehicles, length vehicles) pub mgr 0))))"

subsection \<open>Removal keeps the other vehicles\<close>

lemma removeVehicle_loop_elements:
  assumes "k \<le> i" "i \<le> n" "n \<le> length arr" "removeVehicle_loop vid n arr i k = (arr', k')"
  shows "take k' arr' = take k arr @ filter (\<lambda>v. ID v \<noteq> vid) (drop i (take n arr)) \<and> length arr' = length arr \<and> k' \<le> n"
  using assms
proof (induction vid n arr i k rule: removeVehicle_loop.induct)
  case (1 vid n arr i k)
  show ?case
  proof (cases "n \<le> i")
    case True
    then have "arr' = arr" "k' = k" using "1.prems"(4) by (simp_all add: removeVehicle_loop.simps [of vid n arr i k])
    with True "1.prems" show ?thesis by simp
  next
    case False
    then have cons: "drop i (take n arr) = arr ! i # drop (i + 1) (take n arr)"
      using "1.prems"(3) Cons_nth_drop_Suc [of i "take n arr"] by simp
    show ?thesis
    proof (cases "ID (arr ! i) = vid")
      case True
      then have "removeVehicle_loop vid n arr (i + 1) k = (arr', k')"
        using False "1.prems"(4) by (simp add: removeVehicle_loop.simps [of vid n arr i k])
      then show ?thesis using "1.IH"(2) [OF False] True False "1.prems" unfolding cons by simp
    next
      case keep: False
      have up: "take (k + 1) (arr[k := arr ! i]) = take k arr @ [arr ! i]"
        "drop (i + 1) (take n (arr[k := arr ! i])) = drop (i + 1) (take n arr)"
        using False "1.prems" by (simp_all add: take_Suc_conv_app_nth list_update_append take_update_swap)
      have "removeVehicle_loop vid n (arr[k := arr ! i]) (i + 1) (k + 1) = (arr', k')"
        using False keep "1.prems"(4) by (simp add: removeVehicle_loop.simps [of vid n arr i k])
      then have "take k' arr' = take (k + 1) (arr[k := arr ! i]) @
          filter (\<lambda>v. ID v \<noteq> vid) (drop (i + 1) (take n (arr[k := arr ! i]))) \<and> length arr' = length arr \<and> k' \<le> n"
        using "1.IH"(1) [OF False keep] False "1.prems" by simp
      then show ?thesis using keep unfolding up cons by simp
    qed
  qed
qed

text \<open>A slice of a scenario: its length is within its array.\<close>

definition slice_ok :: "'n vehicle_slice \<Rightarrow> bool" where
  "slice_ok sl \<longleftrightarrow> snd sl \<le> length (fst sl)"

lemma removeVehicle_elements:
  assumes "slice_ok sl"
  shows "elements (removeVehicle vid sl) = filter (\<lambda>v. ID v \<noteq> vid) (elements sl)" "slice_ok (removeVehicle vid sl)"
proof -
  obtain arr n where sl: "sl = (arr, n)" by fastforce
  obtain arr' k' where r: "removeVehicle_loop vid n arr 0 0 = (arr', k')" by fastforce
  show "elements (removeVehicle vid sl) = filter (\<lambda>v. ID v \<noteq> vid) (elements sl)" "slice_ok (removeVehicle vid sl)"
    using removeVehicle_loop_elements [OF _ _ _ r] assms by (simp_all add: removeVehicle_def sl r elements_def slice_ok_def)
qed

lemma disconnections_elements:
  assumes "slice_ok sl"
  shows "elements (disconnections after i keys sl) = filter (\<lambda>v. \<not> (ID v \<in> set keys \<and> due after i (ID v))) (elements sl) \<and>
    slice_ok (disconnections after i keys sl)"
  using assms
proof (induction keys arbitrary: sl)
  case (Cons k keys)
  have step: "disconnections after i (k # keys) sl = disconnections after i keys (if due after i k then removeVehicle k sl else sl)"
    by (simp add: disconnections_def)
  show ?case
  proof (cases "due after i k")
    case True
    note r = removeVehicle_elements [OF Cons.prems, of k]
    show ?thesis using Cons.IH [OF r(2)] True unfolding step r(1) by (auto simp: r(1) intro!: filter_cong)
  next
    case False
    then show ?thesis using Cons.IH [OF Cons.prems] unfolding step by (auto intro!: filter_cong)
  qed
qed (simp add: disconnections_def)

subsection \<open>The publisher of a dispatch\<close>

abbreviation fails :: "'n MockPublisher \<Rightarrow> string set" where
  "fails pub \<equiv> {i. getd False (FailIDs pub) i}"

lemma fails_failVehicles: "fails (failVehicles ids pub) = set ids \<union> fails pub"
  by (induction ids arbitrary: pub) (auto simp: failVehicles_def split: if_splits)

lemma fails_ack_failures: "fails (ack_failures after i keys pub) = {v \<in> set keys. due after i v} \<union> fails pub"
  by (induction keys arbitrary: pub) (auto simp: ack_failures_def split: if_splits)

lemma fails_mock_sends [simp]: "FailIDs (mock_sends pw as pub) = FailIDs pub"
  by (induction pw as pub rule: mock_sends.induct) (simp_all add: Mock_SendOrder_def Let_def)

lemma Mock_SendOrder_reply:
  "fst (Mock_SendOrder i p pub) = (if i \<in> fails pub then Inl (Errorf ''publish failed'') else Inr (''cmd-'' @ i))"
  by (simp add: Mock_SendOrder_def Let_def)

lemma mock_sends_keep:
  "AckResults pub (''cmd-'' @ i) = Some True \<Longrightarrow> i \<notin> fails pub \<Longrightarrow> AckResults (mock_sends pw as pub) (''cmd-'' @ i) = Some True"
  by (induction pw as pub rule: mock_sends.induct) (auto simp: Mock_SendOrder_def Let_def)

lemma mock_sends_acked:
  "ActSend i \<in> set as \<Longrightarrow> i \<notin> fails pub \<Longrightarrow> AckResults (mock_sends pw as pub) (''cmd-'' @ i) = Some True"
proof (induction pw as pub rule: mock_sends.induct)
  case (2 pw j as pub)
  show ?case
  proof (cases "j = i")
    case True
    with 2(3) show ?thesis
      using mock_sends_keep [of "snd (Mock_SendOrder i (pw i) pub)" i pw as] by (simp add: Mock_SendOrder_def Let_def)
  next
    case False
    with 2 show ?thesis by (simp add: Mock_SendOrder_def Let_def)
  qed
qed simp_all

text \<open>
  What the publisher amounts to: orders to the vehicles of \<open>F\<close> fail, and every other order is acknowledged.
\<close>

definition direct_env :: "string set \<Rightarrow> 'n dispatch_env \<Rightarrow> 'n dispatch_env" where
  "direct_env F env =
     env\<lparr>envSend := \<lambda>i p. if i \<in> F then Inl (Errorf ''publish failed'') else Inr (''cmd-'' @ i),
         envAck := \<lambda>c T. (True, None)\<rparr>"

lemma run_actions_cong:
  assumes "\<And>i p T. ActUpdate i \<in> set as \<or> ActRecord i \<in> set as \<Longrightarrow> order_outcome env T i p = order_outcome env' T i p"
    and "envSend env = envSend env'" "envNow env = envNow env'"
  shows "run_actions env T t rl res as sh = run_actions env' T t rl res as sh"
  using assms(1)
proof (induction as arbitrary: sh)
  case (Cons a as)
  have "run_action env T t rl res a sh = run_action env' T t rl res a sh"
  proof (cases a)
    case (ActSend i)
    then show ?thesis using assms(2) by (simp add: sendAndWait_def)
  next
    case (ActUpdate i)
    then show ?thesis using Cons.prems [of i] by simp
  next
    case (ActRecord i)
    then show ?thesis using Cons.prems [of i] assms(3) by (simp add: order_event_def Let_def)
  qed
  moreover have "run_actions env T t rl res as sh' = run_actions env' T t rl res as sh'" for sh'
    by (rule Cons.IH) (use Cons.prems in auto)
  ultimately show ?case by (simp split: option.split)
qed simp

lemma Manager_Dispatch_publisher:
  assumes "\<And>i p T. ActUpdate i \<in> set (envSchedule env) \<or> ActRecord i \<in> set (envSchedule env) \<Longrightarrow>
      order_outcome (env\<lparr>envSend := f, envAck := g\<rparr>) T i p = order_outcome (env\<lparr>envSend := f, envAck := h\<rparr>) T i p"
  shows "Manager_Dispatch (env\<lparr>envSend := f, envAck := g\<rparr>) m s vs = Manager_Dispatch (env\<lparr>envSend := f, envAck := h\<rparr>) m s vs"
proof -
  let ?g = "env\<lparr>envSend := f, envAck := g\<rparr>" and ?h = "env\<lparr>envSend := f, envAck := h\<rparr>"
  have sel: "envSolve ?g = envSolve ?h" "envExp ?g = envExp ?h" "envNow ?g = envNow ?h" "envErrorText ?g = envErrorText ?h"
    "envCurrent ?g = envCurrent ?h" "envResults ?g = envResults ?h" "envSelected ?g = envSelected ?h"
    "envRecorded ?g = envRecorded ?h" "envHistory ?g = envHistory ?h" by simp_all
  have pre: "prepared ?g m s vs = prepared ?h m s vs"
    by (simp add: prepared_def discover_fleet_def predict_fleet_def Let_def split: option.split prod.split)
  have disp: "run_dispatcher ?g m' vs' s = run_dispatcher ?h m' vs' s" for m' vs'
    by (simp add: run_dispatcher_def split: dispatcher_impl.split option.split)
  have strat: "dispatchStrategy ?g m' vs' s = dispatchStrategy ?h m' vs' s" for m' vs'
    unfolding dispatchStrategy_def disp sel ..
  have "run_actions ?g T t rl r (envSchedule env) sh = run_actions ?h T t rl r (envSchedule env) sh" for T t rl r sh
    by (rule run_actions_cong) (use assms in simp_all)
  then have assign: "dispatchAssignments ?g r s hl m' = dispatchAssignments ?h r s hl m'" for r hl m'
    by (simp add: dispatchAssignments_def)
  have fin: "finish_result ?g s vs' sd fb r = finish_result ?h s vs' sd fb r"
    "commit_result ?g s vs' lat hl r m' = commit_result ?h s vs' lat hl r m'" for vs' sd fb r lat hl m'
    unfolding finish_result_def commit_result_def log_record_def record_statuses_def [abs_def] tune_dispatcher_def sel by (rule refl)+
  show ?thesis unfolding Manager_Dispatch_eq pre strat assign fin ..
qed

lemma Manager_Dispatch_mock:
  assumes "valid_schedule D (envSchedule env)" "fails pub = F"
  shows "Manager_Dispatch (mock_env pub env) m s vs = Manager_Dispatch (direct_env F env) m s vs"
proof -
  have send: "(\<lambda>i p. fst (Mock_SendOrder i p pub)) = (\<lambda>i p. if i \<in> F then Inl (Errorf ''publish failed'') else Inr (''cmd-'' @ i))"
    using assms(2) by (simp add: Mock_SendOrder_reply)
  have "Mock_WaitForAck (''cmd-'' @ i) (mock_sends (\<lambda>_. 0) (envSchedule env) pub) = (True, None)"
    if "ActUpdate i \<in> set (envSchedule env) \<or> ActRecord i \<in> set (envSchedule env)" "i \<notin> F" for i
    using that assms mock_sends_acked [of i "envSchedule env" pub "\<lambda>_. 0"]
    by (auto simp: Mock_WaitForAck_def valid_schedule_def)
  then show ?thesis
    unfolding mock_env_def direct_env_def send by (intro Manager_Dispatch_publisher) (auto simp: order_outcome_def)
qed

lemma direct_acked:
  assumes "Manager_Dispatch (direct_env F env) m s vs = Some (res, m')"
    and "valid_schedule (dom (Assignments res)) (envSchedule env)"
  shows "{i. Acknowledged res i = Some True} = dom (Assignments res) - F"
proof -
  have sched: "valid_schedule (dom (Assignments res)) (envSchedule (direct_env F env))"
    using assms(2) by (simp add: direct_env_def)
  obtain vs' m4 u r0 where r0: "r0 = sent_result (direct_env F env) (ackTimeout m) (dom (Assignments res))
      (new_result (Assignments res) (smart_state m4 u))"
    and fin: "finish_result (direct_env F env) s vs' (smart_state m4 u) (Fallback_SetVehicles vs' (mgr_fallback m)) r0 = Some res"
    by (rule Manager_Dispatch_result [OF assms(1) sched])
  show ?thesis
    using finish_result_frame(3) [OF fin] by (auto simp: r0 sent_result_def order_acked_iff direct_env_def split: if_splits)
qed

subsection \<open>The scenario as it is meant\<close>

text \<open>The vehicles whose orders fail and the vehicles that are connected at the signal number \<open>i\<close>.\<close>

definition failing :: "'n Scenario \<Rightarrow> nat \<Rightarrow> string set" where
  "failing sc i = set (sc_FailVehicles sc) \<union> {v. due (sc_AckFailAfter sc) i v}"

definition still_connected :: "'n::zero Scenario \<Rightarrow> nat \<Rightarrow> 'n Vehicle list" where
  "still_connected sc i = filter (\<lambda>v. \<not> due (sc_DisconnectAfter sc) i (ID v)) (map VehicleDef_ToModel (sc_Vehicles sc))"

text \<open>
  The dispatches of a scenario, from the signal number \<open>i\<close> on, with their results: each goes to the connected
  vehicles, and the environment of each schedules the goroutines of its orders.
\<close>

inductive dispatches ::
  "'n::{zero,one,plus,minus,uminus,times,inverse,ord} Scenario \<Rightarrow> Time \<Rightarrow> nat \<Rightarrow> ('n SignalDef \<times> 'n step_env) list
    \<Rightarrow> 'n DispatchManager \<Rightarrow> 'n DispatchResult list \<Rightarrow> bool" for sc ts where
  no_signal: "dispatches sc ts i [] m []"
| signal: "Manager_Dispatch (direct_env (failing sc i) (seEnv se)) m (SignalDef_ToModel ts sigDef) (still_connected sc i) = Some (res, m') \<Longrightarrow>
    valid_schedule (dom (Assignments res)) (envSchedule (seEnv se)) \<Longrightarrow>
    dispatches sc ts (i + 1) rest m' results \<Longrightarrow>
    dispatches sc ts i ((sigDef, se) # rest) m (res # results)"

definition served :: "'n Scenario \<Rightarrow> nat \<Rightarrow> 'n DispatchResult list \<Rightarrow> nat" where
  "served sc i results = (\<Sum>(k, res)\<leftarrow>enumerate i results. card (dom (Assignments res) - failing sc k))"

lemma due_Suc: "due after i v \<Longrightarrow> due after (Suc i) v"
  by (auto simp: due_def split: option.splits)

lemma due_keys: "set keys = dom after \<Longrightarrow> {v \<in> set keys. due after i v} = {v. due after i v}"
  by (auto simp: due_def domIff split: option.splits)

text \<open>The keys of a map are ranged over in some order.\<close>

definition keys_ranged :: "'n Scenario \<Rightarrow> 'n step_env \<Rightarrow> bool" where
  "keys_ranged sc se \<longleftrightarrow> set (seAckKeys se) = dom (sc_AckFailAfter sc) \<and> set (seDisconnectKeys se) = dom (sc_DisconnectAfter sc)"

text \<open>What the in-place state of the loop has to do with the scenario before the signal number \<open>i\<close>.\<close>

definition loop_inv :: "'n::zero Scenario \<Rightarrow> nat \<Rightarrow> 'n vehicle_slice \<Rightarrow> 'n MockPublisher \<Rightarrow> bool" where
  "loop_inv sc i active pub \<longleftrightarrow> slice_ok active \<and> set (sc_FailVehicles sc) \<subseteq> fails pub \<and> fails pub \<subseteq> failing sc i \<and>
     (\<exists>gone. elements active = filter (\<lambda>v. ID v \<notin> gone) (map VehicleDef_ToModel (sc_Vehicles sc)) \<and>
        gone \<subseteq> {v. due (sc_DisconnectAfter sc) i v})"

lemma loop_inv_step:
  assumes "loop_inv sc i active pub" "keys_ranged sc se"
  shows "fails (ack_failures (sc_AckFailAfter sc) i (seAckKeys se) pub) = failing sc i"
    and "elements (disconnections (sc_DisconnectAfter sc) i (seDisconnectKeys se) active) = still_connected sc i"
    and "slice_ok (disconnections (sc_DisconnectAfter sc) i (seDisconnectKeys se) active)"
proof -
  have keys: "set (seAckKeys se) = dom (sc_AckFailAfter sc)" "set (seDisconnectKeys se) = dom (sc_DisconnectAfter sc)"
    using assms(2) by (simp_all add: keys_ranged_def)
  show "fails (ack_failures (sc_AckFailAfter sc) i (seAckKeys se) pub) = failing sc i"
    unfolding fails_ack_failures due_keys [OF keys(1)] using assms(1) by (auto simp: loop_inv_def failing_def)
  have ok: "slice_ok active" using assms(1) by (simp add: loop_inv_def)
  obtain gone where gone: "elements active = filter (\<lambda>v. ID v \<notin> gone) (map VehicleDef_ToModel (sc_Vehicles sc))"
    "gone \<subseteq> {v. due (sc_DisconnectAfter sc) i v}" using assms(1) by (auto simp: loop_inv_def)
  have in_keys: "v \<in> set (seDisconnectKeys se) \<and> due (sc_DisconnectAfter sc) i v \<longleftrightarrow> due (sc_DisconnectAfter sc) i v" for v
    using due_keys [OF keys(2), of i] by auto
  show "elements (disconnections (sc_DisconnectAfter sc) i (seDisconnectKeys se) active) = still_connected sc i"
    using disconnections_elements [OF ok, of "sc_DisconnectAfter sc" i "seDisconnectKeys se"] gone(2)
    unfolding in_keys gone(1) still_connected_def filter_filter by (auto intro!: filter_cong)
  show "slice_ok (disconnections (sc_DisconnectAfter sc) i (seDisconnectKeys se) active)"
    using disconnections_elements [OF ok] by blast
qed

lemma loop_inv_next:
  assumes "fails pub = failing sc i" "elements active = still_connected sc i" "slice_ok active"
  shows "loop_inv sc (i + 1) active (mock_after env res pub)"
  using assms due_Suc [of "sc_AckFailAfter sc" i] due_Suc [of "sc_DisconnectAfter sc" i]
  by (auto simp: loop_inv_def mock_after_def failing_def still_connected_def
      intro!: exI [of _ "{v. due (sc_DisconnectAfter sc) i v}"])

lemma scenario_loop_served:
  assumes "dispatches sc ts i steps m results" "loop_inv sc i active pub" "\<forall>(sd, se)\<in>set steps. keys_ranged sc se"
  shows "scenario_loop sc ts i steps active pub m n = Some (n + served sc i results)"
  using assms
proof (induction i steps m results arbitrary: active pub n rule: dispatches.induct)
  case (no_signal i m)
  then show ?case by (simp add: served_def)
next
  case (signal i se m sigDef res m' rest results)
  let ?pub = "ack_failures (sc_AckFailAfter sc) i (seAckKeys se) pub"
    and ?active = "disconnections (sc_DisconnectAfter sc) i (seDisconnectKeys se) active"
  have r: "keys_ranged sc se" using signal.prems(2) by simp
  note step = loop_inv_step [OF signal.prems(1) r]
  have count: "acked_count res = card (dom (Assignments res) - failing sc i)"
    by (simp add: acked_count_def direct_acked [OF signal.hyps(1,2)])
  have run: "Manager_Dispatch (mock_env ?pub (seEnv se)) m (SignalDef_ToModel ts sigDef) (elements ?active) = Some (res, m')"
    unfolding step(2) Manager_Dispatch_mock [OF signal.hyps(2) step(1)] by (rule signal.hyps(1))
  have "scenario_loop sc ts (i + 1) rest ?active (mock_after (seEnv se) res ?pub) m' (n + acked_count res) =
      Some (n + acked_count res + served sc (i + 1) results)"
    using signal.prems(2) by (intro signal.IH loop_inv_next [OF step]) simp
  then show ?case using run count by (simp add: served_def Let_def)
qed

lemma scenario_manager_ok: "\<exists>m. scenario_manager snk prom = Inr m"
  by (simp add: scenario_manager_def NewDispatchManager_def)

lemma loop_inv_start:
  "loop_inv sc 0 (map VehicleDef_ToModel (sc_Vehicles sc), length (map VehicleDef_ToModel (sc_Vehicles sc)))
     (failVehicles (sc_FailVehicles sc) NewMockPublisher)"
  by (auto simp: loop_inv_def slice_ok_def fails_failVehicles NewMockPublisher_def failing_def elements_def intro!: exI [of _ "{}"])

text \<open>
  C23. A scenario counts what it describes. The runner changes the failure map of the publisher and compacts
  the array of the vehicles while it ranges over it, in any order of the two maps; the count it compares with
  the expected one is nevertheless, summed over the signals, the number of vehicles that got an order and are
  not failing at that signal, where each signal was dispatched to the vehicles not yet disconnected.
\<close>

theorem scenario_counts:
  assumes "scenario_manager snk prom = Inr m" "\<forall>se\<in>set ses. keys_ranged sc se"
    and "dispatches sc (ofUnix zn 0) 0 (zip (sc_Signals sc) ses) m results"
  shows "RunScenario (Inr snk) prom zn ses sc =
    Some (if int (served sc 0 results) \<noteq> sc_ExpectedAcked sc then Failed (served sc 0 results) else Passed)"
proof -
  have "\<forall>(sd, se)\<in>set (zip (sc_Signals sc) ses). keys_ranged sc se" using assms(2) by (auto dest: set_zip_rightD)
  from scenario_loop_served [OF assms(3) loop_inv_start this, of 0] assms(1) show ?thesis
    by (simp add: RunScenario_def Let_def)
qed

subsection \<open>A scenario of the repository\<close>

text \<open>The manager of a scenario between two dispatches.\<close>

definition scenario_mgr :: "real DispatchManager \<Rightarrow> bool" where
  "scenario_mgr m \<longleftrightarrow> mgr_filter m = SimpleVehicleFilter_Filter \<and>
     (\<exists>x. mgr_dispatcher m = SmartImpl (zeroSmartDispatcher\<lparr>scores := x\<rparr>)) \<and> lpFirst m = Map.empty \<and>
     (\<exists>b. mgr_fallback m = BalancedImpl b) \<and> \<not> hasDiscovery m \<and> bus_ok (mgr_bus m) \<and> mgr_prediction m = None \<and>
     mgr_tuner m = NoTuner"

lemma scenario_manager_mgr:
  assumes "scenario_manager snk prom = Inr m"
  shows "scenario_mgr m"
proof -
  have "mgr_dispatcher m = SmartImpl (zeroSmartDispatcher\<lparr>scores := Map.empty\<rparr>)"
    using assms by (auto simp: scenario_manager_def NewDispatchManager_def zeroSmartDispatcher_def)
  then show ?thesis
    using assms by (auto simp: scenario_manager_def NewDispatchManager_def scenario_mgr_def bus_ok_def Bus_New_inv)
qed

lemma zero_dispatch_state:
  assumes "SmartDispatcher_Dispatch expf (zeroSmartDispatcher\<lparr>scores := x\<rparr>) vs s = Some (d', asn)"
  shows "\<exists>y. d' = (zeroSmartDispatcher\<lparr>scores := y\<rparr> :: real SmartDispatcher)"
  using SmartDispatcher_Dispatch_state [OF assms] by auto

lemma finish_result_returns:
  "\<exists>r. Fallback_Reallocate (envCurrent env) fb (unacknowledged vs (Acknowledged r0)) (Assignments r0) s = Some r \<Longrightarrow>
    \<exists>res. finish_result env s vs sd fb r0 = Some res"
  by (cases "unacknowledged vs (Acknowledged r0) = []") (auto simp: finish_result_def Let_def)

text \<open>A dispatch returns when the dispatcher and the reallocation for the vehicles without acknowledgment do.\<close>

lemma scenario_dispatch:
  assumes "scenario_mgr m" "mgr_dispatcher m = SmartImpl d"
    and "SmartDispatcher_Dispatch (envExp env) d vs s = Some (d', asn)" "vs = filter (filter_accepts s) fleet"
    and "valid_schedule (dom asn) (envSchedule env)"
    and "\<exists>r. Balanced_Reallocate (Balanced_SetVehicles Map.empty vs) (envCurrent env) (filter (\<lambda>v. ID v \<notin> dom asn - F) vs) asn s = Some r"
  shows "\<exists>res m'. Manager_Dispatch (direct_env F env) m s fleet = Some (res, m') \<and> Assignments res = asn \<and> scenario_mgr m'"
proof -
  let ?e = "direct_env F env"
  have e: "envExp ?e = envExp env" "envSchedule ?e = envSchedule env" "envCurrent ?e = envCurrent env" by (simp_all add: direct_env_def)
  let ?m2 = "m\<lparr>mgr_fallback := Fallback_SetVehicles vs (mgr_fallback m)\<rparr>"
  have p: "prepared ?e m s fleet = (vs, ?m2)"
    using assms(1,4) by (simp add: prepared_def discover_fleet_def predict_fleet_def scenario_mgr_def SimpleVehicleFilter_eq_filter)
  have "bus_ok (mgr_bus ?m2)" using assms(1) by (simp add: scenario_mgr_def)
  then obtain b where pub: "publish_event (SignalEvent s) ?m2 = Some (?m2\<lparr>mgr_bus := b\<rparr>)" "bus_ok b" by (rule publish_event_ok)
  let ?m4 = "?m2\<lparr>mgr_bus := b, mgr_dispatcher := SmartImpl d'\<rparr>"
  have st: "dispatchStrategy ?e (?m2\<lparr>mgr_bus := b\<rparr>) vs s = Some (?m4, asn, UsedMain)"
    using assms(1-3) by (simp add: dispatchStrategy_def run_dispatcher_def scenario_mgr_def getd_def e)
  let ?r = "new_result asn (smart_state ?m4 UsedMain)"
  obtain sh where "run_actions ?e (ackTimeout ?m4) (SigType s) (canRecordLatency ?m4) ?r (envSchedule ?e)
      \<lparr>sh_errors = Errors ?r, sh_acks = Acknowledged ?r, sh_lat = [], sh_ackCount = 0,
       sh_bus = mgr_bus ?m4, sh_metrics = mgr_metrics ?m4, sh_collectors = mgr_collectors ?m4\<rparr> = Some sh" "bus_ok (sh_bus sh)"
    using run_actions_returns pub(2) by force
  then obtain r0 lat m5 where da: "dispatchAssignments ?e ?r s (canRecordLatency ?m4) ?m4 = Some (r0, lat, m5)" "bus_ok (mgr_bus m5)"
    by (auto simp: dispatchAssignments_def Let_def)
  note eff = dispatchAssignments_effect [OF da(1) assms(5) [folded e(2)]]
  have acks: "Acknowledged r0 = (\<lambda>i. if i \<in> dom asn then Some (i \<notin> F) else None)" and asn: "Assignments r0 = asn"
    using eff(1) by (auto simp: sent_result_def order_acked_iff direct_env_def)
  have un: "unacknowledged vs (Acknowledged r0) = filter (\<lambda>v. ID v \<notin> dom asn - F) vs"
    unfolding unacknowledged_eq acks by (intro filter_cong) (auto simp: getd_def)
  obtain b0 where b0: "mgr_fallback m5 = BalancedImpl (Balanced_SetVehicles b0 vs)"
    using eff(2) assms(1) by (auto simp: scenario_mgr_def Fallback_SetVehicles_def)
  have "\<exists>r. Fallback_Reallocate (envCurrent ?e) (mgr_fallback m5) (unacknowledged vs (Acknowledged r0)) (Assignments r0) s = Some r"
    using assms(6) unfolding un asn e b0 Fallback_Reallocate_def fallback_impl.case Balanced_SetVehicles_def .
  then obtain res where fin: "finish_result ?e s vs (smart_state ?m4 UsedMain) (mgr_fallback m5) r0 = Some res"
    using finish_result_returns by blast
  obtain y where y: "d' = zeroSmartDispatcher\<lparr>scores := y\<rparr>"
    using assms(1-3) zero_dispatch_state by (fastforce simp: scenario_mgr_def)
  have "scenario_mgr m5" using assms(1) eff(2) da(2) y b0 by (auto simp: scenario_mgr_def)
  then have "scenario_mgr (commit_result ?e s vs lat (canRecordLatency ?m4) res m5)"
    by (auto simp: scenario_mgr_def commit_result_def recordMetrics_def tune_dispatcher_def Let_def)
  then show ?thesis
    using p pub(1) st da(1) fin finish_result_frame(1) [OF fin] asn by (simp add: Manager_Dispatch_eq Let_def)
qed

text \<open>The scenario of \<open>qa/scenarios/zero_power_rapid.yaml\<close>.\<close>

definition rapid_vehicle :: "real VehicleDef" where
  "rapid_vehicle = \<lparr>vd_ID = ''v1'', vd_SoC = 9/10, vd_IsV2G = True, vd_Available = True, vd_MaxPower = 22, vd_BatteryKWh = 60\<rparr>"

definition rapid_signal :: "real \<Rightarrow> real SignalDef" where
  "rapid_signal pw = \<lparr>sd_Type = ''FCR'', sd_PowerKW = pw, sd_DurationSeconds = 60\<rparr>"

definition zero_power_rapid :: "real Scenario" where
  "zero_power_rapid =
     \<lparr>sc_Name = ''zero_power_rapid'', sc_Description = [], sc_Vehicles = [rapid_vehicle],
      sc_Signals = [rapid_signal 0, rapid_signal 5, rapid_signal 5], sc_FailVehicles = [], sc_AckFailAfter = Map.empty,
      sc_DisconnectAfter = Map.empty, sc_ExpectedAcked = 2\<rparr>"

definition rapid_env :: "action list \<Rightarrow> real step_env" where
  "rapid_env as = \<lparr>seEnv = mgr_env\<lparr>envSchedule := as\<rparr>, seAckKeys = [], seDisconnectKeys = []\<rparr>"

definition rapid_envs :: "real step_env list" where
  "rapid_envs = (let order = [ActSend ''v1'', ActUpdate ''v1'', ActRecord ''v1''] in [rapid_env [], rapid_env order, rapid_env order])"

lemma rapid_scenario:
  "still_connected zero_power_rapid i = [VehicleDef_ToModel rapid_vehicle]" "failing zero_power_rapid i = {}"
  by (simp_all add: still_connected_def failing_def zero_power_rapid_def due_def)

lemma rapid_dispatcher:
  assumes "pw = 0 \<or> pw = 5"
  shows "\<exists>d'. SmartDispatcher_Dispatch exp (zeroSmartDispatcher\<lparr>scores := x\<rparr>) [VehicleDef_ToModel rapid_vehicle]
    (SignalDef_ToModel (ofUnix zn 0) (rapid_signal pw)) = Some (d', if pw = 0 then Map.empty else [''v1'' \<mapsto> pw])"
proof -
  let ?d = "zeroSmartDispatcher\<lparr>scores := x\<rparr> :: real SmartDispatcher"
  define v where "v = VehicleDef_ToModel rapid_vehicle"
  define s where "s = SignalDef_ToModel (ofUnix zn 0) (rapid_signal 5)"
  have v: "ID v = ''v1''" "MaxPower v = 22" "SoC v = 9/10" "BatteryKWh v = 60" "MinSoC v = 0" "\<not> Priority v"
    "AvailabilityProb v = 0" "inst (Departure v) = 0"
    by (simp_all add: v_def VehicleDef_ToModel_def rapid_vehicle_def zeroVehicle_def timeZero_def)
  have s: "PowerKW s = 5" "SigType s = SignalFCR" "inst (Timestamp s) = 62135596800 * Second"
    by (simp_all add: s_def SignalDef_ToModel_def rapid_signal_def parseSignalType_def ofUnix_def)
  have "vehicleScore exp ?d v (smart_ctx ?d s) = 9/50"
    by (simp add: vehicleScore_def weightsForSignal_def smart_ctx_def s v Let_def timeSub_def Second_def
        GetParticipation_def zeroSmartDispatcher_def)
  then have lst: "smart_list exp ?d [v] s = [\<lparr>cand_v = v, cand_score = 9/50, cand_capacity = 22\<rparr>]"
    by (simp add: smart_list_def buildCandidates_def filterBySoC_def prepareVehicles_eq mk_candidate_def
        availableEnergyAndCapacity_def Let_def s v zeroSmartDispatcher_def)
  have "smart_loop 0 1 [\<lparr>cand_v = v, cand_score = 9/50, cand_capacity = 22\<rparr>] (9/50) 5 Map.empty 0 = Some [''v1'' \<mapsto> 5]"
    by (simp add: smart_loop.simps [of _ _ "[_]"] smart_loop.simps [of _ _ _ _ 0] allocateRound_def allocateRound_loop.simps v)
  then have five: "\<exists>d'. SmartDispatcher_Dispatch exp ?d [v] s = Some (d', [''v1'' \<mapsto> 5])"
    using lst unfolding smart_list_def smart_ctx_def
    by (simp add: SmartDispatcher_Dispatch_def Let_def s zeroSmartDispatcher_def)
  have "SmartDispatcher_Dispatch exp ?d [v] (SignalDef_ToModel (ofUnix zn 0) (rapid_signal 0)) = Some (?d, Map.empty)"
    by (simp add: SmartDispatcher_Dispatch_def SignalDef_ToModel_def rapid_signal_def)
  with five assms show ?thesis by (auto simp: v_def s_def)
qed

lemma rapid_step:
  assumes "scenario_mgr m" "pw = 0 \<or> pw = 5" "as = (if pw = 0 then [] else [ActSend ''v1'', ActUpdate ''v1'', ActRecord ''v1''])"
  shows "\<exists>res m'. Manager_Dispatch (direct_env (failing zero_power_rapid i) (seEnv (rapid_env as))) m
      (SignalDef_ToModel (ofUnix zn 0) (rapid_signal pw)) (still_connected zero_power_rapid i) = Some (res, m') \<and>
    dom (Assignments res) = (if pw = 0 then {} else {''v1''}) \<and> valid_schedule (dom (Assignments res)) as \<and> scenario_mgr m'"
proof -
  let ?v = "VehicleDef_ToModel rapid_vehicle" and ?s = "SignalDef_ToModel (ofUnix zn 0) (rapid_signal pw)"
  let ?asn = "if pw = 0 then Map.empty else [''v1'' \<mapsto> pw]"
  obtain x where d: "mgr_dispatcher m = SmartImpl (zeroSmartDispatcher\<lparr>scores := x\<rparr>)" using assms(1) by (auto simp: scenario_mgr_def)
  obtain d' where d': "SmartDispatcher_Dispatch exp (zeroSmartDispatcher\<lparr>scores := x\<rparr>) [?v] ?s = Some (d', ?asn)"
    using rapid_dispatcher [OF assms(2)] by blast
  have vs: "[?v] = filter (filter_accepts ?s) [?v]"
    by (simp add: filter_accepts_def SignalDef_ToModel_def rapid_signal_def parseSignalType_def VehicleDef_ToModel_def rapid_vehicle_def)
  have sched: "valid_schedule (dom ?asn) as" using assms(3) by (auto simp: valid_schedule_def)
  have "\<exists>r. Balanced_Reallocate (Balanced_SetVehicles Map.empty [?v]) (envCurrent mgr_env) (filter (\<lambda>v. ID v \<notin> dom ?asn - {}) [?v]) ?asn ?s = Some r"
    by (simp add: Balanced_Reallocate_def VehicleDef_ToModel_def rapid_vehicle_def)
  then have "\<exists>res m'. Manager_Dispatch (direct_env {} (seEnv (rapid_env as))) m ?s [?v] = Some (res, m') \<and> Assignments res = ?asn \<and> scenario_mgr m'"
    using d' sched by (intro scenario_dispatch [OF assms(1) d _ vs]) (simp_all add: rapid_env_def mgr_env_def)
  with sched show ?thesis unfolding rapid_scenario by (auto split: if_splits)
qed

theorem scenario_counts_witness:
  "RunScenario (Inr mgr_sink) (mgr_collectors mgr_test) 0 rapid_envs zero_power_rapid = Some Passed"
proof -
  obtain m where m: "scenario_manager mgr_sink (mgr_collectors mgr_test) = Inr m" using scenario_manager_ok by blast
  let ?order = "[ActSend ''v1'', ActUpdate ''v1'', ActRecord ''v1'']" and ?sc = zero_power_rapid
  obtain r0 m0 where s0: "Manager_Dispatch (direct_env (failing ?sc 0) (seEnv (rapid_env []))) m
      (SignalDef_ToModel (ofUnix 0 0) (rapid_signal 0)) (still_connected ?sc 0) = Some (r0, m0)"
    "dom (Assignments r0) = {}" "valid_schedule (dom (Assignments r0)) []" "scenario_mgr m0"
    using rapid_step [OF scenario_manager_mgr [OF m], of 0 "[]" 0 0] by auto
  obtain r1 m1 where s1: "Manager_Dispatch (direct_env (failing ?sc (0 + 1)) (seEnv (rapid_env ?order))) m0
      (SignalDef_ToModel (ofUnix 0 0) (rapid_signal 5)) (still_connected ?sc (0 + 1)) = Some (r1, m1)"
    "dom (Assignments r1) = {''v1''}" "valid_schedule (dom (Assignments r1)) ?order" "scenario_mgr m1"
    using rapid_step [OF s0(4), of 5 ?order "0 + 1" 0] by auto
  obtain r2 m2 where s2: "Manager_Dispatch (direct_env (failing ?sc (0 + 1 + 1)) (seEnv (rapid_env ?order))) m1
      (SignalDef_ToModel (ofUnix 0 0) (rapid_signal 5)) (still_connected ?sc (0 + 1 + 1)) = Some (r2, m2)"
    "dom (Assignments r2) = {''v1''}" "valid_schedule (dom (Assignments r2)) ?order"
    using rapid_step [OF s1(4), of 5 ?order "0 + 1 + 1" 0] by auto
  have zip: "zip (sc_Signals ?sc) rapid_envs =
      [(rapid_signal 0, rapid_env []), (rapid_signal 5, rapid_env ?order), (rapid_signal 5, rapid_env ?order)]"
    by (simp add: zero_power_rapid_def rapid_envs_def Let_def)
  have env: "envSchedule (seEnv (rapid_env as)) = as" for as by (simp add: rapid_env_def)
  have run: "dispatches ?sc (ofUnix 0 0) 0 (zip (sc_Signals ?sc) rapid_envs) m [r0, r1, r2]"
    unfolding zip using s0(1,3) s1(1,3) s2(1,3) by (intro dispatches.intros) (simp_all only: env)
  have "\<forall>se\<in>set rapid_envs. keys_ranged ?sc se"
    by (simp add: rapid_envs_def Let_def rapid_env_def keys_ranged_def zero_power_rapid_def)
  from scenario_counts [OF m this run] s0(2) s1(2) s2(2) show ?thesis
    by (simp add: served_def rapid_scenario(2)) (simp add: zero_power_rapid_def)
qed

end
