(* ===== verification/Vehicle_Api.thy ===== *)
theory Vehicle_Api
  imports Dispatch_Manager Eco_KPI Go_Text
begin

text \<open>
  The HTTP handlers of \<open>api/vehicles\<close>, status with forecasts (\<open>handler.go\<close>) and ecological KPIs
  (\<open>kpi.go\<close>), over the stores of \<open>Vehicle_Status\<close> and \<open>Eco_KPI\<close>, and the mock of the prediction
  engine (\<open>core/prediction/mock.go\<close>). A reply is its status with what is encoded as JSON, or an error
  text; the query parameters are given as looked up, and the clock, \<open>time.Parse\<close> and the format of a
  date are arguments.
\<close>

subsection \<open>The mock prediction engine (core/prediction/mock.go)\<close>

record 'n MockPredictionEngine =
  MockAvailability :: "(string \<rightharpoonup> 'n) option"
  SoCForecasts :: "(string \<rightharpoonup> 'n list) option"

definition Mock_PredictAvailability :: "'n MockPredictionEngine \<Rightarrow> string \<Rightarrow> Time \<Rightarrow> 'n::one" where
  "Mock_PredictAvailability m i t =
     (case MockAvailability m of
        None \<Rightarrow> 1
      | Some a \<Rightarrow> (case a i of Some v \<Rightarrow> v | None \<Rightarrow> 1))"

text \<open>A nil slice and an empty one read alike.\<close>

definition Mock_ForecastSoC :: "'n MockPredictionEngine \<Rightarrow> string \<Rightarrow> Duration \<Rightarrow> 'n list" where
  "Mock_ForecastSoC m i h =
     (case SoCForecasts m of
        None \<Rightarrow> []
      | Some f \<Rightarrow> (case f i of Some s \<Rightarrow> s | None \<Rightarrow> []))"

definition mock_prediction :: "'n::one MockPredictionEngine \<Rightarrow> 'n prediction" where
  "mock_prediction m = \<lparr>PredictAvailability = Mock_PredictAvailability m, ForecastSoC = Mock_ForecastSoC m\<rparr>"

subsection \<open>Vehicle status (api/vehicles/handler.go)\<close>

datatype 'a http_answer = HttpOk 'a | HttpError nat string

record status_request =
  sr_method :: string
  sr_fleet :: string
  sr_site :: string
  sr_cluster :: string

text \<open>The keys \<open>t+0m\<close>, \<open>t+15m\<close> and so on of the forecast, in the order they are set.\<close>

definition forecastKey :: "nat \<Rightarrow> string" where
  "forecastKey j = ''t+'' @ Itoa (15 * j) @ ''m''"

fun forecast_map :: "nat \<Rightarrow> 'n list \<Rightarrow> (string \<rightharpoonup> 'n) \<Rightarrow> (string \<rightharpoonup> 'n)" where
  "forecast_map j [] m = m"
| "forecast_map j (v # vs) m = forecast_map (j + 1) vs (m(forecastKey j \<mapsto> v))"

definition with_forecast :: "'n prediction option \<Rightarrow> Time \<Rightarrow> 'n Status \<Rightarrow> 'n Status" where
  "with_forecast pred now st =
     (case pred of
        None \<Rightarrow> st
      | Some p \<Rightarrow>
          (let fc = ForecastSoC p (StVehicleID st) Hour in
           if fc = [] then st
           else st\<lparr>ForecastedSoC := forecast_map 0 fc Map.empty,
                   ForecastedPluginWindow := \<lparr>TwStart = now, TwEnd = timeAdd now Hour\<rparr>,
                   NextDispatchWindow := \<lparr>TwStart = timeAdd now Hour, TwEnd = timeAdd now (2 * Hour)\<rparr>\<rparr>))"

text \<open>\<open>clock i\<close> is \<open>time.Now().UTC()\<close> as read for the vehicle \<open>i\<close>; \<open>ks\<close> and \<open>sortf\<close> are those of \<open>List\<close>.\<close>

definition NewStatusHandler ::
  "string list \<Rightarrow> ('n Status list \<Rightarrow> 'n Status list) \<Rightarrow> (string \<Rightarrow> Time) \<Rightarrow> 'n prediction option \<Rightarrow> 'n status_store
    \<Rightarrow> status_request \<Rightarrow> 'n Status list http_answer" where
  "NewStatusHandler ks sortf clock pred store r =
     (if sr_method r \<noteq> ''GET'' then HttpError 405 ''method not allowed''
      else let f = \<lparr>FFleetID = sr_fleet r, FSite = sr_site r, FCluster = sr_cluster r\<rparr> in
           HttpOk (map (\<lambda>st. with_forecast pred (clock (StVehicleID st)) st) (Status_List ks sortf f store)))"

subsection \<open>Ecological KPIs (api/vehicles/kpi.go)\<close>

record kpi_request =
  kr_method :: string
  kr_path :: string
  kr_start :: string
  kr_end :: string

record 'n kpi_out =
  ko_Date :: string
  ko_InjectedKWh :: 'n
  ko_CO2Avoided :: 'n
  ko_EnergyRatio :: 'n

definition kpi_row :: "(Time \<Rightarrow> string) \<Rightarrow> 'n \<Rightarrow> 'n::{zero,times,inverse,ord} Record \<Rightarrow> 'n kpi_out" where
  "kpi_row formatDate factor r =
     \<lparr>ko_Date = formatDate (RecDate r), ko_InjectedKWh = InjectedKWh r, ko_CO2Avoided = CO2Avoided r factor,
      ko_EnergyRatio = EnergyRatio r\<rparr>"

text \<open>A time that does not parse is the zero time.\<close>

definition NewKPIHandler ::
  "(go_error \<Rightarrow> string) \<Rightarrow> (string \<Rightarrow> Time option) \<Rightarrow> (Time \<Rightarrow> string) \<Rightarrow> Time
    \<Rightarrow> (string \<Rightarrow> Time \<Rightarrow> Time \<Rightarrow> go_error + 'n Record list) \<Rightarrow> 'n \<Rightarrow> kpi_request
    \<Rightarrow> 'n::{zero,times,inverse,ord} kpi_out list http_answer" where
  "NewKPIHandler errText parse formatDate now query factor r =
     (if kr_method r \<noteq> ''GET'' then HttpError 405 ''method not allowed''
      else let parts = Split (CHR ''/'') (TrimPrefix (kr_path r) ''/api/vehicles/'') in
      if length parts < 2 \<or> parts ! 1 \<noteq> ''kpis'' then HttpError 404 ''404 page not found''
      else let i = parts ! 0;
               start = (case parse (kr_start r) of Some t \<Rightarrow> t | None \<Rightarrow> timeZero);
               end0 = (case parse (kr_end r) of Some t \<Rightarrow> t | None \<Rightarrow> timeZero);
               end1 = (if IsZero end0 then now else end0)
           in case query i start end1 of
                Inl e \<Rightarrow> HttpError 500 (errText e)
              | Inr recs \<Rightarrow> HttpOk (map (kpi_row formatDate factor) recs))"

subsection \<open>Forecasts in the reply\<close>

lemma forecastKey_inj: "forecastKey i = forecastKey j \<Longrightarrow> i = j"
  unfolding forecastKey_def by (auto dest: Itoa_inj)

lemma forecast_map_other: "(\<And>k. j \<le> k \<Longrightarrow> key \<noteq> forecastKey k) \<Longrightarrow> forecast_map j fc m key = m key"
  by (induction j fc m rule: forecast_map.induct) auto

lemma forecast_map_at:
  "k < length fc \<Longrightarrow> forecast_map j fc m (forecastKey (j + k)) = Some (fc ! k)"
proof (induction fc arbitrary: j m k)
  case (Cons v vs)
  show ?case
  proof (cases k)
    case 0
    have "forecast_map (j + 1) vs (m(forecastKey j \<mapsto> v)) (forecastKey j) = Some v"
      using forecastKey_inj [of j] by (subst forecast_map_other) force+
    with 0 show ?thesis by simp
  next
    case (Suc k')
    with Cons.IH [of k' "j + 1"] Cons.prems show ?thesis by simp
  qed
qed simp

lemma forecast_map_0:
  "forecast_map 0 fc Map.empty (forecastKey j) = (if j < length fc then Some (fc ! j) else None)"
proof -
  have "forecast_map k fc m (forecastKey j) = m (forecastKey j)" if "k + length fc \<le> j" for k m
    using that by (induction k fc m rule: forecast_map.induct) (auto dest: forecastKey_inj)
  from this [of 0 Map.empty] forecast_map_at [of j fc 0 Map.empty] show ?thesis by auto
qed

text \<open>The entry of the reply for a stored status.\<close>

definition reply_entry :: "'n prediction option \<Rightarrow> (string \<Rightarrow> Time) \<Rightarrow> 'n Status \<Rightarrow> 'n Status \<Rightarrow> bool" where
  "reply_entry pred clock st e \<longleftrightarrow>
     (let i = StVehicleID st; fc = (case pred of None \<Rightarrow> [] | Some p \<Rightarrow> ForecastSoC p i Hour) in
      StVehicleID e = i \<and> StFleetID e = StFleetID st \<and> StSite e = StSite st \<and> StCluster e = StCluster st \<and>
      CurrentStatus e = CurrentStatus st \<and> LastDispatchDecision e = LastDispatchDecision st \<and>
      (fc = [] \<longrightarrow> e = st) \<and>
      (fc \<noteq> [] \<longrightarrow> TwEnd (ForecastedPluginWindow e) = TwStart (NextDispatchWindow e) \<and>
         TwStart (ForecastedPluginWindow e) = clock i \<and>
         (\<forall>j. ForecastedSoC e (forecastKey j) = (if j < length fc then Some (fc ! j) else None))))"

lemma with_forecast_entry: "reply_entry pred clock st (with_forecast pred (clock (StVehicleID st)) st)"
  by (auto simp: reply_entry_def with_forecast_def Let_def forecast_map_0 split: option.split)

lemma with_forecast_ID [simp]: "StVehicleID (with_forecast pred now st) = StVehicleID st"
  by (simp add: with_forecast_def Let_def split: option.split)

text \<open>
  The status handler answers a GET with one entry per vehicle that was set or dispatched and that
  matches the fleet, site and cluster of the query, in strictly increasing order of the vehicle. An
  entry holds what the store holds; where the prediction engine has a forecast, the key \<open>t+<15j>m\<close> holds
  its value \<open>j\<close>, there are no other values, and the window of the next dispatch begins where the
  plug-in window ends.
\<close>

theorem status_handler_reply:
  fixes ops :: "real status_op list"
  assumes "ranges ks (status_run ops)" "\<And>xs. mset (sortf xs) = mset xs" "\<And>xs. sorted (map StVehicleID (sortf xs))"
    and "sr_method r = ''GET''"
  shows "\<exists>es. NewStatusHandler ks sortf clock pred (status_run ops) r = HttpOk es \<and>
    sorted_wrt (<) (map StVehicleID es) \<and>
    StVehicleID ` set es = {i. \<exists>st. status_run ops i = Some st \<and>
      filter_match \<lparr>FFleetID = sr_fleet r, FSite = sr_site r, FCluster = sr_cluster r\<rparr> st} \<and>
    (\<forall>e\<in>set es. \<exists>st. status_run ops (StVehicleID e) = Some st \<and> reply_entry pred clock st e)"
proof -
  let ?f = "\<lparr>FFleetID = sr_fleet r, FSite = sr_site r, FCluster = sr_cluster r\<rparr>"
  let ?l = "Status_List ks sortf ?f (status_run ops)"
  let ?es = "map (\<lambda>st. with_forecast pred (clock (StVehicleID st)) st) ?l"
  have l: "sorted_wrt (<) (map StVehicleID ?l)"
    "set ?l = {st. status_run ops (StVehicleID st) = Some st \<and> filter_match ?f st}"
    using Status_List_matching [OF assms(1-3), of ?f] by auto
  have "NewStatusHandler ks sortf clock pred (status_run ops) r = HttpOk ?es"
    using assms(4) by (simp add: NewStatusHandler_def)
  moreover have "map StVehicleID ?es = map StVehicleID ?l" by simp
  then have "sorted_wrt (<) (map StVehicleID ?es)" "StVehicleID ` set ?es = StVehicleID ` set ?l"
    using l(1) by (simp only:, metis list.set_map)
  moreover have own: "StVehicleID st = i" if "status_run ops i = Some st" for i st
    using that status_run_inv [of ops] by (simp add: status_inv_def)
  have "StVehicleID ` set ?l = {i. \<exists>st. status_run ops i = Some st \<and> filter_match ?f st}" (is "?A = ?B")
  proof (intro equalityI subsetI)
    fix i assume "i \<in> ?A"
    then show "i \<in> ?B" unfolding l(2) by auto
  next
    fix i assume "i \<in> ?B"
    then obtain st where "status_run ops i = Some st" "filter_match ?f st" by blast
    with own [of i st] show "i \<in> ?A" unfolding l(2) by (intro image_eqI [of _ _ st]) auto
  qed
  moreover have "\<exists>st. status_run ops (StVehicleID e) = Some st \<and> reply_entry pred clock st e" if "e \<in> set ?es" for e
  proof -
    from that obtain st where st: "st \<in> set ?l" "e = with_forecast pred (clock (StVehicleID st)) st" by auto
    then have "status_run ops (StVehicleID e) = Some st" unfolding l(2) by simp
    with st(2) show ?thesis using with_forecast_entry by blast
  qed
  ultimately show ?thesis by (intro exI [of _ ?es] conjI) (assumption | simp)+
qed

definition api_ops :: "real status_op list" where
  "api_ops = [OpSet (zeroStatus\<lparr>StVehicleID := ''b'', StSite := ''paris''\<rparr>)]"

definition api_pred :: "real prediction" where
  "api_pred = mock_prediction \<lparr>MockAvailability = None, SoCForecasts = Some [''b'' \<mapsto> [1/2, 3/4]]\<rparr>"

theorem status_handler_reply_witness:
  "\<exists>e. NewStatusHandler [''b''] (\<lambda>xs. sort_key StVehicleID xs) (\<lambda>_. timeZero) (Some api_pred) (status_run api_ops)
       \<lparr>sr_method = ''GET'', sr_fleet = [], sr_site = ''paris'', sr_cluster = []\<rparr> = HttpOk [e] \<and>
     StVehicleID e = ''b'' \<and> ForecastedSoC e (forecastKey 1) = Some (3/4)"
proof -
  let ?r = "\<lparr>sr_method = ''GET'', sr_fleet = [], sr_site = ''paris'', sr_cluster = []\<rparr>"
  have store: "status_run api_ops = [''b'' \<mapsto> zeroStatus\<lparr>StVehicleID := ''b'', StSite := ''paris''\<rparr>]"
    by (simp add: status_run_def Status_Set_def Status_NewMemoryStore_def api_ops_def)
  then have "ranges [''b''] (status_run api_ops)" by (simp add: ranges_def)
  from status_handler_reply [OF this, of "\<lambda>xs. sort_key StVehicleID xs" ?r "\<lambda>_. timeZero" "Some api_pred"]
  obtain es where es: "NewStatusHandler [''b''] (\<lambda>xs. sort_key StVehicleID xs) (\<lambda>_. timeZero) (Some api_pred)
      (status_run api_ops) ?r = HttpOk es" "sorted_wrt (<) (map StVehicleID es)" "StVehicleID ` set es = {''b''}"
    "\<forall>e\<in>set es. \<exists>st. status_run api_ops (StVehicleID e) = Some st \<and> reply_entry (Some api_pred) (\<lambda>_. timeZero) st e"
    by (auto simp: store filter_match_def split: if_splits)
  have "distinct (map StVehicleID es)" using es(2) by (simp add: strict_sorted_iff)
  with es(3) obtain e where e: "es = [e]" "StVehicleID e = ''b''"
    by (cases es; cases "tl es") (auto simp: image_iff)
  then have "reply_entry (Some api_pred) (\<lambda>_. timeZero) (zeroStatus\<lparr>StVehicleID := ''b'', StSite := ''paris''\<rparr>) e"
    using es(4) by (simp add: store)
  then have "ForecastedSoC e (forecastKey 1) = Some (3/4)"
    by (simp add: reply_entry_def api_pred_def mock_prediction_def Mock_ForecastSoC_def Let_def)
  with es(1) e show ?thesis by auto
qed

subsection \<open>KPIs in the reply\<close>

lemma kpi_path: "CHR ''/'' \<notin> set v \<Longrightarrow>
    Split (CHR ''/'') (TrimPrefix (''/api/vehicles/'' @ v @ ''/kpis'') ''/api/vehicles/'') = [v, ''kpis'']"
  by (simp add: TrimPrefix_def Split_append)

lemma kpi_sums:
  "(\<Sum>k\<leftarrow>map (kpi_row fd factor) recs. ko_CO2Avoided k) = (\<Sum>k\<leftarrow>map (kpi_row fd factor) recs. ko_InjectedKWh k) * factor"
  "(\<Sum>k\<leftarrow>map (kpi_row fd factor) recs. ko_InjectedKWh k) = (\<Sum>x\<leftarrow>recs. InjectedKWh x)"
  for factor :: real
  by (induction recs) (simp_all add: kpi_row_def CO2Avoided_def algebra_simps)

lemma empty_stores:
  "memory_ok Memory_New" "sqlite_ok Sqlite_New" "memory_kpi Memory_New = (\<lambda>v d. None)" "sqlite_kpi Sqlite_New = (\<lambda>v d. None)"
  by (auto simp: memory_ok_def Memory_New_def memory_kpi_def fun_eq_iff sqlite_ok_def Sqlite_New_def sqlite_kpi_def)

text \<open>
  C35. The KPI handler accounts for every kilowatt hour: on a GET for a vehicle it answers with one row
  per day, in the order of the days, whose injected energies add up to those of all records that were
  added for the vehicle from the day of \<open>start\<close> to the day of \<open>end\<close>, and whose avoided emissions are
  that sum times the factor. Without a valid \<open>start\<close> the account begins with the first record,
  without a valid \<open>end\<close> it ends today. The memory store and the database answer alike.
\<close>

theorem kpi_handler_conserves:
  assumes "range_and_sort days sortf" "CHR ''/'' \<notin> set v" "kr_method r = ''GET''"
    and "kr_path r = ''/api/vehicles/'' @ v @ ''/kpis''"
    and "start = (case parse (kr_start r) of Some t \<Rightarrow> t | None \<Rightarrow> timeZero)"
    and "end = (case parse (kr_end r) of Some t \<Rightarrow> if IsZero t then now else t | None \<Rightarrow> now)"
  shows "\<exists>recs out. out = map (kpi_row formatDate factor) recs \<and> by_date recs \<and>
    NewKPIHandler errText parse formatDate now
      (\<lambda>i a b. Inr (Memory_Query days sortf i a b (foldl (\<lambda>s x. Memory_Add x s) Memory_New rs))) factor r = HttpOk out \<and>
    NewKPIHandler errText parse formatDate now
      (\<lambda>i a b. Sqlite_Query None i a b (foldl (\<lambda>s x. fst (Sqlite_Add None x s)) Sqlite_New rs)) factor r = HttpOk out \<and>
    (\<Sum>k\<leftarrow>out. ko_InjectedKWh k) =
      (\<Sum>x\<leftarrow>filter (counts_for v (inst (Day start)) (inst (Day end))) rs. InjectedKWh x) \<and>
    (\<Sum>k\<leftarrow>out. ko_CO2Avoided k) = (\<Sum>k\<leftarrow>out. ko_InjectedKWh k) * factor"
proof -
  note mem = range_and_sort.axioms_memory [OF assms(1)]
  let ?db = "foldl (\<lambda>s x. fst (Sqlite_Add None x s)) Sqlite_New rs"
  let ?mem = "foldl (\<lambda>s x. Memory_Add x s) Memory_New rs"
  let ?recs = "Memory_Query days sortf v start end ?mem"
  have ok: "memory_ok ?mem" "sqlite_ok ?db" "memory_kpi ?mem = sqlite_kpi ?db"
    using eco_store.add_all_ok [OF mem, OF empty_stores(1), of rs] sqlite.add_all_ok [OF empty_stores(2), of rs]
    by (simp_all add: eco_store.add_all_def [OF mem] sqlite.add_all_def empty_stores)
  have "Sqlite_Query None v start end ?db = Inr ?recs"
    using stores_agree [OF mem sqlite.eco_store_axioms, OF ok] by (simp add: Sqlite_Query_def)
  moreover have "(\<Sum>x\<leftarrow>?recs. InjectedKWh x) =
      (\<Sum>x\<leftarrow>filter (counts_for v (inst (Day start)) (inst (Day end))) rs. InjectedKWh x)"
    using eco_store.query_add_all [OF mem, OF empty_stores(1), of v start "end" rs]
      eco_store.query_injected(2) [OF mem, OF empty_stores(1), of v start "end"]
    by (simp add: eco_store.add_all_def [OF mem] empty_stores kpi_injected_def kpi_days_def)
  moreover have "by_date ?recs" by (rule eco_store.query_sorted [OF mem, OF ok(1)])
  moreover have "NewKPIHandler errText parse formatDate now query factor r =
      (case query v start end of Inl e \<Rightarrow> HttpError 500 (errText e) | Inr recs \<Rightarrow> HttpOk (map (kpi_row formatDate factor) recs))"
    for query
    using assms(2-6) kpi_path [OF assms(2)]
    by (auto simp: NewKPIHandler_def Let_def IsZero_def timeZero_def split: option.split)
  ultimately show ?thesis by (intro exI [of _ ?recs]) (simp add: kpi_sums del: map_map)
qed

definition api_records :: "real Record list" where
  "api_records = [\<lparr>RecVehicleID = ''v'', RecDate = timeZero, InjectedKWh = 2, ConsumedKWh = 0\<rparr>,
     \<lparr>RecVehicleID = ''w'', RecDate = timeZero, InjectedKWh = 5, ConsumedKWh = 0\<rparr>,
     \<lparr>RecVehicleID = ''v'', RecDate = timeAdd timeZero Hour, InjectedKWh = 1, ConsumedKWh = 0\<rparr>]"

theorem kpi_handler_conserves_witness:
  "\<exists>out. NewKPIHandler (\<lambda>_. []) (\<lambda>_. None) (\<lambda>_. []) (timeAdd timeZero Hour)
     (\<lambda>i a b. Sqlite_Query None i a b (foldl (\<lambda>s x. fst (Sqlite_Add None x s)) Sqlite_New api_records)) 10
     \<lparr>kr_method = ''GET'', kr_path = ''/api/vehicles/v/kpis'', kr_start = [], kr_end = []\<rparr> = HttpOk out \<and>
     (\<Sum>k\<leftarrow>out. ko_InjectedKWh k) = 3 \<and> (\<Sum>k\<leftarrow>out. ko_CO2Avoided k) = 30"
proof -
  let ?r = "\<lparr>kr_method = ''GET'', kr_path = ''/api/vehicles/v/kpis'', kr_start = [], kr_end = []\<rparr>"
  have "Day (timeAdd timeZero Hour) = Day timeZero" by code_simp
  then have days: "filter (counts_for ''v'' (inst (Day timeZero)) (inst (Day (timeAdd timeZero Hour)))) api_records =
      [\<lparr>RecVehicleID = ''v'', RecDate = timeZero, InjectedKWh = 2, ConsumedKWh = 0\<rparr>,
       \<lparr>RecVehicleID = ''v'', RecDate = timeAdd timeZero Hour, InjectedKWh = 1, ConsumedKWh = 0\<rparr>]"
    by (simp add: api_records_def counts_for_def)
  show ?thesis
    using kpi_handler_conserves [OF any_order.range_and_sort_axioms, of "''v''" ?r timeZero "\<lambda>_. None"
        "timeAdd timeZero Hour" "timeAdd timeZero Hour" "\<lambda>_. []" 10 "\<lambda>_. []" api_records, unfolded days]
    by auto
qed

end
