(* ===== verification/Spec2Isabelle.thy ===== *)
theory Spec2Isabelle
  imports Equal_Float Fallback_Float Fleet_Telemetry Logging Metrics_Registry Monitoring Plan_Export Rotating_Log Scenarios Vehicle_Api
begin

text \<open>
  \<^bold>\<open>A verification of the v2g dispatch service.\<close>

  The repository dispatches flexibility signals of the grid operator (FCR, aFRR, NEBEF, mFRR and
  others) to a fleet of electric vehicles over MQTT, and simulates such vehicles. A signal asks for a
  power over a duration. The manager discovers the fleet, filters and predicts it, lets a dispatcher
  divide the power, sends one order per vehicle, waits for the acknowledgments, hands the power of
  the vehicles that failed to a fallback, and records what happened in metrics, logs, vehicle
  statuses and KPI stores; a tuner adjusts the dispatcher from the history.

  \<^bold>\<open>Conventions.\<close>
  \<^item> Kilowatts are of a number type \<open>'n\<close> with the operations that the code uses and no laws. The
    definitions thus read the same over \<^typ>\<open>real\<close> and over the binary64 of \<open>Go_Float64\<close>. Theorems
    without a sort constraint hold for both; those about sums, limits and convergence are at
    \<^typ>\<open>real\<close>; what rounding changes is shown in \<open>Fallback_Float\<close> and \<open>Equal_Float\<close>.
  \<^item> Times and durations are nanoseconds as integers; \<open>Go_Time\<close> has the wrap-around of \<open>int64\<close>
    where the code can reach it.
  \<^item> \<^term>\<open>None\<close> as the result of an operation stands for a panic or a call that does not return.
    Errors that the code returns are values of \<open>go_error\<close>.
  \<^item> Loops that need not end are \<open>partial_function (option)\<close>; that they return is a theorem of its
    own. There is no fuel.
  \<^item> Go ranges over maps in any order: the order is an argument of the definition, and the
    theorems quantify over it. Goroutines are sequences of atomic actions, and their interleaving is
    an argument as well.
  \<^item> Code outside the repository is an argument too: the simplex solver of gonum, \<open>exp\<close>, the Paho
    client, JSON, random numbers, the clock, the sort of equal elements.

  \<^bold>\<open>Foundations.\<close>
  \<^item> \<open>V2G_Prelude\<close>: numbers, maps read with a default, sums over maps, list lemmas.
  \<^item> \<open>Go_Time\<close>: \<open>time.Time\<close> and \<open>time.Duration\<close>. \<open>Go_Float64\<close>: binary64 rounding.
  \<^item> \<open>Core_Model\<close>: \<open>core/model\<close>, vehicles with \<open>CanProvidePower\<close> and \<open>EffectiveCapacity\<close>, signals.

  \<^bold>\<open>Dispatching\<close> (\<open>core/dispatch\<close>).
  \<^item> \<open>Dispatch_Helpers\<close>: \<open>context.go\<close>, \<open>filter.go\<close>, \<open>helpers.go\<close>.
  \<^item> \<open>Equal_Dispatcher\<close>: \<open>dispatcher.go\<close>. The water-filling loop meets the target or the capacity of
    the fleet, keeps every limit and is max-min fair. \<open>Equal_Float\<close>: at binary64 the limits hold up to one unit in the
    last place, which is reached.
  \<^item> \<open>Smart_Dispatcher\<close>: \<open>smart_dispatcher.go\<close>. Scores, the state of charge filter and the weighted
    rounds: limits, the energy floor (which holds for negative requests only), geometric convergence of the
    shortfall, termination.
  \<^item> \<open>LP_Dispatcher\<close>: \<open>lp_dispatcher.go\<close>, with the solver as argument: a strict success meets the
    target, limits hold for every answer of the solver, and the program as posed can be rejected
    at its optimum.
  \<^item> \<open>Segmented_Dispatcher\<close>: \<open>segmented_dispatcher.go\<close>: a segment gets what its dispatcher would
    give it alone, in whatever order segments are visited.
  \<^item> \<open>Fallback\<close>, \<open>Fallback_Float\<close>: \<open>balanced_fallback.go\<close>, \<open>probabilistic_fallback.go\<close>: what a
    reallocation keeps after any number of passes of the allocation loop, and how fast the residual shrinks;
    at binary64, exactly when the loop returns, and that it can hang.
  \<^item> \<open>Ack_Tuner\<close>: \<open>ack_tuner.go\<close>, \<open>tuner.go\<close>.
  \<^item> \<open>Dispatch_Manager\<close>: \<open>manager.go\<close>. The result of a dispatch for every interleaving of its
    goroutines, and the independence of it. \<open>Manager_Correctness\<close> composes the manager with the
    theorems of the dispatchers, the bus and the fallback: it returns, its orders keep the limits
    of the fleet, and a failing LP strategy falls back.
  \<^item> \<open>Log_Store\<close>: \<open>logging/*.go\<close> and \<open>api/dispatch/logs.go\<close>: the round trip of the JSON lines
    store, its agreement with SQLite, and the query of the HTTP handler. \<open>Rotating_Log\<close>: the opening of the
    stores, and the rotating store over a directory: a query reads the current file and no rotated one.
  \<^item> \<open>Logging\<close>: \<open>core/logger\<close>, \<open>infra/logger\<close> and the lines of the smart dispatcher, which name the vehicles it
    selected and turned away, with the powers it assigned.

  \<^bold>\<open>Around the dispatch.\<close>
  \<^item> \<open>Event_Bus\<close>: \<open>internal/eventbus\<close>: the untyped and the typed bus behind one locale; no panic, and
    delivery in order.
  \<^item> \<open>Scheduler\<close>: \<open>core/scheduler\<close>: the day-ahead plan. \<open>Plan_Export\<close>: its configuration and
    \<open>pkg/export\<close>: a CSV reader gets back from the exported text what was exported.
  \<^item> \<open>Vehicle_Status\<close>: \<open>core/vehiclestatus\<close>. \<open>Eco_KPI\<close>: \<open>core/metrics/eco\<close>, \<open>infra/kpi\<close>,
    \<open>infra/metrics/eco.go\<close>, \<open>jobs/ecokpi\<close>: the memory and SQLite stores refine one contract, and
    backfilling a history equals recording it live. \<open>Vehicle_Api\<close>: \<open>api/vehicles\<close> over these stores,
    and the mock of \<open>core/prediction\<close>: what the handlers answer.
  \<^item> \<open>Mqtt_Client\<close>: \<open>infra/mqtt\<close>: orders with retries, acknowledgments, discovery.
    \<open>Mqtt_Connection\<close>: the options and certificates with which its clients connect.
  \<^item> \<open>Metrics_Sinks\<close>: \<open>infra/metrics\<close> and \<open>core/metrics\<close>: the Prometheus and InfluxDB sinks, the fan-out
    and its order of errors, the event collector. \<open>Metrics_Correctness\<close> follows one dispatch through
    the manager, the bus and the collector to the counters of Prometheus, which count it twice.
  \<^item> \<open>Telemetry\<close>: \<open>infra/telemetry\<close>: pushed states, and the accounting of a poll for every
    interleaving of its loop with the callback that receives responses.
  \<^item> \<open>Simulator\<close>, \<open>Sim_Fleet\<close>: \<open>simulator\<close>: battery and vehicle as a state machine, and the fleet from
    its flags and files to the running vehicles, whose invariant holds from the validated start.
    \<open>Sim_Run\<close>: the goroutines and callbacks of a vehicle as a step relation: when a vehicle panics, that
    its shutdown completes, and what a reconnection forgets.

  \<^bold>\<open>The service.\<close>
  \<^item> \<open>Configuration\<close>: \<open>config\<close>: every section with its defaults and validation, and \<open>Load\<close>.
  \<^item> \<open>Rte_Signals\<close>: \<open>rte\<close>: the payload of the grid operator, the mock server and the generator, which
    drive the manager: what they accept and emit, and when the generator panics.
  \<^item> \<open>Service\<close>: \<open>app/service.go\<close>: the wiring of all of it. From a configuration that \<open>Load\<close> accepts
    the service handles every sequence of signals, and what it delivers is the specification of the
    equal dispatcher on the discovered fleet.
  \<^item> \<open>Commands\<close>: \<open>cmd\<close>: the service with its flags, the test dispatch and the list of the fleet, over
    the connections of \<open>Mqtt_Connection\<close>.
  \<^item> \<open>End_To_End\<close>: the service and the simulated vehicles behind one broker: a request for power is
    discovered, divided, ordered and carried out, in exactly the power that was asked for; an order counts as
    acknowledged exactly when the acknowledgment comes after its registration and before the timeout, and
    an acknowledgment alone does not say that an order was taken. \<open>Fleet_Telemetry\<close>: what the telemetry
    manager records of these vehicles, which answer no poll.
  \<^item> \<open>Metrics_Registry\<close>: the registration of the collectors of every package: however many sinks and
    servers a process makes, they share what the registry exports, beside the collectors that Prometheus itself
    has registered there. \<open>Monitoring\<close>: \<open>core/monitoring\<close> and
    \<open>infra/monitoring\<close>, with the lifecycle of the HTTP servers and the polling client.
  \<^item> \<open>Scenarios\<close>: \<open>qa/scenarios\<close>: the scenario runner over the mock publisher, with the removal of vehicles
    in the array that it ranges over; it counts what the scenario describes, as a scenario of the repository shows.

  \<^bold>\<open>Interfaces.\<close> The contracts between components are locales, each interpreted on the definitions of the
  component that provides it: \<open>vehicle_filter\<close> and \<open>dispatcher\<close> (the equal and the smart dispatcher),
  \<open>event_bus\<close> (both buses), \<open>eco_store\<close> (memory and SQLite), \<open>recorder\<close> (the metrics sinks) and \<open>logger\<close> (both adapters).

  \<^bold>\<open>Not modelled.\<close> The sockets of the HTTP servers, the broker, Sentry, Prometheus, InfluxDB, the database
  and the file system, whose outcomes are arguments; the decoding of JSON and YAML; the text that \<open>fmt\<close> makes of
  a log line, and the lines of the components other than the smart dispatcher; the helpers of the integration
  tests (\<open>test/util\<close>).
\<close>

end
